(* ===== verification/JsPrelude.thy ===== *)
theory JsPrelude
  imports Complex_Main "HOL-Library.AList" "HOL-Library.Char_ord" "HOL-Library.List_Lexorder"
    "HOL-Library.Product_Lexorder" "HOL-Library.Monad_Syntax"
begin

text \<open>
  Shared vocabulary of the development: JavaScript values as the code reads them from JSON files
  and session entries, the string operations of the standard library that the extensions use,
  process liveness, results with errors, and two contracts (\<open>event_machine\<close> and
  \<open>ranked_machine\<close>) that every stateful component instantiates.

  A JavaScript string is a list of code units. The model's \<open>string\<close> holds code units below 256,
  so \<open>length\<close> is JavaScript's \<open>length\<close>, and \<open>utf8_length\<close> counts two bytes for the units
  above 127. A number is an exact rational, an infinity or NaN: \<open>JSON.parse\<close> yields an infinity
  for \<open>1e999\<close>, which is why the code tests \<open>Number.isFinite\<close>; rounding of sums above
  \<open>2 ^ 53\<close> is not modelled.
\<close>

named_theorems js_simps \<open>equations of the JavaScript primitives\<close>
named_theorems step_simps \<open>definitions of the operations of the components\<close>
named_theorems inv_intros \<open>preservation facts of the component invariants\<close>

section \<open>JavaScript values\<close>

datatype jnum = Fin rat | PosInf | NegInf | NaN

datatype json =
    JNull
  | JBool bool
  | JNum jnum
  | JStr string
  | JArr "json list"
  | JObj "(string \<times> json) list"

text \<open>A value that may be \<open>undefined\<close>: \<open>None\<close> is \<open>undefined\<close>.\<close>

type_synonym jsval = "json option"

text \<open>\<open>typeof value === "object" && value !== null && !Array.isArray(value)\<close>.\<close>

fun isRecord :: "jsval \<Rightarrow> bool" where
  "isRecord (Some (JObj _)) = True"
| "isRecord _ = False"

text \<open>A property read \<open>value.key\<close>; objects come from \<open>JSON.parse\<close> or literals.\<close>

fun get :: "jsval \<Rightarrow> string \<Rightarrow> jsval" where
  "get (Some (JObj kvs)) k = map_of kvs k"
| "get _ _ = None"

fun asStr :: "jsval \<Rightarrow> string option" where
  "asStr (Some (JStr s)) = Some s"
| "asStr _ = None"

fun asArr :: "jsval \<Rightarrow> json list option" where
  "asArr (Some (JArr xs)) = Some xs"
| "asArr _ = None"

fun isBool :: "jsval \<Rightarrow> bool" where
  "isBool (Some (JBool _)) = True"
| "isBool _ = False"

text \<open>\<open>typeof v === "number" && Number.isFinite(v)\<close>, with the number it then has.\<close>

fun finiteNum :: "jsval \<Rightarrow> rat option" where
  "finiteNum (Some (JNum (Fin r))) = Some r"
| "finiteNum _ = None"

text \<open>\<open>Number.isInteger(v)\<close>, with the integer it then has.\<close>

fun intNum :: "jsval \<Rightarrow> int option" where
  "intNum (Some (JNum (Fin r))) = (if of_int \<lfloor>r\<rfloor> = r then Some \<lfloor>r\<rfloor> else None)"
| "intNum _ = None"

text \<open>\<open>v === true\<close>, \<open>v === n\<close> and \<open>v === "s"\<close>.\<close>

abbreviation jTrue :: "jsval \<Rightarrow> bool" where
  "jTrue v \<equiv> v = Some (JBool True)"

abbreviation jIs :: "jsval \<Rightarrow> rat \<Rightarrow> bool" where
  "jIs v n \<equiv> v = Some (JNum (Fin n))"

abbreviation jIsStr :: "jsval \<Rightarrow> string \<Rightarrow> bool" where
  "jIsStr v s \<equiv> v = Some (JStr s)"

lemma asStr_Some [simp, js_simps]: "asStr v = Some s \<longleftrightarrow> v = Some (JStr s)"
  by (cases v rule: asStr.cases) auto

lemma asArr_Some [simp, js_simps]: "asArr v = Some xs \<longleftrightarrow> v = Some (JArr xs)"
  by (cases v rule: asArr.cases) auto

lemma finiteNum_Some [simp, js_simps]: "finiteNum v = Some r \<longleftrightarrow> v = Some (JNum (Fin r))"
  by (cases v rule: finiteNum.cases) auto

lemma intNum_Some [simp, js_simps]: "intNum v = Some i \<longleftrightarrow> v = Some (JNum (Fin (of_int i)))"
  by (cases v rule: intNum.cases) auto

lemma isRecord_iff [js_simps]: "isRecord v \<longleftrightarrow> (\<exists>kvs. v = Some (JObj kvs))"
  by (cases v rule: isRecord.cases) auto

lemma isBool_iff [js_simps]: "isBool v \<longleftrightarrow> (\<exists>b. v = Some (JBool b))"
  by (cases v rule: isBool.cases) auto

text \<open>
  An object literal as \<open>JSON.stringify\<close> writes it: a property whose value is \<open>undefined\<close> is
  dropped.
\<close>

definition obj :: "(string \<times> jsval) list \<Rightarrow> json" where
  "obj fs = JObj (List.map_filter (\<lambda>(k, v). map_option (Pair k) v) fs)"

definition lookup_field :: "(string \<times> jsval) list \<Rightarrow> string \<Rightarrow> jsval" where
  "lookup_field fs k = (case map_of fs k of None \<Rightarrow> None | Some v \<Rightarrow> v)"

lemma get_obj: "distinct (map fst fs) \<Longrightarrow> get (Some (obj fs)) k = lookup_field fs k"
proof (induction fs)
  case (Cons f fs)
  obtain k' v where f: "f = (k', v)" by force
  have "map_of (List.map_filter (\<lambda>(k, v). map_option (Pair k) v) fs) k' = None"
    using Cons.prems by (force simp: f map_of_eq_None_iff List.map_filter_def)
  with Cons show ?case
    by (cases v) (auto simp: f obj_def lookup_field_def List.map_filter_simps)
qed (simp add: obj_def lookup_field_def List.map_filter_simps)

lemma isRecord_obj [simp]: "isRecord (Some (obj fs))"
  by (simp add: obj_def)

lemma lookup_field_Cons: "lookup_field ((k', v) # fs) k = (if k = k' then v else lookup_field fs k)"
  by (simp add: lookup_field_def)

text \<open>Guards of a parser.\<close>

definition require :: "bool \<Rightarrow> unit option" where
  "require b = (if b then Some () else None)"

lemma require_Some [simp]: "require b = Some u \<longleftrightarrow> b"
  by (simp add: require_def)

lemma require_True [simp]: "require True = Some ()" and require_False [simp]: "require False = None"
  by (simp_all add: require_def)

text \<open>\<open>typeof value === "string" && value.length > 0 && value.length <= max\<close>.\<close>

definition boundedString :: "jsval \<Rightarrow> nat \<Rightarrow> string option" where
  "boundedString v mx =
     (case asStr v of
        None \<Rightarrow> None
      | Some s \<Rightarrow> if 0 < length s \<and> length s \<le> mx then Some s else None)"

lemma boundedString_Some [simp]:
  "boundedString v mx = Some s \<longleftrightarrow> v = Some (JStr s) \<and> s \<noteq> [] \<and> length s \<le> mx"
  by (auto simp: boundedString_def split: option.splits)

lemma boundedString_undefined [simp]: "boundedString None mx = None"
  by (simp add: boundedString_def)

lemma boundedString_opt [simp]:
  "boundedString (map_option JStr (boundedString v mx)) mx = boundedString v mx"
  by (auto simp: boundedString_def split: option.splits)

section \<open>Strings\<close>

text \<open>The white space of \<open>trim\<close> and of \<open>\s\<close>, among the code units of the model.\<close>

definition is_ws :: "char \<Rightarrow> bool" where
  "is_ws c = (let n = (of_char c :: nat) in (9 \<le> n \<and> n \<le> 13) \<or> n = 32 \<or> n = 160)"

definition js_trim :: "string \<Rightarrow> string" where
  "js_trim s = rev (dropWhile is_ws (rev (dropWhile is_ws s)))"

text \<open>\<open>s.replace(/\s+/g, " ")\<close>.\<close>

fun collapse_from :: "bool \<Rightarrow> string \<Rightarrow> string" where
  "collapse_from in_run [] = []"
| "collapse_from in_run (c # cs) =
     (if is_ws c then (if in_run then collapse_from True cs else CHR '' '' # collapse_from True cs)
      else c # collapse_from False cs)"

definition collapse_ws :: "string \<Rightarrow> string" where
  "collapse_ws s = collapse_from False s"

definition is_digit :: "char \<Rightarrow> bool" where
  "is_digit c = (let n = (of_char c :: nat) in 48 \<le> n \<and> n \<le> 57)"

definition is_lower_hex :: "char \<Rightarrow> bool" where
  "is_lower_hex c = (let n = (of_char c :: nat) in (48 \<le> n \<and> n \<le> 57) \<or> (97 \<le> n \<and> n \<le> 102))"

definition is_any_hex :: "char \<Rightarrow> bool" where
  "is_any_hex c = (let n = (of_char c :: nat) in is_lower_hex c \<or> (65 \<le> n \<and> n \<le> 70))"

definition is_alnum :: "char \<Rightarrow> bool" where
  "is_alnum c = (let n = (of_char c :: nat) in
     (48 \<le> n \<and> n \<le> 57) \<or> (65 \<le> n \<and> n \<le> 90) \<or> (97 \<le> n \<and> n \<le> 122))"

text \<open>\<open>Buffer.byteLength(s, "utf8")\<close>.\<close>

definition utf8_length :: "string \<Rightarrow> nat" where
  "utf8_length s = sum_list (map (\<lambda>c. if (of_char c :: nat) < 128 then 1 else 2) s)"

lemma utf8_length_ge: "length s \<le> utf8_length s"
  by (induction s) (auto simp: utf8_length_def)

lemma dropWhile_ws_hd: "dropWhile is_ws s = [] \<or> \<not> is_ws (hd (dropWhile is_ws s))"
  by (induction s) auto

lemma js_trim_no_ws: "\<forall>c \<in> set s. \<not> is_ws c \<Longrightarrow> js_trim s = s"
  by (simp add: js_trim_def dropWhile_eq_self_iff) (metis dropWhile_eq_self_iff hd_in_set hd_rev
    last_in_set list.set_sel(1) rev_is_Nil_conv rev_rev_ident set_rev)

lemma js_trim_subset: "set (js_trim s) \<subseteq> set s"
  unfolding js_trim_def by (auto dest!: set_dropWhileD)

lemma length_js_trim: "length (js_trim s) \<le> length s"
proof -
  have "length (rev (dropWhile is_ws (rev (dropWhile is_ws s)))) \<le> length (dropWhile is_ws s)"
    using length_dropWhile_le [of is_ws "rev (dropWhile is_ws s)"] by simp
  also have "\<dots> \<le> length s" by (rule length_dropWhile_le)
  finally show ?thesis by (simp add: js_trim_def)
qed

lemma dropWhile_self: "s = [] \<or> \<not> P (hd s) \<Longrightarrow> dropWhile P s = s"
  by (cases s) auto

lemma js_trim_fixed: "s \<noteq> [] \<Longrightarrow> \<not> is_ws (hd s) \<Longrightarrow> \<not> is_ws (last s) \<Longrightarrow> js_trim s = s"
  by (simp add: js_trim_def dropWhile_self hd_rev)

lemma js_trim_ends:
  assumes "js_trim s \<noteq> []"
  shows "\<not> is_ws (hd (js_trim s)) \<and> \<not> is_ws (last (js_trim s))"
proof -
  define t where "t = dropWhile is_ws s"
  define u where "u = dropWhile is_ws (rev t)"
  have js: "js_trim s = rev u" by (simp add: js_trim_def t_def u_def)
  then have "u \<noteq> []" using assms by simp
  then have "\<not> is_ws (hd u)" using dropWhile_ws_hd [of "rev t"] by (auto simp: u_def)
  moreover have "rev t = takeWhile is_ws (rev t) @ u" by (simp add: u_def)
  then have "t = rev u @ rev (takeWhile is_ws (rev t))" by (metis rev_append rev_rev_ident)
  then have "hd t = hd (rev u)" using \<open>u \<noteq> []\<close> by (metis hd_append2 rev_is_Nil_conv)
  moreover have "t \<noteq> []" using \<open>u \<noteq> []\<close> by (auto simp: u_def)
  then have "\<not> is_ws (hd t)" using dropWhile_ws_hd [of s] unfolding t_def by blast
  ultimately show ?thesis using \<open>u \<noteq> []\<close> by (simp add: js last_rev)
qed

lemma js_trim_idem [simp]: "js_trim (js_trim s) = js_trim s"
proof (cases "js_trim s = []")
  case True
  then show ?thesis by (simp only: True) (simp add: js_trim_def)
next
  case False
  then show ?thesis using js_trim_fixed js_trim_ends by blast
qed

text \<open>Objects that are written and read back.\<close>

lemma get_obj_Cons:
  "k' \<notin> fst ` set fs \<Longrightarrow> get (Some (obj ((k', v) # fs))) k = (if k = k' then v else get (Some (obj fs)) k)"
proof -
  assume "k' \<notin> fst ` set fs"
  then have "map_of (List.map_filter (\<lambda>(k, v). map_option (Pair k) v) fs) k' = None"
    by (force simp: map_of_eq_None_iff List.map_filter_def)
  then show ?thesis by (cases v) (auto simp: obj_def List.map_filter_simps)
qed

lemma get_obj_Nil: "get (Some (obj [])) k = None"
  by (simp add: obj_def List.map_filter_simps)

section \<open>Processes\<close>

text \<open>The outcome of \<open>process.kill(pid, 0)\<close>, which only the operating system knows.\<close>

datatype kill_result = KillOk | KillEPERM | KillOther

type_synonym procs = "int \<Rightarrow> kill_result"

definition isProcessAlive :: "procs \<Rightarrow> int \<Rightarrow> bool" where
  "isProcessAlive kill pid =
     (if pid \<le> 0 then False
      else case kill pid of KillOk \<Rightarrow> True | KillEPERM \<Rightarrow> True | KillOther \<Rightarrow> False)"

lemma isProcessAlive_pos: "isProcessAlive kill pid \<Longrightarrow> 0 < pid"
  by (auto simp: isProcessAlive_def split: if_splits)

section \<open>Results with errors\<close>

fun bind_r :: "'e + 'a \<Rightarrow> ('a \<Rightarrow> 'e + 'b) \<Rightarrow> 'e + 'b" where
  "bind_r (Inl e) f = Inl e"
| "bind_r (Inr a) f = f a"

lemma bind_r_Inr [simp]: "bind_r m f = Inr b \<longleftrightarrow> (\<exists>a. m = Inr a \<and> f a = Inr b)"
  by (cases m) auto

section \<open>Lists, options and association lists\<close>

lemma find_Some_in: "List.find P xs = Some x \<Longrightarrow> x \<in> set xs \<and> P x"
  by (induction xs) (auto split: if_splits)

lemma find_None_iff': "List.find P xs = None \<longleftrightarrow> (\<forall>x \<in> set xs. \<not> P x)"
  by (auto simp: find_None_iff)

lemma length_filter_less_if_dropped:
  "x \<in> set xs \<Longrightarrow> \<not> P x \<Longrightarrow> length (filter P xs) < length xs"
  by (rule length_filter_less)

lemma filter_length_eq_iff: "length (filter P xs) = length xs \<longleftrightarrow> filter P xs = xs"
proof
  assume "length (filter P xs) = length xs"
  then have "\<forall>x \<in> set xs. P x"
    by (metis length_filter_less less_irrefl)
  then show "filter P xs = xs" by simp
qed simp

lemma filter_length_mono:
  "(\<And>x. x \<in> set xs \<Longrightarrow> P x \<Longrightarrow> Q x) \<Longrightarrow> length (filter P xs) \<le> length (filter Q xs)"
  by (induction xs) auto

lemma length_filter_filter_le: "length (filter P (filter Q xs)) \<le> length (filter P xs)"
  by (induction xs) auto

lemma distinct_map_filter': "distinct (map f xs) \<Longrightarrow> distinct (map f (filter P xs))"
  by (rule distinct_map_filter)

lemma int_length_remove1:
  "x \<in> set xs \<Longrightarrow> int (length (remove1 x xs)) = int (length xs) - 1"
  by (induction xs) auto

text \<open>Mutating the first element that \<open>find\<close> returns.\<close>

fun update_first :: "('a \<Rightarrow> bool) \<Rightarrow> ('a \<Rightarrow> 'a) \<Rightarrow> 'a list \<Rightarrow> 'a list" where
  "update_first P f [] = []"
| "update_first P f (x # xs) = (if P x then f x # xs else x # update_first P f xs)"

lemma length_update_first [simp]: "length (update_first P f xs) = length xs"
  by (induction xs) auto

lemma map_update_first: "(\<And>x. P x \<Longrightarrow> g (f x) = g x) \<Longrightarrow> map g (update_first P f xs) = map g xs"
  by (induction xs) auto

lemma update_first_pred:
  "x \<in> set (update_first P f xs) \<Longrightarrow> x \<in> set xs \<or> (\<exists>y \<in> set xs. P y \<and> x = f y)"
  by (induction xs) (auto split: if_splits)

lemma update_first_in: "List.find P xs = Some x \<Longrightarrow> f x \<in> set (update_first P f xs)"
  by (induction xs) (auto split: if_splits)

section \<open>Contracts of stateful components\<close>

text \<open>
  A component reacts to events; \<open>ok\<close> says which events the environment may send. What every
  step keeps holds after every run.
\<close>

locale event_machine =
  fixes step :: "'e \<Rightarrow> 's \<Rightarrow> 's"
    and ok :: "'e \<Rightarrow> bool"
    and inv :: "'s \<Rightarrow> bool"
  assumes step_inv: "ok e \<Longrightarrow> inv s \<Longrightarrow> inv (step e s)"
begin

lemma run_inv: "\<forall>e \<in> set es. ok e \<Longrightarrow> inv s \<Longrightarrow> inv (fold step es s)"
  by (induction es arbitrary: s) (auto intro: step_inv)

end

text \<open>A machine whose states carry a rank that no step lowers, under its invariant.\<close>

locale ranked_machine = event_machine step ok inv
  for step :: "'e \<Rightarrow> 's \<Rightarrow> 's" and ok :: "'e \<Rightarrow> bool" and inv :: "'s \<Rightarrow> bool" +
  fixes rank :: "'s \<Rightarrow> nat"
  assumes step_rank: "ok e \<Longrightarrow> inv s \<Longrightarrow> rank s \<le> rank (step e s)"
begin

lemma run_rank: "\<forall>e \<in> set es. ok e \<Longrightarrow> inv s \<Longrightarrow> rank s \<le> rank (fold step es s)"
proof (induction es arbitrary: s)
  case (Cons e es)
  then have "rank s \<le> rank (step e s)" by (auto intro: step_rank)
  also have "\<dots> \<le> rank (fold step es (step e s))"
    using Cons by (auto intro: step_inv)
  finally show ?case by simp
qed simp

end

end
