(* ===== verification/SubagentConfig.thy ===== *)
theory SubagentConfig
  imports JsPrelude
begin

text \<open>
  \<open>extensions/_shared/subagent-config.ts\<close>: the limits of the subagent runtime, read from
  environment variables. An ill-formed or out-of-range variable is reported and replaced by its
  default; the runtime refuses to spawn while any problem is reported.

  Reports are values of \<open>config_error\<close>, one constructor for each message of the code. The host
  (home directory, \<open>path.resolve\<close>, \<open>path.join\<close> and \<open>JSON.parse\<close>) is a parameter.
\<close>

datatype config_error =
    NotAnInteger string int int string
  | OutOfRange string int int string
  | ResourceLimitsNotJson
  | ResourceLimitsNotObject
  | InvalidResourceKey string
  | InvalidResourceLimit string
  | LeaseTooShort

record subagent_config =
  maxFanout :: int
  maxConcurrency :: int
  maxBackgroundJobs :: int
  maxDepth :: int
  depth :: int
  queueTimeoutMs :: int
  runTimeoutMs :: int
  termGraceMs :: int
  maxCaptureBytes :: int
  maxStderrBytes :: int
  maxEventBytes :: int
  maxTaskBytes :: int
  heartbeatMs :: int
  leaseMs :: int
  backgroundAgingMs :: int
  resourceLimits :: "(string \<times> int) list"
  stateDir :: string
  config_errors :: "config_error list"

type_synonym env = "string \<Rightarrow> string option"

record host =
  homedir :: string
  path_resolve :: "string \<Rightarrow> string"
  path_join :: "string list \<Rightarrow> string"
  json_parse :: "string \<Rightarrow> json option"

section \<open>Reading one variable\<close>

fun digits_value :: "nat \<Rightarrow> string \<Rightarrow> nat" where
  "digits_value acc [] = acc"
| "digits_value acc (c # cs) = digits_value (10 * acc + (of_char c - 48)) cs"

definition MAX_SAFE_INTEGER :: int where
  "MAX_SAFE_INTEGER = 9007199254740991"

text \<open>The errors are threaded, as the code pushes onto a shared array.\<close>

definition parseInteger ::
  "env \<Rightarrow> string \<Rightarrow> int \<Rightarrow> int \<Rightarrow> int \<Rightarrow> config_error list \<Rightarrow> int \<times> config_error list" where
  "parseInteger env name fallback mn mx errors =
     (case map_option js_trim (env name) of
        None \<Rightarrow> (fallback, errors)
      | Some raw \<Rightarrow>
          if raw = [] then (fallback, errors)
          else if \<not> list_all is_digit raw then (fallback, errors @ [NotAnInteger name mn mx raw])
          else let value = int (digits_value 0 raw) in
            if value > MAX_SAFE_INTEGER \<or> value < mn \<or> value > mx
            then (fallback, errors @ [OutOfRange name mn mx raw])
            else (value, errors))"

definition expandTilde :: "host \<Rightarrow> string \<Rightarrow> string" where
  "expandTilde h value =
     (if value = ''~'' then homedir h
      else if take 2 value = ''~/'' then path_join h [homedir h, drop 2 value]
      else value)"

text \<open>\<open>/^[A-Za-z0-9._:-]{1,100}$/\<close>.\<close>

definition is_resource_key :: "string \<Rightarrow> bool" where
  "is_resource_key k \<longleftrightarrow>
     1 \<le> length k \<and> length k \<le> 100 \<and> list_all (\<lambda>c. is_alnum c \<or> c \<in> set ''._:-'') k"

fun resourceLimitEntries ::
  "(string \<times> json) list \<Rightarrow> (string \<times> int) list \<Rightarrow> config_error list
     \<Rightarrow> (string \<times> int) list \<times> config_error list" where
  "resourceLimitEntries [] limits errors = (limits, errors)"
| "resourceLimitEntries ((key, limit) # rest) limits errors =
     (if \<not> is_resource_key key
      then resourceLimitEntries rest limits (errors @ [InvalidResourceKey key])
      else case intNum (Some limit) of
          None \<Rightarrow> resourceLimitEntries rest limits (errors @ [InvalidResourceLimit key])
        | Some n \<Rightarrow>
            if n < 1 \<or> n > 32
            then resourceLimitEntries rest limits (errors @ [InvalidResourceLimit key])
            else resourceLimitEntries rest (AList.update key n limits) errors)"

definition parseResourceLimits ::
  "host \<Rightarrow> env \<Rightarrow> config_error list \<Rightarrow> (string \<times> int) list \<times> config_error list" where
  "parseResourceLimits h env errors =
     (case map_option js_trim (env ''PI_SUBAGENT_RESOURCE_LIMITS'') of
        None \<Rightarrow> ([], errors)
      | Some raw \<Rightarrow>
          if raw = [] then ([], errors)
          else case json_parse h raw of
              None \<Rightarrow> ([], errors @ [ResourceLimitsNotJson])
            | Some (JObj kvs) \<Rightarrow> resourceLimitEntries kvs [] errors
            | Some _ \<Rightarrow> ([], errors @ [ResourceLimitsNotObject]))"

section \<open>The whole configuration\<close>

definition loadSubagentConfig :: "host \<Rightarrow> env \<Rightarrow> subagent_config" where
  "loadSubagentConfig h env =
     (let (fanout, e) = parseInteger env ''PI_SUBAGENT_MAX_FANOUT'' 16 1 64 [];
          (concurrency, e) = parseInteger env ''PI_SUBAGENT_MAX_CONCURRENCY'' 8 1 32 e;
          (background, e) = parseInteger env ''PI_SUBAGENT_MAX_BACKGROUND_JOBS'' 8 1 64 e;
          (mdepth, e) = parseInteger env ''PI_SUBAGENT_MAX_DEPTH'' 1 0 8 e;
          (dep, e) = parseInteger env ''PI_SUBAGENT_DEPTH'' 0 0 32 e;
          (queueT, e) = parseInteger env ''PI_SUBAGENT_QUEUE_TIMEOUT_MS'' 1800000 1000 86400000 e;
          (runT, e) = parseInteger env ''PI_SUBAGENT_RUN_TIMEOUT_MS'' 3600000 1000 86400000 e;
          (grace, e) = parseInteger env ''PI_SUBAGENT_TERM_GRACE_MS'' 5000 100 60000 e;
          (capture, e) = parseInteger env ''PI_SUBAGENT_MAX_CAPTURE_BYTES'' 1048576 65536 16777216 e;
          (stderrB, e) = parseInteger env ''PI_SUBAGENT_MAX_STDERR_BYTES'' 65536 4096 4194304 e;
          (eventB, e) = parseInteger env ''PI_SUBAGENT_MAX_EVENT_BYTES'' 4194304 65536 33554432 e;
          (taskB, e) = parseInteger env ''PI_SUBAGENT_MAX_TASK_BYTES'' 262144 4096 4194304 e;
          (heart, e) = parseInteger env ''PI_SUBAGENT_HEARTBEAT_MS'' 5000 1000 60000 e;
          (leaseT, e) = parseInteger env ''PI_SUBAGENT_LEASE_MS'' 60000 10000 600000 e;
          (aging, e) = parseInteger env ''PI_SUBAGENT_BACKGROUND_AGING_MS'' 60000 100 3600000 e;
          (limits, e) = parseResourceLimits h env e;
          e = (if leaseT < heart * 3 then e @ [LeaseTooShort] else e);
          configured = (case env ''PI_SUBAGENT_STATE_DIR'' of
              Some (c # cs) \<Rightarrow> Some (c # cs)
            | _ \<Rightarrow> env ''PI_SPAWN_SUBAGENT_DIR'');
          trimmed = (case map_option js_trim configured of
              Some (c # cs) \<Rightarrow> c # cs
            | _ \<Rightarrow> path_join h [homedir h, ''.pi'', ''agent'', ''spawn-subagent''])
      in \<lparr>maxFanout = fanout, maxConcurrency = concurrency, maxBackgroundJobs = background,
          maxDepth = mdepth, depth = dep, queueTimeoutMs = queueT, runTimeoutMs = runT,
          termGraceMs = grace, maxCaptureBytes = capture, maxStderrBytes = stderrB,
          maxEventBytes = eventB, maxTaskBytes = taskB, heartbeatMs = heart, leaseMs = leaseT,
          backgroundAgingMs = aging, resourceLimits = limits,
          stateDir = path_resolve h (expandTilde h trimmed), config_errors = e\<rparr>)"

definition canSpawnSubagent :: "subagent_config \<Rightarrow> bool" where
  "canSpawnSubagent config \<longleftrightarrow> config_errors config = [] \<and> depth config < maxDepth config"

section \<open>Facts\<close>

lemma parseInteger_bounds:
  assumes "mn \<le> fallback" and "fallback \<le> mx"
  shows "mn \<le> fst (parseInteger env name fallback mn mx e)"
    and "fst (parseInteger env name fallback mn mx e) \<le> mx"
  using assms by (auto simp: parseInteger_def Let_def split: option.splits)

lemma parseInteger_errors:
  "\<exists>new. snd (parseInteger env name fallback mn mx e) = e @ new \<and> length new \<le> 1"
  by (auto simp: parseInteger_def Let_def split: option.splits)

lemma parseInteger_no_error:
  assumes "env name = Some raw" and "snd (parseInteger env name fallback mn mx e) = e"
    and "js_trim raw \<noteq> []"
  shows "fst (parseInteger env name fallback mn mx e) = int (digits_value 0 (js_trim raw))"
  using assms by (auto simp: parseInteger_def Let_def split: if_splits)

lemma set_alist_update: "set (AList.update k v al) \<subseteq> insert (k, v) (set al)"
  by (induction al) auto

definition limits_ok :: "(string \<times> int) list \<Rightarrow> bool" where
  "limits_ok ls \<longleftrightarrow>
     distinct (map fst ls) \<and> (\<forall>(k, n) \<in> set ls. is_resource_key k \<and> 1 \<le> n \<and> n \<le> 32)"

lemma limits_ok_update:
  "limits_ok ls \<Longrightarrow> is_resource_key k \<Longrightarrow> 1 \<le> n \<Longrightarrow> n \<le> 32 \<Longrightarrow> limits_ok (AList.update k n ls)"
  unfolding limits_ok_def
  using set_alist_update [of k n ls] by (auto simp: distinct_update)

lemma resourceLimitEntries_ok:
  "limits_ok ls \<Longrightarrow> limits_ok (fst (resourceLimitEntries kvs ls e))"
  by (induction kvs ls e rule: resourceLimitEntries.induct)
    (auto simp: limits_ok_update split: option.splits)

lemma resourceLimitEntries_errors:
  "length e \<le> length (snd (resourceLimitEntries kvs ls e))"
  by (induction kvs ls e rule: resourceLimitEntries.induct)
    (auto split: option.splits dest: Suc_leD)

lemma parseResourceLimits_ok: "limits_ok (fst (parseResourceLimits h env e))"
  by (auto simp: parseResourceLimits_def limits_ok_def [of "[]"] resourceLimitEntries_ok
      split: option.splits json.splits intro!: resourceLimitEntries_ok)

section \<open>Every configuration the code can load is within its documented bounds\<close>

definition in_range :: "int \<Rightarrow> int \<Rightarrow> int \<Rightarrow> bool" where
  "in_range mn mx n \<longleftrightarrow> mn \<le> n \<and> n \<le> mx"

definition config_bounds :: "subagent_config \<Rightarrow> bool" where
  "config_bounds c \<longleftrightarrow>
     in_range 1 64 (maxFanout c) \<and> in_range 1 32 (maxConcurrency c) \<and>
     in_range 1 64 (maxBackgroundJobs c) \<and> in_range 0 8 (maxDepth c) \<and> in_range 0 32 (depth c) \<and>
     in_range 1000 86400000 (queueTimeoutMs c) \<and> in_range 1000 86400000 (runTimeoutMs c) \<and>
     in_range 100 60000 (termGraceMs c) \<and> in_range 65536 16777216 (maxCaptureBytes c) \<and>
     in_range 4096 4194304 (maxStderrBytes c) \<and> in_range 65536 33554432 (maxEventBytes c) \<and>
     in_range 4096 4194304 (maxTaskBytes c) \<and> in_range 1000 60000 (heartbeatMs c) \<and>
     in_range 10000 600000 (leaseMs c) \<and> in_range 100 3600000 (backgroundAgingMs c) \<and>
     limits_ok (resourceLimits c)"

lemma loadSubagentConfig_bounds: "config_bounds (loadSubagentConfig h env)"
  unfolding loadSubagentConfig_def config_bounds_def Let_def case_prod_unfold
  by (simp add: in_range_def parseInteger_bounds parseResourceLimits_ok)

text \<open>An accepted configuration keeps three heartbeats within one lease.\<close>

lemma loadSubagentConfig_lease:
  "config_errors (loadSubagentConfig h env) = [] \<Longrightarrow>
     3 * heartbeatMs (loadSubagentConfig h env) \<le> leaseMs (loadSubagentConfig h env)"
  unfolding loadSubagentConfig_def Let_def case_prod_unfold
  by (simp split: if_splits)

end
