(* ===== verification/Scheduler.thy ===== *)
theory Scheduler
  imports SubagentConfig
begin

text \<open>
  \<open>extensions/_shared/subagent-scheduler.ts\<close>: the host-wide scheduler that shares a bounded
  number of execution slots between Pi processes. Its state is one JSON file, changed only under
  an interprocess lock: every \<open>mutate\<close> here is one atomic step. \<open>Date.now()\<close>, fresh ids and
  process liveness are arguments.

  The items of a state file are read as the code reads them: the identifier, the priority and the
  resource key may be anything (\<open>raw_item\<close>), the other fields are typed. Resource limits are
  association lists of own properties. \<open>localeCompare\<close> on identifiers, which are UUIDs, is the
  order of code units.
\<close>

datatype priority = Foreground | Background

record waiter =
  w_id :: string
  w_ownerId :: string
  w_pid :: int
  w_requestedAt :: int
  w_heartbeatAt :: int
  w_label :: "string option"
  w_priority :: priority
  w_resourceKey :: "string option"

record lease =
  l_id :: string
  l_waiterId :: string
  l_ownerId :: string
  l_pid :: int
  l_acquiredAt :: int
  l_heartbeatAt :: int
  l_expiresAt :: int
  l_label :: "string option"
  l_priority :: priority
  l_resourceKey :: "string option"

record sched =
  s_limit :: int
  s_resourceLimits :: "(string \<times> int) list"
  s_waiters :: "waiter list"
  s_leases :: "lease list"

section \<open>Reading the state disk\<close>

record 'a raw_item =
  ri_id :: jsval
  ri_priority :: jsval
  ri_resourceKey :: jsval
  ri_item :: 'a

record raw_state =
  rs_limit :: jsval
  rs_resourceLimits :: jsval
  rs_waiters :: "waiter raw_item option list option"
  rs_leases :: "lease raw_item option list option"

definition emptyState :: "int \<Rightarrow> (string \<times> int) list \<Rightarrow> sched" where
  "emptyState limit limits =
     \<lparr>s_limit = limit, s_resourceLimits = limits, s_waiters = [], s_leases = []\<rparr>"

definition normalizePriority :: "jsval \<Rightarrow> priority" where
  "normalizePriority v = (if jIsStr v ''background'' then Background else Foreground)"

definition normalizeResourceKey :: "jsval \<Rightarrow> string option" where
  "normalizeResourceKey v =
     (case asStr v of
        None \<Rightarrow> None
      | Some s \<Rightarrow> let key = js_trim s in if is_resource_key key then Some key else None)"

fun limitEntries :: "(string \<times> json) list \<Rightarrow> (string \<times> int) list \<Rightarrow> (string \<times> int) list" where
  "limitEntries [] limits = limits"
| "limitEntries ((key, limit) # rest) limits =
     limitEntries rest
       (case intNum (Some limit) of
          Some n \<Rightarrow>
            if is_resource_key key \<and> 1 \<le> n \<and> n \<le> 32 then AList.update key n limits else limits
        | None \<Rightarrow> limits)"

fun normalizeResourceLimits :: "jsval \<Rightarrow> (string \<times> int) list" where
  "normalizeResourceLimits (Some (JObj kvs)) = limitEntries kvs []"
| "normalizeResourceLimits _ = []"

fun normalizeWaiter :: "waiter raw_item option \<Rightarrow> waiter option" where
  "normalizeWaiter None = None"
| "normalizeWaiter (Some r) =
     (case asStr (ri_id r) of
        None \<Rightarrow> None
      | Some i \<Rightarrow> Some ((ri_item r)\<lparr>w_id := i, w_priority := normalizePriority (ri_priority r),
                     w_resourceKey := normalizeResourceKey (ri_resourceKey r)\<rparr>))"

fun normalizeLease :: "lease raw_item option \<Rightarrow> lease option" where
  "normalizeLease None = None"
| "normalizeLease (Some r) =
     (case asStr (ri_id r) of
        None \<Rightarrow> None
      | Some i \<Rightarrow> Some ((ri_item r)\<lparr>l_id := i, l_priority := normalizePriority (ri_priority r),
                     l_resourceKey := normalizeResourceKey (ri_resourceKey r)\<rparr>))"

definition normalizeState :: "raw_state \<Rightarrow> int \<Rightarrow> (string \<times> int) list \<Rightarrow> sched" where
  "normalizeState value limit limits =
     \<lparr>s_limit = (case intNum (rs_limit value) of
          Some n \<Rightarrow> if n > 0 then n else limit
        | None \<Rightarrow> limit),
      s_resourceLimits = (if rs_resourceLimits value = None then limits
                          else normalizeResourceLimits (rs_resourceLimits value)),
      s_waiters = (case rs_waiters value of
          Some ws \<Rightarrow> List.map_filter normalizeWaiter ws
        | None \<Rightarrow> []),
      s_leases = (case rs_leases value of
          Some ls \<Rightarrow> List.map_filter normalizeLease ls
        | None \<Rightarrow> [])\<rparr>"

text \<open>What \<open>JSON.parse\<close> returns for a state that \<open>atomicWriteJson\<close> wrote.\<close>

definition jsonPriority :: "priority \<Rightarrow> jsval" where
  "jsonPriority p = Some (JStr (case p of Foreground \<Rightarrow> ''foreground'' | Background \<Rightarrow> ''background''))"

definition rawWaiter :: "waiter \<Rightarrow> waiter raw_item option" where
  "rawWaiter w = Some \<lparr>ri_id = Some (JStr (w_id w)), ri_priority = jsonPriority (w_priority w),
     ri_resourceKey = map_option JStr (w_resourceKey w), ri_item = w\<rparr>"

definition rawLease :: "lease \<Rightarrow> lease raw_item option" where
  "rawLease l = Some \<lparr>ri_id = Some (JStr (l_id l)), ri_priority = jsonPriority (l_priority l),
     ri_resourceKey = map_option JStr (l_resourceKey l), ri_item = l\<rparr>"

definition rawState :: "sched \<Rightarrow> raw_state" where
  "rawState s =
     \<lparr>rs_limit = Some (JNum (Fin (of_int (s_limit s)))),
      rs_resourceLimits =
        Some (JObj (map (\<lambda>(k, n). (k, JNum (Fin (of_int n)))) (s_resourceLimits s))),
      rs_waiters = Some (map rawWaiter (s_waiters s)),
      rs_leases = Some (map rawLease (s_leases s))\<rparr>"

section \<open>Pruning and limits\<close>

definition resourceLimitsEqual :: "(string \<times> int) list \<Rightarrow> (string \<times> int) list \<Rightarrow> bool" where
  "resourceLimitsEqual left right \<longleftrightarrow>
     length left = length right \<and> list_all (\<lambda>(key, limit). map_of right key = Some limit) left"

fun lowerLimits ::
  "(string \<times> int) list \<Rightarrow> bool \<Rightarrow> (string \<times> int) list \<Rightarrow> bool \<times> (string \<times> int) list" where
  "lowerLimits [] changed limits = (changed, limits)"
| "lowerLimits ((key, limit) # rest) changed limits =
     (if (case map_of limits key of None \<Rightarrow> True | Some n \<Rightarrow> n > limit)
      then lowerLimits rest True (AList.update key limit limits)
      else lowerLimits rest changed limits)"

definition reconcileLimits :: "subagent_config \<Rightarrow> sched \<Rightarrow> bool \<times> sched" where
  "reconcileLimits config state =
     (if s_waiters state = [] \<and> s_leases state = []
      then (s_limit state \<noteq> maxConcurrency config \<or>
              \<not> resourceLimitsEqual (s_resourceLimits state) (resourceLimits config),
            state\<lparr>s_limit := maxConcurrency config, s_resourceLimits := resourceLimits config\<rparr>)
      else
        let lowered = s_limit state > maxConcurrency config;
            limit = (if lowered then maxConcurrency config else s_limit state);
            (changed, limits) =
              lowerLimits (resourceLimits config) lowered (s_resourceLimits state)
        in (changed, state\<lparr>s_limit := limit, s_resourceLimits := limits\<rparr>))"

definition live_waiter :: "procs \<Rightarrow> int \<Rightarrow> int \<Rightarrow> waiter \<Rightarrow> bool" where
  "live_waiter kill now leaseT w \<longleftrightarrow>
     isProcessAlive kill (w_pid w) \<and> now - w_heartbeatAt w \<le> leaseT"

definition live_lease :: "procs \<Rightarrow> int \<Rightarrow> lease \<Rightarrow> bool" where
  "live_lease kill now l \<longleftrightarrow> isProcessAlive kill (l_pid l) \<and> l_expiresAt l > now"

definition pruneState :: "procs \<Rightarrow> int \<Rightarrow> int \<Rightarrow> sched \<Rightarrow> bool \<times> sched" where
  "pruneState kill now leaseT state =
     (let ws = filter (live_waiter kill now leaseT) (s_waiters state);
          ls = filter (live_lease kill now) (s_leases state)
      in (length ws \<noteq> length (s_waiters state) \<or> length ls \<noteq> length (s_leases state),
          state\<lparr>s_waiters := ws, s_leases := ls\<rparr>))"

text \<open>
  \<open>mutate\<close>: the file is \<open>None\<close> when it is absent or unreadable. It is rewritten only when
  something changed.
\<close>

definition loadState :: "subagent_config \<Rightarrow> procs \<Rightarrow> int \<Rightarrow> sched option \<Rightarrow> bool \<times> sched" where
  "loadState config kill now disk =
     (let raw = rawState (case disk of
            None \<Rightarrow> emptyState (maxConcurrency config) (resourceLimits config)
          | Some s \<Rightarrow> s);
          state = normalizeState raw (maxConcurrency config) (resourceLimits config);
          (pruned, state) = pruneState kill now (leaseMs config) state;
          (reconciled, state) = reconcileLimits config state
      in (reconciled \<or> pruned, state))"

definition mutate ::
  "subagent_config \<Rightarrow> procs \<Rightarrow> int \<Rightarrow> (sched \<Rightarrow> ('v \<times> bool) \<times> sched) \<Rightarrow> sched option
     \<Rightarrow> 'v \<times> sched option" where
  "mutate config kill now fn disk =
     (let (changed, state) = loadState config kill now disk;
          ((v, fn_changed), state) = fn state
      in (v, if changed \<or> fn_changed then Some state else disk))"

section \<open>Granting a slot\<close>

record request =
  rq_waiterId :: string
  rq_ownerId :: string
  rq_pid :: int
  rq_requestedAt :: int
  rq_label :: "string option"
  rq_priority :: "priority option"
  rq_resourceKey :: "string option"

definition requestPriority :: "request \<Rightarrow> priority" where
  "requestPriority rq = (case rq_priority rq of None \<Rightarrow> Foreground | Some p \<Rightarrow> p)"

definition requestKey :: "request \<Rightarrow> string option" where
  "requestKey rq = normalizeResourceKey (map_option JStr (rq_resourceKey rq))"

text \<open>A background waiter is aged into the foreground rank.\<close>

definition waiterRank :: "int \<Rightarrow> int \<Rightarrow> waiter \<Rightarrow> nat" where
  "waiterRank now aging w =
     (if w_priority w = Foreground \<or> now - w_requestedAt w \<ge> aging then 0 else 1)"

definition waiterOrder :: "int \<Rightarrow> int \<Rightarrow> waiter \<Rightarrow> nat \<times> int \<times> string" where
  "waiterOrder now aging w = (waiterRank now aging w, w_requestedAt w, w_id w)"

definition sortedWaiters :: "int \<Rightarrow> int \<Rightarrow> waiter list \<Rightarrow> waiter list" where
  "sortedWaiters now aging ws = sort_key (waiterOrder now aging) ws"

fun leaseUsage :: "lease list \<Rightarrow> (string \<Rightarrow> int) \<Rightarrow> string \<Rightarrow> int" where
  "leaseUsage [] usage = usage"
| "leaseUsage (l # ls) usage =
     leaseUsage ls (case l_resourceKey l of None \<Rightarrow> usage | Some k \<Rightarrow> usage(k := usage k + 1))"

fun eligibleLoop ::
  "(string \<times> int) list \<Rightarrow> int \<Rightarrow> waiter list \<Rightarrow> string list \<Rightarrow> (string \<Rightarrow> int) \<Rightarrow> string list" where
  "eligibleLoop limits available [] eligible usage = eligible"
| "eligibleLoop limits available (candidate # rest) eligible usage =
     (if int (length eligible) \<ge> available then eligible
      else case w_resourceKey candidate of
          None \<Rightarrow> eligibleLoop limits available rest (List.insert (w_id candidate) eligible) usage
        | Some key \<Rightarrow>
            if (case map_of limits key of None \<Rightarrow> False | Some limit \<Rightarrow> usage key \<ge> limit)
            then eligibleLoop limits available rest eligible usage
            else eligibleLoop limits available rest (List.insert (w_id candidate) eligible)
                   (usage(key := usage key + 1)))"

definition eligibleIds :: "subagent_config \<Rightarrow> int \<Rightarrow> sched \<Rightarrow> string list" where
  "eligibleIds config now state =
     eligibleLoop (s_resourceLimits state) (max 0 (s_limit state - int (length (s_leases state))))
       (sortedWaiters now (backgroundAgingMs config) (s_waiters state)) []
       (leaseUsage (s_leases state) (\<lambda>_. 0))"

definition requestWaiter :: "request \<Rightarrow> int \<Rightarrow> waiter" where
  "requestWaiter rq now =
     \<lparr>w_id = rq_waiterId rq, w_ownerId = rq_ownerId rq, w_pid = rq_pid rq,
      w_requestedAt = rq_requestedAt rq, w_heartbeatAt = now, w_label = rq_label rq,
      w_priority = requestPriority rq, w_resourceKey = requestKey rq\<rparr>"

definition requestLease :: "subagent_config \<Rightarrow> request \<Rightarrow> int \<Rightarrow> string \<Rightarrow> lease" where
  "requestLease config rq now leaseId =
     \<lparr>l_id = leaseId, l_waiterId = rq_waiterId rq, l_ownerId = rq_ownerId rq, l_pid = rq_pid rq,
      l_acquiredAt = now, l_heartbeatAt = now, l_expiresAt = now + leaseMs config,
      l_label = rq_label rq, l_priority = requestPriority rq, l_resourceKey = requestKey rq\<rparr>"

text \<open>The waiter registers, or refreshes its heartbeat when the interval has passed.\<close>

definition enrolWaiter ::
  "subagent_config \<Rightarrow> request \<Rightarrow> int \<Rightarrow> int \<Rightarrow> sched \<Rightarrow> (int \<times> bool) \<times> sched" where
  "enrolWaiter config rq now lastHeartbeat state =
     (if \<not> list_ex (\<lambda>w. w_id w = rq_waiterId rq) (s_waiters state)
      then ((now, True), state\<lparr>s_waiters := s_waiters state @ [requestWaiter rq now]\<rparr>)
      else if now - lastHeartbeat \<ge> heartbeatMs config
      then ((now, True), state\<lparr>s_waiters := update_first (\<lambda>w. w_id w = rq_waiterId rq)
              (\<lambda>w. w\<lparr>w_heartbeatAt := now\<rparr>) (s_waiters state)\<rparr>)
      else ((lastHeartbeat, False), state))"

text \<open>The closure that \<open>acquire\<close> passes to \<open>mutate\<close>: the granted lease, if any.\<close>

definition acquireAttempt ::
  "subagent_config \<Rightarrow> request \<Rightarrow> int \<Rightarrow> string \<Rightarrow> int \<Rightarrow> sched
     \<Rightarrow> ((lease option \<times> int) \<times> bool) \<times> sched" where
  "acquireAttempt config rq now leaseId lastHeartbeat state =
     (let ((heartbeat, changed), state) = enrolWaiter config rq now lastHeartbeat state
      in if rq_waiterId rq \<notin> set (eligibleIds config now state)
         then (((None, heartbeat), changed), state)
         else let acquired = requestLease config rq now leaseId in
           (((Some acquired, heartbeat), True),
            state\<lparr>s_waiters := filter (\<lambda>w. w_id w \<noteq> rq_waiterId rq) (s_waiters state),
                  s_leases := s_leases state @ [acquired]\<rparr>))"

definition removeWaiter :: "string \<Rightarrow> sched \<Rightarrow> (unit \<times> bool) \<times> sched" where
  "removeWaiter waiterId state =
     (let ws = filter (\<lambda>w. w_id w \<noteq> waiterId) (s_waiters state)
      in (((), length ws \<noteq> length (s_waiters state)), state\<lparr>s_waiters := ws\<rparr>))"

definition heartbeatLease ::
  "subagent_config \<Rightarrow> string \<Rightarrow> string \<Rightarrow> int \<Rightarrow> sched \<Rightarrow> (unit \<times> bool) \<times> sched" where
  "heartbeatLease config owner leaseId now state =
     (let mine = (\<lambda>l. l_id l = leaseId \<and> l_ownerId l = owner) in
      if \<not> list_ex mine (s_leases state) then (((), False), state)
      else (((), True), state\<lparr>s_leases := update_first mine
              (\<lambda>l. l\<lparr>l_heartbeatAt := now, l_expiresAt := now + leaseMs config\<rparr>) (s_leases state)\<rparr>))"

definition releaseLease :: "string \<Rightarrow> string \<Rightarrow> sched \<Rightarrow> (unit \<times> bool) \<times> sched" where
  "releaseLease owner leaseId state =
     (let ls = filter (\<lambda>l. \<not> (l_id l = leaseId \<and> l_ownerId l = owner)) (s_leases state)
      in (((), length ls \<noteq> length (s_leases state)), state\<lparr>s_leases := ls\<rparr>))"

section \<open>The waiting loop\<close>

datatype acquire_error = AbortError | QueueTimeoutError int | LockError

datatype acquire_outcome = Acquired string int | Failed acquire_error | Waiting

datatype run_state = Queued int | Running int

text \<open>
  What one iteration of \<open>acquire\<close> observes: the abort flag and the clock at the top, whether the
  lock was obtained and the clock and processes inside \<open>mutate\<close>, the fresh lease id, the clock
  afterwards, an abort during the delay, and what other processes do to the file meanwhile.
  \<open>t_cleanup\<close> tells whether \<open>removeWaiter\<close>, should it run, obtains the lock.
\<close>

record tick =
  t_aborted :: bool
  t_now :: int
  t_locked :: bool
  t_lockNow :: int
  t_kill :: procs
  t_leaseId :: string
  t_doneNow :: int
  t_delayAborted :: bool
  t_cleanup :: bool
  t_others :: "sched option \<Rightarrow> sched option"

definition failAcquire ::
  "subagent_config \<Rightarrow> request \<Rightarrow> tick \<Rightarrow> acquire_error \<Rightarrow> sched option
     \<Rightarrow> acquire_outcome \<times> sched option" where
  "failAcquire config rq t err disk =
     (Failed err,
      if t_cleanup t
      then snd (mutate config (t_kill t) (t_lockNow t) (removeWaiter (rq_waiterId rq)) disk)
      else disk)"

fun acquireLoop ::
  "subagent_config \<Rightarrow> request \<Rightarrow> tick list \<Rightarrow> int \<Rightarrow> bool \<Rightarrow> sched option
     \<Rightarrow> (acquire_outcome \<times> sched option) \<times> run_state list" where
  "acquireLoop config rq [] lastHeartbeat queuedEmitted disk = ((Waiting, disk), [])"
| "acquireLoop config rq (t # ts) lastHeartbeat queuedEmitted disk =
     (if t_aborted t then (failAcquire config rq t AbortError disk, [])
      else if t_now t - rq_requestedAt rq \<ge> queueTimeoutMs config
      then (failAcquire config rq t (QueueTimeoutError (queueTimeoutMs config)) disk, [])
      else let disk = t_others t disk in
        if \<not> t_locked t then (failAcquire config rq t LockError disk, [])
        else let ((granted, heartbeat), disk) =
            mutate config (t_kill t) (t_lockNow t)
              (acquireAttempt config rq (t_now t) (t_leaseId t) lastHeartbeat) disk
          in case granted of
              Some l \<Rightarrow>
                let queueWaitMs = t_doneNow t - rq_requestedAt rq
                in ((Acquired (l_id l) queueWaitMs, disk), [Running queueWaitMs])
            | None \<Rightarrow>
                let emitted = (if queuedEmitted then [] else [Queued (t_doneNow t - rq_requestedAt rq)])
                in if t_delayAborted t
                   then (failAcquire config rq t AbortError disk, emitted)
                   else let (result, later) = acquireLoop config rq ts heartbeat True disk
                     in (result, emitted @ later))"

definition acquire ::
  "subagent_config \<Rightarrow> request \<Rightarrow> tick list \<Rightarrow> sched option
     \<Rightarrow> (acquire_outcome \<times> sched option) \<times> run_state list" where
  "acquire config rq ts disk = acquireLoop config rq ts 0 False disk"

section \<open>Execution groups\<close>

text \<open>
  A group bounds the outstanding executions of one request. A promise is a number, new for each
  execution; \<open>g_pending\<close> holds the unsettled ones, and each settles once.
\<close>

record group =
  g_maxFanout :: int
  g_parents :: "bool list"
  g_aborted :: bool
  g_outstanding :: int
  g_closed :: bool
  g_pending :: "nat list"

datatype group_result = GroupClosed | FanoutExceeded int | Started bool

text \<open>\<open>combineSignals\<close>: the combined abort flag and the signals that keep a listener.\<close>

fun combineSignals :: "bool list \<Rightarrow> bool \<times> nat" where
  "combineSignals [] = (False, 0)"
| "combineSignals (aborted # rest) =
     (if aborted then (True, 0)
      else let (a, n) = combineSignals rest in (a, Suc n))"

definition newGroup :: "subagent_config \<Rightarrow> bool list \<Rightarrow> group" where
  "newGroup config parents =
     \<lparr>g_maxFanout = maxFanout config, g_parents = parents, g_aborted = False, g_outstanding = 0,
      g_closed = False, g_pending = []\<rparr>"

definition groupRun :: "nat \<Rightarrow> group \<Rightarrow> group_result \<times> group" where
  "groupRun promise g =
     (if g_closed g then (GroupClosed, g)
      else if g_outstanding g \<ge> g_maxFanout g then (FanoutExceeded (g_maxFanout g), g)
      else (Started (fst (combineSignals (g_parents g @ [g_aborted g]))),
            g\<lparr>g_outstanding := g_outstanding g + 1, g_pending := promise # g_pending g\<rparr>))"

definition groupSettle :: "nat \<Rightarrow> group \<Rightarrow> group" where
  "groupSettle promise g =
     (if promise \<in> set (g_pending g)
      then g\<lparr>g_outstanding := g_outstanding g - 1, g_pending := remove1 promise (g_pending g)\<rparr>
      else g)"

definition groupCancel :: "group \<Rightarrow> group" where
  "groupCancel g = g\<lparr>g_aborted := True\<rparr>"

definition groupClose :: "group \<Rightarrow> group" where
  "groupClose g = groupCancel (g\<lparr>g_closed := True\<rparr>)"

section \<open>Reading back what was written\<close>

lemma resource_key_no_ws: "is_resource_key k \<Longrightarrow> \<forall>c \<in> set k. \<not> is_ws c"
  by (auto simp: is_resource_key_def list_all_iff is_alnum_def is_ws_def Let_def)

lemma normalizeResourceKey_key [simp]:
  "is_resource_key k \<Longrightarrow> normalizeResourceKey (Some (JStr k)) = Some k"
  by (simp add: normalizeResourceKey_def Let_def js_trim_no_ws resource_key_no_ws)

lemma normalizeResourceKey_valid:
  "normalizeResourceKey v = Some k \<Longrightarrow> is_resource_key k"
  by (auto simp: normalizeResourceKey_def Let_def split: option.splits if_splits)

lemma normalizeResourceKey_undefined [simp]: "normalizeResourceKey None = None"
  by (simp add: normalizeResourceKey_def)

lemma normalizePriority_json [simp]: "normalizePriority (jsonPriority p) = p"
  by (cases p) (auto simp: normalizePriority_def jsonPriority_def)

definition key_ok :: "string option \<Rightarrow> bool" where
  "key_ok k \<longleftrightarrow> (case k of None \<Rightarrow> True | Some s \<Rightarrow> is_resource_key s)"

lemma key_ok_roundtrip [simp]:
  "key_ok k \<Longrightarrow> normalizeResourceKey (map_option JStr k) = k"
  by (cases k) (auto simp: key_ok_def)

lemma key_ok_requestKey [simp]: "key_ok (requestKey rq)"
  unfolding key_ok_def requestKey_def by (auto split: option.split dest: normalizeResourceKey_valid)

definition sched_wf :: "sched \<Rightarrow> bool" where
  "sched_wf s \<longleftrightarrow> s_limit s > 0 \<and> limits_ok (s_resourceLimits s) \<and>
     (\<forall>w \<in> set (s_waiters s). key_ok (w_resourceKey w)) \<and>
     (\<forall>l \<in> set (s_leases s). key_ok (l_resourceKey l))"

lemma limitEntries_json:
  "limits_ok (acc @ ls) \<Longrightarrow>
     limitEntries (map (\<lambda>(k, n). (k, JNum (Fin (of_int n)))) ls) acc = acc @ ls"
proof (induction ls arbitrary: acc)
  case (Cons p ls)
  obtain k n where p: "p = (k, n)" by force
  from Cons.prems have new: "k \<notin> fst ` set acc" and ok: "is_resource_key k" "1 \<le> n" "n \<le> 32"
    by (auto simp: limits_ok_def p)
  from new have "AList.update k n acc = acc @ [(k, n)]"
    by (induction acc) auto
  moreover from Cons.prems have "limits_ok ((acc @ [(k, n)]) @ ls)" by (simp add: p)
  ultimately show ?case using Cons.IH [of "acc @ [(k, n)]"] ok by (simp add: p)
qed simp

lemma normalizeWaiter_raw [simp]:
  "key_ok (w_resourceKey w) \<Longrightarrow> normalizeWaiter (rawWaiter w) = Some w"
  by (simp add: rawWaiter_def)

lemma normalizeLease_raw [simp]:
  "key_ok (l_resourceKey l) \<Longrightarrow> normalizeLease (rawLease l) = Some l"
  by (simp add: rawLease_def)

lemma map_filter_raw:
  "(\<And>x. x \<in> set xs \<Longrightarrow> f (g x) = Some x) \<Longrightarrow> List.map_filter f (map g xs) = xs"
  by (induction xs) (auto simp: List.map_filter_simps)

lemma normalizeState_rawState:
  assumes "sched_wf s"
  shows "normalizeState (rawState s) limit limits = s"
proof -
  have "limitEntries (map (\<lambda>(k, n). (k, JNum (Fin (of_int n)))) (s_resourceLimits s)) []
      = s_resourceLimits s"
    using limitEntries_json [of "[]" "s_resourceLimits s"] assms by (simp add: sched_wf_def)
  then show ?thesis
    using assms by (simp add: normalizeState_def rawState_def sched_wf_def map_filter_raw)
qed

section \<open>What the eligibility loop selects\<close>

text \<open>The resource of a waiter is at its limit under a given usage; granting it takes one unit.\<close>

definition blocked :: "(string \<times> int) list \<Rightarrow> (string \<Rightarrow> int) \<Rightarrow> string option \<Rightarrow> bool" where
  "blocked limits usage key \<longleftrightarrow>
     (case key of None \<Rightarrow> False
      | Some k \<Rightarrow> case map_of limits k of None \<Rightarrow> False | Some limit \<Rightarrow> usage k \<ge> limit)"

definition bump :: "(string \<Rightarrow> int) \<Rightarrow> string option \<Rightarrow> string \<Rightarrow> int" where
  "bump usage key = (case key of None \<Rightarrow> usage | Some k \<Rightarrow> usage(k := usage k + 1))"

lemma blocked_mono:
  "(\<And>k. usage k \<le> usage' k) \<Longrightarrow> blocked limits usage key \<Longrightarrow> blocked limits usage' key"
  by (fastforce simp: blocked_def split: option.splits intro: order_trans)

lemma bump_mono: "usage0 k \<le> usage k \<Longrightarrow> usage0 k \<le> bump usage key k"
  by (auto simp: bump_def split: option.splits)

lemma eligibleLoop_Cons:
  "eligibleLoop limits available (c # rest) eligible usage =
     (if int (length eligible) \<ge> available then eligible
      else if blocked limits usage (w_resourceKey c)
      then eligibleLoop limits available rest eligible usage
      else eligibleLoop limits available rest (List.insert (w_id c) eligible)
             (bump usage (w_resourceKey c)))"
  by (simp add: blocked_def bump_def split: option.splits)

lemmas eligibleLoop_eqs = eligibleLoop.simps(1) eligibleLoop_Cons

declare eligibleLoop.simps(2) [simp del] eligibleLoop_Cons [simp]

lemma eligibleLoop_subset:
  "set (eligibleLoop limits available ws eligible usage) \<subseteq> set eligible \<union> w_id ` set ws"
proof (induction ws arbitrary: eligible usage)
  case (Cons c ws)
  show ?case
    using Cons.IH [of eligible usage]
      Cons.IH [of "List.insert (w_id c) eligible" "bump usage (w_resourceKey c)"] by auto
qed simp

lemma eligibleLoop_prefix:
  "set eligible \<subseteq> set (eligibleLoop limits available ws eligible usage)"
  by (induction ws arbitrary: eligible usage) fastforce+

lemma length_list_insert: "length (List.insert x xs) \<le> Suc (length xs)"
  by (simp add: List.insert_def)

lemma eligibleLoop_length:
  "int (length eligible) \<le> available \<Longrightarrow>
     int (length (eligibleLoop limits available ws eligible usage)) \<le> available"
proof (induction ws arbitrary: eligible usage)
  case (Cons c ws)
  then show ?case using length_list_insert [of "w_id c" eligible] by simp
qed simp

text \<open>Selecting a waiter takes a free slot and a resource below its limit.\<close>

lemma eligibleLoop_selected:
  assumes "i \<in> set (eligibleLoop limits available ws eligible usage)" and "i \<notin> set eligible"
    and "\<And>k. usage0 k \<le> usage k"
  shows "available > 0 \<and> (\<exists>w \<in> set ws. w_id w = i \<and> \<not> blocked limits usage0 (w_resourceKey w))"
  using assms
proof (induction ws arbitrary: eligible usage)
  case (Cons c ws)
  consider "int (length eligible) \<ge> available"
    | "int (length eligible) < available" "blocked limits usage (w_resourceKey c)"
    | "int (length eligible) < available" "\<not> blocked limits usage (w_resourceKey c)"
    by linarith
  then show ?case
  proof cases
    case 1
    with Cons.prems show ?thesis by simp
  next
    case 2
    with Cons.prems have "i \<in> set (eligibleLoop limits available ws eligible usage)" by simp
    from Cons.IH [OF this Cons.prems(2,3)] show ?thesis by auto
  next
    case 3
    with Cons.prems have sel: "i \<in> set (eligibleLoop limits available ws
        (List.insert (w_id c) eligible) (bump usage (w_resourceKey c)))" by simp
    show ?thesis
    proof (cases "i = w_id c")
      case True
      moreover have "\<not> blocked limits usage0 (w_resourceKey c)"
        using 3(2) blocked_mono [of usage0 usage] Cons.prems(3) by blast
      ultimately show ?thesis using 3(1) by auto
    next
      case False
      with Cons.prems(2) have "i \<notin> set (List.insert (w_id c) eligible)" by simp
      from Cons.IH [OF sel this] show ?thesis
        using bump_mono Cons.prems(3) by fastforce
    qed
  qed
qed simp

text \<open>The first waiter in order whose resource is free is always selected when a slot is.\<close>

lemma eligibleLoop_first:
  assumes "List.find (\<lambda>w. \<not> blocked limits usage (w_resourceKey w)) ws = Some w"
    and "int (length eligible) < available"
  shows "w_id w \<in> set (eligibleLoop limits available ws eligible usage)"
  using assms
proof (induction ws)
  case (Cons c ws)
  show ?case
  proof (cases "blocked limits usage (w_resourceKey c)")
    case True
    with Cons show ?thesis by simp
  next
    case False
    with Cons.prems have "w = c" by simp
    with False Cons.prems(2) show ?thesis
      using eligibleLoop_prefix [of "List.insert (w_id c) eligible" limits available ws] by auto
  qed
qed simp

text \<open>No overtaking: a waiter that needs no resource is selected before any later waiter.\<close>

lemma eligibleLoop_no_overtaking:
  assumes "i \<in> set (eligibleLoop limits available (xs @ a # ys) eligible usage)"
    and "i \<notin> set eligible" and "i \<notin> w_id ` set xs" and "w_resourceKey a = None"
  shows "w_id a \<in> set (eligibleLoop limits available (xs @ a # ys) eligible usage)"
  using assms
proof (induction xs arbitrary: eligible usage)
  case Nil
  then have "int (length eligible) < available" by (auto split: if_splits)
  then show ?case
    using Nil.prems(4) eligibleLoop_prefix [of "List.insert (w_id a) eligible" limits available ys]
    by (auto simp: blocked_def)
qed (auto split: if_splits)

section \<open>One attempt\<close>

definition keyCount :: "string \<Rightarrow> lease list \<Rightarrow> int" where
  "keyCount k ls = int (length (filter (\<lambda>l. l_resourceKey l = Some k) ls))"

lemma leaseUsage_count: "leaseUsage ls usage k = usage k + keyCount k ls"
  by (induction ls arbitrary: usage) (auto simp: keyCount_def split: option.splits)

lemma keyCount_simps [simp]:
  "keyCount k [] = 0"
  "keyCount k (ls @ ls') = keyCount k ls + keyCount k ls'"
  "keyCount k [l] = (if l_resourceKey l = Some k then 1 else 0)"
  by (auto simp: keyCount_def)

lemma keyCount_map:
  "keyCount k ls = int (length (filter (\<lambda>r. r = Some k) (map l_resourceKey ls)))"
  by (simp add: keyCount_def filter_map comp_def)

lemma keyCount_filter: "keyCount k (filter P ls) \<le> keyCount k ls"
  by (simp add: keyCount_def length_filter_filter_le del: filter_filter)

lemma set_sortedWaiters [simp]: "set (sortedWaiters now aging ws) = set ws"
  by (simp add: sortedWaiters_def)

lemma enrolWaiter_frame:
  assumes "enrolWaiter config rq now hb s = ((hb', changed), s')"
  shows "s_limit s' = s_limit s \<and> s_resourceLimits s' = s_resourceLimits s \<and>
     s_leases s' = s_leases s"
  using assms by (auto simp: enrolWaiter_def split: if_splits)

lemma enrolWaiter_waiters:
  assumes "enrolWaiter config rq now hb s = ((hb', changed), s')" and "w \<in> set (s_waiters s')"
  shows "w = requestWaiter rq now \<or> (\<exists>w0 \<in> set (s_waiters s). w_id w0 = w_id w \<and>
     w_resourceKey w0 = w_resourceKey w \<and> w_priority w0 = w_priority w \<and>
     w_requestedAt w0 = w_requestedAt w)"
proof -
  let ?old = "\<lambda>w0. w_id w0 = w_id w \<and> w_resourceKey w0 = w_resourceKey w \<and>
     w_priority w0 = w_priority w \<and> w_requestedAt w0 = w_requestedAt w"
  consider "w = requestWaiter rq now" | "w \<in> set (s_waiters s)"
    | "w \<in> set (update_first (\<lambda>w. w_id w = rq_waiterId rq) (\<lambda>w. w\<lparr>w_heartbeatAt := now\<rparr>) (s_waiters s))"
    using assms by (auto simp: enrolWaiter_def split: if_splits)
  then show ?thesis
  proof cases
    case 3
    from update_first_pred [OF this] have "\<exists>w0 \<in> set (s_waiters s). ?old w0" by auto
    then show ?thesis ..
  qed auto
qed

text \<open>Every waiter under an identifier asks for the resource its request names.\<close>

definition requests_agree :: "(string \<Rightarrow> request) \<Rightarrow> sched \<Rightarrow> bool" where
  "requests_agree reqOf s \<longleftrightarrow>
     (\<forall>w \<in> set (s_waiters s). w_resourceKey w = requestKey (reqOf (w_id w)))"

lemma requests_agree_enrol:
  assumes "enrolWaiter config rq now hb s = ((hb', changed), s')" and "requests_agree reqOf s"
    and "reqOf (rq_waiterId rq) = rq"
  shows "requests_agree reqOf s'"
  unfolding requests_agree_def
proof
  fix w assume "w \<in> set (s_waiters s')"
  from enrolWaiter_waiters [OF assms(1) this] assms(2,3)
  show "w_resourceKey w = requestKey (reqOf (w_id w))"
    by (fastforce simp: requests_agree_def requestWaiter_def)
qed

lemma acquireAttempt_cases:
  assumes "acquireAttempt config rq now lid hb s = (((granted, hb'), changed), s')"
  obtains (queued) s1 c1 where "enrolWaiter config rq now hb s = ((hb', c1), s1)"
      "granted = None" "s' = s1" "rq_waiterId rq \<notin> set (eligibleIds config now s1)"
  | (granted) s1 c1 where "enrolWaiter config rq now hb s = ((hb', c1), s1)"
      "rq_waiterId rq \<in> set (eligibleIds config now s1)"
      "granted = Some (requestLease config rq now lid)"
      "s' = s1\<lparr>s_waiters := filter (\<lambda>w. w_id w \<noteq> rq_waiterId rq) (s_waiters s1),
               s_leases := s_leases s1 @ [requestLease config rq now lid]\<rparr>"
  using assms by (auto simp: acquireAttempt_def Let_def split: prod.splits if_splits)

lemma eligibleIds_free:
  assumes "i \<in> set (eligibleIds config now s)"
  shows "int (length (s_leases s)) < s_limit s \<and>
     (\<exists>w \<in> set (s_waiters s). w_id w = i \<and>
        \<not> blocked (s_resourceLimits s) (\<lambda>k. keyCount k (s_leases s)) (w_resourceKey w))"
proof -
  have usage: "leaseUsage (s_leases s) (\<lambda>_. 0) = (\<lambda>k. keyCount k (s_leases s))"
    by (simp add: leaseUsage_count fun_eq_iff)
  from assms have "max 0 (s_limit s - int (length (s_leases s))) > 0 \<and>
      (\<exists>w \<in> set (s_waiters s). w_id w = i \<and>
         \<not> blocked (s_resourceLimits s) (\<lambda>k. keyCount k (s_leases s)) (w_resourceKey w))"
    using eligibleLoop_selected [of i _ _ _ "[]"] unfolding eligibleIds_def usage by fastforce
  then show ?thesis by (auto simp: less_max_iff_disj)
qed

lemma acquireAttempt_bounds:
  assumes "acquireAttempt config rq now lid hb s = (((Some l, hb'), changed), s')"
    and "requests_agree reqOf s" and "reqOf (rq_waiterId rq) = rq"
  shows "int (length (s_leases s')) \<le> s_limit s' \<and>
     \<not> blocked (s_resourceLimits s) (\<lambda>k. keyCount k (s_leases s)) (l_resourceKey l)"
  using assms(1)
proof (cases rule: acquireAttempt_cases)
  case (granted s1 c1)
  note frame = enrolWaiter_frame [OF granted(1)]
  from requests_agree_enrol [OF granted(1) assms(2,3)] have "requests_agree reqOf s1" .
  moreover from eligibleIds_free [OF granted(2)] obtain w where
    "int (length (s_leases s1)) < s_limit s1" "w \<in> set (s_waiters s1)" "w_id w = rq_waiterId rq"
    "\<not> blocked (s_resourceLimits s1) (\<lambda>k. keyCount k (s_leases s1)) (w_resourceKey w)" by blast
  ultimately show ?thesis
    using granted(3,4) assms(3) frame by (auto simp: requests_agree_def requestLease_def)
qed auto

section \<open>The invariant of the state file\<close>

definition sched_inv :: "subagent_config \<Rightarrow> (string \<Rightarrow> request) \<Rightarrow> sched \<Rightarrow> bool" where
  "sched_inv config reqOf s \<longleftrightarrow>
     sched_wf s \<and> s_limit s = maxConcurrency config \<and>
     map_of (s_resourceLimits s) = map_of (resourceLimits config) \<and>
     int (length (s_leases s)) \<le> s_limit s \<and>
     (\<forall>k n. map_of (s_resourceLimits s) k = Some n \<longrightarrow> keyCount k (s_leases s) \<le> n) \<and>
     requests_agree reqOf s"

definition file_inv :: "subagent_config \<Rightarrow> (string \<Rightarrow> request) \<Rightarrow> sched option \<Rightarrow> bool" where
  "file_inv config reqOf disk \<longleftrightarrow>
     config_bounds config \<and> (case disk of None \<Rightarrow> True | Some s \<Rightarrow> sched_inv config reqOf s)"

text \<open>Shrinking the lists of the state keeps the invariant.\<close>

lemma sched_inv_shrink:
  assumes "sched_inv config reqOf s" and "set ws \<subseteq> set (s_waiters s)"
    and "ls = filter P (s_leases s)"
  shows "sched_inv config reqOf (s\<lparr>s_waiters := ws, s_leases := ls\<rparr>)"
proof -
  have "keyCount k ls \<le> n" if "map_of (s_resourceLimits s) k = Some n" for k n
    using that assms(1) keyCount_filter [of k P "s_leases s"]
    unfolding sched_inv_def assms(3) by (meson order_trans)
  moreover have "int (length ls) \<le> s_limit s"
    using assms(1) length_filter_le [of P "s_leases s"] unfolding sched_inv_def assms(3) by linarith
  ultimately show ?thesis
    using assms unfolding sched_inv_def sched_wf_def requests_agree_def by auto
qed

lemma sched_inv_waiters:
  "sched_inv config reqOf s \<Longrightarrow> set ws \<subseteq> set (s_waiters s) \<Longrightarrow>
     sched_inv config reqOf (s\<lparr>s_waiters := ws\<rparr>)"
  using sched_inv_shrink [of config reqOf s ws "s_leases s" "\<lambda>_. True"] by simp

lemma sched_inv_leases:
  "sched_inv config reqOf s \<Longrightarrow> sched_inv config reqOf (s\<lparr>s_leases := filter P (s_leases s)\<rparr>)"
  using sched_inv_shrink [of config reqOf s "s_waiters s" _ P] by simp

lemma lowerLimits_same:
  "\<forall>(k, n) \<in> set cs. map_of limits k = Some n \<Longrightarrow> lowerLimits cs changed limits = (changed, limits)"
  by (induction cs) auto

lemma sched_inv_empty:
  "config_bounds config \<Longrightarrow>
     sched_inv config reqOf (emptyState (maxConcurrency config) (resourceLimits config))"
  by (fastforce simp: sched_inv_def sched_wf_def emptyState_def config_bounds_def in_range_def
      requests_agree_def limits_ok_def dest: map_of_SomeD)

lemma sched_inv_reconcile:
  assumes "config_bounds config" and "sched_inv config reqOf s"
  shows "sched_inv config reqOf (snd (reconcileLimits config s))"
proof (cases "s_waiters s = [] \<and> s_leases s = []")
  case True
  then have "snd (reconcileLimits config s)
      = s\<lparr>s_limit := maxConcurrency config, s_resourceLimits := resourceLimits config\<rparr>"
    by (simp add: reconcileLimits_def)
  moreover have "sched_wf (s\<lparr>s_limit := maxConcurrency config, s_resourceLimits := resourceLimits config\<rparr>)"
    using assms True by (simp add: sched_wf_def config_bounds_def in_range_def)
  ultimately show ?thesis
    using assms True by (simp add: sched_inv_def requests_agree_def)
next
  case False
  from assms(1) have "distinct (map fst (resourceLimits config))"
    by (simp add: config_bounds_def limits_ok_def)
  with assms(2) have "lowerLimits (resourceLimits config) False (s_resourceLimits s)
      = (False, s_resourceLimits s)"
    by (intro lowerLimits_same) (auto simp: sched_inv_def)
  with False assms(2) have "snd (reconcileLimits config s) = s"
    by (auto simp: reconcileLimits_def sched_inv_def)
  with assms(2) show ?thesis by simp
qed

lemma loadState_inv:
  assumes "file_inv config reqOf disk"
  shows "sched_inv config reqOf (snd (loadState config kill now disk))"
proof -
  define s where "s = (case disk of None \<Rightarrow> emptyState (maxConcurrency config) (resourceLimits config)
      | Some s \<Rightarrow> s)"
  from assms have cb: "config_bounds config" and inv: "sched_inv config reqOf s"
    by (auto simp: file_inv_def s_def sched_inv_empty split: option.splits)
  have "normalizeState (rawState s) (maxConcurrency config) (resourceLimits config) = s"
    using inv by (simp add: normalizeState_rawState sched_inv_def)
  moreover have "sched_inv config reqOf (snd (pruneState kill now (leaseMs config) s))"
    unfolding pruneState_def Let_def snd_conv by (rule sched_inv_shrink [OF inv]) auto
  ultimately show ?thesis
    using sched_inv_reconcile [OF cb]
    by (simp add: loadState_def s_def [symmetric] Let_def case_prod_unfold)
qed

text \<open>Every mutation whose closure keeps the invariant keeps it in the file.\<close>

lemma mutate_inv:
  assumes "file_inv config reqOf disk"
    and "\<And>s. sched_inv config reqOf s \<Longrightarrow> sched_inv config reqOf (snd (fn s))"
  shows "file_inv config reqOf (snd (mutate config kill now fn disk))"
  using assms loadState_inv [OF assms(1), of kill now]
  by (auto simp: mutate_def file_inv_def Let_def case_prod_unfold)

lemma acquireAttempt_inv:
  assumes "sched_inv config reqOf s" and "reqOf (rq_waiterId rq) = rq"
  shows "sched_inv config reqOf (snd (acquireAttempt config rq now lid hb s))"
proof -
  obtain granted hb' changed s' where
    att: "acquireAttempt config rq now lid hb s = (((granted, hb'), changed), s')"
    by (metis prod.collapse)
  obtain s1 c1 where enrol: "enrolWaiter config rq now hb s = ((hb', c1), s1)"
    using att by (cases rule: acquireAttempt_cases) auto
  note frame = enrolWaiter_frame [OF enrol]
  have agree: "requests_agree reqOf s1"
    using assms requests_agree_enrol [OF enrol] by (simp add: sched_inv_def)
  have keys: "\<forall>w \<in> set (s_waiters s1). key_ok (w_resourceKey w)"
    using agree by (auto simp: requests_agree_def)
  have inv1: "sched_inv config reqOf s1"
    using assms(1) frame agree keys by (simp add: sched_inv_def sched_wf_def)
  from att show ?thesis
  proof (cases rule: acquireAttempt_cases)
    case (queued s2 c2)
    with enrol inv1 att show ?thesis by simp
  next
    case (granted s2 c2)
    with enrol have s2: "s2 = s1" by simp
    let ?l = "requestLease config rq now lid"
    from acquireAttempt_bounds [of config rq now lid hb s ?l hb' changed s' reqOf] att granted(3) assms
    have "int (length (s_leases s')) \<le> s_limit s'"
      and free: "\<not> blocked (s_resourceLimits s) (\<lambda>k. keyCount k (s_leases s)) (l_resourceKey ?l)"
      by (auto simp: sched_inv_def)
    moreover have "keyCount k (s_leases s1) + (if l_resourceKey ?l = Some k then 1 else 0) \<le> n"
      if "map_of (s_resourceLimits s1) k = Some n" for k n
      using that free frame inv1 by (auto simp: blocked_def sched_inv_def)
    ultimately have "sched_inv config reqOf s'"
      using inv1 granted(4) s2
      by (simp add: sched_inv_def sched_wf_def requests_agree_def requestLease_def)
    with att show ?thesis by simp
  qed
qed

lemma removeWaiter_inv: "sched_inv config reqOf s \<Longrightarrow> sched_inv config reqOf (snd (removeWaiter i s))"
  by (auto simp: removeWaiter_def Let_def intro!: sched_inv_waiters)

lemma releaseLease_inv: "sched_inv config reqOf s \<Longrightarrow> sched_inv config reqOf (snd (releaseLease own i s))"
  by (simp add: releaseLease_def Let_def sched_inv_leases)

lemma heartbeatLease_inv:
  assumes "sched_inv config reqOf s"
  shows "sched_inv config reqOf (snd (heartbeatLease config owner i now s))"
proof -
  let ?up = "update_first (\<lambda>l. l_id l = i \<and> l_ownerId l = owner)
     (\<lambda>l. l\<lparr>l_heartbeatAt := now, l_expiresAt := now + leaseMs config\<rparr>) (s_leases s)"
  have "map l_resourceKey ?up = map l_resourceKey (s_leases s)"
    by (rule map_update_first) simp
  then have count: "keyCount k ?up = keyCount k (s_leases s)" for k
    by (simp add: keyCount_map)
  have "\<forall>l \<in> set ?up. key_ok (l_resourceKey l)"
    using assms by (auto simp: sched_inv_def sched_wf_def dest!: update_first_pred)
  with count assms show ?thesis
    by (simp add: heartbeatLease_def sched_inv_def sched_wf_def requests_agree_def Let_def)
qed

section \<open>Runs of many processes\<close>

text \<open>
  Every event is one locked mutation by some process. \<open>opts\<close> gives the options each waiter
  identifier was created with; identifiers are fresh UUIDs, so one identifier belongs to one call
  of \<open>acquire\<close>.
\<close>

datatype sched_event =
    Attempt procs int int string int string
  | Withdraw procs int string
  | Beat procs int int string string
  | Release procs int string string

definition requestFor :: "(string \<Rightarrow> request) \<Rightarrow> string \<Rightarrow> request" where
  "requestFor opts i = (opts i)\<lparr>rq_waiterId := i\<rparr>"

fun sched_step ::
  "subagent_config \<Rightarrow> (string \<Rightarrow> request) \<Rightarrow> sched_event \<Rightarrow> sched option \<Rightarrow> sched option" where
  "sched_step config opts (Attempt kill lockNow now lid hb i) disk =
     snd (mutate config kill lockNow (acquireAttempt config (requestFor opts i) now lid hb) disk)"
| "sched_step config opts (Withdraw kill lockNow i) disk =
     snd (mutate config kill lockNow (removeWaiter i) disk)"
| "sched_step config opts (Beat kill lockNow now owner lid) disk =
     snd (mutate config kill lockNow (heartbeatLease config owner lid now) disk)"
| "sched_step config opts (Release kill lockNow owner lid) disk =
     snd (mutate config kill lockNow (releaseLease owner lid) disk)"

lemma requestFor_id [simp]: "rq_waiterId (requestFor opts i) = i"
  by (simp add: requestFor_def)

lemma sched_step_inv:
  "file_inv config (requestFor opts) disk \<Longrightarrow>
     file_inv config (requestFor opts) (sched_step config opts e disk)"
  by (cases e)
    (auto intro!: mutate_inv intro: acquireAttempt_inv removeWaiter_inv heartbeatLease_inv
      releaseLease_inv)

interpretation scheduler: event_machine "sched_step config opts" "\<lambda>_. True"
  "file_inv config (requestFor opts)" for config opts
  by unfold_locales (rule sched_step_inv)

definition slots_bounded :: "subagent_config \<Rightarrow> sched option \<Rightarrow> bool" where
  "slots_bounded config disk \<longleftrightarrow>
     (case disk of None \<Rightarrow> True
      | Some s \<Rightarrow> int (length (s_leases s)) \<le> maxConcurrency config \<and>
          list_all (\<lambda>(k, n). keyCount k (s_leases s) \<le> n) (resourceLimits config))"

lemma file_inv_slots: "file_inv config reqOf disk \<Longrightarrow> slots_bounded config disk"
  by (auto simp: file_inv_def slots_bounded_def sched_inv_def list_all_iff config_bounds_def
      limits_ok_def split: option.splits)

text \<open>C1. Host-wide concurrency: however the mutations of all processes interleave, and whatever
  clocks, process deaths and fresh identifiers they see, the state file never holds more leases
  than the configured concurrency, nor more leases on a resource than the limit of that resource.
  The configuration is the one the code loads, from any environment.\<close>

theorem scheduler_slots_bounded:
  "slots_bounded (loadSubagentConfig h env)
     (fold (sched_step (loadSubagentConfig h env) opts) es None)"
proof (rule file_inv_slots, rule scheduler.run_inv)
  show "file_inv (loadSubagentConfig h env) (requestFor opts) None"
    by (simp add: file_inv_def loadSubagentConfig_bounds)
qed simp

section \<open>Progress and order\<close>

lemma leaseUsage_zero: "leaseUsage ls (\<lambda>_. 0) = (\<lambda>k. keyCount k ls)"
  by (simp add: leaseUsage_count fun_eq_iff)

definition firstUnblocked :: "subagent_config \<Rightarrow> int \<Rightarrow> sched \<Rightarrow> waiter option" where
  "firstUnblocked config now s =
     List.find (\<lambda>w. \<not> blocked (s_resourceLimits s) (\<lambda>k. keyCount k (s_leases s)) (w_resourceKey w))
       (sortedWaiters now (backgroundAgingMs config) (s_waiters s))"

text \<open>C26. The scheduler is work-conserving: when a slot is free, an attempt by the first waiter in
  priority order whose resource is below its limit is granted a lease.\<close>

theorem acquireAttempt_progress:
  assumes "enrolWaiter config rq now hb s = ((hb', c), s1)"
    and "int (length (s_leases s1)) < s_limit s1"
    and "firstUnblocked config now s1 = Some w" and "w_id w = rq_waiterId rq"
  shows "fst (fst (fst (acquireAttempt config rq now lid hb s))) = Some (requestLease config rq now lid)"
proof -
  have "w_id w \<in> set (eligibleIds config now s1)"
    unfolding eligibleIds_def leaseUsage_zero
    by (rule eligibleLoop_first [OF assms(3) [unfolded firstUnblocked_def]]) (use assms(2) in simp)
  then show ?thesis using assms(1,4) by (simp add: acquireAttempt_def Let_def)
qed

lemma sorted_split:
  assumes "waiterOrder now aging a < waiterOrder now aging b"
    and "a \<in> set ws" and "b \<in> set ws"
  shows "\<exists>xs ys. sortedWaiters now aging ws = xs @ a # ys \<and> b \<notin> set xs"
proof -
  obtain xs ys where split: "sortedWaiters now aging ws = xs @ a # ys"
    using assms(2) set_sortedWaiters split_list by metis
  have "sorted (map (waiterOrder now aging) (xs @ a # ys))"
    unfolding split [symmetric] sortedWaiters_def by simp
  then have "\<forall>x \<in> set xs. waiterOrder now aging x \<le> waiterOrder now aging a"
    by (auto simp: sorted_append)
  with assms(1) have "b \<notin> set xs" by auto
  with split show ?thesis by blast
qed

text \<open>No overtaking: while a waiter that needs no bounded resource ranks before another one
  (foreground or aged first, then by request time), the later one is granted a slot only in an
  attempt where the earlier one would be granted a slot as well.\<close>

theorem eligible_no_overtaking:
  assumes "a \<in> set (s_waiters s)" and "w_resourceKey a = None"
    and "b \<in> set (s_waiters s)" and "distinct (map w_id (s_waiters s))"
    and "waiterOrder now (backgroundAgingMs config) a < waiterOrder now (backgroundAgingMs config) b"
    and "w_id b \<in> set (eligibleIds config now s)"
  shows "w_id a \<in> set (eligibleIds config now s)"
proof -
  from sorted_split [OF assms(5,1,3)] obtain xs ys where
    split: "sortedWaiters now (backgroundAgingMs config) (s_waiters s) = xs @ a # ys" "b \<notin> set xs"
    by blast
  then have "set xs \<subseteq> set (s_waiters s)" by (metis Un_upper1 set_append set_sortedWaiters)
  with assms(3,4) split(2) have "w_id b \<notin> w_id ` set xs"
    by (auto simp: distinct_map inj_on_def)
  with assms(2,6) split show ?thesis
    unfolding eligibleIds_def by (auto intro: eligibleLoop_no_overtaking)
qed

section \<open>The loop ends and cleans up\<close>

lemma acquireLoop_cases:
  obtains (stop) err f es where
      "acquireLoop config rq (t # ts) hb q disk = (failAcquire config rq t err f, es)"
      "es = [] \<or> \<not> q \<and> (\<exists>m. es = [Queued m])"
  | (grant) i m f where
      "acquireLoop config rq (t # ts) hb q disk = ((Acquired i m, f), [Running m])"
  | (wait) hb' f es where
      "acquireLoop config rq (t # ts) hb q disk =
         (fst (acquireLoop config rq ts hb' True f), es @ snd (acquireLoop config rq ts hb' True f))"
      "es = [] \<or> \<not> q \<and> (\<exists>m. es = [Queued m])"
      "t_now t - rq_requestedAt rq < queueTimeoutMs config"
proof (cases "t_aborted t \<or> t_now t - rq_requestedAt rq \<ge> queueTimeoutMs config \<or> \<not> t_locked t")
  case True
  then have "\<exists>err f. acquireLoop config rq (t # ts) hb q disk = (failAcquire config rq t err f, [])"
    by (auto simp: Let_def)
  with stop [where es = "[]"] show ?thesis by blast
next
  case False
  obtain granted hb' f where m: "mutate config (t_kill t) (t_lockNow t)
      (acquireAttempt config rq (t_now t) (t_leaseId t) hb) (t_others t disk) = ((granted, hb'), f)"
    by (metis prod.collapse)
  let ?es = "if q then [] else [Queued (t_doneNow t - rq_requestedAt rq)]"
  show ?thesis
  proof (cases granted)
    case None
    show ?thesis
    proof (cases "t_delayAborted t")
      case True
      with False m None have
        "acquireLoop config rq (t # ts) hb q disk = (failAcquire config rq t AbortError f, ?es)"
        by (simp add: Let_def)
      then show ?thesis by (rule stop) simp
    next
      case go: False
      with False m None have "acquireLoop config rq (t # ts) hb q disk =
         (fst (acquireLoop config rq ts hb' True f), ?es @ snd (acquireLoop config rq ts hb' True f))"
        by (simp add: Let_def case_prod_unfold)
      then show ?thesis by (rule wait) (use False in auto)
    qed
  next
    case (Some l)
    with False m show ?thesis by (intro grant) (simp add: Let_def)
  qed
qed

lemma acquireLoop_ends:
  "t \<in> set ts \<Longrightarrow> queueTimeoutMs config \<le> t_now t - rq_requestedAt rq \<Longrightarrow>
     fst (fst (acquireLoop config rq ts hb q disk)) \<noteq> Waiting"
proof (induction ts arbitrary: hb q disk)
  case (Cons u us)
  show ?case
  proof (cases rule: acquireLoop_cases [of config rq u us hb q disk])
    case (wait hb' f es)
    with Cons show ?thesis by auto
  qed (auto simp: failAcquire_def)
qed simp

text \<open>C25. Waiting ends: if every iteration of the loop starts at least 250 ms after the one before
  (the delay of the code), then after \<open>queueTimeoutMs / 250 + 1\<close> iterations \<open>acquire\<close> has
  returned a lease or thrown, whatever the other processes do.\<close>

theorem acquire_terminates:
  assumes "\<forall>i < length ts. t_now (ts ! i) \<ge> rq_requestedAt rq + 250 * int i"
    and "ts \<noteq> []" and "queueTimeoutMs config \<le> 250 * (int (length ts) - 1)"
  shows "fst (fst (acquire config rq ts disk)) \<noteq> Waiting"
proof -
  have "t_now (last ts) \<ge> rq_requestedAt rq + 250 * (int (length ts) - 1)"
    using assms(1) [rule_format, of "length ts - 1"] assms(2) by (simp add: last_conv_nth of_nat_diff)
  with assms(2,3) have "last ts \<in> set ts" "queueTimeoutMs config \<le> t_now (last ts) - rq_requestedAt rq"
    by auto
  then show ?thesis unfolding acquire_def by (rule acquireLoop_ends)
qed

text \<open>What a mutation that reports no change leaves in the file.\<close>

lemma loadState_unchanged:
  assumes "loadState config kill now (Some s) = (False, st)"
  shows "map w_id (s_waiters st) = map w_id (s_waiters s)"
proof -
  define n where "n = normalizeState (rawState s) (maxConcurrency config) (resourceLimits config)"
  have ids: "map w_id (List.map_filter normalizeWaiter (map rawWaiter ws)) = map w_id ws" for ws
    by (induction ws) (auto simp: List.map_filter_simps rawWaiter_def)
  have rec: "s_waiters (snd (reconcileLimits config x)) = s_waiters x" for x
    by (auto simp: reconcileLimits_def Let_def split: prod.split)
  obtain pruned p where p: "pruneState kill now (leaseMs config) n = (pruned, p)" by force
  from assms p have "\<not> pruned" "st = snd (reconcileLimits config p)"
    by (auto simp: loadState_def n_def [symmetric] split: prod.splits)
  with p have "filter (live_waiter kill now (leaseMs config)) (s_waiters n) = s_waiters n"
    "s_waiters p = s_waiters n"
    by (auto simp: pruneState_def Let_def filter_length_eq_iff)
  then show ?thesis
    using \<open>st = _\<close> ids by (simp add: rec n_def normalizeState_def rawState_def)
qed

lemma removeWaiter_removes:
  "case snd (mutate config kill now (removeWaiter i) disk) of
     None \<Rightarrow> True | Some s \<Rightarrow> i \<notin> w_id ` set (s_waiters s)"
proof -
  obtain changed st where load: "loadState config kill now disk = (changed, st)" by force
  let ?ws = "filter (\<lambda>w. w_id w \<noteq> i) (s_waiters st)"
  show ?thesis
  proof (cases "changed \<or> length ?ws \<noteq> length (s_waiters st)")
    case True
    with load show ?thesis by (auto simp: mutate_def removeWaiter_def Let_def)
  next
    case False
    then have same: "?ws = s_waiters st" by (simp add: filter_length_eq_iff)
    with load False have "snd (mutate config kill now (removeWaiter i) disk) = disk"
      by (simp add: mutate_def removeWaiter_def Let_def)
    moreover have "i \<notin> w_id ` set (s_waiters s)" if "disk = Some s" for s
    proof -
      from load that False have "map w_id (s_waiters s) = map w_id (s_waiters st)"
        using loadState_unchanged [of config kill now s st] by simp
      then have "w_id ` set (s_waiters s) = w_id ` set ?ws" using same by (metis set_map)
      then show ?thesis by auto
    qed
    ultimately show ?thesis by (cases disk) auto
  qed
qed

lemma acquireLoop_cleanup:
  "\<forall>t \<in> set ts. t_cleanup t \<Longrightarrow>
     case fst (acquireLoop config rq ts hb q disk) of
       (Failed err, Some s) \<Rightarrow> rq_waiterId rq \<notin> w_id ` set (s_waiters s)
     | _ \<Rightarrow> True"
proof (induction ts arbitrary: hb q disk)
  case (Cons t ts)
  show ?case
  proof (cases rule: acquireLoop_cases [of config rq t ts hb q disk])
    case (stop err f es)
    with Cons.prems
      removeWaiter_removes [of "rq_waiterId rq" config "t_kill t" "t_lockNow t" f]
    show ?thesis by (simp add: failAcquire_def split: option.splits)
  next
    case (wait hb' f es)
    with Cons show ?thesis by simp
  qed simp
qed simp

text \<open>A waiter never outlives its call: when \<open>acquire\<close> throws (abort, queue timeout or lock
  failure) and its cleanup obtains the lock, its waiter is no longer in the state file.\<close>

theorem acquire_failure_withdraws:
  assumes "fst (acquire config rq ts disk) = (Failed err, Some s)"
    and "\<forall>t \<in> set ts. t_cleanup t"
  shows "rq_waiterId rq \<notin> w_id ` set (s_waiters s)"
  using acquireLoop_cleanup [OF assms(2), where config = config and rq = rq and hb = 0 and q = False
      and disk = disk] assms(1)
  by (simp add: acquire_def)

text \<open>The state callbacks: at most one \<open>queued\<close>, then at most one \<open>running\<close>, which comes
  exactly with the lease.\<close>

lemma acquireLoop_states:
  "\<exists>qs rs. snd (acquireLoop config rq ts hb q disk) = qs @ rs \<and>
     (qs = [] \<or> (\<not> q \<and> (\<exists>m. qs = [Queued m]))) \<and>
     rs = (case fst (fst (acquireLoop config rq ts hb q disk)) of
             Acquired i m \<Rightarrow> [Running m] | _ \<Rightarrow> [])"
proof (induction ts arbitrary: hb q disk)
  case (Cons t ts)
  show ?case
  proof (cases rule: acquireLoop_cases [of config rq t ts hb q disk])
    case (stop err f es)
    then show ?thesis by (auto simp: failAcquire_def)
  next
    case (wait hb' f es)
    from Cons.IH [of hb' True f] wait show ?thesis by auto
  qed auto
qed simp

section \<open>Execution groups\<close>

datatype group_event = GRun nat | GSettle nat | GCancel | GClose

fun group_step :: "group_event \<Rightarrow> group \<Rightarrow> group" where
  "group_step (GRun p) g = snd (groupRun p g)"
| "group_step (GSettle p) g = groupSettle p g"
| "group_step GCancel g = groupCancel g"
| "group_step GClose g = groupClose g"

definition group_inv :: "group \<Rightarrow> bool" where
  "group_inv g \<longleftrightarrow> g_outstanding g = int (length (g_pending g)) \<and>
     g_outstanding g \<le> max 0 (g_maxFanout g)"

lemma group_step_inv: "group_inv g \<Longrightarrow> group_inv (group_step e g)"
  by (cases e)
    (auto simp: group_inv_def groupRun_def groupSettle_def groupCancel_def groupClose_def
      int_length_remove1)

definition closed_rank :: "group \<Rightarrow> nat" where
  "closed_rank g = of_bool (g_closed g) + of_bool (g_aborted g)"

lemma group_step_rank: "closed_rank g \<le> closed_rank (group_step e g)"
  by (cases e) (auto simp: closed_rank_def groupRun_def groupSettle_def groupCancel_def groupClose_def)

interpretation group: ranked_machine group_step "\<lambda>_. True" group_inv closed_rank
  by unfold_locales (auto intro: group_step_inv group_step_rank)

lemma group_fanout: "g_maxFanout (fold group_step es g) = g_maxFanout g"
proof (induction es arbitrary: g)
  case (Cons e es)
  have "g_maxFanout (group_step e g) = g_maxFanout g"
    by (cases e) (auto simp: groupRun_def groupSettle_def groupCancel_def groupClose_def)
  with Cons show ?case by simp
qed simp

text \<open>Execution groups: over any sequence of runs, settlements, cancellations and closes, the
  outstanding count is the number of unsettled promises and never passes the configured fan-out;
  and once a group is closed, every further run is rejected.\<close>

theorem group_bounded:
  "let g = fold group_step es (newGroup (loadSubagentConfig h env) parents);
       g' = fold group_step es' (groupClose g)
   in g_outstanding g = int (length (g_pending g)) \<and>
      g_outstanding g \<le> maxFanout (loadSubagentConfig h env) \<and>
      groupRun p g' = (GroupClosed, g')"
proof -
  let ?c = "loadSubagentConfig h env"
  let ?g = "fold group_step es (newGroup ?c parents)"
  let ?g' = "fold group_step es' (groupClose ?g)"
  have pos: "0 \<le> maxFanout ?c"
    using loadSubagentConfig_bounds [of h env] by (simp add: config_bounds_def in_range_def)
  have inv: "group_inv ?g"
    by (rule group.run_inv) (simp_all add: group_inv_def newGroup_def)
  then have "group_inv (groupClose ?g)" by (simp add: group_inv_def groupClose_def groupCancel_def)
  from group.run_rank [OF _ this, of es'] have "closed_rank (groupClose ?g) \<le> closed_rank ?g'"
    by simp
  then have "2 \<le> closed_rank ?g'"
    by (simp only: closed_rank_def groupClose_def groupCancel_def) simp
  then have "g_closed ?g'"
    by (cases "g_closed ?g'"; cases "g_aborted ?g'") (simp_all add: closed_rank_def)
  moreover have "g_maxFanout ?g = maxFanout ?c"
    by (simp add: group_fanout) (simp add: newGroup_def)
  ultimately show ?thesis
    using inv pos by (simp add: group_inv_def groupRun_def Let_def)
qed

section \<open>Witnesses\<close>

definition demo_host :: host where
  "demo_host = \<lparr>homedir = ''/h'', path_resolve = id, path_join = concat, json_parse = (\<lambda>_. None)\<rparr>"

definition demo_config :: subagent_config where
  "demo_config = loadSubagentConfig demo_host (\<lambda>_. None)"

definition demo_request :: "string \<Rightarrow> priority \<Rightarrow> int \<Rightarrow> request" where
  "demo_request i p asked = \<lparr>rq_waiterId = i, rq_ownerId = ''o'', rq_pid = 7, rq_requestedAt = asked,
     rq_label = None, rq_priority = Some p, rq_resourceKey = None\<rparr>"

definition demo_sched :: sched where
  "demo_sched = emptyState 8 []"

lemma demo_config_eq:
  "maxConcurrency demo_config = 8" "queueTimeoutMs demo_config = 1800000"
  "heartbeatMs demo_config = 5000" "leaseMs demo_config = 60000"
  "backgroundAgingMs demo_config = 60000" "resourceLimits demo_config = []" "maxFanout demo_config = 16"
  by (simp_all add: demo_config_def loadSubagentConfig_def parseInteger_def parseResourceLimits_def
      Let_def)

lemma demo_request_sel [simp]:
  "rq_waiterId (demo_request i p t) = i" "rq_requestedAt (demo_request i p t) = t"
  "requestPriority (demo_request i p t) = p" "requestKey (demo_request i p t) = None"
  by (simp_all add: demo_request_def requestPriority_def requestKey_def)

definition demo_waiter :: "string \<Rightarrow> priority \<Rightarrow> int \<Rightarrow> waiter" where
  "demo_waiter i p t = requestWaiter (demo_request i p t) t"

definition demo_tick :: "bool \<Rightarrow> int \<Rightarrow> tick" where
  "demo_tick aborted now = \<lparr>t_aborted = aborted, t_now = now, t_locked = True, t_lockNow = now,
     t_kill = (\<lambda>_. KillOk), t_leaseId = ''L'', t_doneNow = now, t_delayAborted = False,
     t_cleanup = True, t_others = id\<rparr>"

theorem acquireAttempt_progress_witness:
  "fst (fst (fst (acquireAttempt demo_config (demo_request ''a'' Background 100) 100 ''L'' 0 demo_sched)))
     = Some (requestLease demo_config (demo_request ''a'' Background 100) 100 ''L'')"
proof (rule acquireAttempt_progress)
  let ?w = "demo_waiter ''a'' Background 100"
  show "enrolWaiter demo_config (demo_request ''a'' Background 100) 100 0 demo_sched
      = ((100, True), demo_sched\<lparr>s_waiters := [?w]\<rparr>)"
    by (simp add: enrolWaiter_def demo_sched_def emptyState_def demo_waiter_def)
  show "int (length (s_leases (demo_sched\<lparr>s_waiters := [?w]\<rparr>))) < s_limit (demo_sched\<lparr>s_waiters := [?w]\<rparr>)"
    by (simp add: demo_sched_def emptyState_def)
  show "firstUnblocked demo_config 100 (demo_sched\<lparr>s_waiters := [?w]\<rparr>) = Some ?w"
    by (simp add: firstUnblocked_def sortedWaiters_def blocked_def demo_waiter_def requestWaiter_def)
  show "w_id ?w = rq_waiterId (demo_request ''a'' Background 100)"
    by (simp add: demo_waiter_def requestWaiter_def)
qed

theorem eligible_no_overtaking_witness:
  "''a'' \<in> set (eligibleIds demo_config 20 (demo_sched\<lparr>s_waiters :=
      [demo_waiter ''b'' Background 0, demo_waiter ''a'' Foreground 10]\<rparr>))"
proof -
  let ?a = "demo_waiter ''a'' Foreground 10" and ?b = "demo_waiter ''b'' Background 0"
  let ?s = "demo_sched\<lparr>s_waiters := [?b, ?a]\<rparr>"
  have sel: "w_id ?a = ''a''" "w_id ?b = ''b''" "w_resourceKey ?a = None" "w_resourceKey ?b = None"
    by (simp_all add: demo_waiter_def requestWaiter_def)
  have order: "waiterOrder 20 (backgroundAgingMs demo_config) ?a
      < waiterOrder 20 (backgroundAgingMs demo_config) ?b"
    by (simp add: waiterOrder_def waiterRank_def demo_waiter_def requestWaiter_def demo_config_eq)
  have "sortedWaiters 20 (backgroundAgingMs demo_config) [?b, ?a] = [?a, ?b]"
    using order by (simp add: sortedWaiters_def)
  then have "w_id ?b \<in> set (eligibleIds demo_config 20 ?s)"
    using sel by (simp add: eligibleIds_def demo_sched_def emptyState_def blocked_def)
  from eligible_no_overtaking [OF _ sel(3) _ _ order this] sel show ?thesis by simp
qed

theorem acquire_terminates_witness:
  "fst (fst (acquire (demo_config\<lparr>queueTimeoutMs := 250\<rparr>) (demo_request ''a'' Foreground 0)
     [demo_tick False 0, demo_tick False 250] (Some (demo_sched\<lparr>s_limit := 8\<rparr>)))) \<noteq> Waiting"
  by (rule acquire_terminates) (auto simp: demo_tick_def less_Suc_eq)

theorem acquire_failure_withdraws_witness:
  "rq_waiterId (demo_request ''a'' Foreground 0) \<notin> w_id ` set (s_waiters demo_sched)"
proof (rule acquire_failure_withdraws)
  show "fst (acquire demo_config (demo_request ''a'' Foreground 0) [demo_tick True 10]
      (Some (demo_sched\<lparr>s_waiters := [demo_waiter ''a'' Foreground 0]\<rparr>)))
      = (Failed AbortError, Some demo_sched)"
    by (simp add: acquire_def failAcquire_def demo_tick_def mutate_def loadState_def Let_def
        normalizeState_rawState sched_wf_def demo_sched_def emptyState_def limits_ok_def
        demo_waiter_def requestWaiter_def key_ok_def pruneState_def live_waiter_def
        isProcessAlive_def demo_request_def removeWaiter_def reconcileLimits_def demo_config_eq
        requestKey_def normalizeResourceKey_def)
  show "\<forall>t \<in> set [demo_tick True 10]. t_cleanup t" by (simp add: demo_tick_def)
qed

end
