(* ===== verification/CoordRecords.thy ===== *)
theory CoordRecords
  imports JsPrelude
begin

text \<open>
  \<open>extensions/_shared/coordinator-state.ts\<close>, the records: what session coordinators publish about
  a runtime (presence), the messages between sessions (envelopes), the sender's status records and
  the bindings of response requests. Every record read from a shared directory is validated by a
  normalizer, which rejects the whole record or returns a typed one with only the known fields.
\<close>

section \<open>Identifiers and text\<close>

definition DEFAULT_MESSAGE_TTL_MS :: rat where "DEFAULT_MESSAGE_TTL_MS = 86400000"
definition STALE_RETENTION_MS :: rat where "STALE_RETENTION_MS = 86400000"
definition MAX_MESSAGE_BYTES :: nat where "MAX_MESSAGE_BYTES = 8192"
definition MAX_INBOX_MESSAGES :: nat where "MAX_INBOX_MESSAGES = 100"
definition MAX_STATUS_CHARS :: nat where "MAX_STATUS_CHARS = 200"
definition MAX_WORKSPACE_CHANGES :: nat where "MAX_WORKSPACE_CHANGES = 10"
definition MAX_OUTGOING_STATUS_RECORDS :: nat where "MAX_OUTGOING_STATUS_RECORDS = 100"
definition MAX_SESSION_RECEIPTS :: nat where "MAX_SESSION_RECEIPTS = 100"
definition MAX_RESPONSE_REQUESTS :: nat where "MAX_RESPONSE_REQUESTS = 100"
definition MAX_PEER_WAKE_CLAIMS :: nat where "MAX_PEER_WAKE_CLAIMS = 100"

text \<open>The regular expressions as recognisers: one predicate for each position.\<close>

definition runtime_id_pattern :: "(char \<Rightarrow> bool) list" where
  "runtime_id_pattern =
     (let h = is_any_hex; dash = (\<lambda>c. c = CHR ''-'')
      in replicate 8 h @ [dash] @ replicate 4 h @
         [dash, \<lambda>c. c \<in> set ''12345678'', h, h, h, dash, \<lambda>c. c \<in> set ''89abAB'', h, h, h, dash] @
         replicate 12 h)"

definition is_runtime_id :: "string \<Rightarrow> bool" where
  "is_runtime_id s = list_all2 (\<lambda>p c. p c) runtime_id_pattern s"

definition is_room_id :: "string \<Rightarrow> bool" where
  "is_room_id s \<longleftrightarrow>
     take 4 s \<in> {''git-'', ''cwd-''} \<and> length s = 36 \<and> list_all is_lower_hex (drop 4 s)"

definition is_control :: "char \<Rightarrow> bool" where
  "is_control c = (let n = (of_char c :: nat) in n \<le> 31 \<or> n = 127)"

definition sanitizeText :: "string \<Rightarrow> string" where
  "sanitizeText s = js_trim (collapse_ws (map (\<lambda>c. if is_control c then CHR '' '' else c) s))"

definition sanitizeStatus :: "string option \<Rightarrow> string option" where
  "sanitizeStatus value =
     (case value of
        None \<Rightarrow> None
      | Some s \<Rightarrow> let t = take MAX_STATUS_CHARS (sanitizeText s) in if t = [] then None else Some t)"

text \<open>\<open>value.replace(/\r\n?/g, "\n")\<close>.\<close>

fun unify_newlines :: "string \<Rightarrow> string" where
  "unify_newlines [] = []"
| "unify_newlines (c # cs) =
     (if c = CHR 13
      then CHR 10 # (case cs of [] \<Rightarrow> [] | d # ds \<Rightarrow> if d = CHR 10 then unify_newlines ds else unify_newlines cs)
      else c # unify_newlines cs)"

definition is_stripped :: "char \<Rightarrow> bool" where
  "is_stripped c = (let n = (of_char c :: nat) in
     n \<le> 8 \<or> n = 11 \<or> n = 12 \<or> (14 \<le> n \<and> n \<le> 31) \<or> (127 \<le> n \<and> n \<le> 159))"

definition sanitizeMessage :: "string \<Rightarrow> string" where
  "sanitizeMessage value = js_trim (filter (\<lambda>c. \<not> is_stripped c) (unify_newlines value))"

section \<open>Presence\<close>

datatype activity = Busy | Idle

record presence =
  p_roomId :: string
  p_runtimeId :: string
  p_pid :: int
  p_sessionId :: string
  p_sessionName :: "string option"
  p_cwd :: string
  p_worktreeRoot :: string
  p_branch :: "string option"
  p_activity :: activity
  p_status :: "string option"
  p_startedAt :: rat
  p_heartbeatAt :: rat
  p_leaseExpiresAt :: rat
  p_protocolVersion :: bool
  p_requestResponseVersion :: bool
  p_autoWakeVersion :: bool
  p_ephemeral :: bool
  p_workspaceChanges :: "string list option"
  p_workspaceChangesOmitted :: "int option"

fun parseActivity :: "jsval \<Rightarrow> activity option" where
  "parseActivity (Some (JStr s)) =
     (if s = ''busy'' then Some Busy else if s = ''idle'' then Some Idle else None)"
| "parseActivity _ = None"

definition activityJson :: "activity \<Rightarrow> json" where
  "activityJson a = JStr (case a of Busy \<Rightarrow> ''busy'' | Idle \<Rightarrow> ''idle'')"

definition normalizeWorkspaceChanges :: "jsval \<Rightarrow> string list option" where
  "normalizeWorkspaceChanges v =
     (case asArr v of
        None \<Rightarrow> None
      | Some items \<Rightarrow>
          if length items > MAX_WORKSPACE_CHANGES then None
          else those (map (\<lambda>item. boundedString (Some item) 512) items))"

definition normalizePresence :: "jsval \<Rightarrow> presence option" where
  "normalizePresence value = do {
     require (isRecord value);
     runtimeId \<leftarrow> boundedString (get value ''runtimeId'') 64;
     room \<leftarrow> boundedString (get value ''roomId'') 64;
     sessionId \<leftarrow> boundedString (get value ''sessionId'') 1024;
     cwd \<leftarrow> boundedString (get value ''cwd'') 8192;
     worktreeRoot \<leftarrow> boundedString (get value ''worktreeRoot'') 8192;
     require (jIs (get value ''version'') 1 \<and> is_runtime_id runtimeId \<and> is_room_id room);
     pid \<leftarrow> intNum (get value ''pid'');
     require (0 < pid);
     act \<leftarrow> parseActivity (get value ''activity'');
     startedAt \<leftarrow> finiteNum (get value ''startedAt'');
     heartbeatAt \<leftarrow> finiteNum (get value ''heartbeatAt'');
     leaseExpiresAt \<leftarrow> finiteNum (get value ''leaseExpiresAt'');
     require (get value ''capabilities'' = Some (JArr [JStr ''messages'']));
     let protocol = get value ''protocolVersion'';
     let request = get value ''requestResponseVersion'';
     let wake = get value ''autoWakeVersion'';
     let eph = get value ''ephemeral'';
     let omitted = get value ''workspaceChangesOmitted'';
     require (protocol = None \<or> jIs protocol 2);
     require (request = None \<or> jIs request 1);
     require (wake = None \<or> (jIs wake 1 \<and> jIs request 1 \<and> \<not> jTrue eph));
     require (eph = None \<or> jTrue eph);
     require (\<not> (jTrue eph \<and> request \<noteq> None));
     require (omitted = None \<or> (case intNum omitted of None \<Rightarrow> False | Some n \<Rightarrow> 0 \<le> n));
     Some \<lparr>p_roomId = room, p_runtimeId = runtimeId, p_pid = pid, p_sessionId = sessionId,
       p_sessionName = boundedString (get value ''sessionName'') 200, p_cwd = cwd,
       p_worktreeRoot = worktreeRoot, p_branch = boundedString (get value ''branch'') 256,
       p_activity = act, p_status = sanitizeStatus (asStr (get value ''status'')),
       p_startedAt = startedAt, p_heartbeatAt = heartbeatAt, p_leaseExpiresAt = leaseExpiresAt,
       p_protocolVersion = jIs protocol 2, p_requestResponseVersion = jIs request 1,
       p_autoWakeVersion = jIs wake 1, p_ephemeral = jTrue eph,
       p_workspaceChanges = normalizeWorkspaceChanges (get value ''workspaceChanges''),
       p_workspaceChangesOmitted = intNum omitted\<rparr>
   }"

text \<open>The object that is written for a presence record.\<close>

abbreviation jnumber :: "rat \<Rightarrow> json" where
  "jnumber r \<equiv> JNum (Fin r)"

definition flag :: "bool \<Rightarrow> json \<Rightarrow> jsval" where
  "flag b v = (if b then Some v else None)"

definition presenceFields :: "presence \<Rightarrow> (string \<times> jsval) list" where
  "presenceFields p =
     [(''version'', Some (jnumber 1)), (''roomId'', Some (JStr (p_roomId p))),
      (''runtimeId'', Some (JStr (p_runtimeId p))), (''pid'', Some (jnumber (of_int (p_pid p)))),
      (''sessionId'', Some (JStr (p_sessionId p))),
      (''sessionName'', map_option JStr (p_sessionName p)), (''cwd'', Some (JStr (p_cwd p))),
      (''worktreeRoot'', Some (JStr (p_worktreeRoot p))),
      (''branch'', map_option JStr (p_branch p)), (''activity'', Some (activityJson (p_activity p))),
      (''status'', map_option JStr (p_status p)), (''startedAt'', Some (jnumber (p_startedAt p))),
      (''heartbeatAt'', Some (jnumber (p_heartbeatAt p))),
      (''leaseExpiresAt'', Some (jnumber (p_leaseExpiresAt p))),
      (''capabilities'', Some (JArr [JStr ''messages''])),
      (''protocolVersion'', flag (p_protocolVersion p) (jnumber 2)),
      (''requestResponseVersion'', flag (p_requestResponseVersion p) (jnumber 1)),
      (''autoWakeVersion'', flag (p_autoWakeVersion p) (jnumber 1)),
      (''ephemeral'', flag (p_ephemeral p) (JBool True)),
      (''workspaceChanges'', map_option (\<lambda>fs. JArr (map JStr fs)) (p_workspaceChanges p)),
      (''workspaceChangesOmitted'',
         map_option (\<lambda>n. jnumber (of_int n)) (p_workspaceChangesOmitted p))]"

definition presenceJson :: "presence \<Rightarrow> json" where
  "presenceJson p = obj (presenceFields p)"

section \<open>Envelopes\<close>

record sender =
  sd_runtimeId :: string
  sd_sessionId :: string
  sd_sessionName :: "string option"
  sd_worktreeRoot :: string

record envelope =
  e_id :: string
  e_roomId :: string
  e_targetRuntimeId :: string
  e_targetSessionId :: "string option"
  e_sender :: sender
  e_message :: string
  e_inReplyTo :: "string option"
  e_requestAcknowledgment :: bool
  e_requestResponse :: bool
  e_hops :: nat
  e_createdAt :: rat
  e_expiresAt :: rat

definition parseHops :: "jsval \<Rightarrow> nat option" where
  "parseHops v = (if jIs v 0 then Some 0 else if jIs v 1 then Some 1 else None)"

definition normalizeEnvelope :: "jsval \<Rightarrow> envelope option" where
  "normalizeEnvelope value = do {
     require (isRecord value \<and> isRecord (get value ''sender''));
     let snd = get value ''sender'';
     let targetSession = get value ''targetSessionId'';
     let reply = get value ''inReplyTo'';
     let ack = get value ''requestAcknowledgment'';
     let resp = get value ''requestResponse'';
     let message = (case asStr (get value ''message'') of None \<Rightarrow> [] | Some m \<Rightarrow> sanitizeMessage m);
     require (jIs (get value ''version'') 1);
     i \<leftarrow> boundedString (get value ''id'') 64;
     room \<leftarrow> boundedString (get value ''roomId'') 64;
     target \<leftarrow> boundedString (get value ''targetRuntimeId'') 64;
     senderRuntime \<leftarrow> boundedString (get snd ''runtimeId'') 64;
     senderSession \<leftarrow> boundedString (get snd ''sessionId'') 1024;
     senderWorktree \<leftarrow> boundedString (get snd ''worktreeRoot'') 8192;
     require (is_runtime_id i \<and> is_room_id room \<and> is_runtime_id target \<and> is_runtime_id senderRuntime);
     require (message \<noteq> [] \<and> utf8_length message \<le> MAX_MESSAGE_BYTES);
     hops \<leftarrow> parseHops (get value ''hops'');
     createdAt \<leftarrow> finiteNum (get value ''createdAt'');
     expiresAt \<leftarrow> finiteNum (get value ''expiresAt'');
     require (targetSession = None \<or> boundedString targetSession 1024 \<noteq> None);
     require (reply = None \<or> (case asStr reply of None \<Rightarrow> False | Some r \<Rightarrow> is_runtime_id r));
     require (ack = None \<or> isBool ack);
     require (resp = None \<or> isBool resp);
     require (\<not> (jTrue resp \<and> (boundedString targetSession 1024 = None \<or> hops \<noteq> 0 \<or> reply \<noteq> None)));
     require (jTrue (get value ''untrusted''));
     Some \<lparr>e_id = i, e_roomId = room, e_targetRuntimeId = target,
       e_targetSessionId = boundedString targetSession 1024,
       e_sender = \<lparr>sd_runtimeId = senderRuntime, sd_sessionId = senderSession,
         sd_sessionName = boundedString (get snd ''sessionName'') 200,
         sd_worktreeRoot = senderWorktree\<rparr>,
       e_message = message, e_inReplyTo = boundedString reply 64,
       e_requestAcknowledgment = jTrue ack, e_requestResponse = jTrue resp, e_hops = hops,
       e_createdAt = createdAt, e_expiresAt = expiresAt\<rparr>
   }"

definition senderFields :: "sender \<Rightarrow> (string \<times> jsval) list" where
  "senderFields s =
     [(''runtimeId'', Some (JStr (sd_runtimeId s))), (''sessionId'', Some (JStr (sd_sessionId s))),
      (''sessionName'', map_option JStr (sd_sessionName s)),
      (''worktreeRoot'', Some (JStr (sd_worktreeRoot s)))]"

definition envelopeFields :: "envelope \<Rightarrow> (string \<times> jsval) list" where
  "envelopeFields e =
     [(''version'', Some (jnumber 1)), (''id'', Some (JStr (e_id e))),
      (''roomId'', Some (JStr (e_roomId e))),
      (''targetRuntimeId'', Some (JStr (e_targetRuntimeId e))),
      (''targetSessionId'', map_option JStr (e_targetSessionId e)),
      (''sender'', Some (obj (senderFields (e_sender e)))), (''message'', Some (JStr (e_message e))),
      (''inReplyTo'', map_option JStr (e_inReplyTo e)),
      (''requestAcknowledgment'', flag (e_requestAcknowledgment e) (JBool True)),
      (''requestResponse'', flag (e_requestResponse e) (JBool True)),
      (''hops'', Some (jnumber (of_nat (e_hops e)))), (''createdAt'', Some (jnumber (e_createdAt e))),
      (''expiresAt'', Some (jnumber (e_expiresAt e))), (''untrusted'', Some (JBool True))]"

definition envelopeJson :: "envelope \<Rightarrow> json" where
  "envelopeJson e = obj (envelopeFields e)"

text \<open>\<open>createEnvelope\<close>, with the fresh identifier and the clock as arguments.\<close>

record envelope_input =
  in_roomId :: string
  in_targetRuntimeId :: string
  in_targetSessionId :: "string option"
  in_sender :: sender
  in_message :: string
  in_inReplyTo :: "string option"
  in_requestAcknowledgment :: "bool option"
  in_requestResponse :: "bool option"
  in_hops :: "nat option"

datatype envelope_error = ResponseRequestShape | MessageSize

definition inputFields :: "string \<Rightarrow> rat \<Rightarrow> envelope_input \<Rightarrow> (string \<times> jsval) list" where
  "inputFields freshId now input =
     [(''version'', Some (jnumber 1)), (''id'', Some (JStr freshId)),
      (''roomId'', Some (JStr (in_roomId input))),
      (''targetRuntimeId'', Some (JStr (in_targetRuntimeId input))),
      (''targetSessionId'', map_option JStr (in_targetSessionId input)),
      (''sender'', Some (obj (senderFields (in_sender input)))),
      (''message'', Some (JStr (sanitizeMessage (in_message input)))),
      (''inReplyTo'', map_option JStr (in_inReplyTo input)),
      (''requestAcknowledgment'', flag (in_requestAcknowledgment input = Some True) (JBool True)),
      (''requestResponse'', map_option JBool (in_requestResponse input)),
      (''hops'', Some (jnumber (of_nat (case in_hops input of None \<Rightarrow> 0 | Some h \<Rightarrow> h)))),
      (''createdAt'', Some (jnumber now)),
      (''expiresAt'', Some (jnumber (now + DEFAULT_MESSAGE_TTL_MS))),
      (''untrusted'', Some (JBool True))]"

definition createEnvelope :: "string \<Rightarrow> rat \<Rightarrow> envelope_input \<Rightarrow> envelope_error + envelope" where
  "createEnvelope freshId now input =
     (let hops = (case in_hops input of None \<Rightarrow> 0 | Some h \<Rightarrow> h) in
      if in_requestResponse input = Some True \<and>
         (boundedString (map_option JStr (in_targetSessionId input)) 1024 = None \<or> hops \<noteq> 0 \<or>
          in_inReplyTo input \<noteq> None)
      then Inl ResponseRequestShape
      else case normalizeEnvelope (Some (obj (inputFields freshId now input))) of
          None \<Rightarrow> Inl MessageSize
        | Some e \<Rightarrow> Inr e)"

section \<open>Message status records\<close>

datatype message_status = StPending | StQueued | StDelivered | StSurfaced | StAcknowledged | StReplied

fun statusRank :: "message_status \<Rightarrow> nat" where
  "statusRank StPending = 0"
| "statusRank StQueued = 1"
| "statusRank StDelivered = 2"
| "statusRank StSurfaced = 3"
| "statusRank StAcknowledged = 4"
| "statusRank StReplied = 5"

lemma statusRank_inj [simp]: "statusRank a = statusRank b \<longleftrightarrow> a = b"
  by (cases a; cases b) auto

text \<open>\<open>MESSAGE_STATUS_RANK\<close> orders the statuses.\<close>

instantiation message_status :: linorder
begin

definition less_eq_message_status :: "message_status \<Rightarrow> message_status \<Rightarrow> bool" where
  "less_eq_message_status a b \<longleftrightarrow> statusRank a \<le> statusRank b"

definition less_message_status :: "message_status \<Rightarrow> message_status \<Rightarrow> bool" where
  "less_message_status a b \<longleftrightarrow> statusRank a < statusRank b"

instance
  by standard (auto simp: less_eq_message_status_def less_message_status_def)

end

fun statusName :: "message_status \<Rightarrow> string" where
  "statusName StPending = ''pending''"
| "statusName StQueued = ''queued''"
| "statusName StDelivered = ''delivered''"
| "statusName StSurfaced = ''surfaced''"
| "statusName StAcknowledged = ''acknowledged''"
| "statusName StReplied = ''replied''"

definition parseStatus :: "jsval \<Rightarrow> message_status option" where
  "parseStatus v = (case asStr v of
       None \<Rightarrow> None
     | Some s \<Rightarrow> List.find (\<lambda>st. statusName st = s)
         [StPending, StQueued, StDelivered, StSurfaced, StAcknowledged, StReplied])"

record status_record =
  r_messageId :: string
  r_senderSessionId :: string
  r_targetRoomId :: string
  r_targetRuntimeId :: string
  r_targetSessionId :: "string option"
  r_targetSessionName :: "string option"
  r_trackingSupported :: bool
  r_acknowledgmentRequested :: bool
  r_responseRequested :: "bool option"
  r_status :: message_status
  r_createdAt :: rat
  r_updatedAt :: rat
  r_expiresAt :: rat
  r_deliveredAt :: "rat option"
  r_surfacedAt :: "rat option"
  r_acknowledgedAt :: "rat option"
  r_repliedAt :: "rat option"
  r_responseAnsweredAt :: "rat option"

fun asBool :: "jsval \<Rightarrow> bool option" where
  "asBool (Some (JBool b)) = Some b"
| "asBool _ = None"

lemma asBool_Some [simp]: "asBool v = Some b \<longleftrightarrow> v = Some (JBool b)"
  by (cases v rule: asBool.cases) auto

definition normalizeMessageStatusRecord :: "jsval \<Rightarrow> status_record option" where
  "normalizeMessageStatusRecord value = do {
     require (isRecord value);
     let targetSession = get value ''targetSessionId'';
     let resp = get value ''responseRequested'';
     messageId \<leftarrow> boundedString (get value ''messageId'') 64;
     senderSession \<leftarrow> boundedString (get value ''senderSessionId'') 1024;
     room \<leftarrow> boundedString (get value ''targetRoomId'') 64;
     target \<leftarrow> boundedString (get value ''targetRuntimeId'') 64;
     require (jIs (get value ''version'') 1 \<and> is_runtime_id messageId \<and> is_room_id room \<and>
       is_runtime_id target);
     require (targetSession = None \<or> boundedString targetSession 1024 \<noteq> None);
     tracking \<leftarrow> asBool (get value ''trackingSupported'');
     ack \<leftarrow> asBool (get value ''acknowledgmentRequested'');
     require (resp = None \<or> isBool resp);
     require (\<not> (jTrue resp \<and> boundedString targetSession 1024 = None));
     status \<leftarrow> parseStatus (get value ''status'');
     createdAt \<leftarrow> finiteNum (get value ''createdAt'');
     updatedAt \<leftarrow> finiteNum (get value ''updatedAt'');
     expiresAt \<leftarrow> finiteNum (get value ''expiresAt'');
     Some \<lparr>r_messageId = messageId, r_senderSessionId = senderSession, r_targetRoomId = room,
       r_targetRuntimeId = target, r_targetSessionId = boundedString targetSession 1024,
       r_targetSessionName = boundedString (get value ''targetSessionName'') 200,
       r_trackingSupported = tracking, r_acknowledgmentRequested = ack,
       r_responseRequested = asBool resp, r_status = status, r_createdAt = createdAt,
       r_updatedAt = updatedAt, r_expiresAt = expiresAt,
       r_deliveredAt = finiteNum (get value ''deliveredAt''),
       r_surfacedAt = finiteNum (get value ''surfacedAt''),
       r_acknowledgedAt = finiteNum (get value ''acknowledgedAt''),
       r_repliedAt = finiteNum (get value ''repliedAt''),
       r_responseAnsweredAt =
         (if jTrue resp then finiteNum (get value ''responseAnsweredAt'') else None)\<rparr>
   }"

definition statusFields :: "status_record \<Rightarrow> (string \<times> jsval) list" where
  "statusFields r =
     [(''version'', Some (jnumber 1)), (''messageId'', Some (JStr (r_messageId r))),
      (''senderSessionId'', Some (JStr (r_senderSessionId r))),
      (''targetRoomId'', Some (JStr (r_targetRoomId r))),
      (''targetRuntimeId'', Some (JStr (r_targetRuntimeId r))),
      (''targetSessionId'', map_option JStr (r_targetSessionId r)),
      (''targetSessionName'', map_option JStr (r_targetSessionName r)),
      (''trackingSupported'', Some (JBool (r_trackingSupported r))),
      (''acknowledgmentRequested'', Some (JBool (r_acknowledgmentRequested r))),
      (''responseRequested'', map_option JBool (r_responseRequested r)),
      (''status'', Some (JStr (statusName (r_status r)))),
      (''createdAt'', Some (jnumber (r_createdAt r))), (''updatedAt'', Some (jnumber (r_updatedAt r))),
      (''expiresAt'', Some (jnumber (r_expiresAt r))),
      (''deliveredAt'', map_option jnumber (r_deliveredAt r)),
      (''surfacedAt'', map_option jnumber (r_surfacedAt r)),
      (''acknowledgedAt'', map_option jnumber (r_acknowledgedAt r)),
      (''repliedAt'', map_option jnumber (r_repliedAt r)),
      (''responseAnsweredAt'', map_option jnumber (r_responseAnsweredAt r))]"

definition statusJson :: "status_record \<Rightarrow> json" where
  "statusJson r = obj (statusFields r)"

section \<open>Bindings of response requests\<close>

record binding =
  b_messageId :: string
  b_senderSessionId :: string
  b_recipientSessionId :: string
  b_expiresAt :: rat

definition validResponseBinding :: "jsval \<Rightarrow> binding option" where
  "validResponseBinding value = do {
     require (isRecord value);
     messageId \<leftarrow> asStr (get value ''messageId'');
     require (is_runtime_id messageId);
     senderSession \<leftarrow> boundedString (get value ''senderSessionId'') 1024;
     recipient \<leftarrow> boundedString (get value ''recipientSessionId'') 1024;
     expiresAt \<leftarrow> finiteNum (get value ''expiresAt'');
     require (0 < expiresAt);
     Some \<lparr>b_messageId = messageId, b_senderSessionId = senderSession,
       b_recipientSessionId = recipient, b_expiresAt = expiresAt\<rparr>
   }"

definition bindingFields :: "('a) binding_scheme \<Rightarrow> (string \<times> jsval) list" where
  "bindingFields b =
     [(''messageId'', Some (JStr (b_messageId b))),
      (''senderSessionId'', Some (JStr (b_senderSessionId b))),
      (''recipientSessionId'', Some (JStr (b_recipientSessionId b))),
      (''expiresAt'', Some (jnumber (b_expiresAt b)))]"

text \<open>The same checks on a typed binding, as the callers of the ledgers apply them.\<close>

definition binding_ok :: "('a) binding_scheme \<Rightarrow> bool" where
  "binding_ok b \<longleftrightarrow> is_runtime_id (b_messageId b) \<and>
     b_senderSessionId b \<noteq> [] \<and> length (b_senderSessionId b) \<le> 1024 \<and>
     b_recipientSessionId b \<noteq> [] \<and> length (b_recipientSessionId b) \<le> 1024 \<and> 0 < b_expiresAt b"

section \<open>What is written is read back\<close>

lemma unify_newlines_no_cr: "CHR 13 \<notin> set (unify_newlines s)"
  by (induction s rule: unify_newlines.induct) (auto split: list.splits)

lemma unify_newlines_fixed: "CHR 13 \<notin> set s \<Longrightarrow> unify_newlines s = s"
  by (induction s rule: unify_newlines.induct) (auto split: list.splits)

lemma sanitizeMessage_clean: "c \<in> set (sanitizeMessage s) \<Longrightarrow> c \<noteq> CHR 13 \<and> \<not> is_stripped c"
  using unify_newlines_no_cr [of s] js_trim_subset
  by (fastforce simp: sanitizeMessage_def)

lemma sanitizeMessage_idem [simp]: "sanitizeMessage (sanitizeMessage s) = sanitizeMessage s"
proof -
  let ?t = "sanitizeMessage s"
  have "unify_newlines ?t = ?t" using sanitizeMessage_clean by (blast intro: unify_newlines_fixed)
  moreover have "filter (\<lambda>c. \<not> is_stripped c) ?t = ?t"
    using sanitizeMessage_clean by (simp add: filter_id_conv)
  moreover have "js_trim ?t = ?t" by (simp add: sanitizeMessage_def)
  ultimately show ?thesis by (simp add: sanitizeMessage_def)
qed

lemma collapse_from_set: "set (collapse_from b s) \<subseteq> insert (CHR '' '') (set s)"
  by (induction b s rule: collapse_from.induct) auto

lemma get_envelopeJson: "get (Some (envelopeJson e)) k = lookup_field (envelopeFields e) k"
  unfolding envelopeJson_def by (rule get_obj) (simp add: envelopeFields_def)

lemma get_senderJson: "get (Some (obj (senderFields s))) k = lookup_field (senderFields s) k"
  by (rule get_obj) (simp add: senderFields_def)

lemma get_statusJson: "get (Some (statusJson r)) k = lookup_field (statusFields r) k"
  unfolding statusJson_def by (rule get_obj) (simp add: statusFields_def)

lemma get_presenceJson: "get (Some (presenceJson p)) k = lookup_field (presenceFields p) k"
  unfolding presenceJson_def by (rule get_obj) (simp add: presenceFields_def)

lemma get_bindingJson: "get (Some (obj (bindingFields b))) k = lookup_field (bindingFields b) k"
  by (rule get_obj) (simp add: bindingFields_def)

lemma flag_iff [simp]: "flag b v = Some w \<longleftrightarrow> b \<and> v = w" "flag b v = None \<longleftrightarrow> \<not> b"
  by (auto simp: flag_def)

lemma parseStatus_statusName [simp]: "parseStatus (Some (JStr (statusName st))) = Some st"
  by (cases st) (simp_all add: parseStatus_def)

lemma parseActivity_activityJson [simp]: "parseActivity (Some (activityJson a)) = Some a"
  by (cases a) (simp_all add: activityJson_def)

text \<open>The envelopes and status records that the normalizers return.\<close>

definition str_ok :: "nat \<Rightarrow> string \<Rightarrow> bool" where
  "str_ok mx s \<longleftrightarrow> s \<noteq> [] \<and> length s \<le> mx"

definition opt_str_ok :: "nat \<Rightarrow> string option \<Rightarrow> bool" where
  "opt_str_ok mx v \<longleftrightarrow> (case v of None \<Rightarrow> True | Some s \<Rightarrow> str_ok mx s)"

lemma length_runtime_id: "is_runtime_id s \<Longrightarrow> length s = 36"
  by (auto simp: is_runtime_id_def runtime_id_pattern_def Let_def dest!: list_all2_lengthD)

lemma is_runtime_id_str_ok [simp]: "is_runtime_id s \<Longrightarrow> s \<noteq> []" "is_runtime_id s \<Longrightarrow> length s \<le> 64"
  using length_runtime_id by fastforce+

lemma is_room_id_str_ok [simp]: "is_room_id s \<Longrightarrow> s \<noteq> []" "is_room_id s \<Longrightarrow> length s \<le> 64"
  by (auto simp: is_room_id_def)

lemma boundedString_Some_JStr: "boundedString (Some (JStr s)) mx = (if str_ok mx s then Some s else None)"
  by (auto simp: boundedString_def str_ok_def)

lemma boundedString_opt_JStr:
  "boundedString (map_option JStr v) mx = v \<longleftrightarrow> opt_str_ok mx v"
  by (cases v) (auto simp: boundedString_Some_JStr opt_str_ok_def)

lemma opt_str_ok_boundedString [simp]: "opt_str_ok mx (boundedString v mx)"
  by (auto simp: opt_str_ok_def str_ok_def split: option.splits)

definition envelope_ok :: "envelope \<Rightarrow> bool" where
  "envelope_ok e \<longleftrightarrow>
     is_runtime_id (e_id e) \<and> is_room_id (e_roomId e) \<and> is_runtime_id (e_targetRuntimeId e) \<and>
     is_runtime_id (sd_runtimeId (e_sender e)) \<and> str_ok 1024 (sd_sessionId (e_sender e)) \<and>
     opt_str_ok 200 (sd_sessionName (e_sender e)) \<and> str_ok 8192 (sd_worktreeRoot (e_sender e)) \<and>
     opt_str_ok 1024 (e_targetSessionId e) \<and>
     e_message e \<noteq> [] \<and> sanitizeMessage (e_message e) = e_message e \<and>
     utf8_length (e_message e) \<le> MAX_MESSAGE_BYTES \<and>
     (case e_inReplyTo e of None \<Rightarrow> True | Some r \<Rightarrow> is_runtime_id r) \<and> e_hops e \<le> 1 \<and>
     (e_requestResponse e \<longrightarrow> e_targetSessionId e \<noteq> None \<and> e_hops e = 0 \<and> e_inReplyTo e = None)"

lemma sanitizeMessage_Nil [simp]: "sanitizeMessage [] = []"
  by (simp add: sanitizeMessage_def js_trim_def)

lemma normalizeEnvelope_message:
  "(case v of None \<Rightarrow> [] | Some m \<Rightarrow> sanitizeMessage m) = t \<Longrightarrow> sanitizeMessage t = t"
  by (cases v) auto

lemma normalizeEnvelope_ok: "normalizeEnvelope v = Some e \<Longrightarrow> envelope_ok e"
  unfolding normalizeEnvelope_def Let_def bind_eq_Some_conv
  apply (clarsimp simp: envelope_ok_def str_ok_def)
  apply (intro conjI)
  apply ((simp; fail)| (auto simp:parseHops_def split: option.splits if_splits)[1])+
  done

lemma parseHops_nat: "parseHops (Some (jnumber (of_nat n))) = (if n \<le> 1 then Some n else None)"
  by (auto simp: parseHops_def le_Suc_eq)

lemma isRecord_envelopeJson [simp]: "isRecord (Some (envelopeJson e))"
  by (simp add: envelopeJson_def)

lemma flag_simps [simp]: "flag True v = Some v" "flag False v = None"
  by (simp_all add: flag_def)

lemma opt_str_ok_simps [simp]:
  "opt_str_ok mx None" "opt_str_ok mx (Some s) \<longleftrightarrow> s \<noteq> [] \<and> length s \<le> mx"
  by (simp_all add: opt_str_ok_def str_ok_def)

lemma boundedString_opt_ok [simp]: "opt_str_ok mx v \<Longrightarrow> boundedString (map_option JStr v) mx = v"
  by (simp add: boundedString_opt_JStr)

lemma map_option_JStr_None [simp]: "map_option f v = None \<longleftrightarrow> v = None"
  by (cases v) auto

lemma normalizeEnvelope_read:
  "normalizeEnvelope (Some (envelopeJson e)) = Some e \<longleftrightarrow> envelope_ok e"
proof
  assume ok: "envelope_ok e"
  have id: "opt_str_ok 64 (e_inReplyTo e)"
    using ok by (auto simp: envelope_ok_def opt_str_ok_def str_ok_def split: option.splits)
  show "normalizeEnvelope (Some (envelopeJson e)) = Some e"
    using ok id unfolding envelope_ok_def
    by (cases "e_inReplyTo e"; cases "e_targetSessionId e")
      (simp_all add: normalizeEnvelope_def Let_def get_envelopeJson envelopeFields_def
       lookup_field_Cons get_obj_Cons get_obj_Nil senderFields_def parseHops_nat
       boundedString_Some_JStr str_ok_def)
qed (rule normalizeEnvelope_ok)

definition record_ok :: "status_record \<Rightarrow> bool" where
  "record_ok r \<longleftrightarrow>
     is_runtime_id (r_messageId r) \<and> str_ok 1024 (r_senderSessionId r) \<and>
     is_room_id (r_targetRoomId r) \<and> is_runtime_id (r_targetRuntimeId r) \<and>
     opt_str_ok 1024 (r_targetSessionId r) \<and> opt_str_ok 200 (r_targetSessionName r) \<and>
     (r_responseRequested r = Some True \<longrightarrow> r_targetSessionId r \<noteq> None) \<and>
     (r_responseAnsweredAt r \<noteq> None \<longrightarrow> r_responseRequested r = Some True)"

lemma normalizeMessageStatusRecord_ok: "normalizeMessageStatusRecord v = Some r \<Longrightarrow> record_ok r"
  unfolding normalizeMessageStatusRecord_def Let_def bind_eq_Some_conv
  by (clarsimp simp: record_ok_def str_ok_def isBool_iff)

lemma isRecord_statusJson [simp]: "isRecord (Some (statusJson r))"
  by (simp add: statusJson_def)

lemma finiteNum_map [simp]: "finiteNum (map_option jnumber v) = v"
  by (cases v) auto

lemma asBool_map [simp]: "asBool (map_option JBool v) = v"
  by (cases v) auto

lemma normalizeMessageStatusRecord_read:
  "normalizeMessageStatusRecord (Some (statusJson r)) = Some r \<longleftrightarrow> record_ok r"
proof
  assume ok: "record_ok r"
  show "normalizeMessageStatusRecord (Some (statusJson r)) = Some r"
    using ok unfolding record_ok_def
    by (cases "r_targetSessionId r"; cases "r_responseRequested r"; cases "r_responseAnsweredAt r")
      (auto simp: normalizeMessageStatusRecord_def Let_def get_statusJson statusFields_def
       lookup_field_Cons boundedString_Some_JStr str_ok_def)
qed (rule normalizeMessageStatusRecord_ok)

definition presence_ok :: "presence \<Rightarrow> bool" where
  "presence_ok p \<longleftrightarrow>
     is_runtime_id (p_runtimeId p) \<and> is_room_id (p_roomId p) \<and> 0 < p_pid p \<and>
     str_ok 1024 (p_sessionId p) \<and> opt_str_ok 200 (p_sessionName p) \<and> str_ok 8192 (p_cwd p) \<and>
     str_ok 8192 (p_worktreeRoot p) \<and> opt_str_ok 256 (p_branch p) \<and>
     (p_autoWakeVersion p \<longrightarrow> p_requestResponseVersion p) \<and>
     \<not> (p_ephemeral p \<and> p_requestResponseVersion p) \<and>
     (case p_workspaceChanges p of None \<Rightarrow> True
      | Some fs \<Rightarrow> length fs \<le> MAX_WORKSPACE_CHANGES \<and> list_all (str_ok 512) fs) \<and>
     (case p_workspaceChangesOmitted p of None \<Rightarrow> True | Some n \<Rightarrow> 0 \<le> n)"

lemma those_boundedString:
  "those (map (\<lambda>item. boundedString (Some item) mx) items) = Some fs \<longleftrightarrow>
     items = map JStr fs \<and> list_all (str_ok mx) fs"
proof (induction items arbitrary: fs)
  case (Cons i items)
  then show ?case
    by (cases fs) (auto simp: str_ok_def boundedString_Some_JStr split: option.splits if_splits)
qed auto

lemma normalizeWorkspaceChanges_Some:
  "normalizeWorkspaceChanges v = Some fs \<longleftrightarrow>
     v = Some (JArr (map JStr fs)) \<and> length fs \<le> MAX_WORKSPACE_CHANGES \<and> list_all (str_ok 512) fs"
  by (auto simp: normalizeWorkspaceChanges_def those_boundedString split: option.splits)

lemma normalizePresence_ok: "normalizePresence v = Some p \<Longrightarrow> presence_ok p"
  unfolding normalizePresence_def Let_def bind_eq_Some_conv
  by (clarsimp simp: presence_ok_def str_ok_def)
    (auto simp: normalizeWorkspaceChanges_Some str_ok_def split: option.splits)

lemma isRecord_presenceJson [simp]: "isRecord (Some (presenceJson p))"
  by (simp add: presenceJson_def)

lemma asStr_map [simp]: "asStr (map_option JStr v) = v"
  by (cases v) auto

lemma intNum_map [simp]: "intNum (map_option (\<lambda>n. jnumber (of_int n)) v) = v"
  by (cases v) auto

lemma presence_read:
  assumes "presence_ok p"
  shows "normalizePresence (Some (presenceJson p)) = Some (p\<lparr>p_status := sanitizeStatus (p_status p)\<rparr>)"
proof -
  have ws: "normalizeWorkspaceChanges (map_option (\<lambda>fs. JArr (map JStr fs)) (p_workspaceChanges p)) =
      p_workspaceChanges p"
    using assms by (cases "p_workspaceChanges p")
      (auto simp: presence_ok_def normalizeWorkspaceChanges_Some normalizeWorkspaceChanges_def [of None])
  have om: "p_workspaceChangesOmitted p = None \<or>
      (case p_workspaceChangesOmitted p of None \<Rightarrow> False | Some n \<Rightarrow> 0 \<le> n)"
    using assms by (auto simp: presence_ok_def split: option.splits)
  have "p_autoWakeVersion p \<longrightarrow> \<not> p_ephemeral p" using assms by (auto simp: presence_ok_def)
  then show ?thesis
    using assms om unfolding presence_ok_def
    by (simp add: normalizePresence_def Let_def get_presenceJson presenceFields_def
       lookup_field_Cons boundedString_Some_JStr str_ok_def ws)
qed

lemma normalizeEnvelope_fields:
  assumes "normalizeEnvelope v = Some e"
  shows "get v ''id'' = Some (JStr (e_id e))" "get v ''roomId'' = Some (JStr (e_roomId e))"
    "get v ''targetRuntimeId'' = Some (JStr (e_targetRuntimeId e))"
    "get v ''targetSessionId'' = map_option JStr (e_targetSessionId e)"
    "get v ''inReplyTo'' = map_option JStr (e_inReplyTo e)"
    "e_message e = (case asStr (get v ''message'') of None \<Rightarrow> [] | Some m \<Rightarrow> sanitizeMessage m)"
    "e_requestAcknowledgment e \<longleftrightarrow> jTrue (get v ''requestAcknowledgment'')"
    "e_requestResponse e \<longleftrightarrow> jTrue (get v ''requestResponse'')"
    "get v ''hops'' = Some (jnumber (of_nat (e_hops e)))"
    "get v ''createdAt'' = Some (jnumber (e_createdAt e))"
    "get v ''expiresAt'' = Some (jnumber (e_expiresAt e))"
proof -
  have t: "targetSession = None \<or> boundedString targetSession mx \<noteq> None \<Longrightarrow>
      targetSession = map_option JStr (boundedString targetSession mx)" for targetSession mx
    by (auto simp: boundedString_Some_JStr str_ok_def)
  have r: "reply = None \<or> (case asStr reply of None \<Rightarrow> False | Some r \<Rightarrow> is_runtime_id r) \<Longrightarrow>
      reply = map_option JStr (boundedString reply 64)" for reply
    by (auto simp: boundedString_Some_JStr str_ok_def split: option.splits)
  have h: "parseHops x = Some n \<Longrightarrow> x = Some (jnumber (of_nat n))" for x n
    by (auto simp: parseHops_def split: if_splits)
  note u = assms [unfolded normalizeEnvelope_def Let_def bind_eq_Some_conv]
  show "get v ''id'' = Some (JStr (e_id e))" "get v ''roomId'' = Some (JStr (e_roomId e))"
    "get v ''targetRuntimeId'' = Some (JStr (e_targetRuntimeId e))"
    "e_message e = (case asStr (get v ''message'') of None \<Rightarrow> [] | Some m \<Rightarrow> sanitizeMessage m)"
    "e_requestAcknowledgment e \<longleftrightarrow> jTrue (get v ''requestAcknowledgment'')"
    "e_requestResponse e \<longleftrightarrow> jTrue (get v ''requestResponse'')"
    "get v ''createdAt'' = Some (jnumber (e_createdAt e))"
    "get v ''expiresAt'' = Some (jnumber (e_expiresAt e))"
    using u by (clarsimp; fail)+
  show "get v ''targetSessionId'' = map_option JStr (e_targetSessionId e)"
    using u by (clarsimp simp del: boundedString_Some asStr_Some) (rule t, simp)
  show "get v ''inReplyTo'' = map_option JStr (e_inReplyTo e)"
    using u by (clarsimp simp del: boundedString_Some asStr_Some) (rule r, simp)
  show "get v ''hops'' = Some (jnumber (of_nat (e_hops e)))"
    using u by (clarsimp simp del: boundedString_Some asStr_Some) (erule h)
qed

lemma get_inputJson:
  "get (Some (obj (inputFields i n inp))) k = lookup_field (inputFields i n inp) k"
  by (rule get_obj) (simp add: inputFields_def)

lemma map_option_JStr_eq [simp]: "map_option JStr a = map_option JStr b \<longleftrightarrow> a = b"
  by (cases a; cases b) auto

lemma map_option_JBool_Some [simp]: "map_option JBool a = Some (JBool b) \<longleftrightarrow> a = Some b"
  by (cases a) auto

lemma createEnvelope_Inr:
  assumes "createEnvelope freshId now input = Inr e"
  shows "envelope_ok e \<and> e_id e = freshId \<and> e_roomId e = in_roomId input \<and>
    e_targetRuntimeId e = in_targetRuntimeId input \<and> e_targetSessionId e = in_targetSessionId input \<and>
    e_message e = sanitizeMessage (in_message input) \<and> e_inReplyTo e = in_inReplyTo input \<and>
    (e_requestResponse e \<longleftrightarrow> in_requestResponse input = Some True) \<and>
    e_hops e = (case in_hops input of None \<Rightarrow> 0 | Some h \<Rightarrow> h) \<and>
    e_createdAt e = now \<and> e_expiresAt e = now + DEFAULT_MESSAGE_TTL_MS"
proof -
  have n: "normalizeEnvelope (Some (obj (inputFields freshId now input))) = Some e"
    using assms by (auto simp: createEnvelope_def Let_def split: if_splits option.splits)
  note fields = normalizeEnvelope_fields [OF n, unfolded get_inputJson]
  show ?thesis
    using normalizeEnvelope_ok [OF n] fields by (auto simp add: inputFields_def lookup_field_Cons)
qed

section \<open>Properties of the records\<close>

text \<open>C18. A message that \<open>createEnvelope\<close> accepts carries the sanitized text of the sender within 8192
  bytes, expires a day later, and is read back by the recipient exactly as it was created.\<close>

theorem created_envelope_reads_back:
  assumes "createEnvelope freshId now input = Inr e"
  shows "normalizeEnvelope (Some (envelopeJson e)) = Some e \<and> e_id e = freshId \<and>
    e_message e = sanitizeMessage (in_message input) \<and> e_message e \<noteq> [] \<and>
    utf8_length (e_message e) \<le> 8192 \<and> e_expiresAt e = now + 86400000 \<and>
    (e_requestResponse e \<longleftrightarrow> in_requestResponse input = Some True)"
  using createEnvelope_Inr [OF assms] normalizeEnvelope_read [of e]
  by (auto simp: envelope_ok_def MAX_MESSAGE_BYTES_def DEFAULT_MESSAGE_TTL_MS_def)

definition sampleInput :: envelope_input where
  "sampleInput = \<lparr>in_roomId = ''cwd-0123456789abcdef0123456789abcdef'',
     in_targetRuntimeId = ''00000000-0000-4000-8000-000000000000'', in_targetSessionId = Some ''s'',
     in_sender = \<lparr>sd_runtimeId = ''00000000-0000-4000-8000-000000000001'', sd_sessionId = ''t'',
       sd_sessionName = None, sd_worktreeRoot = ''/''\<rparr>,
     in_message = '' hi  there '', in_inReplyTo = None, in_requestAcknowledgment = None,
     in_requestResponse = Some True, in_hops = None\<rparr>"

theorem created_envelope_reads_back_witness:
  "\<exists>e. createEnvelope ''00000000-0000-4000-8000-000000000002'' 5 sampleInput = Inr e \<and>
     normalizeEnvelope (Some (envelopeJson e)) = Some e"
proof -
  let ?e = "\<lparr>e_id = ''00000000-0000-4000-8000-000000000002'', e_roomId = in_roomId sampleInput,
    e_targetRuntimeId = in_targetRuntimeId sampleInput, e_targetSessionId = Some ''s'',
    e_sender = in_sender sampleInput, e_message = sanitizeMessage '' hi  there '', e_inReplyTo = None,
    e_requestAcknowledgment = False, e_requestResponse = True, e_hops = 0, e_createdAt = 5,
    e_expiresAt = 5 + DEFAULT_MESSAGE_TTL_MS\<rparr>"
  have ok: "envelope_ok ?e"
  proof -
    have "is_runtime_id ''00000000-0000-4000-8000-000000000002''"
      "is_runtime_id ''00000000-0000-4000-8000-000000000001''"
      "is_runtime_id ''00000000-0000-4000-8000-000000000000''"
      "is_room_id ''cwd-0123456789abcdef0123456789abcdef''"
      "sanitizeMessage '' hi  there '' \<noteq> []"
      "utf8_length (sanitizeMessage '' hi  there '') \<le> MAX_MESSAGE_BYTES"
      by code_simp+
    then show ?thesis by (simp add: envelope_ok_def sampleInput_def str_ok_def)
  qed
  have "obj (inputFields (e_id ?e) 5 sampleInput) = envelopeJson ?e"
    by (simp add: envelopeJson_def envelopeFields_def inputFields_def sampleInput_def)
  then have "createEnvelope ''00000000-0000-4000-8000-000000000002'' 5 sampleInput = Inr ?e"
    using normalizeEnvelope_read [THEN iffD2, OF ok]
    by (simp add: createEnvelope_def) (simp add: sampleInput_def boundedString_def)
  with created_envelope_reads_back [OF this] show ?thesis by blast
qed

text \<open>The status records that the reader accepts are exactly those that it reads back unchanged after
  they are written.\<close>

theorem status_record_roundtrip:
  "(normalizeMessageStatusRecord (Some (statusJson r)) = Some r) = (\<exists>v. normalizeMessageStatusRecord v = Some r)"
  using normalizeMessageStatusRecord_read normalizeMessageStatusRecord_ok by blast

end
