(* ===== verification/CoordLedgers.thy ===== *)
theory CoordLedgers
  imports CoordRecords
begin

text \<open>
  \<open>extensions/_shared/coordinator-state.ts\<close>, the two claim ledgers: the replies that a recipient
  attempted (\<open>response-requests/\<close>) and the wakes that it scheduled (\<open>peer-wake-claims/\<close>). Both are
  one JSON file per recipient session. The contract of both is the locale \<open>claim_ledger\<close>: an
  attempt is granted at most once, whatever other operations, failed writes or damaged files come
  between. SHA-256 is the parameter \<open>sha\<close> of the model, and no theorem needs it to be injective.
\<close>

section \<open>The contract\<close>

text \<open>
  An event reads the clock at the instants \<open>times e\<close>, in order; \<open>granted e s\<close> is the attempt that it
  is allowed, if any. An attempt is guarded while the ledger rules out granting it again.
\<close>

fun grants :: "('e \<Rightarrow> 's \<Rightarrow> 's) \<Rightarrow> ('e \<Rightarrow> 's \<Rightarrow> 'b option) \<Rightarrow> 'e list \<Rightarrow> 's \<Rightarrow> 'b list" where
  "grants step granted [] s = []"
| "grants step granted (e # es) s =
     (case granted e s of None \<Rightarrow> [] | Some b \<Rightarrow> [b]) @ grants step granted es (step e s)"

locale claim_ledger =
  fixes step :: "'e \<Rightarrow> 's \<Rightarrow> 's"
    and granted :: "'e \<Rightarrow> 's \<Rightarrow> 'b option"
    and times :: "'e \<Rightarrow> rat list"
    and deadline :: "'b \<Rightarrow> rat"
    and guarded :: "'s \<Rightarrow> 'b \<Rightarrow> bool"
  assumes grant_fresh: "granted e s = Some b \<Longrightarrow> \<not> guarded s b"
    and grant_time: "granted e s = Some b \<Longrightarrow> times e \<noteq> [] \<and> hd (times e) < deadline b"
    and grant_guards: "granted e s = Some b \<Longrightarrow> guarded (step e s) b"
    and guard_kept: "guarded s c \<Longrightarrow> \<forall>t \<in> set (times e). t < deadline c \<Longrightarrow> guarded (step e s) c"
begin

lemma guarded_not_granted:
  assumes "sorted (concat (map times es))"
    and "guarded s b \<or> (\<forall>e \<in> set es. \<forall>t \<in> set (times e). deadline b \<le> t)"
  shows "b \<notin> set (grants step granted es s)"
  using assms
proof (induction es arbitrary: s)
  case (Cons e es)
  have later: "guarded (step e s) b \<or> (\<forall>e \<in> set es. \<forall>t \<in> set (times e). deadline b \<le> t)"
    if g: "guarded s b"
  proof (cases "\<forall>t \<in> set (times e). t < deadline b")
    case True
    with g guard_kept show ?thesis by blast
  next
    case False
    then obtain t where "t \<in> set (times e)" "deadline b \<le> t" by auto
    with Cons.prems(1) show ?thesis by (fastforce simp: sorted_append)
  qed
  have "granted e s \<noteq> Some b"
    using Cons.prems(2) grant_fresh grant_time by (metis hd_in_set leD list.set_intros(1))
  moreover have "b \<notin> set (grants step granted es (step e s))"
    using Cons later by (auto simp: sorted_append)
  ultimately show ?case by (auto split: option.splits)
qed simp

lemma granted_once: "sorted (concat (map times es)) \<Longrightarrow> distinct (grants step granted es s)"
proof (induction es arbitrary: s)
  case (Cons e es)
  then have "distinct (grants step granted es (step e s))" by (simp add: sorted_append)
  moreover have "b \<notin> set (grants step granted es (step e s))" if "granted e s = Some b" for b
    using guarded_not_granted grant_guards [OF that] Cons.prems by (auto simp: sorted_append)
  ultimately show ?case by (auto split: option.splits)
qed simp

end

section \<open>Files\<close>

text \<open>
  The files of a directory: a file is absent (\<open>None\<close>), holds text that cannot be read or parsed
  (\<open>Some None\<close>), or a JSON document.
\<close>

type_synonym files = "string \<rightharpoonup> json option"

definition receiptKey :: "(string \<Rightarrow> string) \<Rightarrow> string \<Rightarrow> string" where
  "receiptKey sha sessionId = ''session-'' @ sha sessionId"

datatype ledger_error = InvalidBinding | CorruptLedger | BindingMismatch | LedgerFull | NotClaimed

text \<open>\<open>readResponseLedger\<close> and \<open>readPeerWakeLedger\<close> up to their items: only absence is initialized.\<close>

definition readLedgerItems ::
  "(string \<Rightarrow> string) \<Rightarrow> string \<Rightarrow> nat \<Rightarrow> string \<Rightarrow> files \<Rightarrow> ledger_error + json list" where
  "readLedgerItems sha field mx sessionId disk =
     (case disk (receiptKey sha sessionId) of
        None \<Rightarrow> Inr []
      | Some None \<Rightarrow> Inl CorruptLedger
      | Some (Some value) \<Rightarrow>
          if \<not> isRecord (Some value) \<or> \<not> jIs (get (Some value) ''version'') 1 \<or>
             \<not> jIsStr (get (Some value) ''recipientSessionId'') sessionId
          then Inl CorruptLedger
          else case asArr (get (Some value) field) of
              None \<Rightarrow> Inl CorruptLedger
            | Some items \<Rightarrow> if length items > mx then Inl CorruptLedger else Inr items)"

definition ledgerDoc :: "string \<Rightarrow> string \<Rightarrow> json list \<Rightarrow> json" where
  "ledgerDoc field sessionId items =
     obj [(''version'', Some (jnumber 1)), (''recipientSessionId'', Some (JStr sessionId)),
          (field, Some (JArr items))]"

lemma get_ledgerDoc:
  assumes "field \<notin> {''version'', ''recipientSessionId''}"
  shows "get (Some (ledgerDoc field sid items)) ''version'' = Some (jnumber 1)"
    "get (Some (ledgerDoc field sid items)) ''recipientSessionId'' = Some (JStr sid)"
    "get (Some (ledgerDoc field sid items)) field = Some (JArr items)"
  using assms by (auto simp: ledgerDoc_def get_obj_Cons get_obj_Nil)

lemma isRecord_ledgerDoc [simp]: "isRecord (Some (ledgerDoc field sid items))"
  by (simp add: ledgerDoc_def)

text \<open>What a reader of another or the same session sees after a ledger was written.\<close>

lemma readLedgerItems_written:
  assumes "field \<notin> {''version'', ''recipientSessionId''}" "length items \<le> mx"
  shows "readLedgerItems sha field mx sid (disk(receiptKey sha t \<mapsto> Some (ledgerDoc field t items))) =
    (if receiptKey sha t = receiptKey sha sid
     then (if t = sid then Inr items else Inl CorruptLedger)
     else readLedgerItems sha field mx sid disk)"
  using assms by (auto simp: readLedgerItems_def get_ledgerDoc)

lemma readLedgerItems_shared_key:
  assumes "receiptKey sha t = receiptKey sha sid" "t \<noteq> sid"
    and "readLedgerItems sha field mx t disk = Inr items"
  shows "readLedgerItems sha field mx sid disk = Inl CorruptLedger \<or>
    disk (receiptKey sha sid) = None \<and> items = []"
  using assms by (auto simp: readLedgerItems_def split: option.splits if_splits)

section \<open>The reply ledger\<close>

record response_record = binding +
  rr_attempted :: bool
  rr_queued :: bool

fun readRequests :: "string \<Rightarrow> string list \<Rightarrow> json list \<Rightarrow> ledger_error + response_record list" where
  "readRequests sessionId ids [] = Inr []"
| "readRequests sessionId ids (item # items) =
     (case validResponseBinding (Some item) of
        None \<Rightarrow> Inl CorruptLedger
      | Some b \<Rightarrow>
          let attempted = get (Some item) ''replyAttempted''; queued = get (Some item) ''replyQueued'' in
          if b_recipientSessionId b \<noteq> sessionId \<or> b_messageId b \<in> set ids \<or>
             (attempted \<noteq> None \<and> \<not> jTrue attempted) \<or> (queued \<noteq> None \<and> \<not> jTrue queued) \<or>
             (jTrue queued \<and> \<not> jTrue attempted) \<or> \<not> jTrue attempted
          then Inl CorruptLedger
          else bind_r (readRequests sessionId (b_messageId b # ids) items) (\<lambda>rs.
            Inr (\<lparr>b_messageId = b_messageId b, b_senderSessionId = b_senderSessionId b,
              b_recipientSessionId = sessionId, b_expiresAt = b_expiresAt b,
              rr_attempted = jTrue attempted, rr_queued = jTrue queued\<rparr> # rs)))"

definition readResponseLedger ::
  "(string \<Rightarrow> string) \<Rightarrow> string \<Rightarrow> files \<Rightarrow> ledger_error + response_record list" where
  "readResponseLedger sha sessionId disk =
     bind_r (readLedgerItems sha ''requests'' MAX_RESPONSE_REQUESTS sessionId disk)
       (readRequests sessionId [])"

definition responseItem :: "response_record \<Rightarrow> json" where
  "responseItem r = obj (bindingFields r @
     [(''replyAttempted'', flag (rr_attempted r) (JBool True)),
      (''replyQueued'', flag (rr_queued r) (JBool True))])"

text \<open>Two bindings of the same request: the three further fields that the lookups compare.\<close>

definition same_binding :: "('a) binding_scheme \<Rightarrow> ('b) binding_scheme \<Rightarrow> bool" where
  "same_binding r b \<longleftrightarrow> b_senderSessionId r = b_senderSessionId b \<and> b_expiresAt r = b_expiresAt b \<and>
     b_recipientSessionId r = b_recipientSessionId b"

definition boundResponseRequest ::
  "response_record list \<Rightarrow> binding \<Rightarrow> ledger_error + response_record option" where
  "boundResponseRequest ledger b =
     (case List.find (\<lambda>r. b_messageId r = b_messageId b) ledger of
        None \<Rightarrow> Inr None
      | Some r \<Rightarrow> if same_binding r b then Inr (Some r) else Inl BindingMismatch)"

text \<open>\<open>addResponseRequest\<close>, with the record as the caller then marks it.\<close>

definition addResponseRequest ::
  "rat \<Rightarrow> response_record list \<Rightarrow> binding \<Rightarrow> ledger_error + (response_record list \<times> response_record)" where
  "addResponseRequest now ledger b =
     (let kept = filter (\<lambda>r. now < b_expiresAt r) ledger in
      if length kept \<ge> MAX_RESPONSE_REQUESTS then Inl LedgerFull
      else let r = \<lparr>b_messageId = b_messageId b, b_senderSessionId = b_senderSessionId b,
             b_recipientSessionId = b_recipientSessionId b, b_expiresAt = b_expiresAt b,
             rr_attempted = False, rr_queued = False\<rparr>
           in Inr (kept @ [r], r))"

text \<open>
  \<open>withResponseLedger\<close>: read, mutate and write under the lock of the ledger. A mutation that throws
  leaves the file as it was.
\<close>

definition withResponseLedger ::
  "(string \<Rightarrow> string) \<Rightarrow> binding \<Rightarrow> (response_record list \<Rightarrow> ledger_error + ('a \<times> response_record list)) \<Rightarrow>
   files \<Rightarrow> (ledger_error + 'a) \<times> files" where
  "withResponseLedger sha b mutate disk =
     (if \<not> binding_ok b then (Inl InvalidBinding, disk)
      else case bind_r (readResponseLedger sha (b_recipientSessionId b) disk) mutate of
          Inl err \<Rightarrow> (Inl err, disk)
        | Inr (result, ledger) \<Rightarrow>
            (Inr result, disk(receiptKey sha (b_recipientSessionId b) \<mapsto>
               Some (ledgerDoc ''requests'' (b_recipientSessionId b) (map responseItem ledger)))))"

definition claimReplyIn :: "rat \<Rightarrow> rat \<Rightarrow> binding \<Rightarrow> response_record list \<Rightarrow>
    ledger_error + (bool \<times> response_record list)" where
  "claimReplyIn now now' b ledger =
     bind_r (boundResponseRequest ledger b) (\<lambda>record.
       if (case record of None \<Rightarrow> False | Some r \<Rightarrow> rr_attempted r) \<or> b_expiresAt b \<le> now
       then Inr (False, ledger)
       else bind_r (case record of
                Some r \<Rightarrow> Inr (ledger, r)
              | None \<Rightarrow> addResponseRequest now' ledger b) (\<lambda>(ledger', r).
            Inr (True, update_first (\<lambda>x. b_messageId x = b_messageId r)
              (\<lambda>x. x\<lparr>rr_attempted := True\<rparr>) ledger')))"

definition claimRequestReply ::
  "(string \<Rightarrow> string) \<Rightarrow> rat \<Rightarrow> rat \<Rightarrow> binding \<Rightarrow> files \<Rightarrow> (ledger_error + bool) \<times> files" where
  "claimRequestReply sha now now' b = withResponseLedger sha b (claimReplyIn now now' b)"

text \<open>The ledger part of \<open>markRequestReplyQueued\<close>.\<close>

definition queueReplyIn :: "binding \<Rightarrow> response_record list \<Rightarrow>
    ledger_error + (unit \<times> response_record list)" where
  "queueReplyIn b ledger =
     bind_r (boundResponseRequest ledger b) (\<lambda>record.
       case record of
         None \<Rightarrow> Inl NotClaimed
       | Some r \<Rightarrow>
           if \<not> rr_attempted r then Inl NotClaimed
           else Inr ((), update_first (\<lambda>x. b_messageId x = b_messageId r)
             (\<lambda>x. x\<lparr>rr_queued := True\<rparr>) ledger))"

definition queueReply ::
  "(string \<Rightarrow> string) \<Rightarrow> binding \<Rightarrow> files \<Rightarrow> (ledger_error + unit) \<times> files" where
  "queueReply sha b = withResponseLedger sha b (queueReplyIn b)"

datatype response_status = RsAnswered | RsExpired | RsUnanswered | RsPending

definition readResponseRequestStatus ::
  "(string \<Rightarrow> string) \<Rightarrow> rat \<Rightarrow> binding \<Rightarrow> files \<Rightarrow> ledger_error + response_status" where
  "readResponseRequestStatus sha now b disk =
     (if \<not> binding_ok b then Inl InvalidBinding
      else bind_r (bind_r (readResponseLedger sha (b_recipientSessionId b) disk)
          (\<lambda>ledger. boundResponseRequest ledger b)) (\<lambda>request.
        if (case request of None \<Rightarrow> False | Some r \<Rightarrow> rr_queued r) then Inr RsAnswered
        else if b_expiresAt b \<le> now then Inr RsExpired
        else if (case request of None \<Rightarrow> False | Some r \<Rightarrow> rr_attempted r) then Inr RsUnanswered
        else Inr RsPending))"

section \<open>The wake ledger\<close>

fun readClaims :: "string \<Rightarrow> string list \<Rightarrow> json list \<Rightarrow> ledger_error + binding list" where
  "readClaims sessionId ids [] = Inr []"
| "readClaims sessionId ids (item # items) =
     (case validResponseBinding (Some item) of
        None \<Rightarrow> Inl CorruptLedger
      | Some b \<Rightarrow>
          if b_recipientSessionId b \<noteq> sessionId \<or> b_messageId b \<in> set ids then Inl CorruptLedger
          else bind_r (readClaims sessionId (b_messageId b # ids) items) (\<lambda>bs.
            Inr (b\<lparr>b_recipientSessionId := sessionId\<rparr> # bs)))"

definition readPeerWakeLedger ::
  "(string \<Rightarrow> string) \<Rightarrow> string \<Rightarrow> files \<Rightarrow> ledger_error + binding list" where
  "readPeerWakeLedger sha sessionId disk =
     bind_r (readLedgerItems sha ''claims'' MAX_PEER_WAKE_CLAIMS sessionId disk) (readClaims sessionId [])"

definition boundPeerWake :: "binding list \<Rightarrow> binding \<Rightarrow> ledger_error + binding option" where
  "boundPeerWake ledger b =
     (case List.find (\<lambda>r. b_messageId r = b_messageId b) ledger of
        None \<Rightarrow> Inr None
      | Some r \<Rightarrow> if same_binding r b then Inr (Some r) else Inl BindingMismatch)"

definition claimPeerWake ::
  "(string \<Rightarrow> string) \<Rightarrow> rat \<Rightarrow> binding \<Rightarrow> files \<Rightarrow> (ledger_error + bool) \<times> files" where
  "claimPeerWake sha now b disk =
     (if \<not> binding_ok b then (Inl InvalidBinding, disk)
      else case readPeerWakeLedger sha (b_recipientSessionId b) disk of
          Inl err \<Rightarrow> (Inl err, disk)
        | Inr ledger \<Rightarrow>
            case boundPeerWake ledger b of
              Inl err \<Rightarrow> (Inl err, disk)
            | Inr record \<Rightarrow>
                if record \<noteq> None \<or> b_expiresAt b \<le> now then (Inr False, disk)
                else let kept = filter (\<lambda>r. now < b_expiresAt r) ledger in
                  if length kept \<ge> MAX_PEER_WAKE_CLAIMS then (Inl LedgerFull, disk)
                  else (Inr True, disk(receiptKey sha (b_recipientSessionId b) \<mapsto>
                    Some (ledgerDoc ''claims'' (b_recipientSessionId b)
                      (map (\<lambda>r. obj (bindingFields r)) (kept @ [b]))))))"

definition hasPeerWakeClaim ::
  "(string \<Rightarrow> string) \<Rightarrow> rat \<Rightarrow> binding \<Rightarrow> files \<Rightarrow> ledger_error + bool" where
  "hasPeerWakeClaim sha now b disk =
     (if \<not> binding_ok b then Inl InvalidBinding
      else bind_r (bind_r (readPeerWakeLedger sha (b_recipientSessionId b) disk)
          (\<lambda>ledger. boundPeerWake ledger b)) (\<lambda>record.
        Inr (case record of None \<Rightarrow> False | Some r \<Rightarrow> now < b_expiresAt r)))"

section \<open>Ledgers are read as they were written\<close>

definition ledger_valid :: "nat \<Rightarrow> string \<Rightarrow> 'a binding_scheme list \<Rightarrow> bool" where
  "ledger_valid mx sid rs \<longleftrightarrow> length rs \<le> mx \<and> distinct (map b_messageId rs) \<and>
     list_all (\<lambda>r. binding_ok r \<and> b_recipientSessionId r = sid) rs"

lemma ledger_valid_filter: "ledger_valid mx sid rs \<Longrightarrow> ledger_valid mx sid (filter P rs)"
  using length_filter_le [of P rs]
  by (auto simp: ledger_valid_def list_all_iff distinct_map_filter simp del: length_filter_le)

lemma validResponseBinding_ok:
  "validResponseBinding v = Some b \<Longrightarrow> binding_ok b"
  by (auto simp: validResponseBinding_def binding_ok_def bind_eq_Some_conv)

lemma get_responseItem:
  "get (Some (responseItem r)) k =
     lookup_field (bindingFields r @ [(''replyAttempted'', flag (rr_attempted r) (JBool True)),
       (''replyQueued'', flag (rr_queued r) (JBool True))]) k"
  unfolding responseItem_def by (rule get_obj) (simp add: bindingFields_def)

lemma isRecord_responseItem [simp]: "isRecord (Some (responseItem r))"
  by (simp add: responseItem_def)

lemma validResponseBinding_responseItem:
  "binding_ok r \<Longrightarrow> validResponseBinding (Some (responseItem r)) = Some (binding.truncate r)"
  by (auto simp: validResponseBinding_def get_responseItem bindingFields_def lookup_field_Cons
      binding_ok_def boundedString_Some_JStr str_ok_def binding.truncate_def)

lemma validResponseBinding_bindingJson:
  "binding_ok b \<Longrightarrow> validResponseBinding (Some (obj (bindingFields (b :: binding)))) = Some b"
  by (auto simp: validResponseBinding_def get_obj_Cons get_obj_Nil bindingFields_def
      binding_ok_def boundedString_Some_JStr str_ok_def)

lemma readRequests_sound:
  "readRequests sid ids items = Inr rs \<Longrightarrow>
     length rs = length items \<and> distinct (map b_messageId rs) \<and>
     set (map b_messageId rs) \<inter> set ids = {} \<and>
     list_all (\<lambda>r. binding_ok r \<and> b_recipientSessionId r = sid) rs \<and> list_all rr_attempted rs"
proof (induction sid ids items arbitrary: rs rule: readRequests.induct)
  case (2 sid ids item items)
  from "2.prems" obtain b where b: "validResponseBinding (Some item) = Some b"
    by (auto split: option.splits)
  with validResponseBinding_ok have "binding_ok b" by blast
  with 2 b show ?case
    by (fastforce simp: Let_def binding_ok_def split: if_splits)
qed auto

lemma readRequests_complete:
  "distinct (map b_messageId rs) \<Longrightarrow> set (map b_messageId rs) \<inter> set ids = {} \<Longrightarrow>
     list_all (\<lambda>r. binding_ok r \<and> b_recipientSessionId r = sid) rs \<Longrightarrow> list_all rr_attempted rs \<Longrightarrow>
     readRequests sid ids (map responseItem rs) = Inr rs"
proof (induction rs arbitrary: ids)
  case (Cons r rs)
  then have "readRequests sid (b_messageId r # ids) (map responseItem rs) = Inr rs" by auto
  with Cons.prems show ?case
    by (auto simp: validResponseBinding_responseItem binding.truncate_def get_responseItem Let_def
        bindingFields_def lookup_field_Cons lookup_field_def)
qed simp

lemma readResponseLedger_valid:
  "readResponseLedger sha sid disk = Inr rs \<Longrightarrow>
     ledger_valid MAX_RESPONSE_REQUESTS sid rs \<and> list_all rr_attempted rs"
  using readRequests_sound [of sid "[]"]
  by (fastforce simp: readResponseLedger_def readLedgerItems_def ledger_valid_def
      split: option.splits if_splits)

lemma readResponseLedger_written:
  assumes "ledger_valid MAX_RESPONSE_REQUESTS t rs" "list_all rr_attempted rs"
  shows "readResponseLedger sha sid
      (disk(receiptKey sha t \<mapsto> Some (ledgerDoc ''requests'' t (map responseItem rs)))) =
    (if receiptKey sha t = receiptKey sha sid
     then (if t = sid then Inr rs else Inl CorruptLedger)
     else readResponseLedger sha sid disk)"
  using assms readRequests_complete [of rs "[]" sid]
  by (auto simp: readResponseLedger_def readLedgerItems_written ledger_valid_def)

lemma readClaims_sound:
  "readClaims sid ids items = Inr rs \<Longrightarrow>
     length rs = length items \<and> distinct (map b_messageId rs) \<and>
     set (map b_messageId rs) \<inter> set ids = {} \<and>
     list_all (\<lambda>r. binding_ok r \<and> b_recipientSessionId r = sid) rs"
proof (induction sid ids items arbitrary: rs rule: readClaims.induct)
  case (2 sid ids item items)
  from "2.prems" obtain b where b: "validResponseBinding (Some item) = Some b"
    by (auto split: option.splits)
  with validResponseBinding_ok have "binding_ok b" by blast
  with 2 b show ?case
    by (fastforce simp: Let_def binding_ok_def split: if_splits)
qed auto

lemma readClaims_complete:
  "distinct (map b_messageId rs) \<Longrightarrow> set (map b_messageId rs) \<inter> set ids = {} \<Longrightarrow>
     list_all (\<lambda>r. binding_ok r \<and> b_recipientSessionId r = sid) rs \<Longrightarrow>
     readClaims sid ids (map (\<lambda>r. obj (bindingFields r)) rs) = Inr rs"
proof (induction rs arbitrary: ids)
  case (Cons r rs)
  then have "readClaims sid (b_messageId r # ids) (map (\<lambda>r. obj (bindingFields r)) rs) = Inr rs"
    by auto
  with Cons.prems show ?case by (auto simp: validResponseBinding_bindingJson)
qed simp

lemma readPeerWakeLedger_valid:
  "readPeerWakeLedger sha sid disk = Inr rs \<Longrightarrow> ledger_valid MAX_PEER_WAKE_CLAIMS sid rs"
  using readClaims_sound [of sid "[]"]
  by (fastforce simp: readPeerWakeLedger_def readLedgerItems_def ledger_valid_def
      split: option.splits if_splits)

lemma readPeerWakeLedger_written:
  assumes "ledger_valid MAX_PEER_WAKE_CLAIMS t rs"
  shows "readPeerWakeLedger sha sid (disk(receiptKey sha t \<mapsto>
      Some (ledgerDoc ''claims'' t (map (\<lambda>r. obj (bindingFields r)) rs)))) =
    (if receiptKey sha t = receiptKey sha sid
     then (if t = sid then Inr rs else Inl CorruptLedger)
     else readPeerWakeLedger sha sid disk)"
  using assms readClaims_complete [of rs "[]" sid]
  by (auto simp: readPeerWakeLedger_def readLedgerItems_written ledger_valid_def)

section \<open>An attempt is claimed at most once\<close>

text \<open>
  What may happen to the reply ledgers of a machine: claims, confirmations, and a ledger file that
  is damaged so that it cannot be read any more.
\<close>

datatype ledger_event = ClaimReply rat rat binding | QueueReply binding | DamageReplies string

fun replyStep :: "(string \<Rightarrow> string) \<Rightarrow> ledger_event \<Rightarrow> files \<Rightarrow> files" where
  "replyStep sha (ClaimReply now now' b) disk = snd (claimRequestReply sha now now' b disk)"
| "replyStep sha (QueueReply b) disk = snd (queueReply sha b disk)"
| "replyStep sha (DamageReplies k) disk = disk(k \<mapsto> None)"

fun replyGranted :: "(string \<Rightarrow> string) \<Rightarrow> ledger_event \<Rightarrow> files \<Rightarrow> binding option" where
  "replyGranted sha (ClaimReply now now' b) disk =
     (if fst (claimRequestReply sha now now' b disk) = Inr True then Some b else None)"
| "replyGranted sha e disk = None"

fun replyTimes :: "ledger_event \<Rightarrow> rat list" where
  "replyTimes (ClaimReply now now' b) = [now, now']"
| "replyTimes e = []"

definition replyGuarded :: "(string \<Rightarrow> string) \<Rightarrow> files \<Rightarrow> binding \<Rightarrow> bool" where
  "replyGuarded sha disk b =
     (case readResponseLedger sha (b_recipientSessionId b) disk of
        Inl err \<Rightarrow> True
      | Inr rs \<Rightarrow> b \<in> set (map binding.truncate rs))"

lemma truncate_eq: "binding.truncate r = b \<longleftrightarrow> b_messageId r = b_messageId b \<and> same_binding r b"
  for b :: binding
  by (cases b) (auto simp: binding.truncate_def same_binding_def)

lemma truncate_attempted [simp]:
  "binding.truncate (r\<lparr>rr_attempted := x\<rparr>) = binding.truncate r"
  "binding.truncate (r\<lparr>rr_queued := x\<rparr>) = binding.truncate r"
  by (simp_all add: binding.truncate_def)

lemma boundResponseRequest_Some:
  "boundResponseRequest rs b = Inr (Some r) \<Longrightarrow> r \<in> set rs \<and> binding.truncate r = b"
  by (auto simp: boundResponseRequest_def truncate_eq dest!: find_Some_in split: option.splits if_splits)

lemma boundResponseRequest_None:
  "boundResponseRequest rs b = Inr None \<longleftrightarrow> b_messageId b \<notin> b_messageId ` set rs"
  by (force simp: boundResponseRequest_def find_None_iff' split: option.splits if_splits dest: find_Some_in)

text \<open>The ledgers that the mutations write.\<close>

lemma claimReplyIn_Inr:
  assumes "claimReplyIn now now' b ledger = Inr (res, ledger')" "list_all rr_attempted ledger"
  shows "if res then now < b_expiresAt b \<and> b_messageId b \<notin> b_messageId ` set ledger \<and>
       length ledger' \<le> MAX_RESPONSE_REQUESTS \<and>
       (\<exists>r. ledger' = filter (\<lambda>r. now' < b_expiresAt r) ledger @ [r] \<and> binding.truncate r = b \<and>
         rr_attempted r \<and> \<not> rr_queued r)
     else ledger' = ledger"
proof -
  from assms(1) obtain found where rec: "boundResponseRequest ledger b = Inr found"
    by (auto simp: claimReplyIn_def)
  show ?thesis
  proof (cases found)
    case None
    let ?r = "\<lparr>b_messageId = b_messageId b, b_senderSessionId = b_senderSessionId b,
      b_recipientSessionId = b_recipientSessionId b, b_expiresAt = b_expiresAt b,
      rr_attempted = False, rr_queued = False\<rparr>"
    have fresh: "b_messageId b \<notin> b_messageId ` set ledger"
      using rec None by (simp add: boundResponseRequest_None)
    have upd: "update_first (\<lambda>x. b_messageId x = b_messageId b) f (filter P ledger @ [?r]) =
        filter P ledger @ [f ?r]" for f P
      using fresh by (induction ledger) auto
    show ?thesis
      using assms(1) rec None fresh
      by (auto simp: claimReplyIn_def addResponseRequest_def Let_def upd binding.truncate_def
          split: if_splits)
  next
    case (Some r)
    then have "rr_attempted r"
      using assms(2) rec boundResponseRequest_Some by (auto simp: list_all_iff)
    then show ?thesis using assms(1) rec Some by (auto simp: claimReplyIn_def)
  qed
qed

lemma queueReplyIn_Inr:
  assumes "queueReplyIn b ledger = Inr (res, ledger')"
  shows "map binding.truncate ledger' = map binding.truncate ledger \<and>
    map rr_attempted ledger' = map rr_attempted ledger"
  using assms by (auto simp: queueReplyIn_def split: option.splits if_splits
      intro!: map_update_first)

lemma ledger_valid_truncate:
  fixes rs rs' :: "response_record list"
  assumes eq: "map binding.truncate rs' = map binding.truncate rs" and valid: "ledger_valid mx sid rs"
  shows "ledger_valid mx sid rs'"
proof -
  have m: "map b_messageId ts = map b_messageId (map binding.truncate ts)" for ts :: "response_record list"
    by (simp add: binding.truncate_def)
  have l: "list_all (\<lambda>r. binding_ok r \<and> b_recipientSessionId r = sid) ts \<longleftrightarrow>
      list_all (\<lambda>r. binding_ok r \<and> b_recipientSessionId r = sid) (map binding.truncate ts)"
    for ts :: "response_record list"
    by (simp add: binding.truncate_def binding_ok_def list.pred_map o_def)
  have "length rs' = length rs" using arg_cong [OF eq, of length] by simp
  moreover have "map b_messageId rs' = map b_messageId rs" by (rule trans [OF m], subst eq, rule m [symmetric])
  moreover have "list_all (\<lambda>r. binding_ok r \<and> b_recipientSessionId r = sid) rs' \<longleftrightarrow>
      list_all (\<lambda>r. binding_ok r \<and> b_recipientSessionId r = sid) rs"
    by (rule trans [OF l], subst eq, rule l [symmetric])
  ultimately show ?thesis using valid by (simp only: ledger_valid_def)
qed

lemma ledger_valid_add:
  assumes "ledger_valid mx sid rs" "b_messageId r \<notin> b_messageId ` set rs" "binding_ok r"
    "b_recipientSessionId r = sid" "Suc (length (filter P rs)) \<le> mx"
  shows "ledger_valid mx sid (filter P rs @ [r])"
  using assms by (auto simp: ledger_valid_def list_all_iff distinct_map_filter)

lemma claimReplyIn_valid:
  assumes "claimReplyIn now now' b rs = Inr (res, rs')" "binding_ok b"
    "ledger_valid MAX_RESPONSE_REQUESTS (b_recipientSessionId b) rs" "list_all rr_attempted rs"
  shows "ledger_valid MAX_RESPONSE_REQUESTS (b_recipientSessionId b) rs' \<and> list_all rr_attempted rs'"
proof (cases res)
  case True
  then obtain r where r: "rs' = filter (\<lambda>r. now' < b_expiresAt r) rs @ [r]" "binding.truncate r = b"
      "rr_attempted r" "b_messageId b \<notin> b_messageId ` set rs" "length rs' \<le> MAX_RESPONSE_REQUESTS"
    using claimReplyIn_Inr [OF assms(1,4)] by auto
  from r(2) have "b_messageId r = b_messageId b" "b_recipientSessionId r = b_recipientSessionId b"
    "binding_ok r = binding_ok b"
    by (auto simp: binding.truncate_def binding_ok_def)
  with r assms have "ledger_valid MAX_RESPONSE_REQUESTS (b_recipientSessionId b) rs'"
    unfolding r(1) by (intro ledger_valid_add) (simp_all add: image_iff)
  with r assms show ?thesis by (auto simp: list_all_iff)
next
  case False
  then show ?thesis using claimReplyIn_Inr [OF assms(1,4)] assms(3,4) by simp
qed

lemma queueReplyIn_valid:
  assumes "queueReplyIn b rs = Inr (res, rs')"
    "ledger_valid MAX_RESPONSE_REQUESTS sid rs" "list_all rr_attempted rs"
  shows "ledger_valid MAX_RESPONSE_REQUESTS sid rs' \<and> list_all rr_attempted rs'"
proof
  show "ledger_valid MAX_RESPONSE_REQUESTS sid rs'"
    using ledger_valid_truncate queueReplyIn_Inr [OF assms(1)] assms(2) by blast
  have "list_all id (map rr_attempted rs')"
    using queueReplyIn_Inr [OF assms(1)] assms(3) by (simp add: list.pred_map)
  then show "list_all rr_attempted rs'" by (simp add: list.pred_map)
qed

lemma withResponseLedger_Inr:
  assumes "withResponseLedger sha b mutate disk = (Inr res, disk')"
  obtains rs rs' where "readResponseLedger sha (b_recipientSessionId b) disk = Inr rs"
    "mutate rs = Inr (res, rs')" "binding_ok b"
    "disk' = disk(receiptKey sha (b_recipientSessionId b) \<mapsto>
      Some (ledgerDoc ''requests'' (b_recipientSessionId b) (map responseItem rs')))"
  using assms by (auto simp: withResponseLedger_def split: if_splits sum.splits prod.splits)

lemma withResponseLedger_Inl:
  "withResponseLedger sha b mutate disk = (Inl err, disk') \<Longrightarrow> disk' = disk"
  by (auto simp: withResponseLedger_def split: if_splits sum.splits prod.splits)

text \<open>A mutation of valid ledgers that keeps the record of \<open>c\<close> keeps its guard.\<close>

lemma withResponseLedger_guard:
  assumes guard: "replyGuarded sha disk c"
    and keep: "\<And>rs res rs'. \<lbrakk>mutate rs = Inr (res, rs'); binding_ok b;
      ledger_valid MAX_RESPONSE_REQUESTS (b_recipientSessionId b) rs; list_all rr_attempted rs\<rbrakk> \<Longrightarrow>
      ledger_valid MAX_RESPONSE_REQUESTS (b_recipientSessionId b) rs' \<and> list_all rr_attempted rs' \<and>
      (c \<in> set (map binding.truncate rs) \<longrightarrow> c \<in> set (map binding.truncate rs'))"
  shows "replyGuarded sha (snd (withResponseLedger sha b mutate disk)) c"
proof (cases "withResponseLedger sha b mutate disk")
  case (Pair res disk')
  show ?thesis
  proof (cases res)
    case Inl
    with Pair guard withResponseLedger_Inl show ?thesis by fastforce
  next
    case (Inr r)
    with Pair obtain rs rs' where w: "readResponseLedger sha (b_recipientSessionId b) disk = Inr rs"
      "mutate rs = Inr (r, rs')" "binding_ok b" "disk' = disk(receiptKey sha (b_recipientSessionId b) \<mapsto>
        Some (ledgerDoc ''requests'' (b_recipientSessionId b) (map responseItem rs')))"
      by (metis withResponseLedger_Inr)
    have valid: "ledger_valid MAX_RESPONSE_REQUESTS (b_recipientSessionId b) rs' \<and>
        list_all rr_attempted rs' \<and>
        (c \<in> set (map binding.truncate rs) \<longrightarrow> c \<in> set (map binding.truncate rs'))"
      using keep w readResponseLedger_valid by blast
    then show ?thesis
      using guard w Pair
      by (auto simp: replyGuarded_def readResponseLedger_written split: sum.splits)
  qed
qed

lemma replyGuarded_kept:
  assumes "replyGuarded sha disk c" "\<forall>t \<in> set (replyTimes e). t < b_expiresAt c"
  shows "replyGuarded sha (replyStep sha e disk) c"
proof (cases e)
  case (ClaimReply now now' b)
  have "c \<in> set (map binding.truncate rs')"
    if "claimReplyIn now now' b rs = Inr (res, rs')" "list_all rr_attempted rs"
      "c \<in> set (map binding.truncate rs)" for rs res rs'
    using claimReplyIn_Inr [OF that(1,2)] that(3) assms(2) ClaimReply
    by (cases res) (force simp: binding.truncate_def)+
  then show ?thesis
    using assms(1) claimReplyIn_valid unfolding ClaimReply replyStep.simps claimRequestReply_def
    by (intro withResponseLedger_guard) auto
next
  case (QueueReply b)
  have "c \<in> set (map binding.truncate rs')"
    if "queueReplyIn b rs = Inr (res, rs')" "c \<in> set (map binding.truncate rs)" for rs res rs'
    using queueReplyIn_Inr [OF that(1)] that(2) by simp
  then show ?thesis
    using assms(1) queueReplyIn_valid unfolding QueueReply replyStep.simps queueReply_def
    by (intro withResponseLedger_guard) auto
next
  case (DamageReplies k)
  with assms show ?thesis
    by (auto simp: replyGuarded_def readResponseLedger_def readLedgerItems_def split: sum.splits)
qed

lemma claimRequestReply_granted:
  assumes "claimRequestReply sha now now' b disk = (Inr True, disk')"
  shows "now < b_expiresAt b \<and> \<not> replyGuarded sha disk b \<and> replyGuarded sha disk' b"
proof -
  obtain rs rs' where w: "readResponseLedger sha (b_recipientSessionId b) disk = Inr rs"
      "claimReplyIn now now' b rs = Inr (True, rs')" "binding_ok b"
      "disk' = disk(receiptKey sha (b_recipientSessionId b) \<mapsto>
        Some (ledgerDoc ''requests'' (b_recipientSessionId b) (map responseItem rs')))"
    using assms unfolding claimRequestReply_def by (metis withResponseLedger_Inr)
  have v: "ledger_valid MAX_RESPONSE_REQUESTS (b_recipientSessionId b) rs" "list_all rr_attempted rs"
    using readResponseLedger_valid [OF w(1)] by auto
  have v': "ledger_valid MAX_RESPONSE_REQUESTS (b_recipientSessionId b) rs' \<and> list_all rr_attempted rs'"
    using claimReplyIn_valid [OF w(2,3) v] .
  have "b \<notin> set (map binding.truncate rs)" "b \<in> set (map binding.truncate rs')" "now < b_expiresAt b"
    using claimReplyIn_Inr [OF w(2) v(2)] by (auto simp: binding.truncate_def)
  with w v' show ?thesis by (simp add: replyGuarded_def readResponseLedger_written)
qed

interpretation reply_ledger: claim_ledger "replyStep sha" "replyGranted sha" replyTimes b_expiresAt
    "replyGuarded sha" for sha
proof
  fix e s b assume g: "replyGranted sha e s = Some b"
  then obtain now now' where e: "e = ClaimReply now now' b"
      "fst (claimRequestReply sha now now' b s) = Inr True"
    by (cases e) (auto split: if_splits)
  then obtain s' where s': "claimRequestReply sha now now' b s = (Inr True, s')"
    by (metis prod.collapse)
  from claimRequestReply_granted [OF this] e s'
  show "\<not> replyGuarded sha s b" "replyTimes e \<noteq> [] \<and> hd (replyTimes e) < b_expiresAt b"
    "replyGuarded sha (replyStep sha e s) b"
    by auto
qed (rule replyGuarded_kept)

text \<open>The wakes.\<close>

datatype wake_event = ClaimWake rat binding | DamageWakes string

fun wakeStep :: "(string \<Rightarrow> string) \<Rightarrow> wake_event \<Rightarrow> files \<Rightarrow> files" where
  "wakeStep sha (ClaimWake now b) disk = snd (claimPeerWake sha now b disk)"
| "wakeStep sha (DamageWakes k) disk = disk(k \<mapsto> None)"

fun wakeGranted :: "(string \<Rightarrow> string) \<Rightarrow> wake_event \<Rightarrow> files \<Rightarrow> binding option" where
  "wakeGranted sha (ClaimWake now b) disk =
     (if fst (claimPeerWake sha now b disk) = Inr True then Some b else None)"
| "wakeGranted sha e disk = None"

fun wakeTimes :: "wake_event \<Rightarrow> rat list" where
  "wakeTimes (ClaimWake now b) = [now]"
| "wakeTimes e = []"

definition wakeGuarded :: "(string \<Rightarrow> string) \<Rightarrow> files \<Rightarrow> binding \<Rightarrow> bool" where
  "wakeGuarded sha disk b =
     (case readPeerWakeLedger sha (b_recipientSessionId b) disk of
        Inl err \<Rightarrow> True
      | Inr rs \<Rightarrow> b \<in> set rs)"

lemma claimPeerWake_cases:
  obtains (unchanged) res where "claimPeerWake sha now b disk = (res, disk)" "res \<noteq> Inr True"
  | (granted) rs where "readPeerWakeLedger sha (b_recipientSessionId b) disk = Inr rs" "binding_ok b"
      "b_messageId b \<notin> b_messageId ` set rs" "now < b_expiresAt b"
      "ledger_valid MAX_PEER_WAKE_CLAIMS (b_recipientSessionId b)
         (filter (\<lambda>r. now < b_expiresAt r) rs @ [b])"
      "claimPeerWake sha now b disk = (Inr True, disk(receiptKey sha (b_recipientSessionId b) \<mapsto>
         Some (ledgerDoc ''claims'' (b_recipientSessionId b)
           (map (\<lambda>r. obj (bindingFields r)) (filter (\<lambda>r. now < b_expiresAt r) rs @ [b])))))"
proof (cases "fst (claimPeerWake sha now b disk) = Inr True")
  case True
  then obtain rs where rs: "readPeerWakeLedger sha (b_recipientSessionId b) disk = Inr rs"
    "binding_ok b" "boundPeerWake rs b = Inr None" "now < b_expiresAt b"
    "length (filter (\<lambda>r. now < b_expiresAt r) rs) < MAX_PEER_WAKE_CLAIMS"
    by (auto simp: claimPeerWake_def Let_def split: if_splits sum.splits)
  then have fresh: "b_messageId b \<notin> b_messageId ` set rs"
    by (force simp: boundPeerWake_def find_None_iff' split: option.splits if_splits dest: find_Some_in)
  moreover have "ledger_valid MAX_PEER_WAKE_CLAIMS (b_recipientSessionId b)
         (filter (\<lambda>r. now < b_expiresAt r) rs @ [b])"
    using rs fresh readPeerWakeLedger_valid [OF rs(1)] by (intro ledger_valid_add) auto
  ultimately show ?thesis using rs by (intro granted) (auto simp: claimPeerWake_def)
next
  case False
  then have "snd (claimPeerWake sha now b disk) = disk"
    by (auto simp: claimPeerWake_def Let_def split: if_splits sum.splits)
  with False show ?thesis by (metis prod.collapse unchanged)
qed

lemma wakeGuarded_kept:
  assumes "wakeGuarded sha disk c" "\<forall>t \<in> set (wakeTimes e). t < b_expiresAt c"
  shows "wakeGuarded sha (wakeStep sha e disk) c"
proof (cases e)
  case (ClaimWake now b)
  show ?thesis
  proof (cases rule: claimPeerWake_cases [of sha now b disk])
    case (granted rs)
    then show ?thesis
      using assms ClaimWake
      by (auto simp: wakeGuarded_def readPeerWakeLedger_written simp del: map_append split: sum.splits)
  qed (use assms ClaimWake in simp)
next
  case (DamageWakes k)
  with assms show ?thesis
    by (auto simp: wakeGuarded_def readPeerWakeLedger_def readLedgerItems_def split: sum.splits)
qed

interpretation wake_ledger: claim_ledger "wakeStep sha" "wakeGranted sha" wakeTimes b_expiresAt
    "wakeGuarded sha" for sha
proof
  fix e s b assume g: "wakeGranted sha e s = Some b"
  then obtain now where e: "e = ClaimWake now b" "fst (claimPeerWake sha now b s) = Inr True"
    by (cases e) (auto split: if_splits)
  have "now < b_expiresAt b \<and> \<not> wakeGuarded sha s b \<and> wakeGuarded sha (wakeStep sha e s) b"
  proof (cases rule: claimPeerWake_cases [of sha now b s])
    case (granted rs)
    then show ?thesis using e
      by (auto simp: wakeGuarded_def readPeerWakeLedger_written simp del: map_append)
  qed (use e in simp)
  then show "\<not> wakeGuarded sha s b" "wakeTimes e \<noteq> [] \<and> hd (wakeTimes e) < b_expiresAt b"
    "wakeGuarded sha (wakeStep sha e s) b"
    by (auto simp: e)
qed (rule wakeGuarded_kept)

section \<open>Properties\<close>

text \<open>C6. Over any history of a machine's reply ledgers (claims by any session, confirmations, files
  that become unreadable) whose clock does not run backwards, the reply to one response request is
  claimed successfully at most once.\<close>

theorem reply_claimed_once:
  "sorted (concat (map replyTimes es)) \<Longrightarrow>
   distinct (grants (replyStep sha) (replyGranted sha) es disk)"
  by (rule reply_ledger.granted_once)

definition sample_binding :: binding where
  "sample_binding = \<lparr>b_messageId = ''00000000-0000-4000-8000-000000000000'',
     b_senderSessionId = ''s'', b_recipientSessionId = ''r'', b_expiresAt = 10\<rparr>"

lemma is_runtime_id_sample: "is_runtime_id ''00000000-0000-4000-8000-000000000000''"
  by code_simp

lemma binding_ok_sample: "binding_ok sample_binding"
  by (simp add: binding_ok_def sample_binding_def is_runtime_id_sample)

theorem reply_claimed_once_witness:
  "distinct (grants (replyStep (\<lambda>s. s)) (replyGranted (\<lambda>s. s))
     [ClaimReply 1 2 sample_binding, QueueReply sample_binding, ClaimReply 3 3 sample_binding]
     Map.empty)"
  by (rule reply_claimed_once) simp

text \<open>A wake of a recipient is claimed successfully at most once, in the same sense.\<close>

theorem wake_claimed_once:
  "sorted (concat (map wakeTimes es)) \<Longrightarrow>
   distinct (grants (wakeStep sha) (wakeGranted sha) es disk)"
  by (rule wake_ledger.granted_once)

theorem wake_claimed_once_witness:
  "distinct (grants (wakeStep (\<lambda>s. s)) (wakeGranted (\<lambda>s. s))
     [ClaimWake 1 sample_binding, DamageWakes ''other'', ClaimWake 3 sample_binding] Map.empty)"
  by (rule wake_claimed_once) simp

lemma find_ledger:
  assumes "distinct (map b_messageId rs)" "r \<in> set rs" "b_messageId r = b_messageId b"
  shows "List.find (\<lambda>x. b_messageId x = b_messageId b) rs = Some r"
  using assms by (induction rs) (auto simp: image_iff)

lemma boundResponseRequest_found:
  assumes "ledger_valid mx sid rs" "r \<in> set rs" "binding.truncate r = b"
  shows "boundResponseRequest rs b = Inr (Some r)"
  using assms find_ledger [of rs r b]
  by (simp add: boundResponseRequest_def ledger_valid_def truncate_eq)

text \<open>A valid, unexpired request without a record, in a readable ledger with room, can be claimed;
  it then counts as unanswered until it expires, its reply can be confirmed, and from then on it
  counts as answered at all times.\<close>

theorem reply_lifecycle:
  assumes "binding_ok b" "readResponseLedger sha (b_recipientSessionId b) disk = Inr rs"
    "b_messageId b \<notin> b_messageId ` set rs" "now < b_expiresAt b"
    "length (filter (\<lambda>r. now' < b_expiresAt r) rs) < MAX_RESPONSE_REQUESTS"
  shows "\<exists>d1 d2. claimRequestReply sha now now' b disk = (Inr True, d1) \<and>
    queueReply sha b d1 = (Inr (), d2) \<and>
    readResponseRequestStatus sha t b d1 =
      Inr (if b_expiresAt b \<le> t then RsExpired else RsUnanswered) \<and>
    readResponseRequestStatus sha t b d2 = Inr RsAnswered"
proof -
  have "boundResponseRequest rs b = Inr None" using assms(3) by (simp add: boundResponseRequest_None)
  then obtain rs1 where c: "claimReplyIn now now' b rs = Inr (True, rs1)"
    using assms(4,5) by (auto simp: claimReplyIn_def addResponseRequest_def Let_def)
  note old = readResponseLedger_valid [OF assms(2)]
  note v1 = claimReplyIn_valid [OF c assms(1) conjunct1 [OF old] conjunct2 [OF old]]
  from claimReplyIn_Inr [OF c] old obtain r where r: "r \<in> set rs1" "binding.truncate r = b" "rr_attempted r"
      "rs1 = filter (\<lambda>r. now' < b_expiresAt r) rs @ [r]" "b_messageId b \<notin> b_messageId ` set rs"
      and unqueued: "\<not> rr_queued r"
    by auto
  let ?k = "receiptKey sha (b_recipientSessionId b)"
  let ?doc = "\<lambda>rs. Some (ledgerDoc ''requests'' (b_recipientSessionId b) (map responseItem rs))"
  define d1 where "d1 = disk(?k \<mapsto> ?doc rs1)"
  have claim: "claimRequestReply sha now now' b disk = (Inr True, d1)"
    using assms(1,2) c by (simp add: claimRequestReply_def withResponseLedger_def d1_def)
  have read1: "readResponseLedger sha (b_recipientSessionId b) d1 = Inr rs1"
    using v1 by (simp add: d1_def readResponseLedger_written)
  have bound1: "boundResponseRequest rs1 b = Inr (Some r)"
    using v1 r by (blast intro: boundResponseRequest_found)
  define rs2 where "rs2 = update_first (\<lambda>x. b_messageId x = b_messageId r) (\<lambda>x. x\<lparr>rr_queued := True\<rparr>) rs1"
  have q: "queueReplyIn b rs1 = Inr ((), rs2)"
    using bound1 r by (simp add: queueReplyIn_def rs2_def)
  note v2 = queueReplyIn_valid [OF q conjunct1 [OF v1] conjunct2 [OF v1]]
  define d2 where "d2 = d1(?k \<mapsto> ?doc rs2)"
  have queue: "queueReply sha b d1 = (Inr (), d2)"
    using assms(1) read1 q by (simp add: queueReply_def withResponseLedger_def d2_def)
  have read2: "readResponseLedger sha (b_recipientSessionId b) d2 = Inr rs2"
    using v2 by (simp add: d2_def readResponseLedger_written)
  have "List.find (\<lambda>x. b_messageId x = b_messageId r) rs1 = Some r"
    using v1 r by (intro find_ledger) (simp_all add: ledger_valid_def)
  then have "r\<lparr>rr_queued := True\<rparr> \<in> set rs2"
    unfolding rs2_def by (rule update_first_in)
  then have bound2: "boundResponseRequest rs2 b = Inr (Some (r\<lparr>rr_queued := True\<rparr>))"
    using v2 r by (intro boundResponseRequest_found) auto
  show ?thesis
    using assms(1) claim queue read1 bound1 read2 bound2 r unqueued
    by (auto simp: readResponseRequestStatus_def)
qed

theorem reply_lifecycle_witness:
  "\<exists>d1 d2. claimRequestReply (\<lambda>s. s) 1 2 sample_binding Map.empty = (Inr True, d1) \<and>
    queueReply (\<lambda>s. s) sample_binding d1 = (Inr (), d2) \<and>
    readResponseRequestStatus (\<lambda>s. s) 5 sample_binding d1 =
      Inr (if b_expiresAt sample_binding \<le> 5 then RsExpired else RsUnanswered) \<and>
    readResponseRequestStatus (\<lambda>s. s) 5 sample_binding d2 = Inr RsAnswered"
  by (rule reply_lifecycle [where rs = "[]"])
    (simp_all add: binding_ok_sample readResponseLedger_def readLedgerItems_def MAX_RESPONSE_REQUESTS_def,
     simp add: sample_binding_def)

end
