(* ===== verification/CoordMailbox.thy ===== *)
theory CoordMailbox
  imports CoordLedgers
begin

text \<open>
  \<open>extensions/_shared/coordinator-state.ts\<close>, the shared directories: the presence files and inboxes
  of a room, the receipts of a session and the status records of the messages it sent. A directory
  is the list of its entries in the order that \<open>readdir\<close> returns. Each operation is the critical
  section that the code runs under the interprocess lock of the directory. What only the machine
  knows is the record \<open>env\<close>: SHA-256, the outcome of \<open>kill(pid, 0)\<close>, the decimal text of a number and
  the collation key of \<open>localeCompare\<close>.
\<close>

section \<open>Directories\<close>

record env =
  sha256 :: "string \<Rightarrow> string"
  killed :: procs
  showNum :: "rat \<Rightarrow> string"
  collate :: "string \<Rightarrow> string"

type_synonym dir = "(string \<times> json option) list"

record inbox_dir =
  ib_mtime :: rat
  ib_files :: dir

record room =
  rm_presence :: "(string \<times> rat \<times> json option) list"
  rm_inbox :: "(string \<times> inbox_dir) list"

record coord =
  co_rooms :: "(string \<times> room) list"
  co_receipts :: "(string \<times> dir) list"
  co_outgoing :: "(string \<times> dir) list"
  co_replies :: files

definition emptyCoord :: coord where
  "emptyCoord = \<lparr>co_rooms = [], co_receipts = [], co_outgoing = [], co_replies = Map.empty\<rparr>"

definition is_json_name :: "string \<Rightarrow> bool" where
  "is_json_name name \<longleftrightarrow> 5 \<le> length name \<and> drop (length name - 5) name = ''.json''"

text \<open>\<open>readJsonFile(path, undefined)\<close>.\<close>

definition readJson :: "dir \<Rightarrow> string \<Rightarrow> jsval" where
  "readJson d name = (case map_of d name of None \<Rightarrow> None | Some doc \<Rightarrow> doc)"

definition dirOf :: "(string \<times> dir) list \<Rightarrow> string \<Rightarrow> dir" where
  "dirOf ds k = (case map_of ds k of None \<Rightarrow> [] | Some d \<Rightarrow> d)"

definition roomOf :: "coord \<Rightarrow> string \<Rightarrow> room" where
  "roomOf s r = (case map_of (co_rooms s) r of None \<Rightarrow> \<lparr>rm_presence = [], rm_inbox = []\<rparr> | Some x \<Rightarrow> x)"

definition setRoom :: "string \<Rightarrow> room \<Rightarrow> coord \<Rightarrow> coord" where
  "setRoom r x s = s\<lparr>co_rooms := AList.update r x (co_rooms s)\<rparr>"

definition presencePath :: "string \<Rightarrow> string" where
  "presencePath runtimeId = runtimeId @ ''.json''"

definition readPresence :: "room \<Rightarrow> string \<Rightarrow> presence option" where
  "readPresence rm runtimeId =
     (case map_of (rm_presence rm) (presencePath runtimeId) of
        Some (mtime, Some doc) \<Rightarrow> normalizePresence (Some doc)
      | _ \<Rightarrow> normalizePresence None)"

definition inboxOf :: "room \<Rightarrow> string \<Rightarrow> dir" where
  "inboxOf rm runtimeId = (case map_of (rm_inbox rm) runtimeId of None \<Rightarrow> [] | Some ib \<Rightarrow> ib_files ib)"

definition setInbox :: "rat \<Rightarrow> string \<Rightarrow> dir \<Rightarrow> room \<Rightarrow> room" where
  "setInbox now runtimeId files rm =
     rm\<lparr>rm_inbox := AList.update runtimeId \<lparr>ib_mtime = now, ib_files = files\<rparr> (rm_inbox rm)\<rparr>"

definition jsonNames :: "dir \<Rightarrow> string list" where
  "jsonNames d = filter is_json_name (map fst d)"

section \<open>Presence\<close>

definition isPresenceActive :: "procs \<Rightarrow> presence \<Rightarrow> rat \<Rightarrow> bool" where
  "isPresenceActive kill peer now \<longleftrightarrow> now < p_leaseExpiresAt peer \<and> isProcessAlive kill (p_pid peer)"

datatype coord_error =
    InvalidRoomId | InvalidRuntimeId | InvalidSessionId | InvalidPresence | InvalidEnvelope
  | PeerNotLive | PeerChangedSession | NoResponseSupport | InboxFull | InvalidReceipt | ReceiptsFull
  | HandlerFailed

definition writePresence :: "rat \<Rightarrow> presence \<Rightarrow> coord \<Rightarrow> (coord_error + unit) \<times> coord" where
  "writePresence now peer s =
     (case normalizePresence (Some (presenceJson peer)) of
        None \<Rightarrow> (Inl InvalidPresence, s)
      | Some normalized \<Rightarrow>
          let rm = roomOf s (p_roomId peer); rid = p_runtimeId peer;
              rm' = (if map_of (rm_inbox rm) rid = None then setInbox now rid [] rm else rm)
          in (Inr (), setRoom (p_roomId peer)
               (rm'\<lparr>rm_presence := AList.update (presencePath rid) (now, Some (presenceJson normalized))
                  (rm_presence rm')\<rparr>) s))"

definition readRoomPeers :: "coord \<Rightarrow> string \<Rightarrow> presence list" where
  "readRoomPeers s r =
     filter (\<lambda>peer. p_roomId peer = r)
       (List.map_filter (\<lambda>(name, mtime, doc). if is_json_name name then normalizePresence doc else None)
         (rm_presence (roomOf s r)))"

definition peerOrder :: "env \<Rightarrow> presence \<Rightarrow> rat \<times> string" where
  "peerOrder env peer = (p_startedAt peer, collate env (p_runtimeId peer))"

definition listActivePeers :: "env \<Rightarrow> coord \<Rightarrow> string \<Rightarrow> string option \<Rightarrow> rat \<Rightarrow> presence list" where
  "listActivePeers env s r self now =
     sort_key (peerOrder env)
       (filter (\<lambda>peer. Some (p_runtimeId peer) \<noteq> self \<and> isPresenceActive (killed env) peer now)
         (readRoomPeers s r))"

definition listRoomIds :: "coord \<Rightarrow> string list" where
  "listRoomIds s = sort (filter is_room_id (map fst (co_rooms s)))"

definition listAllActivePeers :: "env \<Rightarrow> coord \<Rightarrow> string option \<Rightarrow> rat \<Rightarrow> presence list" where
  "listAllActivePeers env s self now =
     sort_key (peerOrder env) (concat (map (\<lambda>r. listActivePeers env s r self now) (listRoomIds s)))"

section \<open>Inboxes\<close>

definition envelopeName :: "env \<Rightarrow> envelope \<Rightarrow> string" where
  "envelopeName env e = showNum env (e_createdAt e) @ ''-'' @ e_id e @ ''.json''"

definition enqueueMessage :: "env \<Rightarrow> rat \<Rightarrow> envelope \<Rightarrow> coord \<Rightarrow> (coord_error + unit) \<times> coord" where
  "enqueueMessage env now envelope s =
     (case normalizeEnvelope (Some (envelopeJson envelope)) of
        None \<Rightarrow> (Inl InvalidEnvelope, s)
      | Some normalized \<Rightarrow>
          let r = e_roomId envelope; rid = e_targetRuntimeId envelope; rm = roomOf s r in
          case readPresence rm rid of
            None \<Rightarrow> (Inl PeerNotLive, setRoom r rm s)
          | Some target \<Rightarrow>
              if p_roomId target \<noteq> r \<or> \<not> isPresenceActive (killed env) target now
              then (Inl PeerNotLive, setRoom r rm s)
              else if e_targetSessionId envelope \<noteq> None \<and>
                  e_targetSessionId envelope \<noteq> Some (p_sessionId target)
              then (Inl PeerChangedSession, setRoom r rm s)
              else if e_requestResponse normalized \<and> \<not> p_requestResponseVersion target
              then (Inl NoResponseSupport, setRoom r rm s)
              else
                let queue = inboxOf rm rid in
                if length (jsonNames queue) \<ge> MAX_INBOX_MESSAGES
                then (Inl InboxFull, setRoom r rm s)
                else (Inr (), setRoom r
                  (setInbox now rid
                    (AList.update (envelopeName env envelope) (Some (envelopeJson normalized)) queue) rm) s))"

text \<open>
  \<open>readInbox\<close> on the files of one inbox: the first hundred names in order, each either returned or,
  when it is invalid, misplaced or expired, deleted.
\<close>

definition inboxItem :: "string \<Rightarrow> string \<Rightarrow> rat \<Rightarrow> jsval \<Rightarrow> envelope option" where
  "inboxItem r rid now doc =
     (case normalizeEnvelope doc of
        None \<Rightarrow> None
      | Some e \<Rightarrow>
          if e_roomId e \<noteq> r \<or> e_targetRuntimeId e \<noteq> rid \<or> e_expiresAt e \<le> now then None else Some e)"

fun readItems :: "(jsval \<Rightarrow> envelope option) \<Rightarrow> string list \<Rightarrow> dir \<Rightarrow> (string \<times> envelope) list \<times> dir" where
  "readItems item [] d = ([], d)"
| "readItems item (name # names) d =
     (case item (readJson d name) of
        None \<Rightarrow> readItems item names (AList.delete name d)
      | Some e \<Rightarrow> let (items, d') = readItems item names d in ((name, e) # items, d'))"

definition readInboxDir :: "string \<Rightarrow> string \<Rightarrow> rat \<Rightarrow> dir \<Rightarrow> (string \<times> envelope) list \<times> dir" where
  "readInboxDir r rid now d =
     readItems (inboxItem r rid now) (take MAX_INBOX_MESSAGES (sort (jsonNames d))) d"

definition readInbox :: "rat \<Rightarrow> string \<Rightarrow> string \<Rightarrow> coord \<Rightarrow> (string \<times> envelope) list \<times> coord" where
  "readInbox now r rid s =
     (let rm = roomOf s r in
      case map_of (rm_inbox rm) rid of
        None \<Rightarrow> ([], s)
      | Some ib \<Rightarrow>
          let (items, d) = readInboxDir r rid now (ib_files ib);
              mtime = (if d = ib_files ib then ib_mtime ib else now)
          in (items, setRoom r (setInbox mtime rid d rm) s))"

definition removeInboxItem :: "rat \<Rightarrow> string \<Rightarrow> string \<Rightarrow> string \<Rightarrow> coord \<Rightarrow> coord" where
  "removeInboxItem now r rid name s =
     (let rm = roomOf s r in
      if map_of (rm_inbox rm) rid = None then s
      else setRoom r (setInbox now rid (AList.delete name (inboxOf rm rid)) rm) s)"

text \<open>
  The messages that a caller hands to its \<open>onMessage\<close>, one after another, each deleted once the
  handler returned. The handler changes the caller's world and may throw.
\<close>

type_synonym 'w handler = "envelope \<Rightarrow> 'w \<Rightarrow> bool \<times> 'w"

fun drainItems :: "'w handler \<Rightarrow> (string \<times> envelope) list \<Rightarrow> dir \<Rightarrow> 'w \<Rightarrow> bool \<times> dir \<times> 'w" where
  "drainItems onMessage [] d w = (True, d, w)"
| "drainItems onMessage ((name, e) # items) d w =
     (let (ok, w') = onMessage e w in
      if ok then drainItems onMessage items (AList.delete name d) w' else (False, d, w'))"

definition removeRuntimeState ::
  "rat \<Rightarrow> string \<Rightarrow> string \<Rightarrow> 'w handler option \<Rightarrow> coord \<Rightarrow> 'w \<Rightarrow> (coord_error + unit) \<times> coord \<times> 'w" where
  "removeRuntimeState now r rid onMessage s w =
     (if \<not> is_room_id r then (Inl InvalidRoomId, s, w)
      else if \<not> is_runtime_id rid then (Inl InvalidRuntimeId, setRoom r (roomOf s r) s, w)
      else
        let rm = roomOf s r;
            rm1 = rm\<lparr>rm_presence := AList.delete (presencePath rid) (rm_presence rm)\<rparr>
        in case onMessage of
             None \<Rightarrow> (Inr (), setRoom r (rm1\<lparr>rm_inbox := AList.delete rid (rm_inbox rm1)\<rparr>) s, w)
           | Some f \<Rightarrow>
               if map_of (rm_inbox rm1) rid = None then (Inr (), setRoom r rm1 s, w)
               else
                 let (items, d) = readInboxDir r rid now (inboxOf rm1 rid);
                     (ok, d', w') = drainItems f items d w
                 in if ok
                    then (Inr (), setRoom r (rm1\<lparr>rm_inbox := AList.delete rid (rm_inbox rm1)\<rparr>) s, w')
                    else (Inl HandlerFailed, setRoom r (setInbox now rid d' rm1) s, w'))"

text \<open>\<open>adoptSessionInboxMessages\<close>: the inboxes of dead predecessors, in directory order.\<close>

definition predecessorAlive :: "env \<Rightarrow> room \<Rightarrow> string \<Rightarrow> bool" where
  "predecessorAlive env rm rid =
     (case readPresence rm rid of None \<Rightarrow> False | Some p \<Rightarrow> isProcessAlive (killed env) (p_pid p))"

fun adoptInboxes ::
  "env \<Rightarrow> rat \<Rightarrow> string \<Rightarrow> string \<Rightarrow> string \<Rightarrow> 'w handler \<Rightarrow> string list \<Rightarrow> nat \<Rightarrow> room \<Rightarrow> 'w \<Rightarrow>
   (coord_error + nat) \<times> room \<times> 'w" where
  "adoptInboxes env now r successor sessionId onMessage [] n rm w = (Inr n, rm, w)"
| "adoptInboxes env now r successor sessionId onMessage (rid # rids) n rm w =
     (if \<not> is_runtime_id rid \<or> rid = successor \<or> predecessorAlive env rm rid
      then adoptInboxes env now r successor sessionId onMessage rids n rm w
      else
        let (items, d) = readInboxDir r rid now (inboxOf rm rid);
            mine = filter (\<lambda>(name, e). e_targetSessionId e = Some sessionId) items;
            (ok, d', w') = drainItems onMessage mine d w;
            rm' = (if d' = inboxOf rm rid then rm else setInbox now rid d' rm)
        in if ok
           then adoptInboxes env now r successor sessionId onMessage rids (n + length mine) rm' w'
           else (Inl HandlerFailed, rm', w'))"

definition adoptSessionInboxMessages ::
  "env \<Rightarrow> rat \<Rightarrow> string \<Rightarrow> string \<Rightarrow> string \<Rightarrow> 'w handler \<Rightarrow> coord \<Rightarrow> 'w \<Rightarrow>
   (coord_error + nat) \<times> coord \<times> 'w" where
  "adoptSessionInboxMessages env now r successor sessionId onMessage s w =
     (if \<not> is_room_id r then (Inl InvalidRoomId, s, w)
      else
        let rm = roomOf s r;
            (res, rm', w') = adoptInboxes env now r successor sessionId onMessage
              (map fst (rm_inbox rm)) 0 rm w
        in (res, setRoom r rm' s, w'))"

section \<open>Receipts\<close>

definition session_id_ok :: "string \<Rightarrow> bool" where
  "session_id_ok sessionId \<longleftrightarrow> sessionId \<noteq> [] \<and> length sessionId \<le> 1024"

definition receiptName :: "envelope \<Rightarrow> string" where
  "receiptName e = e_id e @ ''.json''"

definition persistSessionReceipt ::
  "env \<Rightarrow> string \<Rightarrow> envelope \<Rightarrow> coord \<Rightarrow> (coord_error + string \<times> envelope) \<times> coord" where
  "persistSessionReceipt env sessionId envelope s =
     (case normalizeEnvelope (Some (envelopeJson envelope)) of
        None \<Rightarrow> (Inl InvalidReceipt, s)
      | Some normalized \<Rightarrow>
          if \<not> session_id_ok sessionId then (Inl InvalidSessionId, s)
          else
            let k = receiptKey (sha256 env) sessionId; d = dirOf (co_receipts s) k;
                name = receiptName envelope;
                put = (\<lambda>d'. s\<lparr>co_receipts := AList.update k d' (co_receipts s)\<rparr>)
            in if map_of d name \<noteq> None then (Inr (name, normalized), put d)
               else if length (jsonNames d) \<ge> MAX_SESSION_RECEIPTS then (Inl ReceiptsFull, put d)
               else (Inr (name, normalized),
                 put (AList.update name (Some (envelopeJson normalized)) d)))"

definition receiptItem :: "rat \<Rightarrow> jsval \<Rightarrow> envelope option" where
  "receiptItem now doc =
     (case normalizeEnvelope doc of
        None \<Rightarrow> None
      | Some e \<Rightarrow> if e_expiresAt e \<le> now then None else Some e)"

definition readReceiptDirectory :: "rat \<Rightarrow> dir \<Rightarrow> (string \<times> envelope) list \<times> dir" where
  "readReceiptDirectory now d = readItems (receiptItem now) (sort (jsonNames d)) d"

definition updateDir :: "string \<Rightarrow> (dir \<Rightarrow> dir) \<Rightarrow> (string \<times> dir) list \<Rightarrow> (string \<times> dir) list" where
  "updateDir k f ds = (case map_of ds k of None \<Rightarrow> ds | Some d \<Rightarrow> AList.update k (f d) ds)"

definition readSessionReceipts ::
  "env \<Rightarrow> rat \<Rightarrow> string \<Rightarrow> coord \<Rightarrow> (coord_error + (string \<times> envelope) list) \<times> coord" where
  "readSessionReceipts env now sessionId s =
     (if \<not> session_id_ok sessionId then (Inl InvalidSessionId, s)
      else
        let k = receiptKey (sha256 env) sessionId in
        (Inr (fst (readReceiptDirectory now (dirOf (co_receipts s) k))),
         s\<lparr>co_receipts := updateDir k (\<lambda>d. snd (readReceiptDirectory now d)) (co_receipts s)\<rparr>))"

definition removeSessionReceipt :: "string \<Rightarrow> string \<Rightarrow> coord \<Rightarrow> coord" where
  "removeSessionReceipt k name s =
     s\<lparr>co_receipts := updateDir k (AList.delete name) (co_receipts s)\<rparr>"

definition is_receipt_key :: "string \<Rightarrow> bool" where
  "is_receipt_key k \<longleftrightarrow> take 8 k = ''session-'' \<and> length k = 72 \<and> list_all is_lower_hex (drop 8 k)"

definition pruneSessionReceipts :: "rat \<Rightarrow> coord \<Rightarrow> coord" where
  "pruneSessionReceipts now s =
     s\<lparr>co_receipts := map (\<lambda>(k, d). (k, if is_receipt_key k then snd (readReceiptDirectory now d) else d))
       (co_receipts s)\<rparr>"

section \<open>Status records of sent messages\<close>

definition statusFile :: "string \<Rightarrow> string" where
  "statusFile messageId = messageId @ ''.json''"

definition statusOrder :: "env \<Rightarrow> status_record \<Rightarrow> rat \<times> string" where
  "statusOrder env r = (- r_createdAt r, collate env (r_messageId r))"

definition readOutgoingStatusRecords :: "env \<Rightarrow> string \<Rightarrow> coord \<Rightarrow> status_record list" where
  "readOutgoingStatusRecords env sessionId s =
     sort_key (statusOrder env)
       (filter (\<lambda>r. r_senderSessionId r = sessionId)
         (List.map_filter (\<lambda>(name, doc). if is_json_name name then normalizeMessageStatusRecord doc else None)
           (dirOf (co_outgoing s) (receiptKey (sha256 env) sessionId))))"

definition targetOrSuccessorAlive :: "env \<Rightarrow> coord \<Rightarrow> status_record \<Rightarrow> bool" where
  "targetOrSuccessorAlive env s r =
     list_ex (\<lambda>peer. isProcessAlive (killed env) (p_pid peer) \<and>
        (case r_targetSessionId r of
           Some sid \<Rightarrow> p_sessionId peer = sid
         | None \<Rightarrow> p_runtimeId peer = r_targetRuntimeId r))
       (readRoomPeers s (r_targetRoomId r))"

datatype effective_status = Persisted message_status | Expired | UnreadSessionEnded

definition recordBinding :: "status_record \<Rightarrow> binding" where
  "recordBinding r = \<lparr>b_messageId = r_messageId r, b_senderSessionId = r_senderSessionId r,
     b_recipientSessionId = (case r_targetSessionId r of None \<Rightarrow> [] | Some sid \<Rightarrow> sid),
     b_expiresAt = r_expiresAt r\<rparr>"

definition requestResponseStatus ::
  "env \<Rightarrow> rat \<Rightarrow> coord \<Rightarrow> status_record \<Rightarrow> ledger_error + response_status" where
  "requestResponseStatus env now s r =
     (if r_responseAnsweredAt r \<noteq> None then Inr RsAnswered
      else readResponseRequestStatus (sha256 env) now (recordBinding r) (co_replies s))"

definition statusView ::
  "env \<Rightarrow> rat \<Rightarrow> coord \<Rightarrow> status_record \<Rightarrow> ledger_error + effective_status \<times> response_status option" where
  "statusView env now s r =
     bind_r (if r_responseRequested r = Some True
             then bind_r (requestResponseStatus env now s r) (\<lambda>x. Inr (Some x)) else Inr None)
       (\<lambda>responseStatus.
         Inr (if \<not> r_trackingSupported r then (Persisted (r_status r), responseStatus)
              else if r_status r < StSurfaced \<and> r_expiresAt r \<le> now then (Expired, responseStatus)
              else if r_status r = StQueued \<and> \<not> targetOrSuccessorAlive env s r
              then (UnreadSessionEnded, responseStatus)
              else (Persisted (r_status r), responseStatus)))"

definition newStatusRecord :: "envelope \<Rightarrow> string option \<Rightarrow> bool \<Rightarrow> status_record" where
  "newStatusRecord e targetName tracking =
     \<lparr>r_messageId = e_id e, r_senderSessionId = sd_sessionId (e_sender e), r_targetRoomId = e_roomId e,
      r_targetRuntimeId = e_targetRuntimeId e, r_targetSessionId = e_targetSessionId e,
      r_targetSessionName = boundedString (map_option JStr targetName) 200,
      r_trackingSupported = tracking, r_acknowledgmentRequested = e_requestAcknowledgment e,
      r_responseRequested = (if e_requestResponse e then Some True else None), r_status = StPending,
      r_createdAt = e_createdAt e, r_updatedAt = e_createdAt e, r_expiresAt = e_expiresAt e,
      r_deliveredAt = None, r_surfacedAt = None, r_acknowledgedAt = None, r_repliedAt = None,
      r_responseAnsweredAt = None\<rparr>"

definition outgoingDir :: "env \<Rightarrow> string \<Rightarrow> coord \<Rightarrow> dir" where
  "outgoingDir env sessionId s = dirOf (co_outgoing s) (receiptKey (sha256 env) sessionId)"

definition setOutgoing :: "env \<Rightarrow> string \<Rightarrow> dir \<Rightarrow> coord \<Rightarrow> coord" where
  "setOutgoing env sessionId d s =
     s\<lparr>co_outgoing := AList.update (receiptKey (sha256 env) sessionId) d (co_outgoing s)\<rparr>"

definition readStatus :: "env \<Rightarrow> string \<Rightarrow> string \<Rightarrow> coord \<Rightarrow> status_record option" where
  "readStatus env sessionId messageId s =
     normalizeMessageStatusRecord (readJson (outgoingDir env sessionId s) (statusFile messageId))"

definition persistOutgoingMessageStatus ::
  "env \<Rightarrow> envelope \<Rightarrow> string option \<Rightarrow> bool \<Rightarrow> coord \<Rightarrow> (coord_error + status_record) \<times> coord" where
  "persistOutgoingMessageStatus env e targetName tracking s =
     (let sid = sd_sessionId (e_sender e); r = newStatusRecord e targetName tracking in
      if \<not> session_id_ok sid then (Inl InvalidSessionId, s)
      else if \<not> is_runtime_id (e_id e)
      then (Inl InvalidRuntimeId, setOutgoing env sid (outgoingDir env sid s) s)
      else if readStatus env sid (e_id e) s \<noteq> None
      then (Inr r, setOutgoing env sid (outgoingDir env sid s) s)
      else
        let stale = drop (MAX_OUTGOING_STATUS_RECORDS - 1) (readOutgoingStatusRecords env sid s);
            d = fold (\<lambda>x. AList.delete (statusFile (r_messageId x))) stale (outgoingDir env sid s)
        in (Inr r, setOutgoing env sid (AList.update (statusFile (e_id e)) (Some (statusJson r)) d) s))"

definition removeOutgoingMessageStatus ::
  "env \<Rightarrow> string \<Rightarrow> string \<Rightarrow> coord \<Rightarrow> (coord_error + unit) \<times> coord" where
  "removeOutgoingMessageStatus env sid messageId s =
     (if \<not> session_id_ok sid then (Inl InvalidSessionId, s)
      else
        let d = outgoingDir env sid s in
        if \<not> is_runtime_id messageId then (Inl InvalidRuntimeId, setOutgoing env sid d s)
        else (Inr (), setOutgoing env sid (AList.delete (statusFile messageId) d) s))"

definition stampStatus :: "message_status \<Rightarrow> rat \<Rightarrow> status_record \<Rightarrow> status_record" where
  "stampStatus status now r =
     (let next = r\<lparr>r_status := status, r_updatedAt := now\<rparr> in
      case status of
        StDelivered \<Rightarrow> next\<lparr>r_deliveredAt := Some now\<rparr>
      | StSurfaced \<Rightarrow> next\<lparr>r_surfacedAt := Some now\<rparr>
      | StAcknowledged \<Rightarrow> next\<lparr>r_acknowledgedAt := Some now\<rparr>
      | StReplied \<Rightarrow> next\<lparr>r_repliedAt := Some now\<rparr>
      | _ \<Rightarrow> next)"

definition updateOutgoingMessageStatus ::
  "env \<Rightarrow> string \<Rightarrow> string \<Rightarrow> message_status \<Rightarrow> rat \<Rightarrow> coord \<Rightarrow>
   (coord_error + status_record option) \<times> coord" where
  "updateOutgoingMessageStatus env sid messageId status now s =
     (if \<not> is_runtime_id messageId then (Inl InvalidRuntimeId, s)
      else if \<not> session_id_ok sid then (Inl InvalidSessionId, s)
      else
        let d = outgoingDir env sid s in
        case readStatus env sid messageId s of
          None \<Rightarrow> (Inr None, setOutgoing env sid d s)
        | Some current \<Rightarrow>
            if r_senderSessionId current \<noteq> sid then (Inr None, setOutgoing env sid d s)
            else if status \<le> r_status current then (Inr (Some current), setOutgoing env sid d s)
            else
              let next = stampStatus status now current in
              (Inr (Some next),
               setOutgoing env sid (AList.update (statusFile messageId) (Some (statusJson next)) d) s))"

text \<open>\<open>markRequestReplyQueued\<close>: the ledger first, then the outcome in the sender's status record.\<close>

definition markRequestReplyQueued ::
  "env \<Rightarrow> rat \<Rightarrow> binding \<Rightarrow> coord \<Rightarrow> (ledger_error + unit) \<times> coord" where
  "markRequestReplyQueued env now b s =
     (case queueReply (sha256 env) b (co_replies s) of
        (Inl err, replies) \<Rightarrow> (Inl err, s\<lparr>co_replies := replies\<rparr>)
      | (Inr _, replies) \<Rightarrow>
          let s1 = s\<lparr>co_replies := replies\<rparr>; sid = b_senderSessionId b;
              d = outgoingDir env sid s1; keep = setOutgoing env sid d s1
          in case readStatus env sid (b_messageId b) s1 of
               None \<Rightarrow> (Inr (), keep)
             | Some r \<Rightarrow>
                 if r_responseRequested r \<noteq> Some True \<or> r_senderSessionId r \<noteq> sid \<or>
                    r_targetSessionId r \<noteq> Some (b_recipientSessionId b) \<or> r_expiresAt r \<noteq> b_expiresAt b \<or>
                    r_responseAnsweredAt r \<noteq> None
                 then (Inr (), keep)
                 else (Inr (), setOutgoing env sid (AList.update (statusFile (b_messageId b))
                   (Some (statusJson (r\<lparr>r_responseAnsweredAt := Some now\<rparr>))) d) s1))"

section \<open>Pruning\<close>

definition presenceStale :: "env \<Rightarrow> rat \<Rightarrow> rat \<Rightarrow> jsval \<Rightarrow> bool" where
  "presenceStale env now mtime doc =
     (case normalizePresence doc of
        Some peer \<Rightarrow> p_leaseExpiresAt peer < now - STALE_RETENTION_MS \<and>
          \<not> isProcessAlive (killed env) (p_pid peer)
      | None \<Rightarrow> STALE_RETENTION_MS < now - mtime)"

definition prunePresence :: "env \<Rightarrow> rat \<Rightarrow> string \<times> rat \<times> json option \<Rightarrow> room \<Rightarrow> room" where
  "prunePresence env now entry rm =
     (case entry of (name, mtime, doc) \<Rightarrow>
        if \<not> is_json_name name \<or> \<not> presenceStale env now mtime doc then rm
        else
          let rid = take (length name - 5) name;
              rm1 = rm\<lparr>rm_presence := AList.delete name (rm_presence rm)\<rparr>
          in if is_runtime_id rid then rm1\<lparr>rm_inbox := AList.delete rid (rm_inbox rm1)\<rparr> else rm1)"

definition pruneInbox :: "rat \<Rightarrow> string \<times> inbox_dir \<Rightarrow> room \<Rightarrow> room" where
  "pruneInbox now entry rm =
     (case entry of (rid, ib) \<Rightarrow>
        if is_runtime_id rid \<and> map_of (rm_presence rm) (presencePath rid) = None \<and>
           STALE_RETENTION_MS < now - ib_mtime ib
        then rm\<lparr>rm_inbox := AList.delete rid (rm_inbox rm)\<rparr> else rm)"

definition pruneRoomFiles :: "env \<Rightarrow> rat \<Rightarrow> room \<Rightarrow> room" where
  "pruneRoomFiles env now rm =
     (let rm1 = fold (prunePresence env now) (rm_presence rm) rm
      in fold (pruneInbox now) (rm_inbox rm1) rm1)"

definition pruneRoom :: "env \<Rightarrow> rat \<Rightarrow> string \<Rightarrow> coord \<Rightarrow> coord" where
  "pruneRoom env now r s = setRoom r (pruneRoomFiles env now (roomOf s r)) s"

definition pruneOutgoingMessageStatuses :: "rat \<Rightarrow> coord \<Rightarrow> coord" where
  "pruneOutgoingMessageStatuses now s =
     s\<lparr>co_outgoing := map (\<lambda>(k, d).
        (k, if is_receipt_key k
            then filter (\<lambda>(name, doc). \<not> is_json_name name \<or>
              (case normalizeMessageStatusRecord doc of
                 None \<Rightarrow> False | Some r \<Rightarrow> now - STALE_RETENTION_MS \<le> r_expiresAt r)) d
            else d)) (co_outgoing s)\<rparr>"

definition pruneCoordinatorState :: "env \<Rightarrow> rat \<Rightarrow> coord \<Rightarrow> coord" where
  "pruneCoordinatorState env now s =
     pruneOutgoingMessageStatuses now (fold (pruneRoom env now) (listRoomIds s) s)"

section \<open>Lookups after updates\<close>

lemma roomOf_setRoom [simp]: "roomOf (setRoom r x s) r' = (if r' = r then x else roomOf s r')"
  by (simp add: roomOf_def setRoom_def update_conv')

lemma setRoom_others [simp]: "co_receipts (setRoom r x s) = co_receipts s"
    "co_outgoing (setRoom r x s) = co_outgoing s" "co_replies (setRoom r x s) = co_replies s"
  by (simp_all add: setRoom_def)

lemma inboxOf_setInbox [simp]:
  "inboxOf (setInbox now rid d rm) rid' = (if rid' = rid then d else inboxOf rm rid')"
  by (simp add: inboxOf_def setInbox_def update_conv')

lemma inboxOf_presence [simp]: "inboxOf (rm\<lparr>rm_presence := ps\<rparr>) rid = inboxOf rm rid"
  by (simp add: inboxOf_def)

lemma inboxOf_delete [simp]:
  "inboxOf (rm\<lparr>rm_inbox := AList.delete rid (rm_inbox rm)\<rparr>) rid' =
     (if rid' = rid then [] else inboxOf rm rid')"
  by (simp add: inboxOf_def delete_conv')

lemma rm_presence_setInbox [simp]: "rm_presence (setInbox now rid d rm) = rm_presence rm"
  by (simp add: setInbox_def)

lemma readPresence_setInbox [simp]: "readPresence (setInbox now rid d rm) x = readPresence rm x"
  by (simp add: readPresence_def)

lemma readJson_update [simp]: "readJson (AList.update n v d) m = (if m = n then v else readJson d m)"
  by (simp add: readJson_def update_conv')

lemma readJson_delete [simp]: "readJson (AList.delete n d) m = (if m = n then None else readJson d m)"
  by (simp add: readJson_def delete_conv')

lemma jsonNames_delete: "jsonNames (AList.delete n d) = filter (\<lambda>m. m \<noteq> n) (jsonNames d)"
  by (induction d) (auto simp: jsonNames_def AList.delete_eq)

lemma length_jsonNames_delete: "length (jsonNames (AList.delete n d)) \<le> length (jsonNames d)"
  by (simp add: jsonNames_delete)

lemma length_jsonNames_update: "length (jsonNames (AList.update n v d)) \<le> Suc (length (jsonNames d))"
  by (induction d) (auto simp: jsonNames_def)

lemma set_jsonNames: "n \<in> set (jsonNames d) \<longleftrightarrow> is_json_name n \<and> map_of d n \<noteq> None"
  by (auto simp: jsonNames_def map_of_eq_None_iff)

lemma dirOf_update [simp]: "dirOf (AList.update k d ds) k' = (if k' = k then d else dirOf ds k')"
  by (simp add: dirOf_def update_conv')

lemma dirOf_updateDir: "dirOf (updateDir k f ds) k' =
    (if k' = k \<and> map_of ds k \<noteq> None then f (dirOf ds k) else dirOf ds k')"
  by (auto simp: updateDir_def dirOf_def update_conv' split: option.splits)

lemma is_json_name_append [simp]: "is_json_name (s @ ''.json'')"
  by (simp add: is_json_name_def)

lemma is_json_name_split: "is_json_name n \<Longrightarrow> take (length n - 5) n @ ''.json'' = n"
  by (metis append_take_drop_id is_json_name_def)

section \<open>Reading and draining\<close>

lemma set_readItems:
  assumes "item None = None"
  shows "set (fst (readItems item names d)) = {(n, e). n \<in> set names \<and> item (readJson d n) = Some e}"
  using assms
  by (induction names arbitrary: d) (auto simp: case_prod_unfold Let_def split: option.splits if_splits)

lemma readJson_readItems:
  assumes "item None = None"
  shows "readJson (snd (readItems item names d)) n =
    (if n \<in> set names \<and> item (readJson d n) = None then None else readJson d n)"
  using assms
  by (induction names arbitrary: d) (auto simp: case_prod_unfold Let_def split: option.splits)

lemma length_jsonNames_readItems:
  "length (jsonNames (snd (readItems item names d))) \<le> length (jsonNames d)"
proof (induction names arbitrary: d)
  case (Cons n names)
  then show ?case
    using Cons [of d] Cons [of "AList.delete n d"] length_jsonNames_delete [of n d]
    by (auto simp: case_prod_unfold Let_def split: option.splits intro: le_trans)
qed simp

lemma inboxItem_None [simp]: "inboxItem r rid now None = None"
  by (simp add: inboxItem_def normalizeEnvelope_def)

lemma receiptItem_None [simp]: "receiptItem now None = None"
  by (simp add: receiptItem_def normalizeEnvelope_def)

lemma set_take_jsonNames:
  "length (jsonNames d) \<le> mx \<Longrightarrow> set (take mx (sort (jsonNames d))) = set (jsonNames d)"
  by simp

text \<open>In a directory within the bound, \<open>readInbox\<close> returns exactly the valid, unexpired messages.\<close>

lemma set_readInboxDir:
  assumes "length (jsonNames d) \<le> MAX_INBOX_MESSAGES"
  shows "set (fst (readInboxDir r rid now d)) =
    {(n, e). is_json_name n \<and> inboxItem r rid now (readJson d n) = Some e}"
proof -
  have "n \<in> set (jsonNames d)" if "is_json_name n" "inboxItem r rid now (readJson d n) = Some e" for n e
    using that by (auto simp: set_jsonNames readJson_def split: option.splits)
  then show ?thesis
    using assms unfolding readInboxDir_def
    by (auto simp: set_readItems set_take_jsonNames simp del: set_sort take_all) (auto simp: set_jsonNames)
qed

lemma readInboxDir_keeps:
  "inboxItem r rid now (readJson d n) = Some e \<Longrightarrow> readJson (snd (readInboxDir r rid now' d)) n = readJson d n \<or>
     inboxItem r rid now' (readJson d n) = None"
  by (simp add: readInboxDir_def readJson_readItems)

section \<open>The mailboxes as a machine\<close>

text \<open>What the processes of a machine do to the shared directories; handlers may throw.\<close>

datatype mail_event =
    WritePresence rat presence
  | Enqueue rat envelope
  | ReadInbox rat string string
  | RemoveItem rat string string string
  | RemoveRuntime rat string string "unit handler option"
  | Adopt rat string string string "unit handler"
  | PersistReceipt string envelope
  | ReadReceipts rat string
  | RemoveReceipt string string
  | PruneReceipts rat
  | PersistStatus envelope "string option" bool
  | RemoveStatus string string
  | UpdateStatus string string message_status rat
  | MarkQueued rat binding
  | PruneState rat

fun mailStep :: "env \<Rightarrow> mail_event \<Rightarrow> coord \<Rightarrow> coord" where
  "mailStep env (WritePresence now p) s = snd (writePresence now p s)"
| "mailStep env (Enqueue now e) s = snd (enqueueMessage env now e s)"
| "mailStep env (ReadInbox now r rid) s = snd (readInbox now r rid s)"
| "mailStep env (RemoveItem now r rid name) s = removeInboxItem now r rid name s"
| "mailStep env (RemoveRuntime now r rid f) s = fst (snd (removeRuntimeState now r rid f s ()))"
| "mailStep env (Adopt now r succ sid f) s = fst (snd (adoptSessionInboxMessages env now r succ sid f s ()))"
| "mailStep env (PersistReceipt sid e) s = snd (persistSessionReceipt env sid e s)"
| "mailStep env (ReadReceipts now sid) s = snd (readSessionReceipts env now sid s)"
| "mailStep env (RemoveReceipt k name) s = removeSessionReceipt k name s"
| "mailStep env (PruneReceipts now) s = pruneSessionReceipts now s"
| "mailStep env (PersistStatus e n t) s = snd (persistOutgoingMessageStatus env e n t s)"
| "mailStep env (RemoveStatus sid mid) s = snd (removeOutgoingMessageStatus env sid mid s)"
| "mailStep env (UpdateStatus sid mid st now) s = snd (updateOutgoingMessageStatus env sid mid st now s)"
| "mailStep env (MarkQueued now b) s = snd (markRequestReplyQueued env now b s)"
| "mailStep env (PruneState now) s = pruneCoordinatorState env now s"

definition room_bounded :: "room \<Rightarrow> bool" where
  "room_bounded rm \<longleftrightarrow> (\<forall>rid. length (jsonNames (inboxOf rm rid)) \<le> MAX_INBOX_MESSAGES)"

definition mail_bounded :: "coord \<Rightarrow> bool" where
  "mail_bounded s \<longleftrightarrow> (\<forall>r. room_bounded (roomOf s r)) \<and>
     (\<forall>k. length (jsonNames (dirOf (co_receipts s) k)) \<le> MAX_SESSION_RECEIPTS)"

lemma room_boundedD [simp]: "room_bounded rm \<Longrightarrow> length (jsonNames (inboxOf rm rid)) \<le> MAX_INBOX_MESSAGES"
  by (simp add: room_bounded_def)

lemma room_bounded_setInbox [intro]:
  "room_bounded rm \<Longrightarrow> length (jsonNames d) \<le> MAX_INBOX_MESSAGES \<Longrightarrow> room_bounded (setInbox now rid d rm)"
  by (simp add: room_bounded_def)

lemma jsonNames_Nil [simp]: "jsonNames [] = []"
  by (simp add: jsonNames_def)

lemma room_bounded_presence [simp]: "room_bounded (rm\<lparr>rm_presence := ps\<rparr>) \<longleftrightarrow> room_bounded rm"
  by (simp add: room_bounded_def)

lemma room_bounded_presence_inbox [simp]:
  "room_bounded (rm\<lparr>rm_presence := ps, rm_inbox := ib\<rparr>) \<longleftrightarrow> room_bounded (rm\<lparr>rm_inbox := ib\<rparr>)"
  by (simp add: room_bounded_def inboxOf_def)

lemma room_bounded_delete [intro]:
  "room_bounded rm \<Longrightarrow> room_bounded (rm\<lparr>rm_inbox := AList.delete rid (rm_inbox rm)\<rparr>)"
  by (simp add: room_bounded_def)

lemma mail_bounded_setRoom [intro]: "mail_bounded s \<Longrightarrow> room_bounded rm \<Longrightarrow> mail_bounded (setRoom r rm s)"
  by (simp add: mail_bounded_def)

lemma mail_bounded_room [intro]: "mail_bounded s \<Longrightarrow> room_bounded (roomOf s r)"
  by (simp add: mail_bounded_def)

lemma mail_bounded_outgoing [simp]: "mail_bounded (s\<lparr>co_outgoing := x\<rparr>) \<longleftrightarrow> mail_bounded s"
    "mail_bounded (s\<lparr>co_replies := y\<rparr>) \<longleftrightarrow> mail_bounded s"
  by (simp_all add: mail_bounded_def roomOf_def)

lemma mail_bounded_setOutgoing [simp]: "mail_bounded (setOutgoing env sid d s) \<longleftrightarrow> mail_bounded s"
  by (simp add: setOutgoing_def)

lemma length_readInboxDir:
  "length (jsonNames d) \<le> MAX_INBOX_MESSAGES \<Longrightarrow>
   length (jsonNames (snd (readInboxDir r rid now d))) \<le> MAX_INBOX_MESSAGES"
  unfolding readInboxDir_def by (rule order_trans [OF length_jsonNames_readItems])

lemma length_drainItems: "length (jsonNames (fst (snd (drainItems f items d w)))) \<le> length (jsonNames d)"
proof (induction items arbitrary: d w)
  case (Cons item items)
  obtain n e where item: "item = (n, e)" by force
  show ?case
    using Cons [of "AList.delete n d"] length_jsonNames_delete [of n d]
    by (auto simp: item case_prod_unfold Let_def intro: le_trans)
qed simp

lemma length_drained:
  "length (jsonNames d) \<le> MAX_INBOX_MESSAGES \<Longrightarrow>
   length (jsonNames (fst (snd (drainItems f items (snd (readInboxDir r rid now d)) w)))) \<le> MAX_INBOX_MESSAGES"
  by (rule order_trans [OF length_drainItems length_readInboxDir])

lemma room_bounded_adopt:
  "room_bounded rm \<Longrightarrow>
   room_bounded (fst (snd (adoptInboxes env now r succ sid f rids n rm w)))"
proof (induction rids arbitrary: n rm w)
  case (Cons rid rids)
  show ?case
  proof (cases "\<not> is_runtime_id rid \<or> rid = succ \<or> predecessorAlive env rm rid")
    case True
    then show ?thesis using Cons by simp
  next
    case False
    obtain items d where i: "readInboxDir r rid now (inboxOf rm rid) = (items, d)" by force
    obtain ok d' w' where x: "drainItems f (filter (\<lambda>(name, e). e_targetSessionId e = Some sid) items) d w =
        (ok, d', w')" by (metis prod_cases3)
    have "length (jsonNames d') \<le> MAX_INBOX_MESSAGES"
      using length_drained [where d = "inboxOf rm rid" and r = r and rid = rid and now = now and f = f
          and items = "filter (\<lambda>(name, e). e_targetSessionId e = Some sid) items" and w = w]
        Cons.prems i x by simp
    then have "room_bounded (setInbox now rid d' rm)" using Cons.prems by auto
    then show ?thesis using False by (simp add: i x Cons.IH Cons.prems)
  qed
qed simp

lemma room_bounded_fold:
  "(\<And>x rm. room_bounded rm \<Longrightarrow> room_bounded (g x rm)) \<Longrightarrow> room_bounded rm \<Longrightarrow> room_bounded (fold g xs rm)"
  by (induction xs arbitrary: rm) auto

lemma room_bounded_prune: "room_bounded rm \<Longrightarrow> room_bounded (pruneRoomFiles env now rm)"
  unfolding pruneRoomFiles_def Let_def
  by (intro room_bounded_fold)
    (simp_all add: prunePresence_def pruneInbox_def Let_def room_bounded_delete case_prod_unfold)

lemma mail_bounded_pruneRooms: "mail_bounded s \<Longrightarrow> mail_bounded (fold (pruneRoom env now) rs s)"
  by (induction rs arbitrary: s)
    (simp_all add: pruneRoom_def room_bounded_prune mail_bounded_setRoom mail_bounded_room)

lemma length_jsonNames_update_less:
  "length (jsonNames d) < mx \<Longrightarrow> length (jsonNames (AList.update n v d)) \<le> mx"
  using length_jsonNames_update [of n v d] by simp

lemma enqueue_bounded: "mail_bounded s \<Longrightarrow> mail_bounded (snd (enqueueMessage env now e s))"
  by (auto simp: enqueueMessage_def Let_def not_le split: option.splits
      intro!: mail_bounded_setRoom room_bounded_setInbox length_jsonNames_update_less)

lemma removeRuntimeState_bounded:
  assumes "mail_bounded s"
  shows "mail_bounded (fst (snd (removeRuntimeState now r rid f s w)))"
proof -
  have rm: "room_bounded ((roomOf s r)\<lparr>rm_presence := ps\<rparr>)" for ps
    using assms by auto
  have "length (jsonNames (fst (snd (drainItems g items (snd (readInboxDir r rid now (inboxOf (roomOf s r) rid))) w))))
      \<le> MAX_INBOX_MESSAGES" for g :: "'a handler" and items
    using assms by (simp add: length_drained mail_bounded_room)
  then show ?thesis
    using assms rm [of "AList.delete (presencePath rid) (rm_presence (roomOf s r))"]
    by (cases f) (simp_all add: removeRuntimeState_def Let_def case_prod_unfold
        mail_bounded_setRoom room_bounded_setInbox room_bounded_delete mail_bounded_room)
qed

lemma persistSessionReceipt_bounded:
  "mail_bounded s \<Longrightarrow> mail_bounded (snd (persistSessionReceipt env sid e s))"
  by (auto simp: persistSessionReceipt_def mail_bounded_def Let_def roomOf_def not_le
      split: option.splits intro!: length_jsonNames_update_less)

lemma readInbox_bounded: "mail_bounded s \<Longrightarrow> mail_bounded (snd (readInbox now r rid s))"
proof -
  assume b: "mail_bounded s"
  have ib: "ib_files ib = inboxOf (roomOf s r) rid" if "map_of (rm_inbox (roomOf s r)) rid = Some ib" for ib
    using that by (simp add: inboxOf_def)
  show ?thesis
    using b by (auto simp: readInbox_def Let_def case_prod_unfold ib split: option.splits
        intro!: mail_bounded_setRoom room_bounded_setInbox length_readInboxDir room_boundedD mail_bounded_room)
qed

lemma removeInboxItem_bounded: "mail_bounded s \<Longrightarrow> mail_bounded (removeInboxItem now r rid name s)"
  by (auto simp: removeInboxItem_def Let_def intro!: mail_bounded_setRoom room_bounded_setInbox
      order_trans [OF length_jsonNames_delete] room_boundedD mail_bounded_room)

lemma writePresence_bounded: "mail_bounded s \<Longrightarrow> mail_bounded (snd (writePresence now p s))"
  by (auto simp: writePresence_def Let_def split: option.splits
      intro!: mail_bounded_setRoom room_bounded_setInbox mail_bounded_room)

lemma adopt_bounded: "mail_bounded s \<Longrightarrow> mail_bounded (fst (snd (adoptSessionInboxMessages env now r succ sid f s w)))"
  by (auto simp: adoptSessionInboxMessages_def Let_def case_prod_unfold
      intro!: mail_bounded_setRoom room_bounded_adopt mail_bounded_room)

lemma mail_bounded_receipts:
  "mail_bounded s \<Longrightarrow> (\<And>k. length (jsonNames (dirOf rs k)) \<le> length (jsonNames (dirOf (co_receipts s) k))) \<Longrightarrow>
   mail_bounded (s\<lparr>co_receipts := rs\<rparr>)"
  unfolding mail_bounded_def by (auto simp: roomOf_def intro: order_trans)

lemma length_readReceiptDirectory: "length (jsonNames (snd (readReceiptDirectory now d))) \<le> length (jsonNames d)"
  unfolding readReceiptDirectory_def by (rule length_jsonNames_readItems)

lemma dirOf_pruned:
  "dirOf (map (\<lambda>(k, d). (k, if P k then f d else d)) ds) k =
     (if map_of ds k = None then [] else if P k then f (dirOf ds k) else dirOf ds k)"
  by (induction ds) (auto simp: dirOf_def)

lemma receipts_bounded:
  assumes "mail_bounded s"
  shows "mail_bounded (snd (readSessionReceipts env now sid s))"
    and "mail_bounded (removeSessionReceipt k name s)" and "mail_bounded (pruneSessionReceipts now s)"
  using assms
  by (auto simp: readSessionReceipts_def removeSessionReceipt_def pruneSessionReceipts_def Let_def
      dirOf_updateDir dirOf_pruned length_readReceiptDirectory length_jsonNames_delete
      intro!: mail_bounded_receipts)

lemma outgoing_bounded:
  assumes "mail_bounded s"
  shows "mail_bounded (snd (persistOutgoingMessageStatus env e n t s))"
    and "mail_bounded (snd (removeOutgoingMessageStatus env sid mid s))"
    and "mail_bounded (snd (updateOutgoingMessageStatus env sid mid st now s))"
    and "mail_bounded (snd (markRequestReplyQueued env now b s))"
  using assms
  by (auto simp: persistOutgoingMessageStatus_def removeOutgoingMessageStatus_def
      updateOutgoingMessageStatus_def markRequestReplyQueued_def Let_def split: option.splits sum.splits prod.splits)

lemma mailStep_bounded: "mail_bounded s \<Longrightarrow> mail_bounded (mailStep env e s)"
  by (cases e) (simp_all add: writePresence_bounded enqueue_bounded readInbox_bounded removeInboxItem_bounded
      removeRuntimeState_bounded adopt_bounded persistSessionReceipt_bounded receipts_bounded
      outgoing_bounded pruneCoordinatorState_def pruneOutgoingMessageStatuses_def mail_bounded_pruneRooms)

interpretation mailboxes: event_machine "mailStep env" "\<lambda>_. True" mail_bounded for env
  by unfold_locales (rule mailStep_bounded)

section \<open>Properties of the mailboxes\<close>

lemma mail_bounded_empty: "mail_bounded emptyCoord"
  by (simp add: mail_bounded_def room_bounded_def emptyCoord_def roomOf_def inboxOf_def dirOf_def jsonNames_def)

text \<open>C17. Whatever sequence of coordinator operations the processes of a machine run, no inbox ever
  holds more than 100 messages and no session more than 100 receipts.\<close>

theorem mailboxes_bounded:
  "length (jsonNames (inboxOf (roomOf (fold (mailStep env) es emptyCoord) r) rid)) \<le> 100 \<and>
   length (jsonNames (dirOf (co_receipts (fold (mailStep env) es emptyCoord)) k)) \<le> 100"
  using mailboxes.run_inv [of es emptyCoord env] mail_bounded_empty
  by (auto simp: mail_bounded_def room_bounded_def MAX_INBOX_MESSAGES_def MAX_SESSION_RECEIPTS_def)

lemma map_of_rm_inbox: "inboxOf rm rid \<noteq> [] \<Longrightarrow> \<exists>ib. map_of (rm_inbox rm) rid = Some ib \<and> ib_files ib = inboxOf rm rid"
  by (auto simp: inboxOf_def split: option.splits)

lemma fst_readInbox: "fst (readInbox now r rid s) = fst (readInboxDir r rid now (inboxOf (roomOf s r) rid))"
  by (auto simp: readInbox_def inboxOf_def Let_def case_prod_unfold readInboxDir_def jsonNames_def
      split: option.splits)

text \<open>A message whose enqueueing succeeded is returned by the recipient's next reading of its
  inbox, unless it expired by then.\<close>

theorem enqueued_message_is_read:
  assumes "mail_bounded s" "envelope_ok e" "enqueueMessage env now e s = (Inr (), s')"
    "now' < e_expiresAt e"
  shows "(envelopeName env e, e) \<in> set (fst (readInbox now' (e_roomId e) (e_targetRuntimeId e) s'))"
proof -
  let ?d = "inboxOf (roomOf s (e_roomId e)) (e_targetRuntimeId e)"
  have n: "normalizeEnvelope (Some (envelopeJson e)) = Some e"
    using assms(2) by (simp add: normalizeEnvelope_read)
  have full: "length (jsonNames ?d) < MAX_INBOX_MESSAGES"
    and s': "inboxOf (roomOf s' (e_roomId e)) (e_targetRuntimeId e) =
      AList.update (envelopeName env e) (Some (envelopeJson e)) ?d"
    using assms(3) n by (auto simp: enqueueMessage_def Let_def split: option.splits if_splits)
  have "inboxItem (e_roomId e) (e_targetRuntimeId e) now' (Some (envelopeJson e)) = Some e"
    using n assms(4) by (simp add: inboxItem_def)
  moreover have "is_json_name (envelopeName env e)"
    by (metis append_assoc envelopeName_def is_json_name_append)
  ultimately show ?thesis
    using length_jsonNames_update_less [OF full]
    by (simp add: fst_readInbox s' set_readInboxDir)
qed

section \<open>Message statuses only advance\<close>

lemma statusFile_inj [simp]: "statusFile a = statusFile b \<longleftrightarrow> a = b"
  by (simp add: statusFile_def)

lemma outgoingDir_setOutgoing [simp]:
  "outgoingDir env sid (setOutgoing env sid' d s) =
     (if receiptKey (sha256 env) sid = receiptKey (sha256 env) sid' then d else outgoingDir env sid s)"
  by (simp add: outgoingDir_def setOutgoing_def)

lemma outgoingDir_replies [simp]: "outgoingDir env sid (s\<lparr>co_replies := x\<rparr>) = outgoingDir env sid s"
  by (simp add: outgoingDir_def)

lemma outgoingDir_same_key:
  "receiptKey (sha256 env) sid = receiptKey (sha256 env) sid' \<Longrightarrow> outgoingDir env sid s = outgoingDir env sid' s"
  by (simp add: outgoingDir_def)

lemma record_ok_stamp: "record_ok r \<Longrightarrow> record_ok (stampStatus st now r)"
  by (cases st) (auto simp: stampStatus_def record_ok_def)

lemma r_status_stamp [simp]: "r_status (stampStatus st now r) = st"
  by (cases st) (auto simp: stampStatus_def)

lemma readStatus_ok: "readStatus env sid mid s = Some r \<Longrightarrow> record_ok r"
  unfolding readStatus_def by (rule normalizeMessageStatusRecord_ok)

text \<open>A write of a valid record over the one that was read.\<close>

lemma readStatus_written:
  "record_ok r \<Longrightarrow>
   readStatus env sid mid (setOutgoing env sid' (AList.update (statusFile mid') (Some (statusJson r)) (outgoingDir env sid' s)) s) =
     (if receiptKey (sha256 env) sid = receiptKey (sha256 env) sid' \<and> mid = mid' then Some r
      else readStatus env sid mid s)"
  using normalizeMessageStatusRecord_read outgoingDir_same_key [of env sid sid' s]
  by (auto simp: readStatus_def)

lemma readStatus_kept [simp]:
  "readStatus env sid mid (setOutgoing env sid' (outgoingDir env sid' s) s) = readStatus env sid mid s"
  using outgoingDir_same_key [of env sid sid' s] by (auto simp: readStatus_def)

definition status_ahead :: "status_record option \<Rightarrow> status_record option \<Rightarrow> bool" where
  "status_ahead old new \<longleftrightarrow>
     (case old of None \<Rightarrow> True
      | Some r \<Rightarrow> (case new of None \<Rightarrow> False | Some r' \<Rightarrow> r_status r \<le> r_status r'))"

lemma status_ahead_refl [simp]: "status_ahead x x"
  by (auto simp: status_ahead_def split: option.splits)

lemma update_ahead:
  "status_ahead (readStatus env sid mid s)
     (readStatus env sid mid (snd (updateOutgoingMessageStatus env sid' mid' st now s)))"
proof -
  have same: "readStatus env sid mid s = readStatus env sid' mid s"
    if "receiptKey (sha256 env) sid = receiptKey (sha256 env) sid'"
    using outgoingDir_same_key [OF that, of s] by (simp add: readStatus_def)
  show ?thesis
    using readStatus_ok [of env sid' mid' s] same
    by (auto simp: updateOutgoingMessageStatus_def Let_def readStatus_written record_ok_stamp
        status_ahead_def split: option.splits)
qed

lemma mark_ahead:
  "status_ahead (readStatus env sid mid s) (readStatus env sid mid (snd (markRequestReplyQueued env now b s)))"
proof -
  obtain res replies where q: "queueReply (sha256 env) b (co_replies s) = (res, replies)" by force
  let ?s = "s\<lparr>co_replies := replies\<rparr>" and ?sid = "b_senderSessionId b"
  have rs: "readStatus env x m ?s = readStatus env x m s" for x m by (simp add: readStatus_def)
  have same: "readStatus env sid mid s = readStatus env ?sid mid s"
    if "receiptKey (sha256 env) sid = receiptKey (sha256 env) ?sid"
    using outgoingDir_same_key [OF that, of s] by (simp add: readStatus_def)
  have keep: "readStatus env sid mid (setOutgoing env ?sid (outgoingDir env ?sid s) ?s) = readStatus env sid mid s"
    using readStatus_kept [of env sid mid ?sid ?s] rs by simp
  have w: "readStatus env sid mid (setOutgoing env ?sid
      (AList.update (statusFile (b_messageId b)) (Some (statusJson r)) (outgoingDir env ?sid s)) ?s) =
      (if receiptKey (sha256 env) sid = receiptKey (sha256 env) ?sid \<and> mid = b_messageId b then Some r
       else readStatus env sid mid s)" if "record_ok r" for r
    using readStatus_written [OF that, of env sid mid ?sid "b_messageId b" ?s] rs by simp
  have ok: "record_ok (r\<lparr>r_responseAnsweredAt := Some now\<rparr>)"
    if "readStatus env ?sid (b_messageId b) s = Some r" "r_responseRequested r = Some True" for r
    using readStatus_ok [OF that(1)] that(2) by (auto simp: record_ok_def)
  show ?thesis
  proof (cases res)
    case (Inl err)
    then show ?thesis by (simp add: markRequestReplyQueued_def q rs)
  next
    case (Inr u)
    show ?thesis
    proof (cases "readStatus env ?sid (b_messageId b) s")
      case None
      then show ?thesis by (simp add: markRequestReplyQueued_def q Inr Let_def rs keep)
    next
      case (Some r)
      then show ?thesis
        using ok [OF Some] same
        by (auto simp: markRequestReplyQueued_def q Inr Let_def rs keep w status_ahead_def split: option.splits)
    qed
  qed
qed

text \<open>The operations that never delete a status record.\<close>

fun keeps_records :: "mail_event \<Rightarrow> bool" where
  "keeps_records (PersistStatus e n t) = False"
| "keeps_records (RemoveStatus sid mid) = False"
| "keeps_records (PruneState now) = False"
| "keeps_records _ = True"

lemma co_outgoing_unchanged:
  "co_outgoing (snd (writePresence now p s)) = co_outgoing s"
  "co_outgoing (snd (enqueueMessage env now e s)) = co_outgoing s"
  "co_outgoing (snd (readInbox now r rid s)) = co_outgoing s"
  "co_outgoing (removeInboxItem now r rid name s) = co_outgoing s"
  "co_outgoing (fst (snd (removeRuntimeState now r rid f s w))) = co_outgoing s"
  "co_outgoing (fst (snd (adoptSessionInboxMessages env now r succ sid g s v))) = co_outgoing s"
  "co_outgoing (snd (persistSessionReceipt env sid e s)) = co_outgoing s"
  "co_outgoing (snd (readSessionReceipts env now sid s)) = co_outgoing s"
  "co_outgoing (removeSessionReceipt k name s) = co_outgoing s"
  "co_outgoing (pruneSessionReceipts now s) = co_outgoing s"
  by (simp_all add: writePresence_def enqueueMessage_def readInbox_def removeInboxItem_def
      removeRuntimeState_def adoptSessionInboxMessages_def persistSessionReceipt_def
      readSessionReceipts_def removeSessionReceipt_def pruneSessionReceipts_def Let_def case_prod_unfold
      split: option.splits)

lemma mailStep_ahead:
  "keeps_records e \<Longrightarrow> status_ahead (readStatus env sid mid s) (readStatus env sid mid (mailStep env e s))"
proof -
  assume k: "keeps_records e"
  have same: "status_ahead (readStatus env sid mid s) (readStatus env sid mid s')"
    if "co_outgoing s' = co_outgoing s" for s'
    using that by (simp add: readStatus_def outgoingDir_def)
  show ?thesis
    using k by (cases e) (auto simp: update_ahead mark_ahead co_outgoing_unchanged intro!: same)
qed

definition storedRank :: "env \<Rightarrow> string \<Rightarrow> string \<Rightarrow> coord \<Rightarrow> nat" where
  "storedRank env sid mid s =
     (case readStatus env sid mid s of None \<Rightarrow> 0 | Some r \<Rightarrow> statusRank (r_status r))"

interpretation statuses: ranked_machine "mailStep env" keeps_records
    "\<lambda>s. readStatus env sid mid s \<noteq> None" "storedRank env sid mid" for env sid mid
proof
  fix e s assume "keeps_records e" "readStatus env sid mid s \<noteq> None"
  with mailStep_ahead [of e env sid mid s]
  show "readStatus env sid mid (mailStep env e s) \<noteq> None"
    "storedRank env sid mid s \<le> storedRank env sid mid (mailStep env e s)"
    by (auto simp: status_ahead_def storedRank_def less_eq_message_status_def split: option.splits)
qed

text \<open>Until its record is deleted, the status of a sent message never goes back: over any sequence
  of updates in any order (a late \<open>delivered\<close> after \<open>acknowledged\<close>, duplicates, confirmed replies,
  message traffic), a stored record stays readable and its status does not regress.\<close>

theorem status_never_regresses:
  assumes "\<forall>e \<in> set es. keeps_records e" "readStatus env sid mid s = Some r"
  shows "\<exists>r'. readStatus env sid mid (fold (mailStep env) es s) = Some r' \<and> r_status r \<le> r_status r'"
proof -
  have "readStatus env sid mid (fold (mailStep env) es s) \<noteq> None"
    "storedRank env sid mid s \<le> storedRank env sid mid (fold (mailStep env) es s)"
    using statuses.run_inv [OF assms(1)] statuses.run_rank [OF assms(1)] assms(2) by auto
  then show ?thesis
    using assms(2) by (auto simp: storedRank_def less_eq_message_status_def)
qed

section \<open>Receipts are durable\<close>

lemma set_readReceiptDirectory:
  "set (fst (readReceiptDirectory now d)) =
    {(n, e). is_json_name n \<and> receiptItem now (readJson d n) = Some e}"
proof -
  have "n \<in> set (jsonNames d)" if "is_json_name n" "receiptItem now (readJson d n) = Some e" for n e
    using that by (auto simp: set_jsonNames readJson_def split: option.splits)
  then show ?thesis
    unfolding readReceiptDirectory_def by (auto simp: set_readItems) (auto simp: set_jsonNames)
qed

text \<open>A receipt that was persisted is in every later reading of the session's receipts until the
  message expires, and persisting the message again changes nothing.\<close>

theorem receipt_is_durable:
  assumes "envelope_ok e" "map_of (dirOf (co_receipts s) (receiptKey (sha256 env) sid)) (receiptName e) = None"
    "persistSessionReceipt env sid e s = (Inr item, s')" "now < e_expiresAt e"
  shows "\<exists>items s2. readSessionReceipts env now sid s' = (Inr items, s2) \<and>
    (receiptName e, e) \<in> set items \<and>
    dirOf (co_receipts (snd (persistSessionReceipt env sid e s'))) (receiptKey (sha256 env) sid) =
    dirOf (co_receipts s') (receiptKey (sha256 env) sid)"
proof -
  let ?k = "receiptKey (sha256 env) sid"
  have n: "normalizeEnvelope (Some (envelopeJson e)) = Some e"
    using assms(1) by (simp add: normalizeEnvelope_read)
  have sid: "session_id_ok sid" and
    d: "dirOf (co_receipts s') ?k = AList.update (receiptName e) (Some (envelopeJson e)) (dirOf (co_receipts s) ?k)"
    using assms(2,3) n by (auto simp: persistSessionReceipt_def Let_def split: if_splits)
  have "receiptItem now (Some (envelopeJson e)) = Some e"
    using n assms(4) by (simp add: receiptItem_def)
  moreover have "is_json_name (receiptName e)" by (simp add: receiptName_def)
  moreover have "snd (persistSessionReceipt env sid e s') =
      s'\<lparr>co_receipts := AList.update ?k (dirOf (co_receipts s') ?k) (co_receipts s')\<rparr>"
    using n sid d by (simp add: persistSessionReceipt_def Let_def update_conv')
  ultimately show ?thesis
    using sid by (simp add: readSessionReceipts_def Let_def set_readReceiptDirectory d)
qed

section \<open>Draining loses nothing\<close>

text \<open>A handler that records what it took; whether it takes a message may depend on the record.\<close>

definition recorder :: "(envelope \<Rightarrow> envelope list \<Rightarrow> bool) \<Rightarrow> envelope list handler" where
  "recorder accept e w = (accept e w, if accept e w then w @ [e] else w)"

lemma drainItems_recorder:
  assumes "drainItems (recorder accept) items d w = (ok, d', w')"
  shows "(\<forall>n. readJson d' n = readJson d n \<or> (\<exists>e. (n, e) \<in> set items \<and> e \<in> set w')) \<and>
    set w \<subseteq> set w' \<and> set w' \<subseteq> set w \<union> snd ` set items \<and> (ok \<longrightarrow> snd ` set items \<subseteq> set w')"
  using assms
proof (induction items arbitrary: d w)
  case (Cons item items)
  obtain n e where item: "item = (n, e)" by force
  show ?case
  proof (cases "accept e w")
    case True
    then have "recorder accept e w = (True, w @ [e])" by (simp add: recorder_def)
    with Cons.prems item have "drainItems (recorder accept) items (AList.delete n d) (w @ [e]) = (ok, d', w')"
      by simp
    from Cons.IH [OF this] show ?thesis
      by (auto simp: item) (metis)+
  next
    case False
    with Cons.prems item show ?thesis by (auto simp: recorder_def)
  qed
qed auto

text \<open>The same after the inbox was read: the items are those of the directory.\<close>

lemma drain_inbox:
  assumes "length (jsonNames d) \<le> MAX_INBOX_MESSAGES"
    and "drainItems (recorder accept) (filter P (fst (readInboxDir r rid now d))) (snd (readInboxDir r rid now d)) w
      = (ok, d', w')"
    and "is_json_name n" "inboxItem r rid now (readJson d n) = Some e"
  shows "e \<in> set w' \<or> inboxItem r rid now (readJson d' n) = Some e"
    and "ok \<Longrightarrow> P (n, e) \<Longrightarrow> e \<in> set w'"
proof -
  have items: "(m, x) \<in> set (fst (readInboxDir r rid now d)) \<longleftrightarrow>
      is_json_name m \<and> inboxItem r rid now (readJson d m) = Some x" for m x
    using set_readInboxDir [OF assms(1)] by auto
  have kept: "readJson (snd (readInboxDir r rid now d)) n = readJson d n"
    using readInboxDir_keeps [OF assms(4), of now] assms(4) by auto
  note dr = drainItems_recorder [OF assms(2)]
  then have "readJson d' n = readJson (snd (readInboxDir r rid now d)) n \<or>
      (\<exists>x. (n, x) \<in> set (fst (readInboxDir r rid now d)) \<and> x \<in> set w')"
    by auto
  then show "e \<in> set w' \<or> inboxItem r rid now (readJson d' n) = Some e"
    using assms(4) kept by (auto simp: items)
  show "e \<in> set w'" if ok "P (n, e)"
  proof -
    have "(n, e) \<in> set (filter P (fst (readInboxDir r rid now d)))"
      using assms(3,4) that(2) by (simp add: items)
    then have "e \<in> snd ` set (filter P (fst (readInboxDir r rid now d)))" by force
    with dr that(1) show ?thesis by blast
  qed
qed

text \<open>C21. When a session shuts down and drains its inbox, every unexpired message in it is handed to
  the handler or stays readable for a successor, and all are handed over when the drain succeeds.\<close>

theorem shutdown_loses_nothing:
  assumes "mail_bounded s" "is_room_id r" "is_runtime_id rid"
    and "removeRuntimeState now r rid (Some (recorder accept)) s [] = (res, s', taken)"
    and "is_json_name n" "inboxItem r rid now (readJson (inboxOf (roomOf s r) rid) n) = Some e"
  shows "e \<in> set taken \<or> res \<noteq> Inr () \<and> inboxItem r rid now (readJson (inboxOf (roomOf s' r) rid) n) = Some e"
proof -
  let ?d = "inboxOf (roomOf s r) rid"
  obtain items d where i: "readInboxDir r rid now ?d = (items, d)" by force
  obtain ok d' w' where x: "drainItems (recorder accept) items d [] = (ok, d', w')" by (metis prod_cases3)
  have b: "length (jsonNames ?d) \<le> MAX_INBOX_MESSAGES"
    using assms(1) by (intro room_boundedD mail_bounded_room)
  have "?d \<noteq> []" using assms(6) by (auto simp: readJson_def)
  then have "map_of (rm_inbox (roomOf s r)) rid \<noteq> None" by (auto dest: map_of_rm_inbox)
  then have res: "taken = w'" "ok \<longleftrightarrow> res = Inr ()" "\<not> ok \<Longrightarrow> inboxOf (roomOf s' r) rid = d'"
    using assms(2-4) by (auto simp: removeRuntimeState_def Let_def i x split: if_splits)
  have "drainItems (recorder accept) (filter (\<lambda>_. True) (fst (readInboxDir r rid now ?d)))
      (snd (readInboxDir r rid now ?d)) [] = (ok, d', w')"
    using i x by simp
  from drain_inbox [OF b this assms(5,6)] res show ?thesis by auto
qed

lemma predecessorAlive_setInbox [simp]: "predecessorAlive env (setInbox now rid d rm) x = predecessorAlive env rm x"
  by (simp add: predecessorAlive_def)

lemma inboxItem_Some:
  "inboxItem r rid now doc = Some e \<Longrightarrow>
     normalizeEnvelope doc = Some e \<and> e_roomId e = r \<and> e_targetRuntimeId e = rid \<and> now < e_expiresAt e"
  by (auto simp: inboxItem_def split: option.splits if_splits)

definition adoptable :: "env \<Rightarrow> rat \<Rightarrow> string \<Rightarrow> string \<Rightarrow> room \<Rightarrow> envelope \<Rightarrow> bool" where
  "adoptable env now r sid rm e \<longleftrightarrow>
     e_targetSessionId e = Some sid \<and> e_roomId e = r \<and> now < e_expiresAt e \<and>
     \<not> predecessorAlive env rm (e_targetRuntimeId e)"

lemma adoptInboxes_recorder:
  assumes "adoptInboxes env now r succ sid (recorder accept) rids n rm w = (res, rm', w')" "room_bounded rm"
  shows "set w' \<subseteq> set w \<union> {e. adoptable env now r sid rm e} \<and> set w \<subseteq> set w' \<and>
    (\<forall>rid m e. is_json_name m \<longrightarrow> inboxItem r rid now (readJson (inboxOf rm rid) m) = Some e \<longrightarrow>
       e \<in> set w' \<or> inboxItem r rid now (readJson (inboxOf rm' rid) m) = Some e)"
  using assms
proof (induction rids arbitrary: n rm w)
  case (Cons rid rids)
  show ?case
  proof (cases "\<not> is_runtime_id rid \<or> rid = succ \<or> predecessorAlive env rm rid")
    case True
    then show ?thesis using Cons by simp
  next
    case False
    let ?d = "inboxOf rm rid" and ?P = "\<lambda>(name, e). e_targetSessionId e = Some sid"
    obtain items d where i: "readInboxDir r rid now ?d = (items, d)" by force
    obtain ok d1 w1 where x: "drainItems (recorder accept) (filter ?P items) d w = (ok, d1, w1)"
      by (metis prod_cases3)
    let ?rm1 = "if d1 = ?d then rm else setInbox now rid d1 rm"
    have b: "length (jsonNames ?d) \<le> MAX_INBOX_MESSAGES" using Cons.prems(2) by simp
    have drained: "drainItems (recorder accept) (filter ?P (fst (readInboxDir r rid now ?d)))
        (snd (readInboxDir r rid now ?d)) w = (ok, d1, w1)" using i x by simp
    have ad: "adoptable env now r sid rm e" if "(m, e) \<in> set (filter ?P items)" for m e
      using that False set_readInboxDir [OF b, of r rid now]
      by (auto simp: adoptable_def i dest!: inboxItem_Some)
    have "snd ` set (filter ?P items) \<subseteq> {e. adoptable env now r sid rm e}"
      using ad by (auto simp del: set_filter)
    then have w1: "set w1 \<subseteq> set w \<union> {e. adoptable env now r sid rm e}" "set w \<subseteq> set w1"
      using drainItems_recorder [OF x] by blast+
    have in1: "inboxOf ?rm1 y = (if y = rid then d1 else inboxOf rm y)" for y by auto
    have keep1: "e \<in> set w1 \<or> inboxItem r y now (readJson (inboxOf ?rm1 y) m) = Some e"
      if "is_json_name m" "inboxItem r y now (readJson (inboxOf rm y) m) = Some e" for y m e
      using drain_inbox(1) [OF b drained that(1), of e] that(2) unfolding in1 by auto
    have ad1: "adoptable env now r sid ?rm1 e = adoptable env now r sid rm e" for e
      by (simp add: adoptable_def)
    show ?thesis
    proof (cases ok)
      case True
      then have rest: "adoptInboxes env now r succ sid (recorder accept) rids
          (n + length (filter ?P items)) ?rm1 w1 = (res, rm', w')"
        using Cons.prems(1) False by (simp add: i x)
      have "length (jsonNames d1) \<le> MAX_INBOX_MESSAGES"
        using length_drained [OF b, of "recorder accept" "filter ?P items" r rid now w] i x by simp
      then have "room_bounded ?rm1" using Cons.prems(2) by auto
      from Cons.IH [OF rest this] w1 keep1 show ?thesis
        unfolding ad1 by blast
    next
      case no: False
      then have "w' = w1" "rm' = ?rm1" using Cons.prems(1) False by (auto simp: i x)
      then show ?thesis using w1 keep1 by simp
    qed
  qed
qed simp

text \<open>A resumed session adopts only unexpired messages that were addressed to exactly its session in
  its room, from the inboxes of processes that are no longer alive; every other message, and every
  message the handler refuses, stays readable where it was.\<close>

theorem adoption_is_exact:
  assumes "mail_bounded s" "is_room_id r"
    and "adoptSessionInboxMessages env now r succ sid (recorder accept) s [] = (res, s', taken)"
    and "is_json_name m" "inboxItem r rid now (readJson (inboxOf (roomOf s r) rid) m) = Some e"
  shows "set taken \<subseteq> {e. adoptable env now r sid (roomOf s r) e} \<and>
    (e \<in> set taken \<or> inboxItem r rid now (readJson (inboxOf (roomOf s' r) rid) m) = Some e)"
proof -
  obtain res' rm' w' where a: "adoptInboxes env now r succ sid (recorder accept)
      (map fst (rm_inbox (roomOf s r))) 0 (roomOf s r) [] = (res', rm', w')"
    by (metis prod_cases3)
  have b: "room_bounded (roomOf s r)" using assms(1) by auto
  have "taken = w'" "s' = setRoom r rm' s"
    using assms(2,3) a by (auto simp: adoptSessionInboxMessages_def)
  with adoptInboxes_recorder [OF a b] assms(4,5) show ?thesis by auto
qed

section \<open>Pruning spares the living\<close>

definition room_keeps :: "string \<Rightarrow> rat \<times> json option \<Rightarrow> dir \<Rightarrow> room \<Rightarrow> bool" where
  "room_keeps rid entry d rm \<longleftrightarrow>
     distinct (map fst (rm_presence rm)) \<and> map_of (rm_presence rm) (presencePath rid) = Some entry \<and>
     inboxOf rm rid = d"

lemma prunePresence_keeps:
  assumes "room_keeps rid (mt, doc) d rm" "\<not> presenceStale env now mt doc"
    "x \<in> set ps" "map_of ps (presencePath rid) = Some (mt, doc)" "distinct (map fst ps)"
  shows "room_keeps rid (mt, doc) d (prunePresence env now x rm)"
proof -
  obtain name m y where x: "x = (name, m, y)" by (metis prod_cases3)
  show ?thesis
  proof (cases "name = presencePath rid")
    case True
    with assms(3-5) x have "(m, y) = (mt, doc)" by (auto simp: map_of_eq_Some_iff)
    with assms(1,2) show ?thesis by (simp add: prunePresence_def x)
  next
    case False
    then have "is_json_name name \<Longrightarrow> take (length name - 5) name \<noteq> rid"
      using is_json_name_split by (auto simp: presencePath_def)
    with assms(1) False show ?thesis
      by (auto simp: prunePresence_def x room_keeps_def Let_def delete_conv' distinct_delete inboxOf_def
          simp del: map_of_eq_Some_iff)
  qed
qed

lemma pruneInbox_keeps: "room_keeps rid entry d rm \<Longrightarrow> room_keeps rid entry d (pruneInbox now x rm)"
  by (auto simp: pruneInbox_def room_keeps_def split: prod.splits)

lemma fold_keeps:
  "(\<And>x rm. x \<in> set xs \<Longrightarrow> P rm \<Longrightarrow> P (g x rm)) \<Longrightarrow> P rm \<Longrightarrow> P (fold g xs rm)"
  by (induction xs arbitrary: rm) auto

lemma pruneRoomFiles_keeps:
  assumes "room_keeps rid (mt, doc) d rm" "\<not> presenceStale env now mt doc"
  shows "room_keeps rid (mt, doc) d (pruneRoomFiles env now rm)"
proof -
  have "map_of (rm_presence rm) (presencePath rid) = Some (mt, doc)" "distinct (map fst (rm_presence rm))"
    using assms(1) by (auto simp: room_keeps_def)
  with assms have "room_keeps rid (mt, doc) d (fold (prunePresence env now) (rm_presence rm) rm)"
    by (intro fold_keeps [where P = "room_keeps rid (mt, doc) d"] prunePresence_keeps) auto
  then show ?thesis
    unfolding pruneRoomFiles_def Let_def
    by (rule fold_keeps [where P = "room_keeps rid (mt, doc) d", rotated]) (rule pruneInbox_keeps)
qed

lemma roomOf_outgoing [simp]: "roomOf (s\<lparr>co_outgoing := x\<rparr>) r = roomOf s r"
  by (simp add: roomOf_def)

text \<open>Pruning the shared state never removes the presence or the inbox of a runtime whose process
  is alive or whose lease ended less than a day ago, whatever else lies in the room.\<close>

theorem prune_spares_the_living:
  assumes "distinct (map fst (rm_presence (roomOf s r)))"
    and "map_of (rm_presence (roomOf s r)) (presencePath rid) = Some (mt, doc)"
    and "normalizePresence doc = Some p"
    and "isProcessAlive (killed env) (p_pid p) \<or> now - STALE_RETENTION_MS \<le> p_leaseExpiresAt p"
  shows "map_of (rm_presence (roomOf (pruneCoordinatorState env now s) r)) (presencePath rid) = Some (mt, doc) \<and>
    inboxOf (roomOf (pruneCoordinatorState env now s) r) rid = inboxOf (roomOf s r) rid"
proof -
  let ?P = "\<lambda>s'. room_keeps rid (mt, doc) (inboxOf (roomOf s r) rid) (roomOf s' r)"
  have fresh: "\<not> presenceStale env now mt doc" using assms(3,4) by (auto simp: presenceStale_def)
  have "?P s" using assms(1,2) by (simp add: room_keeps_def)
  then have "?P (fold (pruneRoom env now) (listRoomIds s) s)"
    by (rule fold_keeps [where P = ?P, rotated]) (auto simp: pruneRoom_def pruneRoomFiles_keeps fresh)
  then show ?thesis
    by (simp add: room_keeps_def pruneCoordinatorState_def pruneOutgoingMessageStatuses_def)
qed

section \<open>Examples\<close>

abbreviation sampleRoom :: string where "sampleRoom \<equiv> ''cwd-0123456789abcdef0123456789abcdef''"
abbreviation sampleId :: string where "sampleId \<equiv> ''00000000-0000-4000-8000-000000000000''"

definition sampleEnv :: env where
  "sampleEnv = \<lparr>sha256 = (\<lambda>s. s), killed = (\<lambda>pid. if pid = 7 then KillOk else KillOther),
     showNum = (\<lambda>r. ''1''), collate = (\<lambda>s. s)\<rparr>"

definition samplePeer :: presence where
  "samplePeer = \<lparr>p_roomId = sampleRoom, p_runtimeId = sampleId, p_pid = 7, p_sessionId = ''s'',
     p_sessionName = None, p_cwd = ''/'', p_worktreeRoot = ''/'', p_branch = None, p_activity = Idle,
     p_status = None, p_startedAt = 1, p_heartbeatAt = 1, p_leaseExpiresAt = 10,
     p_protocolVersion = True, p_requestResponseVersion = True, p_autoWakeVersion = False,
     p_ephemeral = False, p_workspaceChanges = None, p_workspaceChangesOmitted = None\<rparr>"

definition sampleMessage :: envelope where
  "sampleMessage = \<lparr>e_id = sampleId, e_roomId = sampleRoom, e_targetRuntimeId = sampleId,
     e_targetSessionId = Some ''s'', e_sender = \<lparr>sd_runtimeId = sampleId, sd_sessionId = ''t'',
       sd_sessionName = None, sd_worktreeRoot = ''/''\<rparr>,
     e_message = ''hi'', e_inReplyTo = None, e_requestAcknowledgment = False,
     e_requestResponse = True, e_hops = 0, e_createdAt = 1, e_expiresAt = 9\<rparr>"

lemma sampleRoom_ok: "is_room_id sampleRoom"
  by code_simp

lemma samplePeer_ok: "presence_ok samplePeer"
  by (simp add: presence_ok_def samplePeer_def sampleRoom_ok is_runtime_id_sample str_ok_def)

lemma sampleMessage_ok: "envelope_ok sampleMessage"
proof -
  have "sanitizeMessage ''hi'' = ''hi''" "utf8_length ''hi'' \<le> MAX_MESSAGE_BYTES" by code_simp+
  then show ?thesis
    by (simp add: envelope_ok_def sampleMessage_def sampleRoom_ok is_runtime_id_sample str_ok_def)
qed

definition sampleCoord :: coord where
  "sampleCoord = snd (writePresence 1 samplePeer emptyCoord)"

lemma sampleCoord_bounded: "mail_bounded sampleCoord"
  unfolding sampleCoord_def by (intro writePresence_bounded mail_bounded_empty)

lemma samplePeer_read: "readPresence (roomOf sampleCoord sampleRoom) sampleId = Some samplePeer"
proof -
  have n: "normalizePresence (Some (presenceJson samplePeer)) = Some samplePeer"
    using presence_read [OF samplePeer_ok] by (simp add: samplePeer_def sanitizeStatus_def)
  then show ?thesis
    by (simp add: sampleCoord_def writePresence_def Let_def readPresence_def update_conv')
      (simp add: samplePeer_def presencePath_def)
qed

lemma sampleMessage_enqueued: "\<exists>s'. enqueueMessage sampleEnv 2 sampleMessage sampleCoord = (Inr (), s')"
proof -
  have n: "normalizeEnvelope (Some (envelopeJson sampleMessage)) = Some sampleMessage"
    using sampleMessage_ok by (simp add: normalizeEnvelope_read)
  have "inboxOf (roomOf sampleCoord sampleRoom) sampleId = []"
    using presence_read [OF samplePeer_ok]
    by (simp add: sampleCoord_def writePresence_def Let_def emptyCoord_def roomOf_def inboxOf_def setRoom_def
        setInbox_def samplePeer_def)
  with n samplePeer_read show ?thesis
    by (simp add: enqueueMessage_def Let_def)
      (simp add: sampleMessage_def samplePeer_def isPresenceActive_def isProcessAlive_def sampleEnv_def
        jsonNames_def MAX_INBOX_MESSAGES_def)
qed

theorem enqueued_message_is_read_witness:
  "\<exists>s'. (envelopeName sampleEnv sampleMessage, sampleMessage) \<in>
     set (fst (readInbox 3 (e_roomId sampleMessage) (e_targetRuntimeId sampleMessage) s'))"
proof -
  obtain s' where "enqueueMessage sampleEnv 2 sampleMessage sampleCoord = (Inr (), s')"
    using sampleMessage_enqueued by blast
  from enqueued_message_is_read [OF sampleCoord_bounded sampleMessage_ok this, of 3] show ?thesis
    by (auto simp: sampleMessage_def)
qed

definition sampleRecord :: status_record where
  "sampleRecord = (newStatusRecord sampleMessage None True)\<lparr>r_status := StSurfaced\<rparr>"

definition sampleOutgoing :: coord where
  "sampleOutgoing = emptyCoord\<lparr>co_outgoing :=
     [(receiptKey (\<lambda>s. s) ''t'', [(statusFile sampleId, Some (statusJson sampleRecord))])]\<rparr>"

lemma sampleRecord_read: "readStatus sampleEnv ''t'' sampleId sampleOutgoing = Some sampleRecord"
proof -
  have "record_ok sampleRecord"
    by (simp add: record_ok_def sampleRecord_def newStatusRecord_def sampleMessage_def sampleRoom_ok
        is_runtime_id_sample str_ok_def)
  then show ?thesis
    by (simp add: readStatus_def outgoingDir_def sampleOutgoing_def sampleEnv_def dirOf_def readJson_def
        normalizeMessageStatusRecord_read)
qed

theorem status_never_regresses_witness:
  "\<exists>r'. readStatus sampleEnv ''t'' sampleId (fold (mailStep sampleEnv)
     [UpdateStatus ''t'' sampleId StDelivered 5, UpdateStatus ''t'' sampleId StAcknowledged 6] sampleOutgoing) = Some r' \<and>
   r_status sampleRecord \<le> r_status r'"
  by (rule status_never_regresses [OF _ sampleRecord_read]) simp

theorem receipt_is_durable_witness:
  "\<exists>s' items s2. readSessionReceipts sampleEnv 3 ''s'' s' = (Inr items, s2) \<and>
    (receiptName sampleMessage, sampleMessage) \<in> set items \<and>
    dirOf (co_receipts (snd (persistSessionReceipt sampleEnv ''s'' sampleMessage s'))) (receiptKey (sha256 sampleEnv) ''s'') =
    dirOf (co_receipts s') (receiptKey (sha256 sampleEnv) ''s'')"
proof -
  have new: "map_of (dirOf (co_receipts emptyCoord) (receiptKey (sha256 sampleEnv) ''s'')) (receiptName sampleMessage) = None"
    by (simp add: emptyCoord_def dirOf_def)
  have "\<exists>item s'. persistSessionReceipt sampleEnv ''s'' sampleMessage emptyCoord = (Inr item, s')"
    by (simp add: persistSessionReceipt_def normalizeEnvelope_read [THEN iffD2, OF sampleMessage_ok]
        session_id_ok_def emptyCoord_def dirOf_def MAX_SESSION_RECEIPTS_def Let_def)
  then obtain item s' where "persistSessionReceipt sampleEnv ''s'' sampleMessage emptyCoord = (Inr item, s')"
    by blast
  from receipt_is_durable [OF sampleMessage_ok new this, of 3] show ?thesis
    by (simp add: sampleMessage_def) blast
qed

definition sampleInbox :: coord where
  "sampleInbox = setRoom sampleRoom
     (setInbox 1 sampleId [(''1.json'', Some (envelopeJson sampleMessage))] (roomOf emptyCoord sampleRoom)) emptyCoord"

lemma sampleInbox_item:
  "inboxItem sampleRoom sampleId 2 (readJson (inboxOf (roomOf sampleInbox sampleRoom) sampleId) ''1.json'') =
     Some sampleMessage"
proof -
  have "e_roomId sampleMessage = sampleRoom" "e_targetRuntimeId sampleMessage = sampleId"
    "2 < e_expiresAt sampleMessage"
    by (simp_all add: sampleMessage_def)
  then show ?thesis
    by (simp add: sampleInbox_def readJson_def inboxItem_def normalizeEnvelope_read [THEN iffD2, OF sampleMessage_ok])
qed

lemma sampleInbox_bounded: "mail_bounded sampleInbox"
  unfolding sampleInbox_def
  by (intro mail_bounded_setRoom room_bounded_setInbox mail_bounded_empty mail_bounded_room)
    (simp add: jsonNames_def is_json_name_def MAX_INBOX_MESSAGES_def)

lemma sampleName_ok: "is_json_name ''1.json''"
  by (simp add: is_json_name_def)

theorem shutdown_loses_nothing_witness:
  "\<exists>res s' taken. removeRuntimeState 2 sampleRoom sampleId (Some (recorder (\<lambda>e w. False))) sampleInbox [] =
     (res, s', taken) \<and>
   (sampleMessage \<in> set taken \<or> res \<noteq> Inr () \<and>
     inboxItem sampleRoom sampleId 2 (readJson (inboxOf (roomOf s' sampleRoom) sampleId) ''1.json'') = Some sampleMessage)"
  using shutdown_loses_nothing [OF sampleInbox_bounded sampleRoom_ok is_runtime_id_sample _ sampleName_ok
      sampleInbox_item, where accept = "\<lambda>e w. False"]
  by (metis prod_cases3)

theorem adoption_is_exact_witness:
  "\<exists>res s' taken. adoptSessionInboxMessages sampleEnv 2 sampleRoom ''x'' ''s'' (recorder (\<lambda>e w. True)) sampleInbox [] =
     (res, s', taken) \<and>
   set taken \<subseteq> {e. adoptable sampleEnv 2 sampleRoom ''s'' (roomOf sampleInbox sampleRoom) e} \<and>
   (sampleMessage \<in> set taken \<or>
     inboxItem sampleRoom sampleId 2 (readJson (inboxOf (roomOf s' sampleRoom) sampleId) ''1.json'') = Some sampleMessage)"
  using adoption_is_exact [OF sampleInbox_bounded sampleRoom_ok _ sampleName_ok sampleInbox_item,
      where accept = "\<lambda>e w. True"]
  by (metis prod_cases3)

theorem prune_spares_the_living_witness:
  "map_of (rm_presence (roomOf (pruneCoordinatorState sampleEnv 1000000000 sampleCoord) sampleRoom))
     (presencePath sampleId) = Some (1, Some (presenceJson samplePeer)) \<and>
   inboxOf (roomOf (pruneCoordinatorState sampleEnv 1000000000 sampleCoord) sampleRoom) sampleId =
     inboxOf (roomOf sampleCoord sampleRoom) sampleId"
proof (rule prune_spares_the_living)
  have n: "normalizePresence (Some (presenceJson samplePeer)) = Some samplePeer"
    using presence_read [OF samplePeer_ok] by (simp add: samplePeer_def sanitizeStatus_def)
  then show "normalizePresence (Some (presenceJson samplePeer)) = Some samplePeer" .
  have room: "p_roomId samplePeer = sampleRoom" "p_runtimeId samplePeer = sampleId"
    by (simp_all add: samplePeer_def)
  have pres: "rm_presence (roomOf sampleCoord sampleRoom) =
      [(presencePath sampleId, 1, Some (presenceJson samplePeer))]"
    by (simp add: sampleCoord_def writePresence_def n room Let_def emptyCoord_def roomOf_def setRoom_def setInbox_def)
  show "distinct (map fst (rm_presence (roomOf sampleCoord sampleRoom)))"
    "map_of (rm_presence (roomOf sampleCoord sampleRoom)) (presencePath sampleId) = Some (1, Some (presenceJson samplePeer))"
    by (simp_all add: pres)
  show "isProcessAlive (killed sampleEnv) (p_pid samplePeer) \<or> 1000000000 - STALE_RETENTION_MS \<le> p_leaseExpiresAt samplePeer"
    by (simp add: isProcessAlive_def sampleEnv_def samplePeer_def)
qed

end
