(* ===== verification/SessionEntries.thy ===== *)
theory SessionEntries
  imports JsPrelude
begin

text \<open>
  \<open>extensions/_shared/handoff-state.ts\<close>, the durable state in a session log: the latest goal and
  work plan among the custom entries, their validators, and the goal snapshots that a handoff
  writes. A snapshot keeps every property of the JSON object that it came from, so snapshots stay
  JSON values here; a spread with overriding properties is \<open>spread\<close>.
\<close>

section \<open>Session entries\<close>

record entry =
  en_id :: "string option"
  en_type :: string
  en_customType :: "string option"
  en_data :: jsval
  en_message :: jsval

definition GOAL_STATE_TYPE :: string where "GOAL_STATE_TYPE = ''pi-goal-state''"
definition WORK_PLAN_STATE_TYPE :: string where "WORK_PLAN_STATE_TYPE = ''pi-work-plan-state''"
definition SELF_HANDOFF_STATE_TYPE :: string where "SELF_HANDOFF_STATE_TYPE = ''pi-self-handoff-state''"

definition is_custom :: "string \<Rightarrow> entry \<Rightarrow> bool" where
  "is_custom customType e \<longleftrightarrow> en_type e = ''custom'' \<and> en_customType e = Some customType"

definition customEntry :: "string \<Rightarrow> jsval \<Rightarrow> entry" where
  "customEntry customType data =
     \<lparr>en_id = None, en_type = ''custom'', en_customType = Some customType, en_data = data, en_message = None\<rparr>"

fun latestFrom :: "jsval \<Rightarrow> entry list \<Rightarrow> string \<Rightarrow> jsval" where
  "latestFrom latest [] customType = latest"
| "latestFrom latest (e # es) customType =
     latestFrom (if is_custom customType e then en_data e else latest) es customType"

definition latestCustomEntryData :: "entry list \<Rightarrow> string \<Rightarrow> jsval" where
  "latestCustomEntryData entries customType = latestFrom None entries customType"

lemma latestFrom_append: "latestFrom v (es @ fs) c = latestFrom (latestFrom v es c) fs c"
  by (induction es arbitrary: v) auto

lemma latest_append:
  "latestCustomEntryData (es @ [e]) c = (if is_custom c e then en_data e else latestCustomEntryData es c)"
  by (simp add: latestCustomEntryData_def latestFrom_append)

lemma is_custom_customEntry [simp]: "is_custom c (customEntry d v) \<longleftrightarrow> d = c"
  by (auto simp: is_custom_def customEntry_def)

lemma en_data_customEntry [simp]: "en_data (customEntry c v) = v"
  by (simp add: customEntry_def)

section \<open>Objects with overriding properties\<close>

text \<open>\<open>{...value, k1: v1, k2: v2}\<close>; a property set to \<open>undefined\<close> reads as absent.\<close>

fun set_prop :: "string \<times> jsval \<Rightarrow> (string \<times> json) list \<Rightarrow> (string \<times> json) list" where
  "set_prop (k, None) kvs = AList.delete k kvs"
| "set_prop (k, Some v) kvs = AList.update k v kvs"

definition spread :: "json \<Rightarrow> (string \<times> jsval) list \<Rightarrow> json" where
  "spread value props = (case value of JObj kvs \<Rightarrow> JObj (fold set_prop props kvs) | _ \<Rightarrow> JObj (fold set_prop props []))"

lemma map_of_set_prop: "map_of (set_prop (k, v) kvs) k' = (if k' = k then v else map_of kvs k')"
  by (cases v) (simp_all add: update_conv' delete_conv')

lemma map_of_fold_set_prop:
  "map_of (fold set_prop props kvs) k = (case map_of (rev props) k of None \<Rightarrow> map_of kvs k | Some v \<Rightarrow> v)"
proof (induction props arbitrary: kvs)
  case (Cons p props)
  obtain k' v where "p = (k', v)" by force
  then show ?case using Cons by (simp add: map_of_set_prop map_add_def split: option.splits)
qed simp

lemma get_spread:
  "isRecord (Some value) \<Longrightarrow> get (Some (spread value props)) k =
     (case map_of (rev props) k of None \<Rightarrow> get (Some value) k | Some v \<Rightarrow> v)"
  by (cases "map_of (rev props) k") (auto simp: spread_def isRecord_iff map_of_fold_set_prop)

lemma isRecord_spread [simp]: "isRecord (Some (spread value props))"
  by (simp add: spread_def split: json.splits)

section \<open>Goals\<close>

definition goal_statuses :: "string list" where
  "goal_statuses = [''active'', ''paused'', ''complete'', ''blocked'', ''budget_limited'', ''cleared'',
     ''transferring'', ''transferred'']"

definition is_str :: "jsval \<Rightarrow> bool" where
  "is_str v \<longleftrightarrow> asStr v \<noteq> None"

definition is_finite :: "jsval \<Rightarrow> bool" where
  "is_finite v \<longleftrightarrow> finiteNum v \<noteq> None"

definition nonempty_str :: "jsval \<Rightarrow> bool" where
  "nonempty_str v \<longleftrightarrow> (case asStr v of None \<Rightarrow> False | Some s \<Rightarrow> s \<noteq> [])"

definition int_at_least :: "int \<Rightarrow> jsval \<Rightarrow> bool" where
  "int_at_least n v \<longleftrightarrow> (case intNum v of None \<Rightarrow> False | Some i \<Rightarrow> n \<le> i)"

definition optional :: "(jsval \<Rightarrow> bool) \<Rightarrow> jsval \<Rightarrow> bool" where
  "optional P v \<longleftrightarrow> v = None \<or> P v"

definition every :: "(jsval \<Rightarrow> bool) \<Rightarrow> jsval \<Rightarrow> bool" where
  "every P v \<longleftrightarrow> (case asArr v of None \<Rightarrow> False | Some xs \<Rightarrow> list_all (\<lambda>x. P (Some x)) xs)"

definition status_in :: "string list \<Rightarrow> jsval \<Rightarrow> bool" where
  "status_in names v \<longleftrightarrow> (case asStr v of None \<Rightarrow> False | Some s \<Rightarrow> s \<in> set names)"

definition validGoalLog :: "jsval \<Rightarrow> bool" where
  "validGoalLog v \<longleftrightarrow> isRecord v \<and> is_finite (get v ''timestamp'') \<and>
     status_in goal_statuses (get v ''status'') \<and> is_str (get v ''note'') \<and>
     optional is_str (get v ''evidence'')"

definition turns_within :: "jsval \<Rightarrow> jsval \<Rightarrow> bool" where
  "turns_within completed mx \<longleftrightarrow>
     (case (intNum completed, intNum mx) of (Some c, Some m) \<Rightarrow> c \<le> m | _ \<Rightarrow> False)"

definition validGoal :: "jsval \<Rightarrow> bool" where
  "validGoal v \<longleftrightarrow> isRecord v \<and> nonempty_str (get v ''id'') \<and> nonempty_str (get v ''objective'') \<and>
     status_in goal_statuses (get v ''status'') \<and> is_finite (get v ''createdAt'') \<and>
     is_finite (get v ''updatedAt'') \<and> int_at_least 0 (get v ''turnsCompleted'') \<and>
     int_at_least 1 (get v ''maxTurns'') \<and>
     turns_within (get v ''turnsCompleted'') (get v ''maxTurns'') \<and>
     every validGoalLog (get v ''progressLog'') \<and> optional is_finite (get v ''completedAt'') \<and>
     optional isBool (get v ''budgetNoticeSent'') \<and>
     optional (int_at_least 0) (get v ''emptyStopStreak'') \<and>
     optional nonempty_str (get v ''handoffId'') \<and>
     optional nonempty_str (get v ''handoffTargetSessionFile'') \<and>
     \<not> (status_in [''transferring'', ''transferred''] (get v ''status'') \<and> \<not> is_str (get v ''handoffId'')) \<and>
     \<not> (jIsStr (get v ''status'') ''transferred'' \<and> \<not> is_str (get v ''handoffTargetSessionFile''))"

definition latestGoalState :: "entry list \<Rightarrow> jsval" where
  "latestGoalState entries =
     (let v = latestCustomEntryData entries GOAL_STATE_TYPE in if validGoal v then v else None)"

section \<open>Work plans\<close>

definition plan_statuses :: "string list" where
  "plan_statuses = [''todo'', ''active'', ''done'', ''blocked'']"

definition validPlanItem :: "jsval \<Rightarrow> bool" where
  "validPlanItem v \<longleftrightarrow> isRecord v \<and> int_at_least 1 (get v ''id'') \<and> nonempty_str (get v ''title'') \<and>
     status_in plan_statuses (get v ''status'') \<and> every (int_at_least 1) (get v ''blockedBy'') \<and>
     optional is_str (get v ''note'') \<and> is_finite (get v ''createdAt'') \<and>
     is_finite (get v ''updatedAt'') \<and> optional is_finite (get v ''startedAt'') \<and>
     optional is_finite (get v ''completedAt'') \<and>
     optional (\<lambda>x. case finiteNum x of None \<Rightarrow> False | Some r \<Rightarrow> 0 \<le> r) (get v ''activeMs'') \<and>
     optional is_finite (get v ''runStartedAt'')"

text \<open>The integers that the validated items hold.\<close>

definition intOf :: "jsval \<Rightarrow> int" where
  "intOf v = (case intNum v of None \<Rightarrow> 0 | Some i \<Rightarrow> i)"

definition arrOf :: "jsval \<Rightarrow> json list" where
  "arrOf v = (case asArr v of None \<Rightarrow> [] | Some xs \<Rightarrow> xs)"

definition validPlan :: "jsval \<Rightarrow> bool" where
  "validPlan v \<longleftrightarrow>
     (if \<not> (isRecord v \<and> jIs (get v ''version'') 1 \<and> every validPlanItem (get v ''items'') \<and>
            int_at_least 1 (get v ''nextId'') \<and> optional (int_at_least 1) (get v ''activeId'') \<and>
            is_finite (get v ''createdAt'') \<and> is_finite (get v ''updatedAt''))
      then False
      else
        let items = arrOf (get v ''items'');
            itemId = (\<lambda>i. intOf (get (Some i) ''id''));
            ids = map itemId items;
            activeIds = map itemId (filter (\<lambda>i. jIsStr (get (Some i) ''status'') ''active'') items);
            maxId = foldl max 0 ids
        in distinct ids \<and> maxId < intOf (get v ''nextId'') \<and>
           list_all (\<lambda>i. list_all (\<lambda>d. intOf (Some d) \<noteq> itemId i \<and> intOf (Some d) \<in> set ids)
             (arrOf (get (Some i) ''blockedBy''))) items \<and>
           (case get v ''activeId'' of
              None \<Rightarrow> activeIds = []
            | Some a \<Rightarrow> activeIds = [intOf (Some a)]))"

definition latestWorkPlanState :: "entry list \<Rightarrow> jsval" where
  "latestWorkPlanState entries =
     (let v = latestCustomEntryData entries WORK_PLAN_STATE_TYPE in if validPlan v then v else None)"

section \<open>What a handoff carries over\<close>

record transfer =
  tr_goal :: jsval
  tr_workPlan :: jsval

definition stripRun :: "json \<Rightarrow> json" where
  "stripRun item = spread item [(''runStartedAt'', None)]"

definition collectTransferState :: "entry list \<Rightarrow> transfer" where
  "collectTransferState entries =
     (let latestGoal = latestGoalState entries; latestPlan = latestWorkPlanState entries in
      \<lparr>tr_goal = (if jIsStr (get latestGoal ''status'') ''active'' then latestGoal else None),
       tr_workPlan = (case latestPlan of
          None \<Rightarrow> None
        | Some plan \<Rightarrow>
            if arrOf (get latestPlan ''items'') = [] then None
            else Some (spread plan [(''items'', Some (JArr (map stripRun (arrOf (get latestPlan ''items'')))))]))\<rparr>)"

datatype transfer_problem = InvalidBudget | NoBudget

definition validateGoalTransfer :: "jsval \<Rightarrow> transfer_problem option" where
  "validateGoalTransfer goal =
     (if goal = None then None
      else if \<not> int_at_least 0 (get goal ''turnsCompleted'') \<or> \<not> int_at_least 1 (get goal ''maxTurns'')
      then Some InvalidBudget
      else if intOf (get goal ''maxTurns'') - intOf (get goal ''turnsCompleted'') \<le> 0 then Some NoBudget
      else None)"

definition goalLog :: "rat \<Rightarrow> string \<Rightarrow> string \<Rightarrow> json" where
  "goalLog timestamp status note =
     obj [(''timestamp'', Some (JNum (Fin timestamp))), (''status'', Some (JStr status)),
          (''note'', Some (JStr note))]"

text \<open>\<open>xs.slice(-50)\<close>.\<close>

definition last50 :: "'a list \<Rightarrow> 'a list" where
  "last50 xs = drop (length xs - 50) xs"

definition appendGoalLog :: "jsval \<Rightarrow> string \<Rightarrow> string \<Rightarrow> rat \<Rightarrow> json" where
  "appendGoalLog goal status note timestamp =
     JArr (last50 (arrOf (get goal ''progressLog'') @ [goalLog timestamp status note]))"

definition pausedGoalAfterHandoffFailure :: "rat \<Rightarrow> json \<Rightarrow> string \<Rightarrow> json" where
  "pausedGoalAfterHandoffFailure now goal requestId =
     spread goal
       [(''status'', Some (JStr ''paused'')), (''updatedAt'', Some (JNum (Fin now))),
        (''budgetNoticeSent'', Some (JBool False)), (''handoffId'', Some (JStr requestId)),
        (''progressLog'', Some (appendGoalLog (Some goal) ''paused''
           ''Paused because self-handoff parent ownership could not be secured.'' now)),
        (''completedAt'', None)]"

definition transferringGoal :: "rat \<Rightarrow> json \<Rightarrow> string \<Rightarrow> json" where
  "transferringGoal now goal requestId =
     spread goal
       [(''status'', Some (JStr ''transferring'')), (''updatedAt'', Some (JNum (Fin now))),
        (''handoffId'', Some (JStr requestId)), (''handoffTargetSessionFile'', None),
        (''progressLog'', Some (appendGoalLog (Some goal) ''transferring''
           (''Fresh-session handoff '' @ requestId @ '' started.'') now))]"

definition transferredGoal :: "rat \<Rightarrow> json \<Rightarrow> string \<Rightarrow> string \<Rightarrow> json" where
  "transferredGoal now goal requestId targetSessionFile =
     spread goal
       [(''status'', Some (JStr ''transferred'')), (''updatedAt'', Some (JNum (Fin now))),
        (''completedAt'', Some (JNum (Fin now))), (''handoffId'', Some (JStr requestId)),
        (''handoffTargetSessionFile'', Some (JStr targetSessionFile)),
        (''progressLog'', Some (appendGoalLog (Some goal) ''transferred''
           (''Transferred to fresh Pi session '' @ targetSessionFile @ '' by handoff '' @ requestId @ ''.'') now))]"

section \<open>Handed-over snapshots stay valid\<close>

lemma set_last50: "set (last50 xs) \<subseteq> set xs"
  by (simp add: last50_def set_drop_subset)

lemma length_last50: "length (last50 xs) \<le> 50"
  by (simp add: last50_def)

lemma every_arrOf: "every P v \<Longrightarrow> list_all (\<lambda>x. P (Some x)) (arrOf v)"
  by (auto simp: every_def arrOf_def split: option.splits)

lemma validGoalLog_goalLog [simp]: "status \<in> set goal_statuses \<Longrightarrow> validGoalLog (Some (goalLog now status note))"
  by (simp add: validGoalLog_def goalLog_def get_obj_Cons get_obj_Nil is_finite_def is_str_def status_in_def
      optional_def)

lemma every_appendGoalLog:
  "every validGoalLog (get goal ''progressLog'') \<Longrightarrow> status \<in> set goal_statuses \<Longrightarrow>
     every validGoalLog (Some (appendGoalLog goal status note now))"
  using set_last50 every_arrOf [of validGoalLog "get goal ''progressLog''"]
  by (fastforce simp: every_def appendGoalLog_def list_all_iff)

lemma validGoal_isRecord: "validGoal (Some g) \<Longrightarrow> isRecord (Some g)"
  by (simp add: validGoal_def)

lemma validGoal_transferring:
  assumes "validGoal (Some g)" "requestId \<noteq> []"
  shows "validGoal (Some (transferringGoal now g requestId))"
  using assms every_appendGoalLog [of "Some g" "''transferring''"]
  by (simp add: validGoal_def transferringGoal_def get_spread) (simp add: status_in_def goal_statuses_def
      optional_def nonempty_str_def is_finite_def is_str_def)

lemma validGoal_transferred:
  assumes "validGoal (Some g)" "requestId \<noteq> []" "target \<noteq> []"
  shows "validGoal (Some (transferredGoal now g requestId target))"
  using assms every_appendGoalLog [of "Some g" "''transferred''"]
  by (simp add: validGoal_def transferredGoal_def get_spread) (simp add: status_in_def goal_statuses_def
      optional_def nonempty_str_def is_finite_def is_str_def)

lemma validGoal_paused:
  assumes "validGoal (Some g)" "requestId \<noteq> []"
  shows "validGoal (Some (pausedGoalAfterHandoffFailure now g requestId))"
  using assms every_appendGoalLog [of "Some g" "''paused''"]
  by (simp add: validGoal_def pausedGoalAfterHandoffFailure_def get_spread) (simp add: status_in_def
      goal_statuses_def optional_def nonempty_str_def is_finite_def is_str_def)

lemma latestGoalState_append [simp]:
  "latestGoalState (es @ [customEntry GOAL_STATE_TYPE (Some g)]) = (if validGoal (Some g) then Some g else None)"
  by (simp add: latestGoalState_def latest_append)

lemma latestFrom_origin:
  "(latestFrom v es c = v \<and> list_all (\<lambda>e. \<not> is_custom c e) es) \<or>
   (\<exists>e \<in> set es. is_custom c e \<and> latestFrom v es c = en_data e)"
  by (induction es arbitrary: v) auto

lemma latestFrom_none: "list_all (\<lambda>e. \<not> is_custom c e) es \<Longrightarrow> latestFrom v es c = v"
  by (induction es arbitrary: v) auto

lemma transfer_needs_active:
  "tr_goal (collectTransferState entries) = Some c \<longleftrightarrow> latestGoalState entries = Some c \<and> jIsStr (get (Some c) ''status'') ''active''"
  by (auto simp: collectTransferState_def Let_def)

text \<open>C23. A handoff records the goal of the parent as transferring, as transferred, or as paused when the handoff failed.
  The record is a valid goal state with the identity and the turn budget of the goal. However the log of the session goes
  on: while no goal entry follows, the record is the goal of the session and a handoff carries no goal; and a later handoff
  carries a goal only when an entry after the record activates it, as \<open>/goal reclaim\<close>, \<open>/goal resume\<close>, \<open>update_goal\<close>
  or a new goal do: what it carries is then the data of that entry, never the goal as it was before the record.\<close>

theorem handed_over_goal_needs_reactivation:
  assumes "validGoal (Some g)" "requestId \<noteq> []" "target \<noteq> []"
    and "g' \<in> {transferringGoal now g requestId, transferredGoal now g requestId target,
      pausedGoalAfterHandoffFailure now g requestId}"
    and "entries = es @ customEntry GOAL_STATE_TYPE (Some g') # later"
  shows "(list_all (\<lambda>e. \<not> is_custom GOAL_STATE_TYPE e) later \<longrightarrow>
      latestGoalState entries = Some g' \<and> tr_goal (collectTransferState entries) = None) \<and>
    (\<forall>c. tr_goal (collectTransferState entries) = Some c \<longrightarrow>
      (\<exists>e \<in> set later. is_custom GOAL_STATE_TYPE e \<and> en_data e = Some c \<and>
         validGoal (Some c) \<and> jIsStr (get (Some c) ''status'') ''active'')) \<and>
    get (Some g') ''id'' = get (Some g) ''id'' \<and>
    get (Some g') ''turnsCompleted'' = get (Some g) ''turnsCompleted'' \<and>
    get (Some g') ''maxTurns'' = get (Some g) ''maxTurns'' \<and>
    length (arrOf (get (Some g') ''progressLog'')) \<le> 50"
proof -
  have r: "isRecord (Some g)" using assms(1) by (rule validGoal_isRecord)
  have valid: "validGoal (Some g')"
    using assms(1-4) validGoal_transferring validGoal_transferred validGoal_paused by auto
  have inactive: "\<not> jIsStr (get (Some g') ''status'') ''active''"
    and fields: "get (Some g') ''id'' = get (Some g) ''id''"
      "get (Some g') ''turnsCompleted'' = get (Some g) ''turnsCompleted''"
      "get (Some g') ''maxTurns'' = get (Some g) ''maxTurns''"
      "length (arrOf (get (Some g') ''progressLog'')) \<le> 50"
    using assms(4) length_last50
    by (auto simp: transferringGoal_def transferredGoal_def pausedGoalAfterHandoffFailure_def get_spread [OF r]
        appendGoalLog_def arrOf_def)
  let ?latest = "latestFrom (Some g') later GOAL_STATE_TYPE"
  have state: "latestGoalState entries = (if validGoal ?latest then ?latest else None)"
    by (simp add: assms(5) latestGoalState_def latestCustomEntryData_def latestFrom_append Let_def)
  have "latestGoalState entries = Some g' \<and> tr_goal (collectTransferState entries) = None"
    if "list_all (\<lambda>e. \<not> is_custom GOAL_STATE_TYPE e) later"
    using latestFrom_none [OF that, of "Some g'"] state valid inactive by (simp add: collectTransferState_def Let_def)
  moreover have "\<exists>e \<in> set later. is_custom GOAL_STATE_TYPE e \<and> en_data e = Some c \<and>
         validGoal (Some c) \<and> jIsStr (get (Some c) ''status'') ''active''"
    if "tr_goal (collectTransferState entries) = Some c" for c
  proof -
    have c: "?latest = Some c" "validGoal (Some c)" "jIsStr (get (Some c) ''status'') ''active''"
      using that state by (auto simp: transfer_needs_active split: if_splits)
    then show ?thesis using latestFrom_origin [of "Some g'" later GOAL_STATE_TYPE] inactive by auto
  qed
  ultimately show ?thesis using fields by blast
qed

text \<open>The plan that is carried over.\<close>

lemma get_stripRun: "isRecord (Some i) \<Longrightarrow>
    get (Some (stripRun i)) k = (if k = ''runStartedAt'' then None else get (Some i) k)"
  by (simp add: stripRun_def get_spread)

lemma validPlanItem_stripRun: "validPlanItem (Some i) \<Longrightarrow> validPlanItem (Some (stripRun i))"
proof -
  assume v: "validPlanItem (Some i)"
  then have "isRecord (Some i)" by (simp add: validPlanItem_def)
  from get_stripRun [OF this] v show ?thesis
    by (simp add: validPlanItem_def) (simp add: stripRun_def optional_def)
qed

lemma plan_fields_spread:
  assumes "isRecord (Some plan)"
  shows "get (Some (spread plan [(''items'', Some (JArr xs))])) k =
    (if k = ''items'' then Some (JArr xs) else get (Some plan) k)"
  using assms by (simp add: get_spread)

lemma validPlan_stripped:
  assumes "validPlan (Some plan)" and xs: "xs = map stripRun (arrOf (get (Some plan) ''items''))"
  shows "validPlan (Some (spread plan [(''items'', Some (JArr xs))]))"
proof -
  let ?items = "arrOf (get (Some plan) ''items'')"
  have r: "isRecord (Some plan)" and items: "list_all (\<lambda>x. validPlanItem (Some x)) ?items"
    using assms(1) every_arrOf by (auto simp: validPlan_def split: if_splits)
  have rec: "isRecord (Some i)" if "i \<in> set ?items" for i
    using items that by (auto simp: list_all_iff validPlanItem_def)
  have valid: "every validPlanItem (Some (JArr xs))"
    using items by (auto simp: every_def xs list_all_iff validPlanItem_stripRun)
  have f: "map (\<lambda>i. g (get (Some i) k)) xs = map (\<lambda>i. g (get (Some i) k)) ?items" if "k \<noteq> ''runStartedAt''"
    for g :: "jsval \<Rightarrow> 'b" and k
    using rec that by (auto simp: xs get_stripRun)
  have ids: "map (\<lambda>i. intOf (get (Some i) ''id'')) xs = map (\<lambda>i. intOf (get (Some i) ''id'')) ?items"
    by (rule f) simp
  have act: "map (\<lambda>i. intOf (get (Some i) ''id'')) (filter (\<lambda>i. jIsStr (get (Some i) ''status'') ''active'') xs) =
      map (\<lambda>i. intOf (get (Some i) ''id'')) (filter (\<lambda>i. jIsStr (get (Some i) ''status'') ''active'') ?items)"
    using rec unfolding xs by (induction ?items rule: list.induct) (auto simp: get_stripRun filter_map o_def
        intro!: map_cong filter_cong)
  have deps: "list_all (\<lambda>i. list_all (\<lambda>d. intOf (Some d) \<noteq> intOf (get (Some i) ''id'') \<and> intOf (Some d) \<in> S)
      (arrOf (get (Some i) ''blockedBy''))) xs \<longleftrightarrow>
    list_all (\<lambda>i. list_all (\<lambda>d. intOf (Some d) \<noteq> intOf (get (Some i) ''id'') \<and> intOf (Some d) \<in> S)
      (arrOf (get (Some i) ''blockedBy''))) ?items" for S
    using rec by (auto simp: xs list_all_iff get_stripRun)
  have idset: "(\<lambda>i. intOf (get (Some i) ''id'')) ` set xs = (\<lambda>i. intOf (get (Some i) ''id'')) ` set ?items"
    using arg_cong [OF ids, of set] by simp
  have arr: "arrOf (Some (JArr xs)) = xs" by (simp add: arrOf_def)
  note v = assms(1) [unfolded validPlan_def Let_def]
  have p: "isRecord (Some plan) \<and> jIs (get (Some plan) ''version'') 1 \<and>
      int_at_least 1 (get (Some plan) ''nextId'') \<and> optional (int_at_least 1) (get (Some plan) ''activeId'') \<and>
      is_finite (get (Some plan) ''createdAt'') \<and> is_finite (get (Some plan) ''updatedAt'')"
    using v by (meson)
  show ?thesis
    unfolding validPlan_def Let_def plan_fields_spread [OF r]
    using v p valid
    by (cases "get (Some plan) ''activeId''") (simp_all add: arr ids idset act deps split: if_splits)
qed

lemma carried_plan:
  "tr_workPlan (collectTransferState es) = Some p \<Longrightarrow>
    \<exists>plan. latestWorkPlanState es = Some plan \<and> validPlan (Some plan) \<and>
      p = spread plan [(''items'', Some (JArr (map stripRun (arrOf (get (Some plan) ''items'')))))]"
  by (auto simp: collectTransferState_def Let_def latestWorkPlanState_def split: option.splits if_splits)

text \<open>C28. The work plan that a handoff carries over is accepted by the child session that records it; it
  has the same items in the same order, and no item still counts a run of the parent.\<close>

theorem carried_plan_is_accepted:
  assumes "tr_workPlan (collectTransferState es) = Some p"
  shows "latestWorkPlanState (child @ [customEntry WORK_PLAN_STATE_TYPE (Some p)]) = Some p \<and>
    map (\<lambda>i. (get (Some i) ''id'', get (Some i) ''title'', get (Some i) ''status'', get (Some i) ''runStartedAt''))
      (arrOf (get (Some p) ''items'')) =
    map (\<lambda>i. (get (Some i) ''id'', get (Some i) ''title'', get (Some i) ''status'', None))
      (arrOf (get (latestWorkPlanState es) ''items''))"
proof -
  obtain plan where plan: "latestWorkPlanState es = Some plan" "validPlan (Some plan)"
    "p = spread plan [(''items'', Some (JArr (map stripRun (arrOf (get (Some plan) ''items'')))))]"
    using carried_plan [OF assms] by blast
  have r: "isRecord (Some plan)" and items: "list_all (\<lambda>x. validPlanItem (Some x)) (arrOf (get (Some plan) ''items''))"
    using plan(2) every_arrOf by (auto simp: validPlan_def split: if_splits)
  have "validPlan (Some p)" unfolding plan(3) by (rule validPlan_stripped [OF plan(2) refl])
  moreover have "arrOf (get (Some p) ''items'') = map stripRun (arrOf (get (Some plan) ''items''))"
    by (simp add: plan(3) plan_fields_spread [OF r] arrOf_def)
  moreover have "isRecord (Some i)" if "i \<in> set (arrOf (get (Some plan) ''items''))" for i
    using items that by (auto simp: list_all_iff validPlanItem_def)
  ultimately show ?thesis
    using plan(1) by (simp add: latestWorkPlanState_def latest_append get_stripRun)
qed

section \<open>Examples\<close>

definition sampleGoal :: json where
  "sampleGoal = obj [(''id'', Some (JStr ''g1'')), (''objective'', Some (JStr ''ship'')),
     (''status'', Some (JStr ''active'')), (''createdAt'', Some (JNum (Fin 1))),
     (''updatedAt'', Some (JNum (Fin 2))), (''turnsCompleted'', Some (JNum (Fin 3))),
     (''maxTurns'', Some (JNum (Fin 10))), (''progressLog'', Some (JArr []))]"

lemma validGoal_sample: "validGoal (Some sampleGoal)"
  by (simp add: validGoal_def sampleGoal_def get_obj_Cons get_obj_Nil nonempty_str_def status_in_def
      goal_statuses_def is_finite_def int_at_least_def turns_within_def every_def optional_def is_str_def)

definition samplePlan :: json where
  "samplePlan = obj [(''version'', Some (JNum (Fin 1))),
     (''items'', Some (JArr [obj [(''id'', Some (JNum (Fin 1))), (''title'', Some (JStr ''a'')),
        (''status'', Some (JStr ''active'')), (''blockedBy'', Some (JArr [])), (''createdAt'', Some (JNum (Fin 1))),
        (''updatedAt'', Some (JNum (Fin 1))), (''runStartedAt'', Some (JNum (Fin 1)))]])),
     (''nextId'', Some (JNum (Fin 2))), (''activeId'', Some (JNum (Fin 1))),
     (''createdAt'', Some (JNum (Fin 1))), (''updatedAt'', Some (JNum (Fin 1)))]"

lemma validPlan_sample: "validPlan (Some samplePlan)"
  by (simp add: validPlan_def samplePlan_def get_obj_Cons get_obj_Nil every_def validPlanItem_def
      nonempty_str_def status_in_def plan_statuses_def is_finite_def int_at_least_def optional_def is_str_def
      Let_def arrOf_def intOf_def)

text \<open>A handoff is recorded, a message follows, and the user resumes the goal.\<close>

theorem handed_over_goal_needs_reactivation_witness:
  "let r = customEntry GOAL_STATE_TYPE (Some (transferringGoal 5 sampleGoal ''r''));
       m = customEntry WORK_PLAN_STATE_TYPE None; a = customEntry GOAL_STATE_TYPE (Some sampleGoal)
   in latestGoalState [r, m] = Some (transferringGoal 5 sampleGoal ''r'') \<and>
     tr_goal (collectTransferState [r, m]) = None \<and> tr_goal (collectTransferState [r, m, a]) = Some sampleGoal"
proof -
  let ?r = "customEntry GOAL_STATE_TYPE (Some (transferringGoal 5 sampleGoal ''r''))"
  let ?m = "customEntry WORK_PLAN_STATE_TYPE None" and ?a = "customEntry GOAL_STATE_TYPE (Some sampleGoal)"
  have "latestGoalState [?r, ?m] = Some (transferringGoal 5 sampleGoal ''r'') \<and>
      tr_goal (collectTransferState [?r, ?m]) = None"
    using handed_over_goal_needs_reactivation [OF validGoal_sample, of "''r''" "''f''" _ 5 "[?r, ?m]" "[]" "[?m]"]
    by (simp add: GOAL_STATE_TYPE_def WORK_PLAN_STATE_TYPE_def)
  moreover have "tr_goal (collectTransferState ([?r, ?m] @ [?a])) = Some sampleGoal"
    unfolding transfer_needs_active latestGoalState_append using validGoal_sample
    by (simp add: sampleGoal_def get_obj_Cons)
  ultimately show ?thesis by (simp add: Let_def)
qed

theorem carried_plan_is_accepted_witness:
  "\<exists>p. tr_workPlan (collectTransferState [customEntry WORK_PLAN_STATE_TYPE (Some samplePlan)]) = Some p \<and>
     latestWorkPlanState ([] @ [customEntry WORK_PLAN_STATE_TYPE (Some p)]) = Some p"
proof -
  let ?es = "[customEntry WORK_PLAN_STATE_TYPE (Some samplePlan)]"
  have "latestWorkPlanState ?es = Some samplePlan"
    using validPlan_sample latest_append [of "[]"] by (simp add: latestWorkPlanState_def)
  moreover have "arrOf (get (Some samplePlan) ''items'') \<noteq> []"
    by (simp add: samplePlan_def get_obj_Cons arrOf_def)
  ultimately obtain p where "tr_workPlan (collectTransferState ?es) = Some p"
    by (simp add: collectTransferState_def Let_def)
  from carried_plan_is_accepted [OF this, of "[]"] this show ?thesis by blast
qed

end
