(* ===== verification/TextBounds.thy ===== *)
theory TextBounds
  imports JsPrelude
begin

text \<open>
  Bounded texts: the decimal text of a number, \<open>truncateUtf8Head\<close> of \<open>_shared/text-bounds.ts\<close> and \<open>limitText\<close>.
  Cutting UTF-8 inside a character leaves a replacement character of three bytes, which the code then
  drops; for the code units of the model this is the longest prefix of whole characters that fits.
\<close>

section \<open>Numbers\<close>

fun natText :: "nat \<Rightarrow> string" where
  "natText n = (if n < 10 then [char_of (48 + n)] else natText (n div 10) @ [char_of (48 + n mod 10)])"

definition intText :: "int \<Rightarrow> string" where
  "intText i = (if i < 0 then ''-'' @ natText (nat (- i)) else natText (nat i))"

declare natText.simps [simp del]

lemma is_digit_char: "(d::nat) < 10 \<Longrightarrow> is_digit (char_of (48 + d))"
  by (simp add: is_digit_def Let_def)

lemma natText_digits: "natText n \<noteq> [] \<and> list_all is_digit (natText n)"
proof (induction n rule: natText.induct)
  case (1 n)
  then show ?case by (subst (1 2) natText.simps) (simp add: is_digit_char)
qed

text \<open>\<open>parts.join(sep)\<close>.\<close>

fun joinWith :: "string \<Rightarrow> string list \<Rightarrow> string" where
  "joinWith sep [] = []"
| "joinWith sep [x] = x"
| "joinWith sep (x # y # xs) = x @ sep @ joinWith sep (y # xs)"

section \<open>Bytes\<close>

definition char_bytes :: "char \<Rightarrow> nat" where
  "char_bytes c = (if (of_char c :: nat) < 128 then 1 else 2)"

fun utf8_take :: "nat \<Rightarrow> string \<Rightarrow> string" where
  "utf8_take n [] = []"
| "utf8_take n (c # cs) = (if char_bytes c \<le> n then c # utf8_take (n - char_bytes c) cs else [])"

lemma utf8_length_simps [simp]:
  "utf8_length [] = 0" "utf8_length (c # cs) = char_bytes c + utf8_length cs"
  "utf8_length (s @ t) = utf8_length s + utf8_length t"
  by (simp_all add: utf8_length_def char_bytes_def)

lemma utf8_take_fits: "utf8_length (utf8_take n s) \<le> n"
  by (induction n s rule: utf8_take.induct) auto

lemma utf8_take_prefix: "\<exists>rest. s = utf8_take n s @ rest"
  by (induction n s rule: utf8_take.induct) auto

lemma utf8_take_all: "utf8_length s \<le> n \<Longrightarrow> utf8_take n s = s"
  by (induction n s rule: utf8_take.induct) auto

text \<open>The prefix is the longest one that fits.\<close>

lemma utf8_take_longest: "s = p @ r \<Longrightarrow> utf8_length p \<le> n \<Longrightarrow> length p \<le> length (utf8_take n s)"
  by (induction n s arbitrary: p rule: utf8_take.induct) (auto simp: Cons_eq_append_conv)

text \<open>\<open>JSON.stringify\<close> of a string.\<close>

definition hexDigit :: "nat \<Rightarrow> char" where
  "hexDigit n = (if n < 10 then char_of (48 + n) else char_of (87 + n))"

text \<open>\<open>JSON.stringify\<close> of one code unit inside a string.\<close>

definition jsonChar :: "char \<Rightarrow> string" where
  "jsonChar c = (let n = (of_char c :: nat) in
     if n = 34 then [CHR 92, CHR 34] else if n = 92 then [CHR 92, CHR 92]
     else if n = 8 then [CHR 92, CHR ''b''] else if n = 9 then [CHR 92, CHR ''t'']
     else if n = 10 then [CHR 92, CHR ''n''] else if n = 12 then [CHR 92, CHR ''f'']
     else if n = 13 then [CHR 92, CHR ''r'']
     else if n < 32 then [CHR 92, CHR ''u'', CHR ''0'', CHR ''0'', hexDigit (n div 16), hexDigit (n mod 16)]
     else [c])"

definition jsonString :: "string \<Rightarrow> string" where
  "jsonString s = [CHR 34] @ concat (map jsonChar s) @ [CHR 34]"

definition truncationMarker :: "string \<Rightarrow> nat \<Rightarrow> string" where
  "truncationMarker label omitted =
     [CHR 10] @ ''['' @ label @ '' truncated: '' @ natText omitted @ '' bytes omitted]''"

lemma headLoop_shrinks:
  assumes "\<not> utf8_length (utf8_take keepBytes src) + k \<le> maxBytes" "maxBytes - k \<noteq> keepBytes"
  shows "maxBytes - k < keepBytes"
  using assms utf8_take_fits [of keepBytes src] by linarith

text \<open>The \<open>while (true)\<close> of \<open>truncateUtf8Head\<close>; the marker grows with the bytes it reports, so the head is cut again.\<close>

function headLoop :: "string \<Rightarrow> nat \<Rightarrow> string \<Rightarrow> nat \<Rightarrow> string" where
  "headLoop src maxBytes label keepBytes =
     (let head = utf8_take keepBytes src;
          marker = truncationMarker label (utf8_length src - utf8_length head);
          next = maxBytes - utf8_length marker
      in if utf8_length head + utf8_length marker \<le> maxBytes then head @ marker
         else if next = keepBytes then utf8_take maxBytes marker
         else headLoop src maxBytes label next)"
  by pat_completeness auto

termination
  by (relation "measure (\<lambda>(src, maxBytes, label, keepBytes). keepBytes)") (auto simp: headLoop_shrinks)

declare headLoop.simps [simp del]

definition truncateUtf8Head :: "string \<Rightarrow> nat \<Rightarrow> string \<Rightarrow> string" where
  "truncateUtf8Head src maxBytes label =
     (if utf8_length src \<le> maxBytes then src else headLoop src maxBytes label maxBytes)"

lemma headLoop_result:
  "utf8_length (headLoop src maxBytes label keepBytes) \<le> maxBytes \<and>
   ((\<exists>head rest. src = head @ rest \<and>
       headLoop src maxBytes label keepBytes = head @ truncationMarker label (utf8_length rest)) \<or>
    (\<exists>n. headLoop src maxBytes label keepBytes = utf8_take maxBytes (truncationMarker label n)))"
proof (induction src maxBytes label keepBytes rule: headLoop.induct)
  case (1 src maxBytes label keepBytes)
  define head where "head = utf8_take keepBytes src"
  define marker where "marker = truncationMarker label (utf8_length src - utf8_length head)"
  have step: "headLoop src maxBytes label keepBytes =
      (if utf8_length head + utf8_length marker \<le> maxBytes then head @ marker
       else if maxBytes - utf8_length marker = keepBytes then utf8_take maxBytes marker
       else headLoop src maxBytes label (maxBytes - utf8_length marker))"
    by (subst headLoop.simps) (simp add: head_def marker_def Let_def)
  obtain rest where rest: "src = head @ rest" using utf8_take_prefix unfolding head_def by blast
  then have m: "marker = truncationMarker label (utf8_length rest)"
    by (simp add: marker_def)
  consider (fits) "utf8_length head + utf8_length marker \<le> maxBytes"
    | (stuck) "\<not> utf8_length head + utf8_length marker \<le> maxBytes" "maxBytes - utf8_length marker = keepBytes"
    | (again) "\<not> utf8_length head + utf8_length marker \<le> maxBytes" "maxBytes - utf8_length marker \<noteq> keepBytes"
    by blast
  then show ?case
  proof cases
    case fits
    then show ?thesis using rest m step by auto
  next
    case stuck
    then show ?thesis using step utf8_take_fits [of maxBytes marker] by (auto simp: marker_def)
  next
    case again
    then show ?thesis using 1 [OF refl refl refl] step by (simp add: head_def marker_def)
  qed
qed

text \<open>A truncated text fits its byte limit whatever the label, a text that fits is not changed, and what is
  shown is either a prefix of the text with the exact number of omitted bytes or a part of the marker
  alone.\<close>

theorem truncated_text_fits:
  "utf8_length (truncateUtf8Head src maxBytes label) \<le> maxBytes \<and>
   (utf8_length src \<le> maxBytes \<longrightarrow> truncateUtf8Head src maxBytes label = src) \<and>
   (maxBytes < utf8_length src \<longrightarrow>
     (\<exists>head rest. src = head @ rest \<and> truncateUtf8Head src maxBytes label = head @ truncationMarker label (utf8_length rest)) \<or>
     (\<exists>n. truncateUtf8Head src maxBytes label = utf8_take maxBytes (truncationMarker label n)))"
  using headLoop_result [of src maxBytes label maxBytes] by (simp add: truncateUtf8Head_def)

theorem truncated_text_fits_witness:
  "utf8_length (truncateUtf8Head (replicate 60 CHR ''a'') 40 ''text'') \<le> 40"
  using truncated_text_fits [of "replicate 60 CHR ''a''" 40 "''text''"] by simp

section \<open>Characters\<close>

text \<open>\<open>limitText\<close>; the note that follows a cut text is an argument.\<close>

definition limitText :: "string \<Rightarrow> string \<Rightarrow> nat \<Rightarrow> string" where
  "limitText note text maxChars =
     (if length text \<le> maxChars then text
      else take maxChars text @ [CHR 10, CHR 10] @ ''['' @ note @ '' truncated at '' @ natText maxChars @ '' chars]'')"

text \<open>\<open>compactLine\<close>; the ellipsis is outside the code units of the model and an argument.\<close>

definition compactLine :: "char \<Rightarrow> string \<Rightarrow> nat \<Rightarrow> string" where
  "compactLine ellipsis text maxChars =
     (let compact = js_trim (collapse_ws text) in
      if length compact \<le> maxChars then compact else take (maxChars - 1) compact @ [ellipsis])"

lemma length_limitText: "length (limitText nt text n) \<le> n + length nt + length (natText n) + 24"
  by (simp add: limitText_def)

lemma length_compactLine: "0 < n \<Longrightarrow> length (compactLine e text n) \<le> n"
  by (simp add: compactLine_def Let_def)

end
