(* ===== verification/Handoff.thy ===== *)
theory Handoff
  imports SessionEntries TextBounds
begin

text \<open>
  \<open>extensions/_shared/handoff-state.ts\<close>, the audit trail of self-handoffs: the records that parent
  and child sessions append, the reduction of a trail to its current record or to a conflict, the
  orientation state of a child and the outcome of its orientation turn. SHA-256 is the parameter
  \<open>sha\<close>.
\<close>

section \<open>Records\<close>

record request =
  q_id :: string
  q_createdAt :: rat
  q_originSessionId :: string
  q_originSessionFile :: string
  q_contextNonce :: string
  q_kickoffHash :: "string option"
  q_goalTransferred :: bool
  q_goalId :: "string option"
  q_workPlanTransferred :: bool

datatype handoff_status =
  Prepared | ChildCreated | Received | AwaitingUser | Transferred | Cancelled | Failed

record handoff =
  h_request :: request
  h_status :: handoff_status
  h_updatedAt :: rat
  h_targetSessionFile :: "string option"
  h_targetSessionId :: "string option"
  h_kickoff :: "string option"
  h_retryAllowed :: "bool option"
  h_note :: "string option"

fun statusText :: "handoff_status \<Rightarrow> string" where
  "statusText Prepared = ''prepared''"
| "statusText ChildCreated = ''child_created''"
| "statusText Received = ''received''"
| "statusText AwaitingUser = ''awaiting_user''"
| "statusText Transferred = ''transferred''"
| "statusText Cancelled = ''cancelled''"
| "statusText Failed = ''failed''"

definition parseHandoffStatus :: "jsval \<Rightarrow> handoff_status option" where
  "parseHandoffStatus v = (case asStr v of
       None \<Rightarrow> None
     | Some s \<Rightarrow> List.find (\<lambda>st. statusText st = s)
         [Prepared, ChildCreated, Received, AwaitingUser, Transferred, Cancelled, Failed])"

text \<open>\<open>text.replace(/\r\n/g, "\n")\<close>.\<close>

fun crlf_to_lf :: "string \<Rightarrow> string" where
  "crlf_to_lf (c # d # cs) =
     (if c = CHR 13 \<and> d = CHR 10 then CHR 10 # crlf_to_lf cs else c # crlf_to_lf (d # cs))"
| "crlf_to_lf s = s"

definition orientationKickoffHash :: "(string \<Rightarrow> string) \<Rightarrow> string \<Rightarrow> string" where
  "orientationKickoffHash sha s = sha (js_trim (crlf_to_lf s))"

definition is_sha_hex :: "string \<Rightarrow> bool" where
  "is_sha_hex s \<longleftrightarrow> length s = 64 \<and> list_all is_lower_hex s"

fun asBoolOpt :: "jsval \<Rightarrow> bool option" where
  "asBoolOpt (Some (JBool b)) = Some b"
| "asBoolOpt _ = None"

lemma asBoolOpt_Some [simp]: "asBoolOpt v = Some b \<longleftrightarrow> v = Some (JBool b)"
  by (cases v rule: asBoolOpt.cases) auto

definition nonemptyStr :: "jsval \<Rightarrow> string option" where
  "nonemptyStr v = (case asStr v of None \<Rightarrow> None | Some s \<Rightarrow> if s = [] then None else Some s)"

lemma nonemptyStr_Some [simp]: "nonemptyStr v = Some s \<longleftrightarrow> v = Some (JStr s) \<and> s \<noteq> []"
  by (auto simp: nonemptyStr_def split: option.splits)

definition parseRequest :: "jsval \<Rightarrow> request option" where
  "parseRequest v = do {
     require (jIs (get v ''version'') 1);
     i \<leftarrow> nonemptyStr (get v ''id'');
     createdAt \<leftarrow> finiteNum (get v ''createdAt'');
     originId \<leftarrow> nonemptyStr (get v ''originSessionId'');
     originFile \<leftarrow> nonemptyStr (get v ''originSessionFile'');
     nonce \<leftarrow> asStr (get v ''contextNonce'');
     require (16 \<le> length nonce);
     let hash = get v ''kickoffHash'';
     require (optional (\<lambda>h. case asStr h of None \<Rightarrow> False | Some s \<Rightarrow> is_sha_hex s) hash);
     goal \<leftarrow> asBoolOpt (get v ''goalTransferred'');
     require (if goal then nonempty_str (get v ''goalId'') else get v ''goalId'' = None);
     plan \<leftarrow> asBoolOpt (get v ''workPlanTransferred'');
     Some \<lparr>q_id = i, q_createdAt = createdAt, q_originSessionId = originId,
       q_originSessionFile = originFile, q_contextNonce = nonce, q_kickoffHash = asStr hash,
       q_goalTransferred = goal, q_goalId = asStr (get v ''goalId''), q_workPlanTransferred = plan\<rparr>
   }"

definition parseSelfHandoffRecord :: "(string \<Rightarrow> string) \<Rightarrow> jsval \<Rightarrow> handoff option" where
  "parseSelfHandoffRecord sha v = do {
     require (isRecord v \<and> jIs (get v ''version'') 1 \<and> isRecord (get v ''request''));
     req \<leftarrow> parseRequest (get v ''request'');
     status \<leftarrow> parseHandoffStatus (get v ''status'');
     updatedAt \<leftarrow> finiteNum (get v ''updatedAt'');
     let targetFile = get v ''targetSessionFile'';
     let targetId = get v ''targetSessionId'';
     let kickoff = get v ''kickoff'';
     let retry = get v ''retryAllowed'';
     let note = get v ''note'';
     require (optional nonempty_str targetFile);
     require (optional nonempty_str targetId);
     require ((targetFile = None) = (targetId = None));
     require (optional (\<lambda>k. case asStr k of None \<Rightarrow> False | Some s \<Rightarrow> length s \<le> 100000) kickoff);
     require (\<not> (status = Received \<and> q_kickoffHash req \<noteq> None \<and>
       (case asStr kickoff of None \<Rightarrow> True | Some s \<Rightarrow> Some (orientationKickoffHash sha s) \<noteq> q_kickoffHash req)));
     require (optional isBool retry);
     require (optional is_str note);
     require (\<not> (status \<in> {ChildCreated, Received, AwaitingUser, Transferred} \<and>
       (\<not> is_str targetFile \<or> \<not> is_str targetId)));
     Some \<lparr>h_request = req, h_status = status, h_updatedAt = updatedAt,
       h_targetSessionFile = asStr targetFile, h_targetSessionId = asStr targetId,
       h_kickoff = asStr kickoff, h_retryAllowed = asBoolOpt retry, h_note = asStr note\<rparr>
   }"

section \<open>Audit\<close>

fun handoffEntries :: "entry list \<Rightarrow> entry list" where
  "handoffEntries es = filter (is_custom SELF_HANDOFF_STATE_TYPE) es"

definition inspectSelfHandoffRecords ::
  "(string \<Rightarrow> string) \<Rightarrow> entry list \<Rightarrow> (handoff \<times> string option) list \<times> bool" where
  "inspectSelfHandoffRecords sha entries =
     (let own = handoffEntries entries in
      (List.map_filter (\<lambda>e. map_option (\<lambda>r. (r, en_id e)) (parseSelfHandoffRecord sha (en_data e))) own,
       list_ex (\<lambda>e. parseSelfHandoffRecord sha (en_data e) = None) own))"

definition latestSelfHandoffRecord :: "(string \<Rightarrow> string) \<Rightarrow> entry list \<Rightarrow> handoff option" where
  "latestSelfHandoffRecord sha entries =
     parseSelfHandoffRecord sha (latestCustomEntryData entries SELF_HANDOFF_STATE_TYPE)"

definition sameSelfHandoffRequest :: "request \<Rightarrow> request \<Rightarrow> bool" where
  "sameSelfHandoffRequest l r \<longleftrightarrow>
     q_id l = q_id r \<and> q_createdAt l = q_createdAt r \<and> q_originSessionId l = q_originSessionId r \<and>
     q_originSessionFile l = q_originSessionFile r \<and> q_contextNonce l = q_contextNonce r \<and>
     q_kickoffHash l = q_kickoffHash r \<and> q_goalTransferred l = q_goalTransferred r \<and>
     q_goalId l = q_goalId r \<and> q_workPlanTransferred l = q_workPlanTransferred r"

fun allowedNext :: "handoff_status \<Rightarrow> handoff_status list" where
  "allowedNext Prepared = [Prepared, ChildCreated, Cancelled, Failed]"
| "allowedNext ChildCreated = [ChildCreated, Transferred, Failed]"
| "allowedNext Received = [Received, AwaitingUser, Failed]"
| "allowedNext AwaitingUser = [AwaitingUser, Transferred, Failed]"
| "allowedNext Transferred = [Transferred]"
| "allowedNext Cancelled = [Cancelled]"
| "allowedNext Failed = [Failed]"

datatype conflict =
    Malformed | IdentityChanged | ChildDisappeared | ChildChanged
  | InvalidTransition handoff_status handoff_status

text \<open>The loop of \<open>reduceSelfHandoffRequest\<close>: the current record with its entry, and the child seen.\<close>

fun reduceLoop ::
  "request \<Rightarrow> (handoff \<times> string option) list \<Rightarrow> (handoff \<times> string option) option \<Rightarrow>
   string option \<Rightarrow> string option \<Rightarrow> conflict + (handoff \<times> string option) option" where
  "reduceLoop expected [] current targetFile targetId = Inr current"
| "reduceLoop expected ((rcd, entryId) # sources) current targetFile targetId =
     (if q_id (h_request rcd) \<noteq> q_id expected
      then reduceLoop expected sources current targetFile targetId
      else if \<not> sameSelfHandoffRequest (h_request rcd) expected then Inl IdentityChanged
      else if targetFile \<noteq> None \<and> h_targetSessionFile rcd = None then Inl ChildDisappeared
      else if h_targetSessionFile rcd \<noteq> None \<and>
          ((targetFile \<noteq> None \<and> targetFile \<noteq> h_targetSessionFile rcd) \<or>
           (targetId \<noteq> None \<and> targetId \<noteq> h_targetSessionId rcd))
      then Inl ChildChanged
      else
        let (targetFile', targetId') =
              (if h_targetSessionFile rcd \<noteq> None
               then (h_targetSessionFile rcd, h_targetSessionId rcd) else (targetFile, targetId))
        in case current of
             Some (c, cid) \<Rightarrow>
               if h_status rcd \<notin> set (allowedNext (h_status c))
               then Inl (InvalidTransition (h_status c) (h_status rcd))
               else reduceLoop expected sources (Some (rcd, entryId)) targetFile' targetId'
           | None \<Rightarrow> reduceLoop expected sources (Some (rcd, entryId)) targetFile' targetId')"

definition reduceSelfHandoffRequest ::
  "(string \<Rightarrow> string) \<Rightarrow> entry list \<Rightarrow> request \<Rightarrow> conflict + (handoff \<times> string option) option" where
  "reduceSelfHandoffRequest sha entries expected =
     (let (sources, malformed) = inspectSelfHandoffRecords sha entries in
      if malformed then Inl Malformed else reduceLoop expected sources None None None)"

section \<open>Orientation of a child\<close>

datatype phase = Orienting | AwaitingReply

datatype invalid_reason =
  Conflict conflict | BranchPredates | BranchNotPending | BranchChildChanged

datatype orientation = NoOrientation | Pending phase handoff | Invalid invalid_reason

definition orientationCandidate :: "string \<Rightarrow> string option \<Rightarrow> string option \<Rightarrow> handoff \<Rightarrow> bool" where
  "orientationCandidate sessionId sessionFile goalId r \<longleftrightarrow>
     h_targetSessionId r = Some sessionId \<and> h_targetSessionFile r = sessionFile \<and>
     Some (q_originSessionFile (h_request r)) \<noteq> sessionFile \<and>
     (goalId = None \<or> (q_goalTransferred (h_request r) \<and> q_goalId (h_request r) = goalId))"

text \<open>The loop over the candidates, newest first.\<close>

fun orientationLoop ::
  "(string \<Rightarrow> string) \<Rightarrow> entry list \<Rightarrow> entry list \<Rightarrow> string \<Rightarrow> string option \<Rightarrow> handoff list \<Rightarrow> orientation" where
  "orientationLoop sha entries branch sessionId sessionFile [] = NoOrientation"
| "orientationLoop sha entries branch sessionId sessionFile (candidate # older) =
     (case reduceSelfHandoffRequest sha entries (h_request candidate) of
        Inl c \<Rightarrow> Invalid (Conflict c)
      | Inr None \<Rightarrow> orientationLoop sha entries branch sessionId sessionFile older
      | Inr (Some (sessionRecord, _)) \<Rightarrow>
          if h_status sessionRecord \<notin> {Received, AwaitingUser}
          then orientationLoop sha entries branch sessionId sessionFile older
          else
            case reduceSelfHandoffRequest sha branch (h_request candidate) of
              Inl c \<Rightarrow> Invalid (Conflict c)
            | Inr None \<Rightarrow> Invalid BranchPredates
            | Inr (Some (pending, _)) \<Rightarrow>
                if h_status pending \<notin> {Received, AwaitingUser} then Invalid BranchNotPending
                else if h_targetSessionId pending \<noteq> Some sessionId \<or> h_targetSessionFile pending \<noteq> sessionFile
                then Invalid BranchChildChanged
                else Pending (if h_status sessionRecord = Received then Orienting else AwaitingReply)
                  sessionRecord)"

definition inspectChildHandoffOrientation ::
  "(string \<Rightarrow> string) \<Rightarrow> entry list \<Rightarrow> entry list \<Rightarrow> string \<Rightarrow> string option \<Rightarrow> string option \<Rightarrow> orientation" where
  "inspectChildHandoffOrientation sha entries branch sessionId sessionFile goalId =
     (let (sources, malformed) = inspectSelfHandoffRecords sha entries in
      if malformed then Invalid (Conflict Malformed)
      else orientationLoop sha entries branch sessionId sessionFile
        (rev (filter (orientationCandidate sessionId sessionFile goalId) (map fst sources))))"

section \<open>The reduction against its specification\<close>

text \<open>
  A trail is the sequence of records of one request. It is consistent when every record repeats the
  request and every record may follow the one before it: the status by the transition table, the
  child session once known unchanged.
\<close>

definition follows :: "handoff \<Rightarrow> handoff \<Rightarrow> bool" where
  "follows a b \<longleftrightarrow> h_status b \<in> set (allowedNext (h_status a)) \<and>
     (h_targetSessionFile a \<noteq> None \<longrightarrow>
        h_targetSessionFile b = h_targetSessionFile a \<and> h_targetSessionId b = h_targetSessionId a)"

definition consistent :: "request \<Rightarrow> handoff list \<Rightarrow> bool" where
  "consistent expected rs \<longleftrightarrow> list_all (\<lambda>r. h_request r = expected) rs \<and> successively follows rs"

definition trail :: "request \<Rightarrow> (handoff \<times> string option) list \<Rightarrow> (handoff \<times> string option) list" where
  "trail expected sources = filter (\<lambda>s. q_id (h_request (fst s)) = q_id expected) sources"

definition paired :: "handoff \<Rightarrow> bool" where
  "paired r \<longleftrightarrow> (h_targetSessionFile r = None \<longleftrightarrow> h_targetSessionId r = None)"

lemma sameSelfHandoffRequest_eq: "sameSelfHandoffRequest l r \<longleftrightarrow> l = r"
  by (auto simp: sameSelfHandoffRequest_def)

lemma optional_str: "optional nonempty_str v \<Longrightarrow> (asStr v = None \<longleftrightarrow> v = None)"
  by (cases v) (auto simp: optional_def nonempty_str_def split: option.splits)

lemma parse_paired: "parseSelfHandoffRecord sha v = Some r \<Longrightarrow> paired r"
  unfolding parseSelfHandoffRecord_def Let_def bind_eq_Some_conv
  by (elim exE conjE, simp only: require_Some option.inject, (drule optional_str)+, hypsubst)
    (simp only: paired_def handoff.simps)

lemma sources_paired: "list_all paired (map fst (fst (inspectSelfHandoffRecords sha es)))"
  by (auto simp: inspectSelfHandoffRecords_def Let_def list_all_iff List.map_filter_def
      split: option.splits intro: parse_paired)

lemma reduceLoop_current:
  assumes "list_all paired (map fst sources)" "paired c"
  shows "reduceLoop expected sources (Some (c, cid)) (h_targetSessionFile c) (h_targetSessionId c) = Inr x \<longleftrightarrow>
    list_all (\<lambda>r. h_request r = expected) (map fst (trail expected sources)) \<and>
    successively follows (c # map fst (trail expected sources)) \<and>
    x = Some (last ((c, cid) # trail expected sources))"
  using assms
proof (induction sources arbitrary: c cid)
  case (Cons src sources)
  obtain r i where src: "src = (r, i)" by force
  have pr: "paired r" "list_all paired (map fst sources)" using Cons.prems(1) src by auto
  show ?case
  proof (cases "q_id (h_request r) = q_id expected")
    case False
    then show ?thesis using Cons.IH [OF pr(2) Cons.prems(2)] by (simp add: src trail_def)
  next
    case id: True
    show ?thesis
    proof (cases "h_request r = expected \<and> follows c r")
      case True
      have "reduceLoop expected ((r, i) # sources) (Some (c, cid)) (h_targetSessionFile c) (h_targetSessionId c) =
          reduceLoop expected sources (Some (r, i)) (h_targetSessionFile r) (h_targetSessionId r)"
        using True id pr(1) Cons.prems(2)
        by (cases "h_targetSessionFile c"; cases "h_targetSessionFile r")
          (simp_all add: follows_def paired_def sameSelfHandoffRequest_eq)
      then show ?thesis
        using True id Cons.IH [OF pr(2,1)] by (simp add: src trail_def)
    next
      case False
      have "reduceLoop expected ((r, i) # sources) (Some (c, cid)) (h_targetSessionFile c) (h_targetSessionId c)
          \<noteq> Inr x"
      proof (cases "h_request r = expected")
        case True
        with False id pr(1) Cons.prems(2) show ?thesis
          by (cases "h_targetSessionFile c"; cases "h_targetSessionFile r")
            (auto simp add: follows_def paired_def sameSelfHandoffRequest_eq)
      qed (use id in \<open>simp add: sameSelfHandoffRequest_eq\<close>)
      then show ?thesis using False id by (auto simp: src trail_def)
    qed
  qed
qed (simp add: trail_def eq_commute)

lemma reduceLoop_start:
  assumes "list_all paired (map fst sources)"
  shows "reduceLoop expected sources None None None = Inr x \<longleftrightarrow>
    consistent expected (map fst (trail expected sources)) \<and>
    x = (if trail expected sources = [] then None else Some (last (trail expected sources)))"
  using assms
proof (induction sources)
  case (Cons src sources)
  obtain r i where src: "src = (r, i)" by force
  have pr: "paired r" "list_all paired (map fst sources)" using Cons.prems src by auto
  show ?case
  proof (cases "q_id (h_request r) = q_id expected")
    case False
    then show ?thesis using Cons.IH [OF pr(2)] by (simp add: src trail_def)
  next
    case True
    have t: "(if h_targetSessionFile r \<noteq> None then (h_targetSessionFile r, h_targetSessionId r)
        else (None, None)) = (h_targetSessionFile r, h_targetSessionId r)"
      using pr(1) by (auto simp: paired_def)
    show ?thesis
      using True t reduceLoop_current [OF pr(2,1), of expected i x]
      by (auto simp: src trail_def sameSelfHandoffRequest_eq consistent_def)
  qed
qed (auto simp: trail_def consistent_def)

text \<open>The records of a request in a session log, in order.\<close>

definition requestTrail :: "(string \<Rightarrow> string) \<Rightarrow> entry list \<Rightarrow> request \<Rightarrow> (handoff \<times> string option) list" where
  "requestTrail sha entries expected = trail expected (fst (inspectSelfHandoffRecords sha entries))"

definition wellFormedLog :: "(string \<Rightarrow> string) \<Rightarrow> entry list \<Rightarrow> bool" where
  "wellFormedLog sha entries \<longleftrightarrow> \<not> snd (inspectSelfHandoffRecords sha entries)"

lemma reduce_iff:
  "reduceSelfHandoffRequest sha entries expected = Inr x \<longleftrightarrow>
     wellFormedLog sha entries \<and> consistent expected (map fst (requestTrail sha entries expected)) \<and>
     x = (if requestTrail sha entries expected = [] then None else Some (last (requestTrail sha entries expected)))"
  using reduceLoop_start [OF sources_paired, of expected sha entries x]
  by (auto simp: reduceSelfHandoffRequest_def wellFormedLog_def requestTrail_def case_prod_unfold Let_def)

text \<open>C5. \<open>reduceSelfHandoffRequest\<close> computes its specification: it returns without a conflict exactly
  when no audit record is malformed and the records of the request form a consistent trail, and then
  it returns the last of them.\<close>

theorem reduce_is_trail_consistency:
  "(reduceSelfHandoffRequest sha entries expected = Inr x) =
     (wellFormedLog sha entries \<and> consistent expected (map fst (requestTrail sha entries expected)) \<and>
      x = (if requestTrail sha entries expected = [] then None
           else Some (last (requestTrail sha entries expected))))"
  by (rule reduce_iff)

lemma inspect_append:
  "inspectSelfHandoffRecords sha (es @ fs) =
     (fst (inspectSelfHandoffRecords sha es) @ fst (inspectSelfHandoffRecords sha fs),
      snd (inspectSelfHandoffRecords sha es) \<or> snd (inspectSelfHandoffRecords sha fs))"
  by (simp add: inspectSelfHandoffRecords_def Let_def List.map_filter_def)

lemma requestTrail_append:
  "requestTrail sha (es @ fs) expected = requestTrail sha es expected @ requestTrail sha fs expected"
  by (simp add: requestTrail_def inspect_append trail_def)

lemma successively_follows_status:
  "successively follows rs \<Longrightarrow> h_status (hd rs) = st \<Longrightarrow> allowedNext st = [st] \<Longrightarrow>
     list_all (\<lambda>r. h_status r = st) rs"
  by (induction rs rule: induct_list012) (auto simp: follows_def)

lemma successively_follows_target:
  "successively follows rs \<Longrightarrow> h_targetSessionFile (hd rs) = Some f \<Longrightarrow> h_targetSessionId (hd rs) = i \<Longrightarrow>
     list_all (\<lambda>r. h_targetSessionFile r = Some f \<and> h_targetSessionId r = i) rs"
  by (induction rs rule: induct_list012) (auto simp: follows_def)

lemma successively_append_tail:
  "successively P (xs @ ys) \<Longrightarrow> xs \<noteq> [] \<Longrightarrow> successively P (last xs # ys)"
  by (cases ys) (auto simp: successively_append_iff)

lemma ended_stays_ended:
  assumes "reduceSelfHandoffRequest sha es expected = Inr (Some (r, i))"
    and "h_status r \<in> {Transferred, Cancelled, Failed}"
    and "reduceSelfHandoffRequest sha (es @ later) expected = Inr x"
  shows "\<exists>r' i'. x = Some (r', i') \<and> h_status r' = h_status r \<and> h_request r' = expected \<and>
    (h_targetSessionFile r \<noteq> None \<longrightarrow>
      h_targetSessionFile r' = h_targetSessionFile r \<and> h_targetSessionId r' = h_targetSessionId r)"
proof -
  let ?t = "requestTrail sha es expected" and ?m = "requestTrail sha later expected"
  have t: "?t \<noteq> []" "last ?t = (r, i)" using assms(1) by (auto simp: reduce_iff split: if_splits)
  have c: "consistent expected (map fst (?t @ ?m))" and x: "x = Some (last (?t @ ?m))"
    using assms(3) t(1) by (auto simp: reduce_iff requestTrail_append split: if_splits)
  have succ: "successively follows (r # map fst ?m)"
    using c t successively_append_tail [of follows "map fst ?t" "map fst ?m"]
    by (simp add: consistent_def last_map)
  have st: "allowedNext (h_status r) = [h_status r]" using assms(2) by auto
  have all: "list_all (\<lambda>q. h_status q = h_status r) (r # map fst ?m)"
    by (rule successively_follows_status [OF succ _ st]) simp
  have last: "fst (last (?t @ ?m)) \<in> set (r # map fst ?m)"
    using t by (cases ?m rule: rev_cases) auto
  obtain r' i' where l: "last (?t @ ?m) = (r', i')" by force
  have status: "h_status r' = h_status r"
    using all last unfolding l list_all_iff fst_conv by blast
  have "r' \<in> set (map fst (?t @ ?m))"
    using t(1) l by (metis append_is_Nil_conv fst_conv in_set_conv_decomp last_in_set list.set_map image_eqI)
  then have req: "h_request r' = expected"
    using c unfolding consistent_def list_all_iff by blast
  have target: "h_targetSessionFile r' = h_targetSessionFile r \<and> h_targetSessionId r' = h_targetSessionId r"
    if some: "h_targetSessionFile r \<noteq> None"
  proof -
    obtain f where f: "h_targetSessionFile r = Some f" using some by auto
    then have "list_all (\<lambda>q. h_targetSessionFile q = Some f \<and> h_targetSessionId q = h_targetSessionId r)
        (r # map fst ?m)"
      by (intro successively_follows_target [OF succ]) simp_all
    then show ?thesis using last unfolding l list_all_iff fst_conv f by blast
  qed
  show ?thesis using x l status req target by simp
qed

text \<open>C22. The end of a handoff is final: once a log reduces to a transferred, cancelled or failed
  record, every extension of the log reduces to the same status, request and child session, or to a
  conflict.\<close>

theorem handoff_end_is_final:
  assumes "reduceSelfHandoffRequest sha es expected = Inr (Some (r, i))"
    and "h_status r \<in> {Transferred, Cancelled, Failed}"
    and "reduceSelfHandoffRequest sha (es @ later) expected = Inr x"
  shows "\<exists>r' i'. x = Some (r', i') \<and> h_status r' = h_status r \<and> h_request r' = expected \<and>
    (h_targetSessionFile r \<noteq> None \<longrightarrow>
      h_targetSessionFile r' = h_targetSessionFile r \<and> h_targetSessionId r' = h_targetSessionId r)"
  by (rule ended_stays_ended [OF assms])

lemma orientationLoop_pending:
  "orientationLoop sha es branch sid sfile rs = Pending ph r \<Longrightarrow>
    \<exists>c i p j. c \<in> set rs \<and> reduceSelfHandoffRequest sha es (h_request c) = Inr (Some (r, i)) \<and>
      h_status r = (case ph of Orienting \<Rightarrow> Received | AwaitingReply \<Rightarrow> AwaitingUser) \<and>
      reduceSelfHandoffRequest sha branch (h_request c) = Inr (Some (p, j)) \<and>
      h_targetSessionId p = Some sid \<and> h_targetSessionFile p = sfile"
  by (induction rs) (fastforce split: sum.splits option.splits if_splits prod.splits)+

lemma consistent_target_kept:
  assumes "consistent expected rs" "c \<in> set rs" "h_targetSessionFile c = Some f" "h_targetSessionId c = i"
  shows "h_targetSessionFile (last rs) = Some f \<and> h_targetSessionId (last rs) = i"
proof -
  obtain xs ys where rs: "rs = xs @ c # ys" using assms(2) by (meson split_list)
  have "successively follows (c # ys)"
    using assms(1) by (auto simp: consistent_def rs successively_append_iff)
  from successively_follows_target [OF this] assms(3,4)
  have "list_all (\<lambda>r. h_targetSessionFile r = Some f \<and> h_targetSessionId r = i) (c # ys)" by simp
  moreover have "last rs \<in> set (c # ys)" by (simp add: rs)
  ultimately show ?thesis unfolding list_all_iff by blast
qed

text \<open>A child session holds back durable work for an orientation only when its own log says so: the
  log is well formed, the current record of a handoff that another session file started names exactly
  this session and file, is received or awaits the user, concerns the goal that is asked about, and
  the current branch contains the handoff to this child.\<close>

theorem pending_orientation_is_own:
  assumes "inspectChildHandoffOrientation sha es branch sid sfile goalId = Pending ph r"
  shows "wellFormedLog sha es \<and> h_targetSessionId r = Some sid \<and> h_targetSessionFile r = sfile \<and>
    Some (q_originSessionFile (h_request r)) \<noteq> sfile \<and>
    h_status r = (case ph of Orienting \<Rightarrow> Received | AwaitingReply \<Rightarrow> AwaitingUser) \<and>
    (goalId = None \<or> q_goalTransferred (h_request r) \<and> q_goalId (h_request r) = goalId) \<and>
    (\<exists>i. reduceSelfHandoffRequest sha es (h_request r) = Inr (Some (r, i))) \<and>
    (\<exists>p j. reduceSelfHandoffRequest sha branch (h_request r) = Inr (Some (p, j)) \<and>
       h_targetSessionId p = Some sid \<and> h_targetSessionFile p = sfile)"
proof -
  let ?src = "fst (inspectSelfHandoffRecords sha es)"
  have wf: "wellFormedLog sha es"
    and loop: "orientationLoop sha es branch sid sfile
      (rev (filter (orientationCandidate sid sfile goalId) (map fst ?src))) = Pending ph r"
    using assms by (auto simp: inspectChildHandoffOrientation_def wellFormedLog_def case_prod_unfold Let_def split: if_splits)
  from orientationLoop_pending [OF loop] obtain c i p j where
    c0: "c \<in> set (rev (filter (orientationCandidate sid sfile goalId) (map fst ?src)))" and
    c1: "reduceSelfHandoffRequest sha es (h_request c) = Inr (Some (r, i))"
      "h_status r = (case ph of Orienting \<Rightarrow> Received | AwaitingReply \<Rightarrow> AwaitingUser)"
      "reduceSelfHandoffRequest sha branch (h_request c) = Inr (Some (p, j))"
      "h_targetSessionId p = Some sid" "h_targetSessionFile p = sfile"
    by blast
  have c: "c \<in> set (map fst ?src)" "orientationCandidate sid sfile goalId c"
      "reduceSelfHandoffRequest sha es (h_request c) = Inr (Some (r, i))"
      "h_status r = (case ph of Orienting \<Rightarrow> Received | AwaitingReply \<Rightarrow> AwaitingUser)"
      "reduceSelfHandoffRequest sha branch (h_request c) = Inr (Some (p, j))"
      "h_targetSessionId p = Some sid" "h_targetSessionFile p = sfile"
    using c0 c1 by simp_all
  let ?t = "requestTrail sha es (h_request c)"
  have t: "?t \<noteq> []" "last ?t = (r, i)" "consistent (h_request c) (map fst ?t)"
    using c(3) by (auto simp: reduce_iff split: if_splits)
  have "c \<in> set (map fst ?t)" using c(1) by (force simp: requestTrail_def trail_def)
  have "paired c" using sources_paired [of sha es] c(1) by (auto simp: list_all_iff)
  then obtain f where f: "h_targetSessionFile c = Some f" "sfile = Some f"
    using c(2) by (cases "h_targetSessionFile c") (auto simp: paired_def orientationCandidate_def)
  have last: "last (map fst ?t) = r" using t(1,2) by (metis fst_conv last_map)
  have "h_targetSessionFile r = Some f \<and> h_targetSessionId r = Some sid"
    using consistent_target_kept [OF t(3) \<open>c \<in> set (map fst ?t)\<close> f(1)] last c(2)
    by (simp add: orientationCandidate_def)
  moreover have "r \<in> set (map fst ?t)" using last t(1) by (metis last_in_set map_is_Nil_conv)
  then have "h_request r = h_request c"
    using t(3) unfolding consistent_def list_all_iff by blast
  ultimately show ?thesis
    using wf c f unfolding orientationCandidate_def by auto
qed

section \<open>Outcome of the orientation turn\<close>

text \<open>\<open>text.indexOf(pattern)\<close>.\<close>

fun indexOf :: "string \<Rightarrow> string \<Rightarrow> nat option" where
  "indexOf p [] = (if p = [] then Some 0 else None)"
| "indexOf p (c # cs) =
     (if take (length p) (c # cs) = p then Some 0 else map_option Suc (indexOf p cs))"

definition isOrientationKickoff :: "(string \<Rightarrow> string) \<Rightarrow> string \<Rightarrow> request \<Rightarrow> bool" where
  "isOrientationKickoff sha txt req =
     (case q_kickoffHash req of
        Some h \<Rightarrow> orientationKickoffHash sha txt = h
      | None \<Rightarrow>
          let delimiter = ''SELF-HANDOFF-'' @ q_contextNonce req in
          case (indexOf (''--- BEGIN '' @ delimiter @ '' ---'') txt, indexOf (''--- END '' @ delimiter @ '' ---'') txt) of
            (Some b, Some e) \<Rightarrow> b < e
          | _ \<Rightarrow> False)"

definition textPart :: "json \<Rightarrow> string option" where
  "textPart part =
     (if isRecord (Some part) \<and> jIsStr (get (Some part) ''type'') ''text'' then asStr (get (Some part) ''text'') else None)"

text \<open>The parts of a message content that are text, joined by newlines.\<close>

definition entryMessageText :: "jsval \<Rightarrow> string" where
  "entryMessageText content =
     (case content of
        Some (JStr s) \<Rightarrow> s
      | Some (JArr parts) \<Rightarrow> joinWith [CHR 10] (List.map_filter textPart parts)
      | _ \<Rightarrow> [])"

text \<open>The regular expressions of the response, on the suffixes of the text.\<close>

fun tails :: "'a list \<Rightarrow> 'a list list" where
  "tails [] = [[]]"
| "tails (x # xs) = (x # xs) # tails xs"

definition is_newline :: "char \<Rightarrow> bool" where
  "is_newline c \<longleftrightarrow> c = CHR 10 \<or> c = CHR 13"

text \<open>The suffixes that begin a line (\<open>^\<close> with the flag \<open>m\<close>).\<close>

fun lineStarts :: "bool \<Rightarrow> string \<Rightarrow> string list" where
  "lineStarts at_start [] = (if at_start then [[]] else [])"
| "lineStarts at_start (c # cs) = (if at_start then [c # cs] else []) @ lineStarts (is_newline c) cs"

definition lower :: "char \<Rightarrow> char" where
  "lower c = (let n = (of_char c :: nat) in if 65 \<le> n \<and> n \<le> 90 then char_of (n + 32) else c)"

definition ciPrefix :: "string \<Rightarrow> string \<Rightarrow> bool" where
  "ciPrefix p s \<longleftrightarrow> map lower (take (length p) s) = map lower p"

text \<open>\<open>/^TITLE\s*$/im\<close>.\<close>

definition hasHeading :: "string \<Rightarrow> string \<Rightarrow> bool" where
  "hasHeading title txt =
     list_ex (\<lambda>u. ciPrefix title u \<and>
       (let v = drop (length title) u in
        list_ex (\<lambda>k. drop k v = [] \<or> is_newline (hd (drop k v))) [0..<Suc (length (takeWhile is_ws v))]))
       (lineStarts True txt)"

text \<open>\<open>/^\s*1[.)]\s+\S/m\<close>.\<close>

definition hasFirstStep :: "string \<Rightarrow> bool" where
  "hasFirstStep txt =
     list_ex (\<lambda>u. case dropWhile is_ws u of
         a # b # c # rest \<Rightarrow> a = CHR ''1'' \<and> (b = CHR ''.'' \<or> b = CHR '')'') \<and> is_ws c \<and> dropWhile is_ws rest \<noteq> []
       | _ \<Rightarrow> False) (lineStarts True txt)"

definition is_word :: "char \<Rightarrow> bool" where
  "is_word c \<longleftrightarrow> is_alnum c \<or> c = CHR ''_''"

text \<open>\<open>/(?:reply|respond)[^
]{0,80}Proceed/i\<close>.\<close>

definition proceedAfter :: "char \<Rightarrow> string \<Rightarrow> bool" where
  "proceedAfter prev rest =
     list_ex (\<lambda>k. \<not> is_word (last (prev # take k rest)) \<and> ciPrefix ''Proceed'' (drop k rest) \<and>
        (case drop (k + 7) rest of [] \<Rightarrow> True | c # _ \<Rightarrow> \<not> is_word c))
       [0..<Suc (min 80 (length (takeWhile (\<lambda>c. c \<noteq> CHR 10) rest)))]"

definition hasProceed :: "string \<Rightarrow> bool" where
  "hasProceed txt =
     list_ex (\<lambda>u. (ciPrefix ''reply'' u \<and> proceedAfter (CHR ''y'') (drop 5 u)) \<or>
       (ciPrefix ''respond'' u \<and> proceedAfter (CHR ''d'') (drop 7 u))) (tails txt)"

datatype orientation_gap =
  KickoffMissing | UnexpectedUser | NoAssistant | Ended jsval | EmptyResponse | IncompleteResponse

datatype outcome = Success string | Incomplete orientation_gap "string option"

definition userText :: "entry \<Rightarrow> string option" where
  "userText e =
     (if isRecord (en_message e) \<and> jIsStr (get (en_message e) ''role'') ''user''
      then Some (js_trim (entryMessageText (get (en_message e) ''content''))) else None)"

text \<open>The entries after the last kickoff, with its text.\<close>

fun afterKickoff :: "(string \<Rightarrow> bool) \<Rightarrow> (string \<times> entry list) option \<Rightarrow> entry list \<Rightarrow> (string \<times> entry list) option" where
  "afterKickoff kick found [] = found"
| "afterKickoff kick found (e # es) =
     (case userText e of
        None \<Rightarrow> afterKickoff kick found es
      | Some t \<Rightarrow> afterKickoff kick (if kick t then Some (t, es) else found) es)"

text \<open>The last assistant message after the kickoff, unless a user message comes first.\<close>

fun lastAssistant :: "jsval \<Rightarrow> entry list \<Rightarrow> orientation_gap + jsval" where
  "lastAssistant assistant [] = Inr assistant"
| "lastAssistant assistant (e # es) =
     (let m = en_message e in
      if \<not> isRecord m then lastAssistant assistant es
      else if jIsStr (get m ''role'') ''user'' then Inl UnexpectedUser
      else lastAssistant (if jIsStr (get m ''role'') ''assistant'' then m else assistant) es)"

definition inspectOrientationOutcome :: "(string \<Rightarrow> string) \<Rightarrow> entry list \<Rightarrow> request \<Rightarrow> outcome" where
  "inspectOrientationOutcome sha branch req =
     (case afterKickoff (\<lambda>t. isOrientationKickoff sha t req) None branch of
        None \<Rightarrow> Incomplete KickoffMissing None
      | Some (kickoff, rest) \<Rightarrow>
          if kickoff = [] then Incomplete KickoffMissing None
          else
            case lastAssistant None rest of
              Inl gap \<Rightarrow> Incomplete gap (Some kickoff)
            | Inr None \<Rightarrow> Incomplete NoAssistant (Some kickoff)
            | Inr (Some a) \<Rightarrow>
                if \<not> jIsStr (get (Some a) ''stopReason'') ''stop''
                then Incomplete (Ended (get (Some a) ''stopReason'')) (Some kickoff)
                else
                  let response = js_trim (entryMessageText (get (Some a) ''content'')) in
                  if response = [] then Incomplete EmptyResponse (Some kickoff)
                  else if \<not> hasHeading ''## Handoff summary'' response \<or>
                    \<not> hasHeading ''## Proposed next steps'' response \<or>
                    \<not> hasFirstStep response \<or> \<not> hasProceed response
                  then Incomplete IncompleteResponse (Some kickoff)
                  else Success kickoff)"

lemma afterKickoff_Some:
  "afterKickoff kick found es = Some (t, rest) \<Longrightarrow>
    found = Some (t, rest) \<or> (\<exists>pre e. es = pre @ e # rest \<and> userText e = Some t \<and> kick t)"
proof (induction es arbitrary: found)
  case (Cons e es)
  show ?case
  proof (cases "userText e")
    case None
    with Cons.prems have "afterKickoff kick found es = Some (t, rest)" by simp
    from Cons.IH [OF this] show ?thesis by (metis append_Cons)
  next
    case (Some u)
    with Cons.prems have "afterKickoff kick (if kick u then Some (u, es) else found) es = Some (t, rest)" by simp
    from Cons.IH [OF this] show ?thesis
    proof
      assume "(if kick u then Some (u, es) else found) = Some (t, rest)"
      then show ?thesis using Some by (cases "kick u") (auto intro!: exI [of _ "[]"])
    next
      assume "\<exists>pre e. es = pre @ e # rest \<and> userText e = Some t \<and> kick t"
      then show ?thesis by (metis append_Cons)
    qed
  qed
qed simp

lemma lastAssistant_Inr:
  "lastAssistant a es = Inr r \<Longrightarrow>
    list_all (\<lambda>e. userText e = None) es \<and>
    (r = a \<or> (\<exists>e \<in> set es. en_message e = r \<and> jIsStr (get r ''role'') ''assistant''))"
proof (induction es arbitrary: a)
  case (Cons e es)
  then show ?case
    by (fastforce simp: Let_def userText_def split: if_splits)
qed simp

text \<open>An orientation counts as successful only if the child branch holds the exact kickoff, no user
  message came after it, and an assistant message after it stopped normally with a summary, numbered
  next steps and the request to proceed.\<close>

theorem orientation_success_is_complete:
  assumes "inspectOrientationOutcome sha branch req = Success k"
  shows "\<exists>pre e rest a. branch = pre @ e # rest \<and> userText e = Some k \<and> isOrientationKickoff sha k req \<and>
    list_all (\<lambda>x. userText x = None) rest \<and> a \<in> set rest \<and>
    jIsStr (get (en_message a) ''role'') ''assistant'' \<and> jIsStr (get (en_message a) ''stopReason'') ''stop'' \<and>
    (let response = js_trim (entryMessageText (get (en_message a) ''content'')) in
      hasHeading ''## Handoff summary'' response \<and> hasHeading ''## Proposed next steps'' response \<and>
      hasFirstStep response \<and> hasProceed response)"
proof -
  obtain rest where k: "afterKickoff (\<lambda>t. isOrientationKickoff sha t req) None branch = Some (k, rest)"
    using assms by (auto simp: inspectOrientationOutcome_def Let_def split: option.splits if_splits sum.splits)
  obtain m where m: "lastAssistant None rest = Inr (Some m)" "jIsStr (get (Some m) ''stopReason'') ''stop''"
    "let response = js_trim (entryMessageText (get (Some m) ''content'')) in
      hasHeading ''## Handoff summary'' response \<and> hasHeading ''## Proposed next steps'' response \<and>
      hasFirstStep response \<and> hasProceed response"
    using assms k by (auto simp: inspectOrientationOutcome_def Let_def split: option.splits if_splits sum.splits)
  obtain pre e where "branch = pre @ e # rest" "userText e = Some k" "isOrientationKickoff sha k req"
    using afterKickoff_Some [OF k] by auto
  moreover obtain a where "a \<in> set rest" "en_message a = Some m" "jIsStr (get (Some m) ''role'') ''assistant''"
    using lastAssistant_Inr [OF m(1)] by auto
  moreover have "list_all (\<lambda>x. userText x = None) rest"
    using lastAssistant_Inr [OF m(1)] by simp
  ultimately show ?thesis using m(2,3) by metis
qed

section \<open>Writing records\<close>

definition makeHandoffRecord ::
  "request \<Rightarrow> handoff_status \<Rightarrow> rat \<Rightarrow> (string \<times> string) option \<Rightarrow> string option \<Rightarrow> bool option \<Rightarrow>
   string option \<Rightarrow> handoff" where
  "makeHandoffRecord req status now target kickoff retry note =
     \<lparr>h_request = req, h_status = status, h_updatedAt = now, h_targetSessionFile = map_option fst target,
      h_targetSessionId = map_option snd target, h_kickoff = kickoff, h_retryAllowed = retry, h_note = note\<rparr>"

definition requestFields :: "request \<Rightarrow> (string \<times> jsval) list" where
  "requestFields q =
     [(''version'', Some (JNum (Fin 1))), (''id'', Some (JStr (q_id q))),
      (''createdAt'', Some (JNum (Fin (q_createdAt q)))),
      (''originSessionId'', Some (JStr (q_originSessionId q))),
      (''originSessionFile'', Some (JStr (q_originSessionFile q))),
      (''contextNonce'', Some (JStr (q_contextNonce q))),
      (''kickoffHash'', map_option JStr (q_kickoffHash q)),
      (''goalTransferred'', Some (JBool (q_goalTransferred q))),
      (''goalId'', map_option JStr (q_goalId q)),
      (''workPlanTransferred'', Some (JBool (q_workPlanTransferred q)))]"

definition handoffFields :: "handoff \<Rightarrow> (string \<times> jsval) list" where
  "handoffFields r =
     [(''version'', Some (JNum (Fin 1))), (''request'', Some (obj (requestFields (h_request r)))),
      (''status'', Some (JStr (statusText (h_status r)))),
      (''updatedAt'', Some (JNum (Fin (h_updatedAt r)))),
      (''targetSessionFile'', map_option JStr (h_targetSessionFile r)),
      (''targetSessionId'', map_option JStr (h_targetSessionId r)),
      (''kickoff'', map_option JStr (h_kickoff r)),
      (''retryAllowed'', map_option JBool (h_retryAllowed r)),
      (''note'', map_option JStr (h_note r))]"

definition handoffEntry :: "handoff \<Rightarrow> entry" where
  "handoffEntry r = customEntry SELF_HANDOFF_STATE_TYPE (Some (obj (handoffFields r)))"

definition request_ok :: "request \<Rightarrow> bool" where
  "request_ok q \<longleftrightarrow> q_id q \<noteq> [] \<and> q_originSessionId q \<noteq> [] \<and> q_originSessionFile q \<noteq> [] \<and>
     16 \<le> length (q_contextNonce q) \<and>
     (case q_kickoffHash q of None \<Rightarrow> True | Some h \<Rightarrow> is_sha_hex h) \<and>
     (if q_goalTransferred q then (case q_goalId q of None \<Rightarrow> False | Some g \<Rightarrow> g \<noteq> []) else q_goalId q = None)"

definition handoff_ok :: "(string \<Rightarrow> string) \<Rightarrow> handoff \<Rightarrow> bool" where
  "handoff_ok sha r \<longleftrightarrow> request_ok (h_request r) \<and> paired r \<and>
     h_targetSessionFile r \<noteq> Some [] \<and> h_targetSessionId r \<noteq> Some [] \<and>
     (case h_kickoff r of None \<Rightarrow> True | Some k \<Rightarrow> length k \<le> 100000) \<and>
     (h_status r = Received \<and> q_kickoffHash (h_request r) \<noteq> None \<longrightarrow>
        map_option (orientationKickoffHash sha) (h_kickoff r) = q_kickoffHash (h_request r)) \<and>
     (h_status r \<in> {ChildCreated, Received, AwaitingUser, Transferred} \<longrightarrow> h_targetSessionFile r \<noteq> None)"

lemma asStr_opt [simp]: "asStr (map_option JStr v) = v"
  by (cases v) auto

lemma asBoolOpt_opt [simp]: "asBoolOpt (map_option JBool v) = v"
  by (cases v) auto

lemma parseHandoffStatus_text [simp]: "parseHandoffStatus (Some (JStr (statusText st))) = Some st"
  by (cases st) (simp_all add: parseHandoffStatus_def)

lemma optional_opt:
  "optional nonempty_str (map_option JStr v) \<longleftrightarrow> v \<noteq> Some []"
  "optional is_str (map_option JStr v)" "optional isBool (map_option JBool w)"
  "is_str (map_option JStr v) \<longleftrightarrow> v \<noteq> None" "map_option JStr v = None \<longleftrightarrow> v = None"
  "nonempty_str (map_option JStr v) \<longleftrightarrow> (case v of None \<Rightarrow> False | Some s \<Rightarrow> s \<noteq> [])"
  "optional (\<lambda>h. case asStr h of None \<Rightarrow> False | Some s \<Rightarrow> P s) (map_option JStr v) \<longleftrightarrow>
     (case v of None \<Rightarrow> True | Some s \<Rightarrow> P s)"
  by (auto simp: optional_def nonempty_str_def is_str_def split: option.splits) (cases v; cases w; auto)+

lemma nonemptyStr_JStr: "s \<noteq> [] \<Longrightarrow> nonemptyStr (Some (JStr s)) = Some s"
  by simp

lemma parseRequest_read: "request_ok q \<Longrightarrow> parseRequest (Some (obj (requestFields q))) = Some q"
  by (simp add: parseRequest_def requestFields_def get_obj_Cons get_obj_Nil request_ok_def optional_opt Let_def
      nonemptyStr_JStr)

lemma parseHandoff_read:
  assumes "handoff_ok sha r"
  shows "parseSelfHandoffRecord sha (Some (obj (handoffFields r))) = Some r"
proof -
  note ok = assms [unfolded handoff_ok_def]
  have k: "\<not> (h_status r = Received \<and> q_kickoffHash (h_request r) \<noteq> None \<and>
     (case h_kickoff r of None \<Rightarrow> True | Some s \<Rightarrow> Some (orientationKickoffHash sha s) \<noteq> q_kickoffHash (h_request r)))"
    using ok by (auto split: option.splits)
  have t: "\<not> (h_status r \<in> {ChildCreated, Received, AwaitingUser, Transferred} \<and>
      (h_targetSessionFile r = None \<or> h_targetSessionId r = None))"
    using ok by (auto simp: paired_def)
  show ?thesis
    unfolding parseSelfHandoffRecord_def handoffFields_def Let_def
    using ok parseRequest_read [of "h_request r"] k t
    by (simp add: get_obj_Cons get_obj_Nil optional_opt paired_def)
qed

lemma en_id_customEntry [simp]: "en_id (customEntry c v) = None"
  by (simp add: customEntry_def)

lemma inspect_written:
  "list_all (handoff_ok sha) rs \<Longrightarrow>
     inspectSelfHandoffRecords sha (map handoffEntry rs) = (map (\<lambda>r. (r, None)) rs, False)"
  by (induction rs)
    (auto simp: inspectSelfHandoffRecords_def Let_def handoffEntry_def List.map_filter_simps
      parseHandoff_read)

section \<open>Examples\<close>

definition sampleRequest :: request where
  "sampleRequest = \<lparr>q_id = ''h'', q_createdAt = 1, q_originSessionId = ''p'', q_originSessionFile = ''pf'',
     q_contextNonce = ''0123456789abcdef'', q_kickoffHash = None, q_goalTransferred = False,
     q_goalId = None, q_workPlanTransferred = False\<rparr>"

definition sampleHandoff :: "handoff_status \<Rightarrow> handoff" where
  "sampleHandoff st = makeHandoffRecord sampleRequest st 2 (Some (''cf'', ''c'')) None None None"

lemma sampleHandoff_ok: "handoff_ok sha (sampleHandoff st)"
  by (simp add: handoff_ok_def sampleHandoff_def makeHandoffRecord_def request_ok_def sampleRequest_def paired_def)

lemma sampleHandoff_simps [simp]:
  "h_request (sampleHandoff st) = sampleRequest" "h_status (sampleHandoff st) = st"
  "h_targetSessionFile (sampleHandoff st) = Some ''cf''" "h_targetSessionId (sampleHandoff st) = Some ''c''"
  by (simp_all add: sampleHandoff_def makeHandoffRecord_def)

lemma sample_reduce:
  "reduceSelfHandoffRequest sha (map handoffEntry (map sampleHandoff sts)) sampleRequest =
     reduceLoop sampleRequest (map (\<lambda>r. (r, None)) (map sampleHandoff sts)) None None None"
  using inspect_written [of sha "map sampleHandoff sts"]
  by (simp add: reduceSelfHandoffRequest_def list_all_iff sampleHandoff_ok)

lemma sample_parts [simp]:
  "q_id sampleRequest = ''h''" "sameSelfHandoffRequest sampleRequest sampleRequest"
  by (simp_all add: sampleRequest_def sameSelfHandoffRequest_def)

theorem handoff_end_is_final_witness:
  "\<exists>r' i'. Some (sampleHandoff Failed, None :: string option) = Some (r', i') \<and> h_status r' = h_status (sampleHandoff Failed) \<and>
     h_request r' = sampleRequest \<and> (h_targetSessionFile (sampleHandoff Failed) \<noteq> None \<longrightarrow>
      h_targetSessionFile r' = h_targetSessionFile (sampleHandoff Failed) \<and>
      h_targetSessionId r' = h_targetSessionId (sampleHandoff Failed))"
proof (rule handoff_end_is_final [where sha = "\<lambda>s. s" and es = "map handoffEntry (map sampleHandoff [Received, Failed])"
      and later = "map handoffEntry (map sampleHandoff [Failed])" and i = None])
  show "reduceSelfHandoffRequest (\<lambda>s. s) (map handoffEntry (map sampleHandoff [Received, Failed])) sampleRequest =
      Inr (Some (sampleHandoff Failed, None))"
    by (simp only: sample_reduce) simp
  have "map handoffEntry (map sampleHandoff [Received, Failed]) @ map handoffEntry (map sampleHandoff [Failed]) =
      map handoffEntry (map sampleHandoff [Received, Failed, Failed])" by simp
  then show "reduceSelfHandoffRequest (\<lambda>s. s)
      (map handoffEntry (map sampleHandoff [Received, Failed]) @ map handoffEntry (map sampleHandoff [Failed]))
      sampleRequest = Inr (Some (sampleHandoff Failed, None))"
    by (simp only: sample_reduce) simp
qed simp

theorem pending_orientation_is_own_witness:
  "wellFormedLog (\<lambda>s. s) (map handoffEntry (map sampleHandoff [Received])) \<and>
   inspectChildHandoffOrientation (\<lambda>s. s) (map handoffEntry (map sampleHandoff [Received]))
     (map handoffEntry (map sampleHandoff [Received])) ''c'' (Some ''cf'') None = Pending Orienting (sampleHandoff Received)"
proof -
  let ?es = "map handoffEntry (map sampleHandoff [Received])"
  have i: "inspectSelfHandoffRecords (\<lambda>s. s) ?es = (map (\<lambda>r. (r, None)) (map sampleHandoff [Received]), False)"
    by (rule inspect_written) (simp add: sampleHandoff_ok)
  have red: "reduceSelfHandoffRequest (\<lambda>s. s) ?es sampleRequest = Inr (Some (sampleHandoff Received, None))"
    by (simp only: sample_reduce) simp
  have "orientationCandidate ''c'' (Some ''cf'') None (sampleHandoff Received)"
    by (simp add: orientationCandidate_def) (simp add: sampleRequest_def)
  then have "inspectChildHandoffOrientation (\<lambda>s. s) ?es ?es ''c'' (Some ''cf'') None =
      Pending Orienting (sampleHandoff Received)"
    unfolding inspectChildHandoffOrientation_def i using red by simp
  with pending_orientation_is_own [OF this] show ?thesis by blast
qed

definition sampleKickoff :: entry where
  "sampleKickoff = \<lparr>en_id = None, en_type = ''message'', en_customType = None, en_data = None,
     en_message = Some (obj [(''role'', Some (JStr ''user'')), (''content'', Some (JStr ''go''))])\<rparr>"

definition sampleAnswer :: entry where
  "sampleAnswer = \<lparr>en_id = None, en_type = ''message'', en_customType = None, en_data = None,
     en_message = Some (obj [(''role'', Some (JStr ''assistant'')), (''stopReason'', Some (JStr ''stop'')),
       (''content'', Some (JStr (''## Handoff summary'' @ [CHR 10] @ ''ok'' @ [CHR 10] @
          ''## Proposed next steps'' @ [CHR 10] @ ''1. do it'' @ [CHR 10] @ ''Reply Proceed'')))])\<rparr>"

lemma sample_outcome:
  "inspectOrientationOutcome (\<lambda>s. s) [sampleKickoff, sampleAnswer]
     (sampleRequest\<lparr>q_kickoffHash := Some ''go''\<rparr>) = Success ''go''"
  by code_simp

theorem orientation_success_is_complete_witness:
  "\<exists>pre e rest a. [sampleKickoff, sampleAnswer] = pre @ e # rest \<and> userText e = Some ''go'' \<and> a \<in> set rest \<and>
    jIsStr (get (en_message a) ''stopReason'') ''stop''"
  using orientation_success_is_complete [OF sample_outcome] by blast

end
