(* ===== verification/Goal.thy ===== *)
theory Goal
  imports Handoff
begin

text \<open>
  \<open>extensions/goal/index.ts\<close> and \<open>extensions/goal/agent-end.ts\<close>, the durable goal of a session: the
  goal record and its log, the reading and writing of goal entries, who owns a goal while a
  self-handoff is in flight, the command \<open>/goal\<close>, the tools \<open>start_goal\<close> and \<open>update_goal\<close>, the
  autopilot loop at the end of an agent run, and the gate that holds prompts back during a handoff.

  One handler is one transition: \<open>now\<close> is the clock it reads. A prompt is represented by what its
  text is made from. Notifications and the status line are not modelled. \<open>sha\<close> is SHA-256.
\<close>

section \<open>Goals\<close>

datatype goal_status =
  GActive | GPaused | GComplete | GBlocked | GBudgetLimited | GCleared | GTransferring | GTransferred

record goal_log =
  gl_timestamp :: rat
  gl_status :: goal_status
  gl_note :: string
  gl_evidence :: "string option"

record goal =
  g_id :: string
  g_objective :: string
  g_status :: goal_status
  g_createdAt :: rat
  g_updatedAt :: rat
  g_completedAt :: "rat option"
  g_maxTurns :: int
  g_turnsCompleted :: int
  g_budgetNoticeSent :: "bool option"
  g_handoffId :: "string option"
  g_handoffTargetSessionFile :: "string option"
  g_progressLog :: "goal_log list"
  g_emptyStopStreak :: "int option"

definition DEFAULT_MAX_TURNS :: int where "DEFAULT_MAX_TURNS = 60"
definition MAX_LOG_ENTRIES :: nat where "MAX_LOG_ENTRIES = 50"
definition MAX_EMPTY_STOP_RETRIES :: int where "MAX_EMPTY_STOP_RETRIES = 2"

definition RECLAIMED_HANDOFF_NOTE :: string where
  "RECLAIMED_HANDOFF_NOTE = ''The user reclaimed the parent goal after an interrupted handoff.''"

definition BOOKKEEPING_TOOLS :: "string list" where
  "BOOKKEEPING_TOOLS = [''update_goal'', ''work_plan'', ''ask_user'']"

fun goalStatusText :: "goal_status \<Rightarrow> string" where
  "goalStatusText GActive = ''active''"
| "goalStatusText GPaused = ''paused''"
| "goalStatusText GComplete = ''complete''"
| "goalStatusText GBlocked = ''blocked''"
| "goalStatusText GBudgetLimited = ''budget_limited''"
| "goalStatusText GCleared = ''cleared''"
| "goalStatusText GTransferring = ''transferring''"
| "goalStatusText GTransferred = ''transferred''"

definition all_goal_statuses :: "goal_status list" where
  "all_goal_statuses =
     [GActive, GPaused, GComplete, GBlocked, GBudgetLimited, GCleared, GTransferring, GTransferred]"

definition readGoalStatus :: "jsval \<Rightarrow> goal_status option" where
  "readGoalStatus v = (case asStr v of
       None \<Rightarrow> None
     | Some s \<Rightarrow> List.find (\<lambda>st. goalStatusText st = s) all_goal_statuses)"

text \<open>The JSON that \<open>cloneState\<close> and \<open>appendEntry\<close> write.\<close>

definition logJson :: "goal_log \<Rightarrow> json" where
  "logJson l = obj
     [(''timestamp'', Some (JNum (Fin (gl_timestamp l)))), (''status'', Some (JStr (goalStatusText (gl_status l)))),
      (''note'', Some (JStr (gl_note l))), (''evidence'', map_option JStr (gl_evidence l))]"

definition numJson :: "rat \<Rightarrow> json" where
  "numJson r = JNum (Fin r)"

definition intJson :: "int \<Rightarrow> json" where
  "intJson i = JNum (Fin (of_int i))"

definition goalJson :: "goal \<Rightarrow> json" where
  "goalJson g = obj
     [(''id'', Some (JStr (g_id g))), (''objective'', Some (JStr (g_objective g))),
      (''status'', Some (JStr (goalStatusText (g_status g)))),
      (''createdAt'', Some (numJson (g_createdAt g))), (''updatedAt'', Some (numJson (g_updatedAt g))),
      (''completedAt'', map_option numJson (g_completedAt g)),
      (''maxTurns'', Some (intJson (g_maxTurns g))), (''turnsCompleted'', Some (intJson (g_turnsCompleted g))),
      (''budgetNoticeSent'', map_option JBool (g_budgetNoticeSent g)),
      (''handoffId'', map_option JStr (g_handoffId g)),
      (''handoffTargetSessionFile'', map_option JStr (g_handoffTargetSessionFile g)),
      (''progressLog'', Some (JArr (map logJson (g_progressLog g)))),
      (''emptyStopStreak'', map_option intJson (g_emptyStopStreak g))]"

text \<open>
  The cast \<open>entry.data as GoalState\<close>: the properties at their declared types. The code does not check
  the cast; a value that is not a \<open>GoalState\<close> is outside the model and reads as \<open>None\<close>. Every goal
  that the extension writes (\<open>readGoal_goalJson\<close>) and every snapshot that a handoff accepts
  (\<open>readGoal_validGoal\<close>) is a \<open>GoalState\<close>.
\<close>

definition optProp :: "(jsval \<Rightarrow> 'a option) \<Rightarrow> jsval \<Rightarrow> 'a option option" where
  "optProp rd v = (if v = None then Some None else map_option Some (rd v))"

definition readLog :: "jsval \<Rightarrow> goal_log option" where
  "readLog v = do {
     t \<leftarrow> finiteNum (get v ''timestamp'');
     st \<leftarrow> readGoalStatus (get v ''status'');
     note \<leftarrow> asStr (get v ''note'');
     ev \<leftarrow> optProp asStr (get v ''evidence'');
     Some \<lparr>gl_timestamp = t, gl_status = st, gl_note = note, gl_evidence = ev\<rparr>
   }"

fun readAll :: "(jsval \<Rightarrow> 'a option) \<Rightarrow> json list \<Rightarrow> 'a list option" where
  "readAll rd [] = Some []"
| "readAll rd (x # xs) = do { a \<leftarrow> rd (Some x); as \<leftarrow> readAll rd xs; Some (a # as) }"

definition readGoal :: "jsval \<Rightarrow> goal option" where
  "readGoal v = do {
     i \<leftarrow> asStr (get v ''id'');
     ob \<leftarrow> asStr (get v ''objective'');
     st \<leftarrow> readGoalStatus (get v ''status'');
     created \<leftarrow> finiteNum (get v ''createdAt'');
     updated \<leftarrow> finiteNum (get v ''updatedAt'');
     completed \<leftarrow> optProp finiteNum (get v ''completedAt'');
     mx \<leftarrow> intNum (get v ''maxTurns'');
     turns \<leftarrow> intNum (get v ''turnsCompleted'');
     notice \<leftarrow> optProp asBoolOpt (get v ''budgetNoticeSent'');
     hid \<leftarrow> optProp asStr (get v ''handoffId'');
     target \<leftarrow> optProp asStr (get v ''handoffTargetSessionFile'');
     arr \<leftarrow> asArr (get v ''progressLog'');
     logs \<leftarrow> readAll readLog arr;
     streak \<leftarrow> optProp intNum (get v ''emptyStopStreak'');
     Some \<lparr>g_id = i, g_objective = ob, g_status = st, g_createdAt = created, g_updatedAt = updated,
       g_completedAt = completed, g_maxTurns = mx, g_turnsCompleted = turns, g_budgetNoticeSent = notice,
       g_handoffId = hid, g_handoffTargetSessionFile = target, g_progressLog = logs,
       g_emptyStopStreak = streak\<rparr>
   }"

lemma readGoalStatus_text [simp]: "readGoalStatus (Some (JStr (goalStatusText st))) = Some st"
  by (cases st) (simp_all add: readGoalStatus_def all_goal_statuses_def)

lemma optProp_opt [simp]: "(\<And>a. rd (Some (wr a)) = Some a) \<Longrightarrow> optProp rd (map_option wr v) = Some v"
  by (cases v) (simp_all add: optProp_def)

lemma num_reads [simp]: "finiteNum (Some (numJson r)) = Some r" "intNum (Some (intJson i)) = Some i"
  by (simp_all add: numJson_def intJson_def)

lemma readLog_logJson [simp]: "readLog (Some (logJson l)) = Some l"
  by (simp add: readLog_def logJson_def get_obj_Cons get_obj_Nil del: asStr_Some)

lemma readAll_map: "(\<And>x. rd (Some (wr x)) = Some x) \<Longrightarrow> readAll rd (map wr xs) = Some xs"
  by (induction xs) auto

lemma goalJson_fields:
  "get (Some (goalJson g)) ''id'' = Some (JStr (g_id g))"
  "get (Some (goalJson g)) ''objective'' = Some (JStr (g_objective g))"
  "get (Some (goalJson g)) ''status'' = Some (JStr (goalStatusText (g_status g)))"
  "get (Some (goalJson g)) ''createdAt'' = Some (numJson (g_createdAt g))"
  "get (Some (goalJson g)) ''updatedAt'' = Some (numJson (g_updatedAt g))"
  "get (Some (goalJson g)) ''completedAt'' = map_option numJson (g_completedAt g)"
  "get (Some (goalJson g)) ''maxTurns'' = Some (intJson (g_maxTurns g))"
  "get (Some (goalJson g)) ''turnsCompleted'' = Some (intJson (g_turnsCompleted g))"
  "get (Some (goalJson g)) ''budgetNoticeSent'' = map_option JBool (g_budgetNoticeSent g)"
  "get (Some (goalJson g)) ''handoffId'' = map_option JStr (g_handoffId g)"
  "get (Some (goalJson g)) ''handoffTargetSessionFile'' = map_option JStr (g_handoffTargetSessionFile g)"
  "get (Some (goalJson g)) ''progressLog'' = Some (JArr (map logJson (g_progressLog g)))"
  "get (Some (goalJson g)) ''emptyStopStreak'' = map_option intJson (g_emptyStopStreak g)"
  by (simp_all add: goalJson_def get_obj_Cons get_obj_Nil)

lemma readGoal_goalJson [simp]: "readGoal (Some (goalJson g)) = Some g"
  by (simp add: readGoal_def goalJson_fields readAll_map)

section \<open>State of the goal\<close>

definition createGoal :: "rat \<Rightarrow> string \<Rightarrow> string \<Rightarrow> int \<Rightarrow> string \<Rightarrow> goal" where
  "createGoal now goalId objective maxTurns note =
     \<lparr>g_id = goalId, g_objective = objective, g_status = GActive, g_createdAt = now, g_updatedAt = now,
      g_completedAt = None, g_maxTurns = maxTurns, g_turnsCompleted = 0, g_budgetNoticeSent = None,
      g_handoffId = None, g_handoffTargetSessionFile = None,
      g_progressLog = [\<lparr>gl_timestamp = now, gl_status = GActive, gl_note = note, gl_evidence = None\<rparr>],
      g_emptyStopStreak = None\<rparr>"

text \<open>\<open>save\<close>: the entry that is appended.\<close>

definition goalEntry :: "goal option \<Rightarrow> entry" where
  "goalEntry g = customEntry GOAL_STATE_TYPE (Some (case g of None \<Rightarrow> JNull | Some g \<Rightarrow> goalJson g))"

definition restoreGoal :: "entry list \<Rightarrow> goal option" where
  "restoreGoal branch =
     (case latestCustomEntryData branch GOAL_STATE_TYPE of
        None \<Rightarrow> None
      | Some JNull \<Rightarrow> None
      | Some v \<Rightarrow> readGoal (Some v))"

definition pushLog :: "rat \<Rightarrow> goal_status \<Rightarrow> string \<Rightarrow> string option \<Rightarrow> goal \<Rightarrow> goal" where
  "pushLog now status note evidence g = g\<lparr>g_progressLog := g_progressLog g @
     [\<lparr>gl_timestamp = now, gl_status = status, gl_note = note, gl_evidence = evidence\<rparr>]\<rparr>"

definition recordGoal :: "rat \<Rightarrow> goal_status \<Rightarrow> string \<Rightarrow> string option \<Rightarrow> goal \<Rightarrow> goal" where
  "recordGoal now status note evidence g =
     (let g1 = g\<lparr>g_status := status, g_updatedAt := now,
            g_completedAt := (if status \<in> {GComplete, GBlocked, GBudgetLimited, GCleared}
              then Some (case g_completedAt g of None \<Rightarrow> now | Some t \<Rightarrow> t) else g_completedAt g)\<rparr>;
          g2 = pushLog now status note evidence g1
      in g2\<lparr>g_progressLog := last50 (g_progressLog g2)\<rparr>)"

fun normalizeMaxTurns :: "jsval \<Rightarrow> int" where
  "normalizeMaxTurns (Some (JNum (Fin r))) = (if r \<le> 0 then DEFAULT_MAX_TURNS else \<lfloor>r\<rfloor>)"
| "normalizeMaxTurns _ = DEFAULT_MAX_TURNS"

section \<open>Arguments of the command\<close>

text \<open>\<open>Number(text)\<close>; the value is exact, so rounding to a double is not modelled, its overflow is.\<close>

definition digitValue :: "char \<Rightarrow> nat option" where
  "digitValue c = (let n = (of_char c :: nat) in
     if 48 \<le> n \<and> n \<le> 57 then Some (n - 48)
     else if 97 \<le> n \<and> n \<le> 102 then Some (n - 87)
     else if 65 \<le> n \<and> n \<le> 70 then Some (n - 55) else None)"

fun digitsFrom :: "nat \<Rightarrow> nat \<Rightarrow> string \<Rightarrow> nat option" where
  "digitsFrom base acc [] = Some acc"
| "digitsFrom base acc (c # cs) = (case digitValue c of
     None \<Rightarrow> None | Some d \<Rightarrow> if d < base then digitsFrom base (base * acc + d) cs else None)"

definition digits :: "nat \<Rightarrow> string \<Rightarrow> nat option" where
  "digits base s = (if s = [] then None else digitsFrom base 0 s)"

definition scale10 :: "rat \<Rightarrow> int \<Rightarrow> rat" where
  "scale10 r e = (if 0 \<le> e then r * 10 ^ nat e else r / 10 ^ nat (- e))"

definition exponentOf :: "string \<Rightarrow> int option" where
  "exponentOf s = (case s of
      [] \<Rightarrow> Some 0
    | c # t \<Rightarrow>
       if c = CHR ''e'' \<or> c = CHR ''E''
       then (case t of
           [] \<Rightarrow> None
         | d # u \<Rightarrow>
             if d = CHR ''-'' then map_option (\<lambda>n. - int n) (digits 10 u)
             else if d = CHR ''+'' then map_option int (digits 10 u)
             else map_option int (digits 10 t))
       else None)"

definition unsignedDecimal :: "string \<Rightarrow> rat option" where
  "unsignedDecimal s =
     (let whole = takeWhile is_digit s; rest = dropWhile is_digit s;
          dot = rest \<noteq> [] \<and> hd rest = CHR ''.'';
          frac = (if dot then takeWhile is_digit (tl rest) else []);
          ending = (if dot then dropWhile is_digit (tl rest) else rest)
      in if whole = [] \<and> frac = [] then None
         else do {
           n \<leftarrow> digits 10 (whole @ frac);
           e \<leftarrow> exponentOf ending;
           Some (scale10 (of_nat n) (e - int (length frac)))
         })"

definition toDouble :: "rat \<Rightarrow> jnum" where
  "toDouble r = (if 2 ^ 1024 - 2 ^ 970 \<le> r then PosInf else if r \<le> 2 ^ 970 - 2 ^ 1024 then NegInf else Fin r)"

definition numOr :: "nat option \<Rightarrow> jnum" where
  "numOr v = (case v of None \<Rightarrow> NaN | Some n \<Rightarrow> toDouble (of_nat n))"

definition decimalNumber :: "rat \<Rightarrow> string \<Rightarrow> jnum" where
  "decimalNumber sign u =
     (if u = ''Infinity'' then (if sign = 1 then PosInf else NegInf)
      else case unsignedDecimal u of None \<Rightarrow> NaN | Some r \<Rightarrow> toDouble (sign * r))"

definition jsNumber :: "string \<Rightarrow> jnum" where
  "jsNumber txt =
     (let s = js_trim txt; radix = map lower (take 2 s)
      in if s = [] then Fin 0
         else if hd s = CHR ''-'' then decimalNumber (- 1) (tl s)
         else if hd s = CHR ''+'' then decimalNumber 1 (tl s)
         else if radix = ''0x'' then numOr (digits 16 (drop 2 s))
         else if radix = ''0o'' then numOr (digits 8 (drop 2 s))
         else if radix = ''0b'' then numOr (digits 2 (drop 2 s))
         else decimalNumber 1 s)"

text \<open>The matches of the token pattern: maximal runs of quoted strings and of units that are neither
  white space nor a quote; a quote that is never closed is skipped. \<open>acc\<close> is the token so far.\<close>

definition emitToken :: "string \<Rightarrow> string list" where
  "emitToken acc = (if acc = [] then [] else [acc])"

definition is_quote :: "char \<Rightarrow> bool" where
  "is_quote c \<longleftrightarrow> c = CHR 34"

function tokenize :: "string \<Rightarrow> string \<Rightarrow> string list" where
  "tokenize [] acc = emitToken acc"
| "tokenize (c # cs) acc =
     (if is_ws c then emitToken acc @ tokenize cs []
      else if is_quote c
      then (case dropWhile (Not \<circ> is_quote) cs of
              [] \<Rightarrow> emitToken acc @ tokenize cs []
            | q # rest \<Rightarrow> tokenize rest (acc @ c # takeWhile (Not \<circ> is_quote) cs @ [q]))
      else tokenize cs (acc @ [c]))"
  by pat_completeness auto
termination
proof (relation "measure (\<lambda>(s, _). length s)")
  fix c q :: char and cs acc rest
  assume "dropWhile (Not \<circ> is_quote) cs = q # rest"
  then have "length (q # rest) \<le> length cs" by (metis length_dropWhile_le)
  then show "((rest, acc @ c # takeWhile (Not \<circ> is_quote) cs @ [q]), c # cs, acc) \<in>
      measure (\<lambda>(s, _). length s)" by simp
qed auto

text \<open>\<open>token.replace(/^"|"$/g, "")\<close>.\<close>

definition unquote :: "string \<Rightarrow> string" where
  "unquote s =
     (let t = (if s \<noteq> [] \<and> is_quote (hd s) then tl s else s)
      in if t \<noteq> [] \<and> is_quote (last t) then butlast t else t)"

fun turnsFrom :: "jnum \<Rightarrow> int \<Rightarrow> int" where
  "turnsFrom (Fin r) maxTurns = (if 0 < r then \<lfloor>r\<rfloor> else maxTurns)"
| "turnsFrom _ maxTurns = maxTurns"

fun startArgsLoop :: "string list \<Rightarrow> int \<Rightarrow> string list \<Rightarrow> string list \<times> int" where
  "startArgsLoop [] maxTurns parts = (parts, maxTurns)"
| "startArgsLoop [token] maxTurns parts =
     (if token = ''--max-turns'' \<or> token = ''--turns'' then (parts, maxTurns)
      else if take 12 token = ''--max-turns='' then (parts, turnsFrom (jsNumber (drop 12 token)) maxTurns)
      else (parts @ [unquote token], maxTurns))"
| "startArgsLoop (token # v # tokens) maxTurns parts =
     (if token = ''--max-turns'' \<or> token = ''--turns''
      then startArgsLoop tokens (turnsFrom (jsNumber v) maxTurns) parts
      else if take 12 token = ''--max-turns=''
      then startArgsLoop (v # tokens) (turnsFrom (jsNumber (drop 12 token)) maxTurns) parts
      else startArgsLoop (v # tokens) maxTurns (parts @ [unquote token]))"

definition parseStartArgs :: "string \<Rightarrow> string \<times> int" where
  "parseStartArgs raw =
     (let (parts, maxTurns) = startArgsLoop (tokenize raw []) DEFAULT_MAX_TURNS []
      in (js_trim (joinWith '' '' parts), maxTurns))"

section \<open>Ownership\<close>

text \<open>What \<open>ctx.sessionManager\<close> answers: all entries of the session, the current branch, its identity.\<close>

record goal_ctx =
  cx_entries :: "entry list"
  cx_branch :: "entry list"
  cx_sessionId :: string
  cx_sessionFile :: "string option"
  cx_leafId :: "string option"

datatype block_reason = MalformedAudit | ConflictingRecords | NotFinalized | NoLongerOwner

text \<open>\<open>latestHandoffForRequest\<close>: \<open>None\<close> is \<open>malformed: true\<close>.\<close>

definition latestHandoffForRequest ::
  "(string \<Rightarrow> string) \<Rightarrow> entry list \<Rightarrow> string \<Rightarrow> handoff option option" where
  "latestHandoffForRequest sha entries requestId =
     (let (sources, malformed) = inspectSelfHandoffRecords sha entries in
      if malformed then None
      else case List.find (\<lambda>r. q_id (h_request r) = requestId) (map fst sources) of
             None \<Rightarrow> Some None
           | Some candidate \<Rightarrow>
               (case reduceSelfHandoffRequest sha entries (h_request candidate) of
                  Inl _ \<Rightarrow> None
                | Inr None \<Rightarrow> Some None
                | Inr (Some (r, _)) \<Rightarrow> Some (Some r)))"

text \<open>The loops over the request identifiers; a JavaScript set keeps the order of first insertion.\<close>

definition uniqueIds :: "string list \<Rightarrow> string list" where
  "uniqueIds xs = rev (remdups (rev xs))"

fun ownershipLoop ::
  "(string \<Rightarrow> string) \<Rightarrow> entry list \<Rightarrow> (handoff \<Rightarrow> bool) \<Rightarrow> block_reason \<Rightarrow> string list \<Rightarrow> block_reason option" where
  "ownershipLoop sha entries blocks reason [] = None"
| "ownershipLoop sha entries blocks reason (requestId # ids) =
     (case latestHandoffForRequest sha entries requestId of
        None \<Rightarrow> Some ConflictingRecords
      | Some None \<Rightarrow> ownershipLoop sha entries blocks reason ids
      | Some (Some r) \<Rightarrow>
          if blocks r then Some reason else ownershipLoop sha entries blocks reason ids)"

definition unresolvedChildOwnership ::
  "(string \<Rightarrow> string) \<Rightarrow> goal_ctx \<Rightarrow> string option \<Rightarrow> block_reason option" where
  "unresolvedChildOwnership sha cx goalId =
     (let (sources, malformed) = inspectSelfHandoffRecords sha (cx_entries cx) in
      if malformed then Some MalformedAudit
      else ownershipLoop sha (cx_entries cx)
        (\<lambda>r. h_status r \<in> {Received, AwaitingUser, Failed} \<and> (goalId = None \<or> q_goalId (h_request r) = goalId))
        NotFinalized
        (uniqueIds (map (\<lambda>r. q_id (h_request r)) (filter
          (\<lambda>r. h_targetSessionId r = Some (cx_sessionId cx) \<and> h_targetSessionFile r = cx_sessionFile cx \<and>
               Some (q_originSessionFile (h_request r)) \<noteq> cx_sessionFile cx) (map fst sources)))))"

definition outboundGoalOwnership ::
  "(string \<Rightarrow> string) \<Rightarrow> goal_ctx \<Rightarrow> string option \<Rightarrow> block_reason option" where
  "outboundGoalOwnership sha cx goalId =
     (let (sources, malformed) = inspectSelfHandoffRecords sha (cx_entries cx) in
      if malformed then Some MalformedAudit
      else ownershipLoop sha (cx_entries cx)
        (\<lambda>r. h_status r = Prepared \<or> h_status r = ChildCreated \<or> (goalId \<noteq> None \<and> h_status r = Transferred))
        NoLongerOwner
        (uniqueIds (map (\<lambda>r. q_id (h_request r)) (filter
          (\<lambda>r. q_goalTransferred (h_request r) \<and> q_originSessionId (h_request r) = cx_sessionId cx \<and>
               Some (q_originSessionFile (h_request r)) = cx_sessionFile cx \<and>
               (goalId = None \<or> q_goalId (h_request r) = goalId)) (map fst sources)))))"

text \<open>Some candidate of the goal is being oriented, in the session and in the branch.\<close>

definition orientingHere :: "(string \<Rightarrow> string) \<Rightarrow> goal_ctx \<Rightarrow> string \<Rightarrow> handoff \<Rightarrow> bool" where
  "orientingHere sha cx goalId candidate \<longleftrightarrow>
     q_goalId (h_request candidate) = Some goalId \<and>
     h_targetSessionId candidate = Some (cx_sessionId cx) \<and> h_targetSessionFile candidate = cx_sessionFile cx \<and>
     (case latestHandoffForRequest sha (cx_entries cx) (q_id (h_request candidate)) of
        Some (Some r) \<Rightarrow> h_status r = Received \<or> h_status r = AwaitingUser
      | _ \<Rightarrow> False) \<and>
     (case latestHandoffForRequest sha (cx_branch cx) (q_id (h_request candidate)) of
        Some (Some r) \<Rightarrow> h_status r = Received \<or> h_status r = AwaitingUser
      | _ \<Rightarrow> False)"

definition reactivationBlockReason ::
  "(string \<Rightarrow> string) \<Rightarrow> goal_ctx \<Rightarrow> string \<Rightarrow> block_reason option" where
  "reactivationBlockReason sha cx goalId =
     (case outboundGoalOwnership sha cx (Some goalId) of
        Some reason \<Rightarrow> Some reason
      | None \<Rightarrow>
          (case unresolvedChildOwnership sha cx (Some goalId) of
             None \<Rightarrow> None
           | Some reason \<Rightarrow>
               (let (sources, malformed) = inspectSelfHandoffRecords sha (cx_entries cx) in
                if malformed then Some reason
                else if list_ex (orientingHere sha cx goalId) (map fst sources) then None
                else Some reason)))"

text \<open>\<open>unresolvedChildOwnership(ctx, id) ?? outboundGoalOwnership(ctx, id)\<close>, before a new goal.\<close>

definition newGoalBlockReason ::
  "(string \<Rightarrow> string) \<Rightarrow> goal_ctx \<Rightarrow> string option \<Rightarrow> block_reason option" where
  "newGoalBlockReason sha cx goalId =
     (case unresolvedChildOwnership sha cx goalId of
        Some reason \<Rightarrow> Some reason
      | None \<Rightarrow> outboundGoalOwnership sha cx goalId)"

section \<open>The session\<close>

text \<open>What the extension sends or appends. A prompt names what its text is made from.\<close>

datatype goal_prompt =
    Continuation rat goal
  | EmptyStopNudge goal int
  | SummaryStallNudge goal string
  | BudgetPrompt rat goal

datatype goal_output =
    Saved "goal option"
  | AuditAppended handoff
  | PromptSent goal_prompt
  | StatusShown rat "goal option"
  | SummaryShown goal
  | Refused string

record goal_session =
  gs_goal :: "goal option"
  gs_listening :: bool
  gs_hasContext :: bool
  gs_sessionId :: "string option"
  gs_attemptId :: "string option"
  gs_heldPrompt :: "goal_prompt option"
  gs_closed :: bool
  gs_timers :: "goal_prompt list"

definition initialGoalSession :: goal_session where
  "initialGoalSession = \<lparr>gs_goal = None, gs_listening = True, gs_hasContext = False, gs_sessionId = None,
     gs_attemptId = None, gs_heldPrompt = None, gs_closed = False, gs_timers = []\<rparr>"

text \<open>\<open>delivers\<close>: the host accepts the message (\<open>sendMessage\<close> throws when the session shut down).\<close>

definition sendGoalPrompt :: "bool \<Rightarrow> goal_prompt \<Rightarrow> goal_session \<Rightarrow> goal_output list" where
  "sendGoalPrompt delivers p s = (if gs_closed s then [] else if delivers then [PromptSent p] else [])"

definition queueGoalPrompt :: "goal_prompt \<Rightarrow> goal_session \<Rightarrow> goal_session" where
  "queueGoalPrompt p s = s\<lparr>gs_timers := gs_timers s @ [p]\<rparr>"

text \<open>\<open>if (handoffGate.attemptId)\<close>: the empty string is falsy.\<close>

definition attemptOpen :: "goal_session \<Rightarrow> bool" where
  "attemptOpen s \<longleftrightarrow> gs_attemptId s \<noteq> None \<and> gs_attemptId s \<noteq> Some []"

text \<open>The oldest of the timers, which all have delay 0, fires.\<close>

definition promptTimerFires :: "bool \<Rightarrow> goal_session \<Rightarrow> goal_session \<times> goal_output list" where
  "promptTimerFires delivers s =
     (case gs_timers s of
        [] \<Rightarrow> (s, [])
      | p # ps \<Rightarrow>
          (let s' = s\<lparr>gs_timers := ps\<rparr> in
           if gs_closed s' then (s', [])
           else if attemptOpen s' then (s'\<lparr>gs_heldPrompt := Some p\<rparr>, [])
           else (s', sendGoalPrompt delivers p s')))"

definition beginGate :: "string \<Rightarrow> string \<Rightarrow> goal_session \<Rightarrow> goal_session" where
  "beginGate attemptId sessionId s =
     (if \<not> gs_listening s \<or> gs_sessionId s \<noteq> Some sessionId then s
      else s\<lparr>gs_attemptId := Some attemptId\<rparr>)"

definition rollbackGate :: "bool \<Rightarrow> string \<Rightarrow> goal_session \<Rightarrow> goal_session \<times> goal_output list" where
  "rollbackGate delivers attemptId s =
     (if \<not> gs_listening s \<or> gs_attemptId s \<noteq> Some attemptId then (s, [])
      else
        let s' = s\<lparr>gs_attemptId := None, gs_heldPrompt := None\<rparr>
        in (s', case gs_heldPrompt s of None \<Rightarrow> [] | Some p \<Rightarrow> sendGoalPrompt delivers p s'))"

section \<open>Handlers\<close>

fun reasonText :: "block_reason \<Rightarrow> string" where
  "reasonText MalformedAudit = ''the session contains a malformed self-handoff audit record''"
| "reasonText ConflictingRecords = ''the session contains conflicting self-handoff ownership records''"
| "reasonText NotFinalized = ''the transferred child has not finalized ownership with its parent''"
| "reasonText NoLongerOwner = ''this parent session no longer owns the durable goal''"

text \<open>Setting the goal and saving it.\<close>

definition saveGoal :: "goal \<Rightarrow> goal_session \<Rightarrow> goal_session \<times> goal_output list" where
  "saveGoal g s = (s\<lparr>gs_goal := Some g\<rparr>, [Saved (Some g)])"

definition startSession :: "goal_ctx \<Rightarrow> goal_session \<Rightarrow> goal_session" where
  "startSession cx s = s\<lparr>gs_hasContext := True, gs_closed := False, gs_sessionId := Some (cx_sessionId cx),
     gs_goal := restoreGoal (cx_branch cx)\<rparr>"

definition beforeAgent :: "(string \<Rightarrow> string) \<Rightarrow> rat \<Rightarrow> goal_ctx \<Rightarrow> goal_session \<Rightarrow> goal_session \<times> goal_output list" where
  "beforeAgent sha now cx s =
     (let s' = s\<lparr>gs_hasContext := True, gs_goal := restoreGoal (cx_branch cx)\<rparr> in
      case gs_goal s' of
        None \<Rightarrow> (s', [])
      | Some g \<Rightarrow>
          if g_status g = GActive
          then (case reactivationBlockReason sha cx (g_id g) of
                  None \<Rightarrow> (s', [])
                | Some reason \<Rightarrow>
                    saveGoal (recordGoal now GPaused (''Paused because '' @ reasonText reason @ ''.'') None g) s')
          else (s', []))"

definition shutdown :: "goal_session \<Rightarrow> goal_session" where
  "shutdown s = s\<lparr>gs_closed := True, gs_timers := [], gs_listening := False, gs_hasContext := False,
     gs_attemptId := None, gs_heldPrompt := None\<rparr>"

text \<open>The handoff of the failure event is the pending one of this child and goal.\<close>

definition failsThisChild :: "goal_ctx \<Rightarrow> string \<Rightarrow> string \<Rightarrow> string \<Rightarrow> handoff option option \<Rightarrow> bool" where
  "failsThisChild cx requestId sessionId goalId lookup =
     (case lookup of
        None \<Rightarrow> True
      | Some None \<Rightarrow> False
      | Some (Some h) \<Rightarrow>
          (h_status h = Received \<or> h_status h = AwaitingUser) \<and> q_id (h_request h) = requestId \<and>
          q_goalId (h_request h) = Some goalId \<and> h_targetSessionId h = Some sessionId \<and>
          h_targetSessionFile h = cx_sessionFile cx)"

definition childFailure ::
  "(string \<Rightarrow> string) \<Rightarrow> rat \<Rightarrow> goal_ctx \<Rightarrow> string \<Rightarrow> string \<Rightarrow> string option \<Rightarrow> goal_session \<Rightarrow>
   goal_session \<times> goal_output list" where
  "childFailure sha now cx requestId sessionId goalId s =
     (case gs_goal s of
        None \<Rightarrow> (s, [])
      | Some g \<Rightarrow>
          if \<not> gs_listening s \<or> gs_sessionId s \<noteq> Some sessionId \<or> \<not> gs_hasContext s \<or> goalId \<noteq> Some (g_id g)
          then (s, [])
          else if \<not> failsThisChild cx requestId sessionId (g_id g)
                      (latestHandoffForRequest sha (cx_entries cx) requestId)
          then (s, [])
          else
            let s' = s\<lparr>gs_timers := [], gs_attemptId := None, gs_heldPrompt := None\<rparr> in
            if g_status g = GPaused then (s', [])
            else saveGoal (recordGoal now GPaused
                   ''Paused because self-handoff parent ownership could not be finalized.'' None
                   (g\<lparr>g_completedAt := None, g_budgetNoticeSent := Some False\<rparr>)) s')"

subsection \<open>The command\<close>

text \<open>The parent session as it is read back from its file under the lock.\<close>

record persisted =
  pr_sessionId :: string
  pr_entries :: "entry list"
  pr_branch :: "entry list option"

definition truthyStr :: "string option \<Rightarrow> bool" where
  "truthyStr v \<longleftrightarrow> v \<noteq> None \<and> v \<noteq> Some []"

definition auditCommitted :: "handoff \<Rightarrow> bool" where
  "auditCommitted h \<longleftrightarrow> h_status h = Failed \<and> h_note h = Some RECLAIMED_HANDOFF_NOTE"

definition auditPending :: "handoff \<Rightarrow> bool" where
  "auditPending h \<longleftrightarrow> h_status h = Prepared \<or> h_status h = ChildCreated"

text \<open>The handoff that the reclaim ends, when the persisted parent holds the matching state.\<close>

definition reclaimable ::
  "(string \<Rightarrow> string) \<Rightarrow> goal_ctx \<Rightarrow> persisted \<Rightarrow> goal \<Rightarrow> handoff option" where
  "reclaimable sha cx pr g =
     (if pr_sessionId pr \<noteq> cx_sessionId cx then None
      else case (g_handoffId g, pr_branch pr) of
        (Some hid, Some branch) \<Rightarrow>
          (case latestHandoffForRequest sha (pr_entries pr) hid of
             Some (Some h) \<Rightarrow>
               (let pg = latestGoalState branch in
                if q_id (h_request h) = hid \<and> q_goalId (h_request h) = Some (g_id g) \<and>
                   q_originSessionId (h_request h) = cx_sessionId cx \<and>
                   Some (q_originSessionFile (h_request h)) = cx_sessionFile cx \<and>
                   (auditPending h \<or> auditCommitted h) \<and>
                   jIsStr (get pg ''status'') ''transferring'' \<and> jIsStr (get pg ''id'') (g_id g) \<and>
                   jIsStr (get pg ''handoffId'') hid
                then Some h else None)
           | _ \<Rightarrow> None)
      | _ \<Rightarrow> None)"

definition reclaimAudit :: "rat \<Rightarrow> handoff \<Rightarrow> handoff" where
  "reclaimAudit now h = makeHandoffRecord (h_request h) Failed now
     (case (h_targetSessionFile h, h_targetSessionId h) of (Some f, Some i) \<Rightarrow> Some (f, i) | _ \<Rightarrow> None)
     None None (Some RECLAIMED_HANDOFF_NOTE)"

definition reclaimedGoal :: "rat \<Rightarrow> goal \<Rightarrow> goal" where
  "reclaimedGoal now g = pushLog now GActive ''Reclaimed after an interrupted self-handoff.'' None
     (g\<lparr>g_status := GActive, g_updatedAt := now, g_completedAt := None, g_handoffId := None,
        g_handoffTargetSessionFile := None\<rparr>)"

definition reclaim ::
  "(string \<Rightarrow> string) \<Rightarrow> rat \<Rightarrow> goal_ctx \<Rightarrow> persisted option \<Rightarrow> goal_session \<Rightarrow> goal_session \<times> goal_output list" where
  "reclaim sha now cx parent s =
     (case gs_goal s of
        None \<Rightarrow> (s, [Refused ''No goal to reclaim.''])
      | Some g \<Rightarrow>
          if g_status g \<noteq> GTransferring then (s, [Refused ''Only a transferring goal can be reclaimed.''])
          else if \<not> truthyStr (cx_sessionFile cx) \<or> \<not> truthyStr (cx_leafId cx) \<or> \<not> truthyStr (g_handoffId g)
          then (s, [Refused ''No persisted handoff identity.''])
          else case Option.bind parent (\<lambda>pr. reclaimable sha cx pr g) of
                 None \<Rightarrow> (s, [Refused ''Unsafe goal reclaim refused.''])
               | Some h \<Rightarrow>
                   (let g' = reclaimedGoal now g; (s', outs) = saveGoal g' s in
                    (queueGoalPrompt (Continuation now g') s',
                     (if auditPending h then [AuditAppended (reclaimAudit now h)] else []) @ outs)))"

definition resumedGoal :: "rat \<Rightarrow> goal \<Rightarrow> goal" where
  "resumedGoal now g = pushLog now GActive ''Resumed by user.'' None
     (g\<lparr>g_status := GActive, g_updatedAt := now, g_completedAt := None, g_budgetNoticeSent := Some False\<rparr>)"

definition resume ::
  "(string \<Rightarrow> string) \<Rightarrow> rat \<Rightarrow> goal_ctx \<Rightarrow> goal_session \<Rightarrow> goal_session \<times> goal_output list" where
  "resume sha now cx s =
     (case gs_goal s of
        None \<Rightarrow> (s, [Refused ''No goal to resume.''])
      | Some g \<Rightarrow>
          (case reactivationBlockReason sha cx (g_id g) of
             Some reason \<Rightarrow> (s, [Refused (reasonText reason)])
           | None \<Rightarrow>
               if g_status g = GTransferring then (s, [Refused ''This goal is mid-handoff.''])
               else if g_status g = GTransferred then (s, [Refused ''This goal belongs to its self-handoff child.''])
               else
                 let g' = resumedGoal now g; (s', outs) = saveGoal g' s in
                 (queueGoalPrompt (Continuation now g') s', outs)))"

definition pause :: "rat \<Rightarrow> goal_session \<Rightarrow> goal_session \<times> goal_output list" where
  "pause now s =
     (case gs_goal s of
        None \<Rightarrow> (s, [Refused ''No goal to pause.''])
      | Some g \<Rightarrow>
          if g_status g = GTransferring \<or> g_status g = GTransferred
          then (s, [Refused ''This goal is owned by a self-handoff flow.''])
          else saveGoal (recordGoal now GPaused ''Paused by user.'' None g) s)"

definition clear :: "rat \<Rightarrow> goal_session \<Rightarrow> goal_session \<times> goal_output list" where
  "clear now s =
     (case gs_goal s of
        None \<Rightarrow> (s\<lparr>gs_goal := None\<rparr>, [Saved None])
      | Some g \<Rightarrow>
          if g_status g = GTransferring then (s, [Refused ''This goal is mid-handoff.''])
          else (s\<lparr>gs_goal := None\<rparr>,
                [Saved (Some (recordGoal now GCleared ''Cleared by user.'' None g)), Saved None]))"

definition startByUser ::
  "(string \<Rightarrow> string) \<Rightarrow> rat \<Rightarrow> goal_ctx \<Rightarrow> string \<Rightarrow> string \<Rightarrow> goal_session \<Rightarrow> goal_session \<times> goal_output list" where
  "startByUser sha now cx newId args s =
     (let (objective, maxTurns) = parseStartArgs args in
      if objective = [] then (s, [Refused ''Usage: /goal <objective> [--max-turns N]''])
      else case newGoalBlockReason sha cx (map_option g_id (gs_goal s)) of
             Some reason \<Rightarrow> (s, [Refused (reasonText reason)])
           | None \<Rightarrow>
               (let g = createGoal now newId objective maxTurns ''Goal created by user.'';
                    (s', outs) = saveGoal g s
                in (queueGoalPrompt (Continuation now g) s', outs)))"

definition heldForOrientation :: "(string \<Rightarrow> string) \<Rightarrow> goal_ctx \<Rightarrow> string option \<Rightarrow> bool" where
  "heldForOrientation sha cx goalId \<longleftrightarrow>
     inspectChildHandoffOrientation sha (cx_entries cx) (cx_branch cx) (cx_sessionId cx) (cx_sessionFile cx)
       goalId \<noteq> NoOrientation"

definition goalCommand ::
  "(string \<Rightarrow> string) \<Rightarrow> rat \<Rightarrow> goal_ctx \<Rightarrow> persisted option \<Rightarrow> string \<Rightarrow> string \<Rightarrow> goal_session \<Rightarrow>
   goal_session \<times> goal_output list" where
  "goalCommand sha now cx parent newId args s0 =
     (let s = s0\<lparr>gs_goal := restoreGoal (cx_branch cx)\<rparr>;
          trimmed = js_trim args;
          verb = map lower (takeWhile (Not \<circ> is_ws) trimmed)
      in if trimmed = [] \<or> verb = ''status'' then (s, [StatusShown now (gs_goal s)])
         else if heldForOrientation sha cx (map_option g_id (gs_goal s))
         then (s, [Refused ''Goal changes are held until the orientation is released.''])
         else if verb = ''pause'' then pause now s
         else if verb = ''reclaim'' then reclaim sha now cx parent s
         else if verb = ''resume'' then resume sha now cx s
         else if verb = ''clear'' then clear now s
         else startByUser sha now cx newId trimmed s)"

subsection \<open>The tools\<close>

text \<open>A thrown error is the left value.\<close>

definition startGoalTool ::
  "(string \<Rightarrow> string) \<Rightarrow> rat \<Rightarrow> goal_ctx \<Rightarrow> string \<Rightarrow> string \<Rightarrow> jsval \<Rightarrow> string option \<Rightarrow> goal_session \<Rightarrow>
   string + goal_session \<times> goal_output list" where
  "startGoalTool sha now cx newId objective maxTurns reason s =
     (let ob = js_trim objective in
      if ob = [] then Inl ''Goal objective is required.''
      else case newGoalBlockReason sha cx (map_option g_id (gs_goal s)) of
             Some r \<Rightarrow> Inl (''Cannot start a goal because '' @ reasonText r @ ''.'')
           | None \<Rightarrow>
               if (case gs_goal s of None \<Rightarrow> False
                   | Some g \<Rightarrow> g_status g \<in> {GActive, GPaused, GTransferring, GTransferred})
               then Inl ''A durable goal is already active, paused, or owned by a self-handoff.''
               else
                 let note = (case map_option js_trim reason of
                       None \<Rightarrow> ''Goal created by agent.''
                     | Some t \<Rightarrow> if t = [] then ''Goal created by agent.'' else ''Goal created by agent. Reason: '' @ t)
                 in Inr (saveGoal (createGoal now newId ob (normalizeMaxTurns maxTurns) note) s))"

text \<open>The statuses that the parameter of \<open>update_goal\<close> admits.\<close>

definition update_statuses :: "goal_status list" where
  "update_statuses = [GActive, GComplete, GBlocked, GPaused]"

definition updateGoalTool ::
  "(string \<Rightarrow> string) \<Rightarrow> rat \<Rightarrow> goal_ctx \<Rightarrow> goal_status \<Rightarrow> string \<Rightarrow> string option \<Rightarrow> goal_session \<Rightarrow>
   string + goal_session \<times> goal_output list" where
  "updateGoalTool sha now cx status note evidence s =
     (case gs_goal s of
        None \<Rightarrow> Inl ''No active goal. Start one with /goal <objective> or start_goal.''
      | Some g \<Rightarrow>
          if g_status g = GTransferring \<or> g_status g = GTransferred
          then Inl ''This goal is owned by a self-handoff flow and cannot be updated in this session.''
          else case (if status = GActive then reactivationBlockReason sha cx (g_id g) else None) of
                 Some r \<Rightarrow> Inl (''Goal reactivation refused because '' @ reasonText r @ ''.'')
               | None \<Rightarrow>
                   (let g' = recordGoal now status note evidence g; (s', outs) = saveGoal g' s in
                    Inr (s', outs @ (if status \<in> {GComplete, GBlocked, GPaused} then [SummaryShown g'] else []))))"

subsection \<open>The end of an agent run\<close>

definition latestAssistantMessage :: "jsval \<Rightarrow> jsval" where
  "latestAssistantMessage messages =
     List.find (\<lambda>m. jIsStr (get (Some m) ''role'') ''assistant'') (rev (arrOf messages))"

definition blockType :: "json \<Rightarrow> string \<Rightarrow> bool" where
  "blockType b t \<longleftrightarrow> jIsStr (get (Some b) ''type'') t"

definition textOf :: "json \<Rightarrow> string option" where
  "textOf b = (if blockType b ''text'' then asStr (get (Some b) ''text'') else None)"

definition isEmptyStop :: "jsval \<Rightarrow> bool" where
  "isEmptyStop m \<longleftrightarrow> m \<noteq> None \<and> jIsStr (get m ''stopReason'') ''stop'' \<and>
     list_all (\<lambda>b. \<not> blockType b ''toolCall'' \<and>
        (case textOf b of None \<Rightarrow> True | Some t \<Rightarrow> js_trim t = [])) (arrOf (get m ''content''))"

definition toolCallNames :: "json list \<Rightarrow> string list" where
  "toolCallNames blocks = List.map_filter (\<lambda>b. asStr (get (Some b) ''name'')) (filter (\<lambda>b. blockType b ''toolCall'') blocks)"

text \<open>Every text block, each followed by a line feed.\<close>

definition assistantText :: "json list \<Rightarrow> string" where
  "assistantText blocks = concat (map (\<lambda>t. t @ [CHR 10]) (List.map_filter textOf blocks))"

definition summaryPhrases :: "string list" where
  "summaryPhrases = [''next step'', ''recommended next step'', ''what remains'', ''i should'', [CHR ''i'', CHR 39, CHR ''l'', CHR ''l''] @ '' now'',
     ''i will now'', ''i can now'', ''to finish'', ''remaining cleanup'', ''to do next'', ''let me know if'']"

text \<open>\<open>/\b(...)\b/i\<close>: every phrase starts and ends with a word character.\<close>

fun looksLikeSummary :: "bool \<Rightarrow> string \<Rightarrow> bool" where
  "looksLikeSummary word_before [] = False"
| "looksLikeSummary word_before (c # cs) =
     ((\<not> word_before \<and> list_ex (\<lambda>p. ciPrefix p (c # cs) \<and>
          (case drop (length p) (c # cs) of [] \<Rightarrow> True | d # _ \<Rightarrow> \<not> is_word d)) summaryPhrases) \<or>
      looksLikeSummary (is_word c) cs)"

definition isSummaryStall :: "jsval \<Rightarrow> bool" where
  "isSummaryStall m \<longleftrightarrow> m \<noteq> None \<and>
     (let blocks = arrOf (get m ''content''); names = toolCallNames blocks; txt = assistantText blocks
      in 200 \<le> length (js_trim txt) \<and> looksLikeSummary False txt \<and>
         list_all (\<lambda>n. n \<in> set BOOKKEEPING_TOOLS) names)"

text \<open>\<open>text.slice(-800)\<close> when longer.\<close>

definition lastChars :: "nat \<Rightarrow> string \<Rightarrow> string" where
  "lastChars n s = drop (length s - n) s"

definition streakOf :: "goal \<Rightarrow> int" where
  "streakOf g = (case g_emptyStopStreak g of None \<Rightarrow> 0 | Some n \<Rightarrow> n)"

text \<open>A stalled turn: a nudge, or the end of the autopilot after the retries.\<close>

definition stalledTurn :: "rat \<Rightarrow> string \<Rightarrow> (goal \<Rightarrow> int \<Rightarrow> goal_prompt) \<Rightarrow> goal \<Rightarrow> goal_session \<Rightarrow>
   goal_session \<times> goal_output list" where
  "stalledTurn now what nudge g s =
     (let streak = streakOf g + 1; g1 = g\<lparr>g_emptyStopStreak := Some streak\<rparr> in
      if streak > MAX_EMPTY_STOP_RETRIES
      then (let g2 = pushLog now GBlocked (''Autopilot stalled: '' @ intText streak @ what) None
                   (g1\<lparr>g_status := GBlocked, g_updatedAt := now\<rparr>);
                (s', outs) = saveGoal g2 s
            in (s', outs @ [SummaryShown g2]))
      else (let (s', outs) = saveGoal g1 s in (queueGoalPrompt (nudge g1 streak) s', outs)))"

definition productiveTurn :: "rat \<Rightarrow> goal \<Rightarrow> goal_session \<Rightarrow> goal_session \<times> goal_output list" where
  "productiveTurn now g s =
     (let g1 = (if streakOf g \<noteq> 0 then g\<lparr>g_emptyStopStreak := Some 0\<rparr> else g);
          (s1, outs) = saveGoal g1 s
      in if g_maxTurns g1 \<le> g_turnsCompleted g1
         then if g_budgetNoticeSent g1 = Some True then (s1, outs)
              else (let g2 = pushLog now GBudgetLimited ''Goal turn budget reached.'' None
                         (g1\<lparr>g_status := GBudgetLimited, g_budgetNoticeSent := Some True, g_updatedAt := now\<rparr>);
                        (s2, outs2) = saveGoal g2 s1
                    in (queueGoalPrompt (BudgetPrompt now g2) s2, outs @ outs2))
         else (queueGoalPrompt (Continuation now g1) s1, outs))"

definition agentEndGoal ::
  "(string \<Rightarrow> string) \<Rightarrow> rat \<Rightarrow> goal_ctx \<Rightarrow> jsval \<Rightarrow> goal_session \<Rightarrow> goal_session \<times> goal_output list" where
  "agentEndGoal sha now cx messages s =
     (case gs_goal s of
        None \<Rightarrow> (s, [])
      | Some g \<Rightarrow>
          if g_status g \<noteq> GActive then (s, [])
          else if heldForOrientation sha cx (Some (g_id g)) then (s, [])
          else
            let m = latestAssistantMessage messages in
            if jIsStr (get m ''stopReason'') ''aborted''
            then saveGoal (recordGoal now GPaused ''Paused because the user interrupted the active turn.'' None g) s
            else
              let g1 = g\<lparr>g_turnsCompleted := g_turnsCompleted g + 1, g_updatedAt := now\<rparr> in
              if isEmptyStop m
              then stalledTurn now '' consecutive empty model responses. Stopping to avoid an infinite silent loop.''
                     EmptyStopNudge g1 s
              else if isSummaryStall m
              then stalledTurn now '' consecutive summary-only turns without forward progress.''
                     (\<lambda>g _. SummaryStallNudge g (lastChars 800 (assistantText (arrOf (get m ''content''))))) g1 s
              else productiveTurn now g1 s)"

section \<open>The extension as a machine\<close>

datatype goal_event =
    SessionStarts goal_ctx
  | AgentStarts rat goal_ctx
  | SessionEnds
  | GateBegins string string
  | GateRollsBack bool string
  | ChildFails rat goal_ctx string string "string option"
  | PromptTimer bool
  | Command rat goal_ctx "persisted option" string string
  | StartGoal rat goal_ctx string string jsval "string option"
  | UpdateGoal rat goal_ctx goal_status string "string option"
  | AgentEnds rat goal_ctx jsval

definition orKeep :: "goal_session \<Rightarrow> string + goal_session \<times> goal_output list \<Rightarrow> goal_session \<times> goal_output list" where
  "orKeep s r = (case r of Inl e \<Rightarrow> (s, [Refused e]) | Inr x \<Rightarrow> x)"

fun goal_step :: "(string \<Rightarrow> string) \<Rightarrow> goal_event \<Rightarrow> goal_session \<Rightarrow> goal_session \<times> goal_output list" where
  "goal_step sha (SessionStarts cx) s = (startSession cx s, [])"
| "goal_step sha (AgentStarts now cx) s = beforeAgent sha now cx s"
| "goal_step sha SessionEnds s = (shutdown s, [])"
| "goal_step sha (GateBegins attemptId sessionId) s = (beginGate attemptId sessionId s, [])"
| "goal_step sha (GateRollsBack delivers attemptId) s = rollbackGate delivers attemptId s"
| "goal_step sha (ChildFails now cx requestId sessionId goalId) s = childFailure sha now cx requestId sessionId goalId s"
| "goal_step sha (PromptTimer delivers) s = promptTimerFires delivers s"
| "goal_step sha (Command now cx parent newId args) s = goalCommand sha now cx parent newId args s"
| "goal_step sha (StartGoal now cx newId objective maxTurns reason) s =
     orKeep s (startGoalTool sha now cx newId objective maxTurns reason s)"
| "goal_step sha (UpdateGoal now cx status note evidence) s = orKeep s (updateGoalTool sha now cx status note evidence s)"
| "goal_step sha (AgentEnds now cx messages) s = agentEndGoal sha now cx messages s"

fun goal_run :: "(string \<Rightarrow> string) \<Rightarrow> goal_event list \<Rightarrow> goal_session \<Rightarrow> goal_session \<times> goal_output list" where
  "goal_run sha [] s = (s, [])"
| "goal_run sha (e # es) s =
     (let (s1, outs) = goal_step sha e s; (s2, outs') = goal_run sha es s1 in (s2, outs @ outs'))"

section \<open>The autopilot ends\<close>

text \<open>A fresh goal allows \<open>b\<close> turns; a stalled turn skips the budget check, at most twice in a row.\<close>

definition within_budget :: "int \<Rightarrow> goal \<Rightarrow> bool" where
  "within_budget b g \<longleftrightarrow> g_maxTurns g \<le> b \<and> 1 \<le> b \<and> g_turnsCompleted g \<le> b + 2 \<and>
     (g_status g = GActive \<longrightarrow> 0 \<le> streakOf g \<and> streakOf g \<le> 2 \<and> g_turnsCompleted g \<le> b - 1 + streakOf g \<and>
        g_budgetNoticeSent g \<noteq> Some True)"

text \<open>What one end of an agent run makes of the goal, with the number of prompts it queues.\<close>

definition ends_as :: "int \<Rightarrow> goal \<Rightarrow> goal_session \<Rightarrow> goal_session \<Rightarrow> bool" where
  "ends_as b g s s' \<longleftrightarrow> (\<exists>g'. gs_goal s' = Some g' \<and> within_budget b g' \<and> g_id g' = g_id g \<and>
     g_turnsCompleted g \<le> g_turnsCompleted g' \<and>
     int (length (gs_timers s')) + g_turnsCompleted g \<le> int (length (gs_timers s)) + g_turnsCompleted g')"

lemma pushLog_simps [simp]:
  "g_id (pushLog now st n ev g) = g_id g" "g_status (pushLog now st n ev g) = g_status g"
  "g_maxTurns (pushLog now st n ev g) = g_maxTurns g" "g_turnsCompleted (pushLog now st n ev g) = g_turnsCompleted g"
  "g_budgetNoticeSent (pushLog now st n ev g) = g_budgetNoticeSent g"
  "g_emptyStopStreak (pushLog now st n ev g) = g_emptyStopStreak g"
  by (simp_all add: pushLog_def)

lemma recordGoal_simps [simp]:
  "g_id (recordGoal now st n ev g) = g_id g" "g_status (recordGoal now st n ev g) = st"
  "g_maxTurns (recordGoal now st n ev g) = g_maxTurns g"
  "g_turnsCompleted (recordGoal now st n ev g) = g_turnsCompleted g"
  by (simp_all add: recordGoal_def Let_def pushLog_def)

lemma queueGoalPrompt_simps [simp]:
  "gs_goal (queueGoalPrompt p s) = gs_goal s" "gs_timers (queueGoalPrompt p s) = gs_timers s @ [p]"
  "gs_heldPrompt (queueGoalPrompt p s) = gs_heldPrompt s" "gs_attemptId (queueGoalPrompt p s) = gs_attemptId s"
  "gs_closed (queueGoalPrompt p s) = gs_closed s"
  by (simp_all add: queueGoalPrompt_def)

lemma saveGoal_simps [simp]:
  "saveGoal g s = (s\<lparr>gs_goal := Some g\<rparr>, [Saved (Some g)])"
  by (simp add: saveGoal_def)

lemma stalledTurn_ends:
  assumes "g_maxTurns g \<le> b" "1 \<le> b" "0 \<le> streakOf g" "streakOf g \<le> 2" "g_turnsCompleted g \<le> b + streakOf g"
    "g_budgetNoticeSent g \<noteq> Some True"
  shows "\<exists>g'. gs_goal (fst (stalledTurn now what nudge g s)) = Some g' \<and> within_budget b g' \<and> g_id g' = g_id g \<and>
    g_turnsCompleted g' = g_turnsCompleted g \<and>
    length (gs_timers (fst (stalledTurn now what nudge g s))) \<le> Suc (length (gs_timers s))"
  using assms
  by (auto simp: stalledTurn_def Let_def MAX_EMPTY_STOP_RETRIES_def within_budget_def streakOf_def)

lemma productiveTurn_ends:
  assumes "g_maxTurns g \<le> b" "1 \<le> b" "g_turnsCompleted g \<le> b + 2" "g_budgetNoticeSent g \<noteq> Some True"
  shows "\<exists>g'. gs_goal (fst (productiveTurn now g s)) = Some g' \<and> within_budget b g' \<and> g_id g' = g_id g \<and>
    g_turnsCompleted g' = g_turnsCompleted g \<and>
    length (gs_timers (fst (productiveTurn now g s))) \<le> Suc (length (gs_timers s))"
  using assms
  by (auto simp: productiveTurn_def Let_def within_budget_def streakOf_def)

lemma agentEnd_ends:
  assumes g: "gs_goal s = Some g" "within_budget b g"
    and s'_def: "s' = fst (agentEndGoal sha now cx messages s)"
  shows "ends_as b g s s' \<and>
    (g_status g \<noteq> GActive \<longrightarrow> s' = s) \<and>
    (g_status g = GActive \<and> \<not> heldForOrientation sha cx (Some (g_id g)) \<longrightarrow>
       (\<forall>g'. gs_goal s' = Some g' \<and> g_status g' = GActive \<longrightarrow> g_turnsCompleted g' = g_turnsCompleted g + 1))"
proof (cases "g_status g \<noteq> GActive \<or> heldForOrientation sha cx (Some (g_id g))")
  case True
  then have "s' = s" using g(1) by (auto simp: s'_def agentEndGoal_def)
  then show ?thesis using g True by (auto simp: ends_as_def)
next
  case False
  let ?m = "latestAssistantMessage messages"
  let ?g = "g\<lparr>g_turnsCompleted := g_turnsCompleted g + 1, g_updatedAt := now\<rparr>"
  have b: "g_maxTurns ?g \<le> b" "1 \<le> b" "0 \<le> streakOf ?g" "streakOf ?g \<le> 2"
    "g_turnsCompleted ?g \<le> b + streakOf ?g" "g_turnsCompleted ?g \<le> b + 2" "g_budgetNoticeSent ?g \<noteq> Some True"
    using g(2) False by (auto simp: within_budget_def streakOf_def)
  show ?thesis
  proof (cases "jIsStr (get ?m ''stopReason'') ''aborted''")
    case True
    then have s': "s' = s\<lparr>gs_goal := Some (recordGoal now GPaused
        ''Paused because the user interrupted the active turn.'' None g)\<rparr>"
      using g(1) False by (simp add: s'_def agentEndGoal_def Let_def)
    show ?thesis using g(2) False unfolding s' by (simp add: ends_as_def within_budget_def)
  next
    case na: False
    have "\<exists>g'. gs_goal s' = Some g' \<and> within_budget b g' \<and> g_id g' = g_id ?g \<and>
        g_turnsCompleted g' = g_turnsCompleted ?g \<and> length (gs_timers s') \<le> Suc (length (gs_timers s))"
      using g(1) False na unfolding s'_def agentEndGoal_def Let_def
      using stalledTurn_ends [OF b(1-5,7)] productiveTurn_ends [OF b(1,2,6,7)]
      by (simp split del: if_split) (simp split: if_split)
    then show ?thesis using False by (auto simp: ends_as_def)
  qed
qed

text \<open>A run of agent ends, each with its clock, session and messages.\<close>

definition agentEnds :: "(rat \<times> goal_ctx \<times> jsval) list \<Rightarrow> goal_event list" where
  "agentEnds xs = map (\<lambda>(now, cx, messages). AgentEnds now cx messages) xs"

lemma goal_run_Cons:
  "fst (goal_run sha (e # es) s) = fst (goal_run sha es (fst (goal_step sha e s)))"
  by (simp split: prod.splits)

lemma agentEnds_run:
  assumes "gs_goal s = Some g" "within_budget b g"
  shows "ends_as b g s (fst (goal_run sha (agentEnds xs) s)) \<and>
    (g_status g \<noteq> GActive \<longrightarrow> fst (goal_run sha (agentEnds xs) s) = s) \<and>
    (list_all (\<lambda>(_, cx, _). \<not> heldForOrientation sha cx (Some (g_id g))) xs \<longrightarrow>
      (\<forall>g'. gs_goal (fst (goal_run sha (agentEnds xs) s)) = Some g' \<and> g_status g' = GActive \<longrightarrow>
         g_turnsCompleted g' = g_turnsCompleted g + int (length xs)))"
  using assms
proof (induction xs arbitrary: s g)
  case Nil
  then show ?case by (simp add: agentEnds_def ends_as_def)
next
  case (Cons x xs)
  obtain now cx m where x: "x = (now, cx, m)" by (metis prod_cases3)
  define s1 where "s1 = fst (agentEndGoal sha now cx m s)"
  have run: "fst (goal_run sha (agentEnds (x # xs)) s) = fst (goal_run sha (agentEnds xs) s1)"
    by (simp add: agentEnds_def x s1_def goal_run_Cons del: goal_run.simps)
  note step = agentEnd_ends [OF Cons.prems s1_def]
  then obtain g1 where g1: "gs_goal s1 = Some g1" "within_budget b g1" "g_id g1 = g_id g"
    "g_turnsCompleted g \<le> g_turnsCompleted g1"
    "int (length (gs_timers s1)) + g_turnsCompleted g \<le> int (length (gs_timers s)) + g_turnsCompleted g1"
    by (auto simp: ends_as_def)
  note ih = Cons.IH [OF g1(1,2)]
  have "ends_as b g s (fst (goal_run sha (agentEnds xs) s1))"
    using ih g1 by (fastforce simp: ends_as_def)
  moreover have "fst (goal_run sha (agentEnds xs) s1) = s" if "g_status g \<noteq> GActive"
    using that step ih Cons.prems g1(1) by auto
  moreover have "g_turnsCompleted g' = g_turnsCompleted g + int (length (x # xs))"
    if "list_all (\<lambda>(_, cx, _). \<not> heldForOrientation sha cx (Some (g_id g))) (x # xs)"
      "gs_goal (fst (goal_run sha (agentEnds xs) s1)) = Some g'" "g_status g' = GActive" for g'
  proof -
    have "g_status g1 = GActive" using ih that(2,3) g1(1) by (cases "g_status g1 = GActive") auto
    moreover have "g_status g = GActive"
      using step g1(1) Cons.prems(1) \<open>g_status g1 = GActive\<close> by (cases "g_status g = GActive") auto
    ultimately have "g_turnsCompleted g1 = g_turnsCompleted g + 1"
      using step g1(1) that(1) by (simp add: x)
    then show ?thesis using ih that g1(3) by simp
  qed
  ultimately show ?case unfolding run by blast
qed

text \<open>The ends of agent runs alone, with no tool call that changes the status in between: a fresh goal queues at most
  two prompts more than its turn budget, and after as many ends that no orientation holds back it is not active.\<close>

lemma agent_ends_are_bounded:
  assumes "gs_goal s = Some (createGoal t i ob mx note)"
    and "s' = fst (goal_run sha (agentEnds xs) s)"
  shows "int (length (gs_timers s')) \<le> int (length (gs_timers s)) + max 1 mx + 2 \<and>
    (\<exists>g. gs_goal s' = Some g \<and> g_turnsCompleted g \<le> max 1 mx + 2 \<and>
      (max 1 mx + 2 \<le> int (length xs) \<and> list_all (\<lambda>(_, cx, _). \<not> heldForOrientation sha cx (Some i)) xs \<longrightarrow>
        g_status g \<noteq> GActive))"
proof -
  let ?g = "createGoal t i ob mx note"
  have g: "within_budget (max 1 mx) ?g" "g_id ?g = i" "g_turnsCompleted ?g = 0"
    by (auto simp: within_budget_def createGoal_def streakOf_def)
  note run = agentEnds_run [OF assms(1) g(1), of sha xs, folded assms(2), unfolded g(2,3)]
  then obtain g' where g': "gs_goal s' = Some g'" "within_budget (max 1 mx) g'"
    "int (length (gs_timers s')) \<le> int (length (gs_timers s)) + g_turnsCompleted g'"
    by (auto simp: ends_as_def g(3))
  then have "g_turnsCompleted g' \<le> max 1 mx + 2"
    "g_status g' = GActive \<longrightarrow> g_turnsCompleted g' < max 1 mx + 2"
    by (auto simp: within_budget_def)
  moreover have "g_turnsCompleted g' = int (length xs)"
    if "list_all (\<lambda>(_, cx, _). \<not> heldForOrientation sha cx (Some i)) xs" "g_status g' = GActive"
    using run that g'(1) by simp
  ultimately show ?thesis using g'(1,3) by fastforce
qed

section \<open>The gate\<close>

lemma queue_not_sent [simp]:
  "PromptSent p \<notin> set (snd (stalledTurn now what nudge g s))"
  "PromptSent p \<notin> set (snd (productiveTurn now g s))"
  by (simp_all add: stalledTurn_def productiveTurn_def Let_def)

lemma handlers_do_not_send:
  "PromptSent p \<notin> set (snd (agentEndGoal sha now cx m s))"
  "PromptSent p \<notin> set (snd (beforeAgent sha now cx s))"
  "PromptSent p \<notin> set (snd (childFailure sha now cx r sid gid s))"
  "PromptSent p \<notin> set (snd (orKeep s (startGoalTool sha now cx i ob mx reason s)))"
  "PromptSent p \<notin> set (snd (orKeep s (updateGoalTool sha now cx st note ev s)))"
  by (auto simp: agentEndGoal_def beforeAgent_def childFailure_def orKeep_def startGoalTool_def updateGoalTool_def
      Let_def split: option.splits if_splits)

lemma command_does_not_send: "PromptSent p \<notin> set (snd (goalCommand sha now cx parent i args s))"
  by (auto simp: goalCommand_def pause_def reclaim_def resume_def clear_def startByUser_def
      Let_def split: option.splits if_splits prod.splits)

lemma prompt_step:
  assumes "goal_step sha e s = (s', outs)" "PromptSent p \<in> set outs"
  shows "outs = [PromptSent p] \<and> \<not> gs_closed s' \<and> \<not> attemptOpen s' \<and>
    ((\<exists>ps. gs_timers s = p # ps \<and> gs_timers s' = ps \<and> gs_heldPrompt s' = gs_heldPrompt s) \<or>
     (gs_heldPrompt s = Some p \<and> gs_heldPrompt s' = None \<and> gs_timers s' = gs_timers s))"
proof (cases e)
  case (PromptTimer delivers)
  then show ?thesis using assms
    by (cases "gs_timers s") (auto simp: promptTimerFires_def sendGoalPrompt_def attemptOpen_def Let_def split: if_splits)
next
  case (GateRollsBack delivers attemptId)
  then show ?thesis using assms
    by (cases "gs_heldPrompt s") (auto simp: rollbackGate_def sendGoalPrompt_def attemptOpen_def Let_def split: if_splits)
next
  case (AgentStarts now cx)
  then show ?thesis using assms handlers_do_not_send(2) by (metis goal_step.simps(2) snd_conv)
next
  case (ChildFails now cx r sid gid)
  then show ?thesis using assms handlers_do_not_send(3) by (metis goal_step.simps(6) snd_conv)
next
  case (Command now cx parent i args)
  then show ?thesis using assms command_does_not_send by (metis goal_step.simps(8) snd_conv)
next
  case (StartGoal now cx i ob mx reason)
  then show ?thesis using assms handlers_do_not_send(4) by (metis goal_step.simps(9) snd_conv)
next
  case (UpdateGoal now cx st nt ev)
  then show ?thesis using assms handlers_do_not_send(5) by (metis goal_step.simps(10) snd_conv)
next
  case (AgentEnds now cx m)
  then show ?thesis using assms handlers_do_not_send(1) by (metis goal_step.simps(11) snd_conv)
qed (use assms in auto)

text \<open>The events that may change the attempt that holds the gate.\<close>

fun leaves_gate :: "string \<Rightarrow> goal_event \<Rightarrow> bool" where
  "leaves_gate a SessionEnds = False"
| "leaves_gate a (GateBegins _ _) = False"
| "leaves_gate a (GateRollsBack _ b) = (b \<noteq> a)"
| "leaves_gate a (ChildFails _ _ _ _ _) = False"
| "leaves_gate a _ = True"

lemma stalled_productive_attempt [simp]:
  "gs_attemptId (fst (stalledTurn now what nudge g s)) = gs_attemptId s"
  "gs_attemptId (fst (productiveTurn now g s)) = gs_attemptId s"
  by (simp_all add: stalledTurn_def productiveTurn_def Let_def)

lemma attempt_kept:
  "gs_attemptId (startSession cx s) = gs_attemptId s"
  "gs_attemptId (fst (agentEndGoal sha now cx m s)) = gs_attemptId s"
  "gs_attemptId (fst (beforeAgent sha now cx s)) = gs_attemptId s"
  "gs_attemptId (fst (orKeep s (startGoalTool sha now cx i ob mx reason s))) = gs_attemptId s"
  "gs_attemptId (fst (orKeep s (updateGoalTool sha now cx st nt ev s))) = gs_attemptId s"
  "gs_attemptId (fst (promptTimerFires delivers s)) = gs_attemptId s"
  by (auto simp: startSession_def agentEndGoal_def beforeAgent_def orKeep_def startGoalTool_def updateGoalTool_def
      promptTimerFires_def Let_def split: option.splits list.splits)

lemma command_attempt_kept: "gs_attemptId (fst (goalCommand sha now cx parent i args s)) = gs_attemptId s"
  by (auto simp: goalCommand_def pause_def reclaim_def resume_def clear_def startByUser_def
      Let_def split: option.splits prod.splits)

lemma step_attempt_kept:
  assumes "gs_attemptId s = Some a" "leaves_gate a e"
  shows "gs_attemptId (fst (goal_step sha e s)) = Some a"
  using assms by (cases e) (simp_all add: attempt_kept command_attempt_kept rollbackGate_def)

fun isPromptSent :: "goal_output \<Rightarrow> bool" where
  "isPromptSent (PromptSent _) = True"
| "isPromptSent _ = False"

lemma step_silent:
  assumes "gs_attemptId s = Some a" "a \<noteq> []" "leaves_gate a e"
  shows "filter isPromptSent (snd (goal_step sha e s)) = []"
proof -
  obtain s' outs where st: "goal_step sha e s = (s', outs)" by force
  have "gs_attemptId s' = Some a" using step_attempt_kept [OF assms(1,3), of sha] st by simp
  then have "attemptOpen s'" using assms(2) by (simp add: attemptOpen_def)
  then have "PromptSent p \<notin> set outs" for p using prompt_step [OF st, of p] by blast
  then have "\<not> isPromptSent x" if "x \<in> set outs" for x using that by (cases x) auto
  then show ?thesis by (simp add: st filter_empty_conv)
qed

text \<open>C30. While a handoff attempt holds the gate, the autopilot sends nothing: over any run that neither rolls
  the attempt back, fails the child, begins another attempt nor ends the session, every prompt
  whose timer fires is held, and the attempt stays.\<close>

theorem handoff_silences_the_autopilot:
  assumes "gs_attemptId s = Some a" "a \<noteq> []" "list_all (leaves_gate a) es"
    and "goal_run sha es s = (s', outs)"
  shows "filter isPromptSent outs = [] \<and> gs_attemptId s' = Some a"
  using assms
proof (induction es arbitrary: s s' outs)
  case (Cons e es)
  obtain s1 o1 where st: "goal_step sha e s = (s1, o1)" by force
  obtain s2 o2 where rest: "goal_run sha es s1 = (s2, o2)" by force
  have "filter isPromptSent o1 = []" "gs_attemptId s1 = Some a"
    using step_silent [OF Cons.prems(1,2), of e sha] step_attempt_kept [OF Cons.prems(1), of e sha] Cons.prems(3) st
    by simp_all
  with Cons.IH [OF this(2) Cons.prems(2) _ rest] Cons.prems(3,4) st rest show ?case by auto
qed simp

text \<open>A prompt is only held while an attempt is open. An attempt has a name that is not empty.\<close>

definition gate_inv :: "goal_session \<Rightarrow> bool" where
  "gate_inv s \<longleftrightarrow> (gs_heldPrompt s \<noteq> None \<longrightarrow> attemptOpen s)"

fun gate_ok :: "goal_event \<Rightarrow> bool" where
  "gate_ok (GateBegins a _) = (a \<noteq> [])"
| "gate_ok _ = True"

lemma held_kept:
  "gs_heldPrompt (fst (stalledTurn now what nudge g s)) = gs_heldPrompt s"
  "gs_heldPrompt (fst (productiveTurn now g s)) = gs_heldPrompt s"
  by (simp_all add: stalledTurn_def productiveTurn_def Let_def)

lemma handlers_keep_held:
  "gs_heldPrompt (startSession cx s) = gs_heldPrompt s"
  "gs_heldPrompt (fst (agentEndGoal sha now cx m s)) = gs_heldPrompt s"
  "gs_heldPrompt (fst (beforeAgent sha now cx s)) = gs_heldPrompt s"
  "gs_heldPrompt (fst (orKeep s (startGoalTool sha now cx i ob mx reason s))) = gs_heldPrompt s"
  "gs_heldPrompt (fst (orKeep s (updateGoalTool sha now cx st nt ev s))) = gs_heldPrompt s"
  "gs_heldPrompt (fst (goalCommand sha now cx parent i args s)) = gs_heldPrompt s"
  by (auto simp: startSession_def agentEndGoal_def beforeAgent_def orKeep_def startGoalTool_def updateGoalTool_def
      goalCommand_def pause_def reclaim_def resume_def clear_def startByUser_def held_kept
      Let_def split: option.splits prod.splits)

lemma gate_inv_step:
  assumes "gate_ok e" "gate_inv s"
  shows "gate_inv (fst (goal_step sha e s))"
proof -
  have same: "gate_inv s'" if "gs_heldPrompt s' = gs_heldPrompt s" "gs_attemptId s' = gs_attemptId s" for s'
    using assms(2) that by (simp add: gate_inv_def attemptOpen_def)
  show ?thesis
  proof (cases e)
    case (PromptTimer d)
    then show ?thesis using assms
      by (auto simp: promptTimerFires_def gate_inv_def attemptOpen_def Let_def split: list.splits)
  next
    case (ChildFails now cx r i gid)
    then show ?thesis using assms
      by (auto simp: childFailure_def gate_inv_def attemptOpen_def Let_def split: option.splits)
  qed (use assms same in \<open>simp_all add: attempt_kept command_attempt_kept handlers_keep_held\<close>,
       auto simp: gate_inv_def attemptOpen_def shutdown_def beginGate_def rollbackGate_def Let_def)
qed

interpretation gate: event_machine "\<lambda>e s. fst (goal_step sha e s)" gate_ok gate_inv for sha
  by unfold_locales (rule gate_inv_step)

text \<open>Over any run of the extension a prompt is held only while an attempt is open.\<close>

lemma held_only_behind_the_gate:
  assumes "\<forall>e \<in> set es. gate_ok e" "gs_heldPrompt (fold (\<lambda>e s. fst (goal_step sha e s)) es initialGoalSession) \<noteq> None"
  shows "attemptOpen (fold (\<lambda>e s. fst (goal_step sha e s)) es initialGoalSession)"
  using gate.run_inv [OF assms(1), of initialGoalSession sha] assms(2)
  by (simp add: gate_inv_def initialGoalSession_def)

section \<open>The autopilot left alone\<close>

text \<open>
  The prompts that wait: those whose timer is set, and the one the gate holds. \<open>sent\<close> counts the prompts that
  were sent and that no agent run has answered yet.
\<close>

definition waiting :: "goal_session \<Rightarrow> nat" where
  "waiting s = length (gs_timers s) + (if gs_heldPrompt s = None then 0 else 1)"

definition promptsSent :: "goal_output list \<Rightarrow> nat" where
  "promptsSent outs = length (filter isPromptSent outs)"

fun isAgentEnd :: "goal_event \<Rightarrow> bool" where
  "isAgentEnd (AgentEnds _ _ _) = True"
| "isAgentEnd _ = False"

text \<open>
  The events of a session that nobody attends to: every agent run answers a prompt of the autopilot, and when the
  session or a run starts the branch holds the goal of the session. The model may call \<open>update_goal\<close> with
  any status at any time. Left out are the commands of the user and \<open>start_goal\<close>, which grant a new budget, and
  the failure of a handoff, which resets the budget notice.
\<close>

fun alone :: "nat \<Rightarrow> goal_event \<Rightarrow> goal_session \<Rightarrow> bool" where
  "alone sent (AgentEnds _ _ _) s \<longleftrightarrow> 0 < sent"
| "alone sent (SessionStarts cx) s \<longleftrightarrow> restoreGoal (cx_branch cx) = gs_goal s"
| "alone sent (AgentStarts _ cx) s \<longleftrightarrow> restoreGoal (cx_branch cx) = gs_goal s"
| "alone sent (Command _ _ _ _ _) s \<longleftrightarrow> False"
| "alone sent (StartGoal _ _ _ _ _ _) s \<longleftrightarrow> False"
| "alone sent (ChildFails _ _ _ _ _) s \<longleftrightarrow> False"
| "alone sent e s \<longleftrightarrow> True"

definition sentAfter :: "nat \<Rightarrow> goal_event \<Rightarrow> goal_output list \<Rightarrow> nat" where
  "sentAfter sent e outs = sent + promptsSent outs - (if isAgentEnd e then 1 else 0)"

fun unattended :: "(string \<Rightarrow> string) \<Rightarrow> nat \<Rightarrow> goal_event list \<Rightarrow> goal_session \<Rightarrow> bool" where
  "unattended sha sent [] s = True"
| "unattended sha sent (e # es) s =
     (alone sent e s \<and>
      (let (s', outs) = goal_step sha e s in unattended sha (sentAfter sent e outs) es s'))"

text \<open>
  The prompts that the goal can still cause, whatever the model does with its status. Before the budget notice
  every agent end costs a turn, and at most two stalled turns go over the budget; after it only stalled turns cause
  prompts, two in a row. A prompt is worth three, since the turn that answers it may end a streak of stalled turns.
\<close>

definition stallsLeft :: "goal \<Rightarrow> int" where
  "stallsLeft g = 2 - min 2 (streakOf g)"

definition promptsLeft :: "goal \<Rightarrow> int" where
  "promptsLeft g =
     (if g_budgetNoticeSent g = Some True then stallsLeft g
      else 3 + (if g_turnsCompleted g < g_maxTurns g then g_maxTurns g - g_turnsCompleted g + 2 else stallsLeft g))"

definition autopilotFuel :: "goal_session \<Rightarrow> nat \<Rightarrow> int" where
  "autopilotFuel s sent = 3 * int (waiting s + sent) + (case gs_goal s of None \<Rightarrow> 0 | Some g \<Rightarrow> promptsLeft g)"

text \<open>The streak counts from 0, and the budget notice is only sent when the budget is used up.\<close>

definition counts_ok :: "goal \<Rightarrow> bool" where
  "counts_ok g \<longleftrightarrow> 0 \<le> streakOf g \<and> (g_budgetNoticeSent g = Some True \<longrightarrow> g_maxTurns g \<le> g_turnsCompleted g)"

definition goal_counts :: "goal_session \<Rightarrow> bool" where
  "goal_counts s \<longleftrightarrow> (case gs_goal s of None \<Rightarrow> True | Some g \<Rightarrow> counts_ok g)"

lemma goal_counts_cong:
  "gs_goal s' = gs_goal s \<Longrightarrow> goal_counts s' \<longleftrightarrow> goal_counts s"
  by (simp add: goal_counts_def)

lemma promptsLeft_nonneg: "0 \<le> promptsLeft g"
  by (simp add: promptsLeft_def stallsLeft_def)

lemma recordGoal_budget [simp]:
  "g_budgetNoticeSent (recordGoal now st n ev g) = g_budgetNoticeSent g"
  "streakOf (recordGoal now st n ev g) = streakOf g"
  by (simp_all add: recordGoal_def Let_def pushLog_def streakOf_def)

lemma recordGoal_promptsLeft [simp]:
  "promptsLeft (recordGoal now st n ev g) = promptsLeft g" "counts_ok (recordGoal now st n ev g) = counts_ok g"
  by (simp_all add: promptsLeft_def stallsLeft_def counts_ok_def)

text \<open>What a turn does to the goal and to the prompts that wait.\<close>

definition burns :: "goal \<Rightarrow> goal_session \<Rightarrow> goal_session \<Rightarrow> bool" where
  "burns g s s' \<longleftrightarrow> gs_heldPrompt s' = gs_heldPrompt s \<and> length (gs_timers s') \<le> Suc (length (gs_timers s)) \<and>
     (\<exists>g'. gs_goal s' = Some g' \<and> counts_ok g' \<and>
       3 * int (length (gs_timers s')) + promptsLeft g' \<le> 3 * int (length (gs_timers s)) + promptsLeft g + 2)"

lemma stalledTurn_burns:
  assumes "counts_ok g" "g1 = g\<lparr>g_turnsCompleted := g_turnsCompleted g + 1, g_updatedAt := now\<rparr>"
  shows "burns g s (fst (stalledTurn now what nudge g1 s))"
  using assms
  by (auto simp: burns_def counts_ok_def stalledTurn_def Let_def MAX_EMPTY_STOP_RETRIES_def promptsLeft_def stallsLeft_def streakOf_def
      min_def split: option.splits)

lemma productiveTurn_burns:
  assumes "counts_ok g" "g1 = g\<lparr>g_turnsCompleted := g_turnsCompleted g + 1, g_updatedAt := now\<rparr>"
  shows "burns g s (fst (productiveTurn now g1 s))"
  using assms
  by (auto simp: burns_def counts_ok_def productiveTurn_def Let_def promptsLeft_def stallsLeft_def streakOf_def min_def
      split: option.splits)

lemma agentEnd_burns:
  assumes "goal_counts s"
  shows "agentEndGoal sha now cx m s = (s, []) \<or>
    (\<exists>g. gs_goal s = Some g \<and> burns g s (fst (agentEndGoal sha now cx m s)))"
proof (cases "gs_goal s")
  case (Some g)
  have ok: "counts_ok g" using assms Some by (simp add: goal_counts_def)
  have "burns g s (s\<lparr>gs_goal := Some (recordGoal now st n ev g)\<rparr>)" for st n ev
    using ok by (simp add: burns_def)
  then show ?thesis
    using Some stalledTurn_burns [OF ok refl] productiveTurn_burns [OF ok refl]
    by (simp add: agentEndGoal_def Let_def)
qed (simp add: agentEndGoal_def)


text \<open>One event of an unattended session.\<close>

definition steps_down :: "nat \<Rightarrow> goal_event \<Rightarrow> goal_session \<Rightarrow> goal_session \<times> goal_output list \<Rightarrow> bool" where
  "steps_down sent e s r \<longleftrightarrow> (case r of (s', outs) \<Rightarrow>
     goal_counts s' \<and>
     waiting s' + sentAfter sent e outs \<le> waiting s + sent \<and>
     autopilotFuel s' (sentAfter sent e outs) + (if isAgentEnd e then 1 else 0) \<le> autopilotFuel s sent)"

text \<open>An event that starts no turn and keeps the budget of the goal.\<close>

lemma steps_down_quiet:
  assumes "\<not> isAgentEnd e" "waiting s' + (sent + promptsSent outs) \<le> waiting s + sent"
    "goal_counts s"
    "map_option promptsLeft (gs_goal s') = map_option promptsLeft (gs_goal s)"
    "map_option counts_ok (gs_goal s') = map_option counts_ok (gs_goal s)"
  shows "steps_down sent e s (s', outs)"
  using assms by (cases "gs_goal s"; cases "gs_goal s'") (auto simp: steps_down_def sentAfter_def autopilotFuel_def goal_counts_def)

lemma promptsSent_simps [simp]:
  "promptsSent [] = 0" "promptsSent (Saved g # outs) = promptsSent outs"
  "promptsSent (SummaryShown g' # outs) = promptsSent outs" "promptsSent (Refused r # outs) = promptsSent outs"
  "promptsSent (PromptSent p # outs) = Suc (promptsSent outs)" "promptsSent (xs @ ys) = promptsSent xs + promptsSent ys"
  by (simp_all add: promptsSent_def)

lemma promptsSent_agentEnd [simp]: "promptsSent (snd (agentEndGoal sha now cx m s)) = 0"
  by (auto simp: promptsSent_def filter_empty_conv handlers_do_not_send elim!: isPromptSent.elims)

lemma sendGoalPrompt_sent: "promptsSent (sendGoalPrompt d p s) \<le> Suc 0"
  by (simp add: sendGoalPrompt_def)

lemma agentEnd_steps_down:
  assumes "0 < sent" "goal_counts s"
  shows "steps_down sent (AgentEnds now cx m) s (agentEndGoal sha now cx m s)"
proof -
  obtain s' outs where r: "agentEndGoal sha now cx m s = (s', outs)" by force
  have outs: "promptsSent outs = 0" using promptsSent_agentEnd [of sha now cx m s] r by simp
  from agentEnd_burns [OF assms(2), where sha = sha and now = now and cx = cx and m = m] r consider "s' = s"
    | g where "gs_goal s = Some g" "burns g s s'" by auto
  then show ?thesis
  proof cases
    case 1
    with assms outs show ?thesis by (auto simp: r steps_down_def sentAfter_def autopilotFuel_def)
  next
    case 2
    with assms(1) outs show ?thesis
      by (auto simp: r steps_down_def sentAfter_def autopilotFuel_def burns_def waiting_def goal_counts_def)
  qed
qed

lemma unattended_step:
  assumes "alone sent e s" "goal_counts s"
  shows "steps_down sent e s (goal_step sha e s)"
proof (cases e)
  case (AgentEnds now cx m)
  then show ?thesis using agentEnd_steps_down [OF _ assms(2)] assms(1) by simp
next
  case (PromptTimer d)
  then show ?thesis using assms(2) sendGoalPrompt_sent
    by (auto simp: promptTimerFires_def Let_def waiting_def split: list.splits
        intro!: steps_down_quiet order_trans [OF add_left_mono [OF sendGoalPrompt_sent]])
next
  case (GateRollsBack d a)
  then show ?thesis using assms(2)
    by (auto simp: rollbackGate_def Let_def waiting_def sendGoalPrompt_sent split: option.splits
        intro!: steps_down_quiet order_trans [OF add_left_mono [OF sendGoalPrompt_sent]])
next
  case (UpdateGoal now cx st nt ev)
  then show ?thesis using assms(2)
    by (auto simp: orKeep_def updateGoalTool_def Let_def waiting_def split: option.splits intro!: steps_down_quiet)
next
  case (AgentStarts now cx)
  then show ?thesis using assms
    by (auto simp: beforeAgent_def Let_def waiting_def split: option.splits intro!: steps_down_quiet)
qed (use assms in \<open>auto simp: startSession_def shutdown_def beginGate_def waiting_def intro!: steps_down_quiet\<close>)

lemma unattended_run:
  assumes "unattended sha sent es s" "goal_counts s" "goal_run sha es s = (s', outs)"
  shows "int (length (filter isAgentEnd es)) \<le> autopilotFuel s sent \<and>
    promptsSent outs \<le> waiting s + length (filter isAgentEnd es)"
  using assms
proof (induction es arbitrary: s sent s' outs)
  case Nil
  then show ?case using promptsLeft_nonneg by (auto simp: autopilotFuel_def split: option.splits)
next
  case (Cons e es)
  obtain s1 o1 where st: "goal_step sha e s = (s1, o1)" by force
  obtain s2 o2 where rest: "goal_run sha es s1 = (s2, o2)" by force
  have outs: "outs = o1 @ o2" using Cons.prems(3) st rest by simp
  have un: "alone sent e s" "unattended sha (sentAfter sent e o1) es s1" using Cons.prems(1) st by auto
  note down = unattended_step [OF un(1) Cons.prems(2), where sha = sha, unfolded st steps_down_def prod.case]
  then have ok: "goal_counts s1" by blast
  have ih: "int (length (filter isAgentEnd es)) \<le> autopilotFuel s1 (sentAfter sent e o1)"
    "promptsSent o2 \<le> waiting s1 + length (filter isAgentEnd es)"
    using Cons.IH [OF un(2) ok rest] by auto
  have "promptsSent o1 + waiting s1 \<le> waiting s + (if isAgentEnd e then 1 else 0)"
    using down un(1) by (cases e) (auto simp: sentAfter_def)
  with ih down outs show ?case by auto
qed

text \<open>C12. Left alone, the autopilot ends. From a fresh goal, over every run of the session in which agent runs only
  answer prompts of the autopilot, the number of agent runs and of prompts sent is bounded by the turn budget, whatever the
  model answers and however often it calls \<open>update_goal\<close>, also when it makes a finished, blocked or over-budget goal
  active again. The run holds no command of the user, no \<open>start_goal\<close> (a new goal has its own budget) and no failure of a
  handoff, and a session or agent run that starts finds the goal of the session in its branch.\<close>

theorem autopilot_is_bounded:
  assumes "gs_goal s = Some (createGoal t i ob mx note)"
    and "unattended sha sent es s" "goal_run sha es s = (s', outs)"
  shows "int (length (filter isAgentEnd es)) \<le> max 0 mx + 5 + 3 * int (waiting s + sent) \<and>
    promptsSent outs \<le> waiting s + length (filter isAgentEnd es)"
proof -
  let ?g = "createGoal t i ob mx note"
  have "counts_ok ?g" "promptsLeft ?g \<le> max 0 mx + 5"
    by (auto simp: counts_ok_def promptsLeft_def stallsLeft_def streakOf_def createGoal_def)
  then show ?thesis
    using unattended_run [OF assms(2) _ assms(3)] assms(1) by (simp add: autopilotFuel_def goal_counts_def)
qed


section \<open>Goals have one owner\<close>

definition sourceRecords :: "(string \<Rightarrow> string) \<Rightarrow> entry list \<Rightarrow> handoff list" where
  "sourceRecords sha entries = map fst (fst (inspectSelfHandoffRecords sha entries))"

lemma set_uniqueIds [simp]: "set (uniqueIds xs) = set xs"
  by (simp add: uniqueIds_def)

lemma ownershipLoop_None:
  "ownershipLoop sha entries blocks reason ids = None \<Longrightarrow> x \<in> set ids \<Longrightarrow>
     \<exists>v. latestHandoffForRequest sha entries x = Some v \<and> (\<forall>r. v = Some r \<longrightarrow> \<not> blocks r)"
  by (induction ids) (auto split: option.splits if_splits)

text \<open>The lookup of a request by its identifier is the reduction of that request.\<close>

lemma lookup_is_reduction:
  assumes "latestHandoffForRequest sha entries (q_id (h_request r)) = Some v" "r \<in> set (sourceRecords sha entries)"
  shows "\<exists>l i. v = Some l \<and> reduceSelfHandoffRequest sha entries (h_request r) = Inr (Some (l, i))"
proof -
  let ?rs = "sourceRecords sha entries"
  obtain c where c: "List.find (\<lambda>x. q_id (h_request x) = q_id (h_request r)) ?rs = Some c"
    using assms(2) by (cases "List.find (\<lambda>x. q_id (h_request x) = q_id (h_request r)) ?rs") (auto simp: find_None_iff)
  then have id: "q_id (h_request c) = q_id (h_request r)" and "c \<in> set ?rs"
    by (auto dest: find_Some_in)
  obtain x where x: "reduceSelfHandoffRequest sha entries (h_request c) = Inr x" "v = map_option fst x"
    using assms(1) c by (auto simp: latestHandoffForRequest_def sourceRecords_def Let_def case_prod_unfold
        split: if_splits sum.splits option.splits)
  have "consistent (h_request c) (map fst (requestTrail sha entries (h_request c)))"
    using x(1) by (simp add: reduce_iff)
  moreover have "r \<in> set (map fst (requestTrail sha entries (h_request c)))"
    using assms(2) id by (auto simp: requestTrail_def trail_def sourceRecords_def)
  ultimately have req: "h_request r = h_request c" and ne: "requestTrail sha entries (h_request c) \<noteq> []"
    by (auto simp: consistent_def list_all_iff)
  then have "x = Some (last (requestTrail sha entries (h_request c)))" using x(1) by (simp add: reduce_iff)
  then obtain l i where "x = Some (l, i)" by (metis surj_pair)
  then show ?thesis using x req by simp
qed

text \<open>The request of a record moved goal \<open>goalId\<close> from this session to a child.\<close>

definition movesGoalFrom :: "goal_ctx \<Rightarrow> string \<Rightarrow> handoff \<Rightarrow> bool" where
  "movesGoalFrom cx goalId r \<longleftrightarrow> q_goalTransferred (h_request r) \<and> q_goalId (h_request r) = Some goalId \<and>
     q_originSessionId (h_request r) = cx_sessionId cx \<and> Some (q_originSessionFile (h_request r)) = cx_sessionFile cx"

definition childHolds :: "(string \<Rightarrow> string) \<Rightarrow> entry list \<Rightarrow> handoff \<Rightarrow> bool" where
  "childHolds sha entries r =
     (case reduceSelfHandoffRequest sha entries (h_request r) of
        Inr (Some (l, _)) \<Rightarrow> h_status l \<in> {Prepared, ChildCreated, Transferred}
      | _ \<Rightarrow> True)"

definition givenAway :: "(string \<Rightarrow> string) \<Rightarrow> goal_ctx \<Rightarrow> string \<Rightarrow> bool" where
  "givenAway sha cx goalId \<longleftrightarrow> \<not> wellFormedLog sha (cx_entries cx) \<or>
     list_ex (\<lambda>r. movesGoalFrom cx goalId r \<and> childHolds sha (cx_entries cx) r)
       (sourceRecords sha (cx_entries cx))"

lemma outbound_None_owned:
  assumes "outboundGoalOwnership sha cx (Some goalId) = None"
  shows "\<not> givenAway sha cx goalId"
proof -
  have wf: "\<not> snd (inspectSelfHandoffRecords sha (cx_entries cx))"
    using assms by (auto simp: outboundGoalOwnership_def split: prod.splits if_splits)
  have "\<not> childHolds sha (cx_entries cx) r"
    if r: "r \<in> set (sourceRecords sha (cx_entries cx))" "movesGoalFrom cx goalId r" for r
  proof -
    note loop = assms [unfolded outboundGoalOwnership_def Let_def case_prod_unfold if_not_P [OF wf]]
    obtain v where v: "latestHandoffForRequest sha (cx_entries cx) (q_id (h_request r)) = Some v"
      "\<forall>l. v = Some l \<longrightarrow> h_status l \<notin> {Prepared, ChildCreated, Transferred}"
      using ownershipLoop_None [OF loop, of "q_id (h_request r)"] r
      by (auto simp: sourceRecords_def movesGoalFrom_def)
    from lookup_is_reduction [OF v(1) r(1)] v(2) show ?thesis by (auto simp: childHolds_def)
  qed
  then show ?thesis using wf by (auto simp: givenAway_def wellFormedLog_def list_ex_iff)
qed

text \<open>The session a handler sees, and the goal it starts from.\<close>

fun eventCtx :: "goal_event \<Rightarrow> goal_ctx option" where
  "eventCtx (SessionStarts cx) = Some cx"
| "eventCtx (AgentStarts _ cx) = Some cx"
| "eventCtx (ChildFails _ cx _ _ _) = Some cx"
| "eventCtx (Command _ cx _ _ _) = Some cx"
| "eventCtx (StartGoal _ cx _ _ _ _) = Some cx"
| "eventCtx (UpdateGoal _ cx _ _ _) = Some cx"
| "eventCtx (AgentEnds _ cx _) = Some cx"
| "eventCtx _ = None"

fun goalBefore :: "goal_event \<Rightarrow> goal_session \<Rightarrow> goal option" where
  "goalBefore (SessionStarts cx) s = restoreGoal (cx_branch cx)"
| "goalBefore (AgentStarts _ cx) s = restoreGoal (cx_branch cx)"
| "goalBefore (Command _ cx _ _ _) s = restoreGoal (cx_branch cx)"
| "goalBefore _ s = gs_goal s"

lemma reactivation_owned: "reactivationBlockReason sha cx i = None \<Longrightarrow> \<not> givenAway sha cx i"
  by (rule outbound_None_owned) (simp add: reactivationBlockReason_def split: option.splits)

lemma newGoal_owned: "newGoalBlockReason sha cx (Some i) = None \<Longrightarrow> \<not> givenAway sha cx i"
  by (rule outbound_None_owned) (simp add: newGoalBlockReason_def split: option.splits)

text \<open>The branches of the command, for a goal that is not active and not mid-handoff.\<close>

lemma branches_owned:
  assumes "gs_goal s = Some g0" "g_status g0 \<notin> {GActive, GTransferring}"
    "gs_goal s' = Some g" "g_status g = GActive" "g_id g0 = g_id g"
  shows "fst (pause now s) = s' \<Longrightarrow> \<not> givenAway sha cx (g_id g)"
    "fst (clear now s) = s' \<Longrightarrow> \<not> givenAway sha cx (g_id g)"
    "fst (reclaim sha now cx parent s) = s' \<Longrightarrow> \<not> givenAway sha cx (g_id g)"
    "fst (resume sha now cx s) = s' \<Longrightarrow> \<not> givenAway sha cx (g_id g)"
    "fst (startByUser sha now cx newId args s) = s' \<Longrightarrow> \<not> givenAway sha cx (g_id g)"
proof -
  show "fst (pause now s) = s' \<Longrightarrow> \<not> givenAway sha cx (g_id g)"
    using assms by (auto simp: pause_def split: if_splits)
  show "fst (clear now s) = s' \<Longrightarrow> \<not> givenAway sha cx (g_id g)"
    using assms by (auto simp: clear_def split: if_splits)
  show "fst (reclaim sha now cx parent s) = s' \<Longrightarrow> \<not> givenAway sha cx (g_id g)"
    using assms by (auto simp: reclaim_def)
  show "fst (resume sha now cx s) = s' \<Longrightarrow> \<not> givenAway sha cx (g_id g)"
    using assms reactivation_owned [of sha cx "g_id g"]
    by (auto simp: resume_def Let_def split: option.splits if_splits)
  show "fst (startByUser sha now cx newId args s) = s' \<Longrightarrow> \<not> givenAway sha cx (g_id g)"
    using assms newGoal_owned [of sha cx "g_id g"]
    by (auto simp: startByUser_def Let_def split: option.splits if_splits prod.splits)
qed

lemma tools_owned:
  assumes g0: "gs_goal s = Some g0" "g_status g0 \<noteq> GActive" "g_status g = GActive" "g_id g0 = g_id g"
  shows "gs_goal (fst (orKeep s (updateGoalTool sha now cx st nt ev s))) = Some g \<Longrightarrow> \<not> givenAway sha cx (g_id g)"
    "gs_goal (fst (orKeep s (startGoalTool sha now cx i ob mx reason s))) = Some g \<Longrightarrow> \<not> givenAway sha cx (g_id g)"
proof -
  have ne: "g0 \<noteq> g" using g0 by auto
  assume u: "gs_goal (fst (orKeep s (updateGoalTool sha now cx st nt ev s))) = Some g"
  have "g_status g0 \<notin> {GTransferring, GTransferred}"
    using u g0 ne by (auto simp: updateGoalTool_def orKeep_def)
  moreover have "st = GActive"
    using u g0 ne calculation by (cases "st = GActive") (auto simp: updateGoalTool_def orKeep_def Let_def)
  ultimately have "reactivationBlockReason sha cx (g_id g) = None"
    using u g0 ne by (cases "reactivationBlockReason sha cx (g_id g)")
      (auto simp: updateGoalTool_def orKeep_def Let_def)
  then show "\<not> givenAway sha cx (g_id g)" by (rule reactivation_owned)
next
  assume u: "gs_goal (fst (orKeep s (startGoalTool sha now cx i ob mx reason s))) = Some g"
  have "newGoalBlockReason sha cx (Some (g_id g)) = None"
    using u g0 by (cases "newGoalBlockReason sha cx (Some (g_id g))"; cases "js_trim ob = []")
      (auto simp: startGoalTool_def orKeep_def Let_def)
  then show "\<not> givenAway sha cx (g_id g)" by (rule newGoal_owned)
qed

lemma other_events_activate_nothing:
  assumes "goal_step sha e s = (s', outs)" "gs_goal s' = Some g" "g_status g = GActive"
    "e \<in> {SessionEnds} \<union> range PromptTimer \<or> (\<exists>a b. e = GateBegins a b) \<or> (\<exists>a b. e = GateRollsBack a b) \<or>
     (\<exists>now cx r i gid. e = ChildFails now cx r i gid) \<or> (\<exists>now cx m. e = AgentEnds now cx m)"
  shows "\<exists>g0. gs_goal s = Some g0 \<and> g_status g0 = GActive"
proof -
  have same: "gs_goal (fst (promptTimerFires d s)) = gs_goal s" "gs_goal (beginGate a b s) = gs_goal s"
    "gs_goal (fst (rollbackGate d a s)) = gs_goal s" "gs_goal (shutdown s) = gs_goal s" for d a b
    by (simp_all add: promptTimerFires_def beginGate_def rollbackGate_def shutdown_def Let_def split: list.splits)
  have fails: "gs_goal s = Some g" if "gs_goal (fst (childFailure sha now cx r i gid s)) = Some g" for now cx r i gid
    using that assms(3) by (auto simp: childFailure_def Let_def split: option.splits if_splits)
  have ends: "\<exists>g0. gs_goal s = Some g0 \<and> g_status g0 = GActive"
    if "gs_goal (fst (agentEndGoal sha now cx m s)) = Some g" for now cx m
    using that assms(3) by (cases "gs_goal s") (auto simp: agentEndGoal_def split: if_splits)
  from assms(4) show ?thesis
  proof (elim disjE exE)
    fix now cx r i gid assume "e = ChildFails now cx r i gid"
    then show ?thesis using assms fails [of now cx r i gid] by simp
  next
    fix now cx m assume "e = AgentEnds now cx m"
    then show ?thesis using assms ends [of now cx m] by simp
  next
    fix a b assume "e = GateRollsBack a b"
    then have "s' = fst (rollbackGate a b s)" using assms(1) by simp
    then show ?thesis using assms(2,3) same(3) by simp
  next
    fix a b assume "e = GateBegins a b"
    then have "s' = beginGate a b s" using assms(1) by simp
    then show ?thesis using assms(2,3) same(2) by simp
  next
    assume "e \<in> {SessionEnds} \<union> range PromptTimer"
    then have "gs_goal s = gs_goal s'" using assms(1) same(1,4) by (auto, metis fst_conv)
    then show ?thesis using assms(2,3) by simp
  qed
qed

text \<open>C13. Only the owner drives a goal: when an agent run starts with an active goal, or a goal that was neither
  active nor mid-handoff becomes active, every handoff of this session that moved the goal has ended
  without the child holding it.\<close>

theorem goal_is_driven_by_its_owner:
  assumes "goal_step sha e s = (s', outs)" "gs_goal s' = Some g" "g_status g = GActive"
    and "(\<exists>now cx. e = AgentStarts now cx) \<or>
      (\<exists>g0. goalBefore e s = Some g0 \<and> g_id g0 = g_id g \<and> g_status g0 \<notin> {GActive, GTransferring})"
  shows "\<exists>cx. eventCtx e = Some cx \<and> \<not> givenAway sha cx (g_id g)"
proof (cases e)
  case (AgentStarts now cx)
  then have "beforeAgent sha now cx s = (s', outs)" using assms(1) by simp
  then have "reactivationBlockReason sha cx (g_id g) = None"
    using assms(2,3) by (auto simp: beforeAgent_def Let_def split: option.splits if_splits)
  then show ?thesis using AgentStarts reactivation_owned by simp
next
  case (Command now cx parent newId args)
  let ?s = "s\<lparr>gs_goal := restoreGoal (cx_branch cx)\<rparr>"
  obtain g0 where g0: "gs_goal ?s = Some g0" "g_id g0 = g_id g" "g_status g0 \<notin> {GActive, GTransferring}"
    using assms(4) Command by auto
  have "fst (goalCommand sha now cx parent newId args s) = s'" using assms(1) Command by simp
  moreover have "s' \<noteq> ?s" using g0 assms(2,3) by auto
  ultimately show ?thesis
    using branches_owned [OF g0(1,3) assms(2,3) g0(2)] Command
    by (auto simp: goalCommand_def Let_def split: if_splits)
next
  case (UpdateGoal now cx st nt ev)
  obtain g0 where g0: "gs_goal s = Some g0" "g_id g0 = g_id g" "g_status g0 \<noteq> GActive"
    using assms(4) UpdateGoal by auto
  have "gs_goal (fst (orKeep s (updateGoalTool sha now cx st nt ev s))) = Some g"
    using assms(1,2) UpdateGoal by simp
  from tools_owned(1) [OF g0(1,3) assms(3) g0(2) this] show ?thesis using UpdateGoal by simp
next
  case (StartGoal now cx i ob mx reason)
  obtain g0 where g0: "gs_goal s = Some g0" "g_id g0 = g_id g" "g_status g0 \<noteq> GActive"
    using assms(4) StartGoal by auto
  have "gs_goal (fst (orKeep s (startGoalTool sha now cx i ob mx reason s))) = Some g"
    using assms(1,2) StartGoal by simp
  from tools_owned(2) [OF g0(1,3) assms(3) g0(2) this] show ?thesis using StartGoal by simp
next
  case (SessionStarts cx)
  then show ?thesis using assms by (auto simp: startSession_def)
qed (use assms other_events_activate_nothing [OF assms(1-3)] in auto)

section \<open>Reclaiming\<close>

lemma parseRequest_ok:
  assumes "parseRequest v = Some q"
  shows "request_ok q"
proof -
  have goal: "(if q_goalTransferred q then (case q_goalId q of None \<Rightarrow> False | Some g \<Rightarrow> g \<noteq> []) else q_goalId q = None)"
    using assms unfolding parseRequest_def Let_def bind_eq_Some_conv
    by (elim exE conjE, simp only: require_Some option.inject, hypsubst)
      (auto simp: nonempty_str_def split: if_splits option.splits)
  have hash: "case q_kickoffHash q of None \<Rightarrow> True | Some h \<Rightarrow> is_sha_hex h"
    using assms unfolding parseRequest_def Let_def bind_eq_Some_conv
    by (elim exE conjE, simp only: require_Some option.inject, hypsubst) (auto simp: optional_def split: option.splits)
  have "q_id q \<noteq> []" "q_originSessionId q \<noteq> []" "q_originSessionFile q \<noteq> []" "16 \<le> length (q_contextNonce q)"
    using assms unfolding parseRequest_def Let_def bind_eq_Some_conv
    by (elim exE conjE, simp only: require_Some option.inject, hypsubst, simp)+
  then show ?thesis using goal hash by (simp add: request_ok_def)
qed

lemma parse_parts:
  assumes "parseSelfHandoffRecord sha v = Some r"
  shows "parseRequest (get v ''request'') = Some (h_request r)"
    "h_targetSessionFile r \<noteq> Some []" "h_targetSessionId r \<noteq> Some []"
  using assms unfolding parseSelfHandoffRecord_def Let_def bind_eq_Some_conv
  by (elim exE conjE, simp only: require_Some option.inject, hypsubst, simp add: optional_def nonempty_str_def
      split: option.splits, fastforce?)+

text \<open>A record of a log, reduced or found, was parsed.\<close>

lemma source_parsed:
  "r \<in> set (sourceRecords sha es) \<Longrightarrow> \<exists>v. parseSelfHandoffRecord sha v = Some r"
  by (auto simp: sourceRecords_def inspectSelfHandoffRecords_def Let_def List.map_filter_def)

lemma reclaimAudit_ok:
  assumes "r \<in> set (sourceRecords sha es)"
  shows "handoff_ok sha (reclaimAudit now r)"
    "h_targetSessionFile (reclaimAudit now r) = h_targetSessionFile r"
    "h_targetSessionId (reclaimAudit now r) = h_targetSessionId r"
proof -
  obtain v where v: "parseSelfHandoffRecord sha v = Some r" using source_parsed [OF assms] by blast
  note p = parse_parts [OF v] parse_paired [OF v]
  then show f: "h_targetSessionFile (reclaimAudit now r) = h_targetSessionFile r"
    and i: "h_targetSessionId (reclaimAudit now r) = h_targetSessionId r"
    by (auto simp: reclaimAudit_def makeHandoffRecord_def paired_def split: option.splits)
  show "handoff_ok sha (reclaimAudit now r)"
    using p parseRequest_ok [OF p(1)] f i
    by (simp add: handoff_ok_def paired_def) (simp add: reclaimAudit_def makeHandoffRecord_def)
qed

lemma audit_ends_request:
  assumes red: "reduceSelfHandoffRequest sha es q = Inr (Some (h, i))" and h: "auditPending h"
    and src: "h \<in> set (sourceRecords sha es)" and req: "h_request h = q"
  shows "reduceSelfHandoffRequest sha (es @ [handoffEntry (reclaimAudit now h)]) q = Inr (Some (reclaimAudit now h, None))"
proof -
  let ?a = "reclaimAudit now h" and ?t = "requestTrail sha es q"
  note ok = reclaimAudit_ok [OF src, of now]
  have areq: "h_request ?a = q" and ast: "h_status ?a = Failed"
    using req by (simp_all add: reclaimAudit_def makeHandoffRecord_def)
  have ins: "inspectSelfHandoffRecords sha [handoffEntry ?a] = ([(?a, None)], False)"
    using inspect_written [of sha "[?a]"] ok(1) by simp
  then have one: "requestTrail sha [handoffEntry ?a] q = [(?a, None)]"
    using areq by (simp add: requestTrail_def trail_def)
  have t: "wellFormedLog sha es" "consistent q (map fst ?t)" "?t \<noteq> []" "last ?t = (h, i)"
    using red by (auto simp: reduce_iff split: if_splits)
  have "follows h ?a" using h ok ast by (auto simp: follows_def auditPending_def)
  then have "consistent q (map fst ?t @ [?a])"
    using t areq by (simp add: consistent_def successively_append_iff last_map)
  then show ?thesis
    using t(1,3) ins by (simp add: reduce_iff requestTrail_append one wellFormedLog_def inspect_append)
qed

lemma reduced_is_source:
  assumes "reduceSelfHandoffRequest sha es q = Inr (Some (h, i))"
  shows "h \<in> set (sourceRecords sha es) \<and> h_request h = q"
proof -
  have t: "consistent q (map fst (requestTrail sha es q))" "last (requestTrail sha es q) = (h, i)" "requestTrail sha es q \<noteq> []"
    using assms by (auto simp: reduce_iff split: if_splits)
  then have "(h, i) \<in> set (requestTrail sha es q)" by (metis last_in_set)
  then show ?thesis using t(1)
    by (force simp: requestTrail_def trail_def sourceRecords_def consistent_def list_all_iff)
qed

lemma latest_is_reduction:
  assumes "latestHandoffForRequest sha es rid = Some (Some h)"
  shows "\<exists>i. reduceSelfHandoffRequest sha es (h_request h) = Inr (Some (h, i))"
proof -
  have "\<exists>(c :: handoff) i. reduceSelfHandoffRequest sha es (h_request c) = Inr (Some (h, i))"
    using assms by (auto simp: latestHandoffForRequest_def Let_def split: prod.splits if_splits option.splits sum.splits)
  then obtain c :: handoff and i where "reduceSelfHandoffRequest sha es (h_request c) = Inr (Some (h, i))" by blast
  with reduced_is_source [OF this] show ?thesis by auto
qed

definition reclaimLog :: "rat \<Rightarrow> persisted \<Rightarrow> handoff \<Rightarrow> entry list" where
  "reclaimLog now pr h = pr_entries pr @ (if auditPending h then [handoffEntry (reclaimAudit now h)] else [])"

lemma reclaimable_reduces:
  assumes "reclaimable sha cx pr g = Some h"
  shows "\<exists>l i. reduceSelfHandoffRequest sha (reclaimLog now pr h) (h_request h) = Inr (Some (l, i)) \<and> h_status l = Failed"
proof -
  have h: "\<exists>rid. latestHandoffForRequest sha (pr_entries pr) rid = Some (Some h)" "auditPending h \<or> auditCommitted h"
    using assms by (auto simp: reclaimable_def Let_def split: if_splits option.splits)
  then obtain i where i: "reduceSelfHandoffRequest sha (pr_entries pr) (h_request h) = Inr (Some (h, i))"
    using latest_is_reduction by blast
  show ?thesis
  proof (cases "auditPending h")
    case True
    with audit_ends_request [OF i True _ refl, of now] reduced_is_source [OF i] show ?thesis
      by (auto simp: reclaimLog_def reclaimAudit_def makeHandoffRecord_def)
  next
    case False
    then show ?thesis using i h(2) by (auto simp: reclaimLog_def auditCommitted_def)
  qed
qed

text \<open>Reclaiming a goal revokes the handoff: when a goal that was mid-handoff becomes active again, the
  audit records of the parent with what the reclaim appended reduce to a failed handoff, and so
  does every extension of them that has no conflict, so no later record can hand the goal over.\<close>

theorem reclaim_revokes_the_child:
  assumes "goal_step sha (Command now cx parent newId args) s = (s', outs)"
    and "restoreGoal (cx_branch cx) = Some g" "g_status g = GTransferring"
    and "gs_goal s' = Some g'" "g_status g' = GActive"
    and "map lower (takeWhile (Not \<circ> is_ws) (js_trim args)) = ''reclaim''"
  shows "\<exists>pr h. parent = Some pr \<and> g_handoffId g = Some (q_id (h_request h)) \<and>
    filter (\<lambda>x. x \<noteq> Saved (Some g')) outs = (if auditPending h then [AuditAppended (reclaimAudit now h)] else []) \<and>
    (\<forall>later x. reduceSelfHandoffRequest sha (reclaimLog now pr h @ later) (h_request h) = Inr x \<longrightarrow>
       (\<exists>l i. x = Some (l, i) \<and> h_status l = Failed))"
proof -
  let ?s = "s\<lparr>gs_goal := restoreGoal (cx_branch cx)\<rparr>"
  have ne: "js_trim args \<noteq> []" using assms(6) by auto
  have "goalCommand sha now cx parent newId args s = reclaim sha now cx parent ?s"
  proof (cases "heldForOrientation sha cx (Some (g_id g))")
    case True
    then have "fst (goalCommand sha now cx parent newId args s) = ?s"
      using assms(2,6) ne by (simp add: goalCommand_def Let_def)
    then show ?thesis using assms by simp
  qed (use assms(2,6) ne in \<open>simp add: goalCommand_def Let_def\<close>)
  then have rc: "reclaim sha now cx parent ?s = (s', outs)" using assms(1) by simp
  obtain pr h where pr: "parent = Some pr" "reclaimable sha cx pr g = Some h"
    and outs: "outs = (if auditPending h then [AuditAppended (reclaimAudit now h)] else []) @ [Saved (Some g')]"
    using rc assms(2-5) by (auto simp: reclaim_def Let_def bind_eq_Some_conv split: if_splits option.splits)
  obtain l i where l: "reduceSelfHandoffRequest sha (reclaimLog now pr h) (h_request h) = Inr (Some (l, i))"
    "h_status l = Failed" using reclaimable_reduces [OF pr(2)] by blast
  have "\<exists>l' i'. x = Some (l', i') \<and> h_status l' = Failed"
    if "reduceSelfHandoffRequest sha (reclaimLog now pr h @ later) (h_request h) = Inr x" for later x
    using ended_stays_ended [OF l(1) _ that] l(2) by auto
  moreover have "g_handoffId g = Some (q_id (h_request h))"
    using pr(2) by (auto simp: reclaimable_def Let_def split: if_splits option.splits)
  ultimately show ?thesis using pr(1) outs by auto
qed

section \<open>The log of the session holds the goal\<close>

fun appendedEntry :: "goal_output \<Rightarrow> entry option" where
  "appendedEntry (Saved g) = Some (goalEntry g)"
| "appendedEntry (AuditAppended h) = Some (handoffEntry h)"
| "appendedEntry _ = None"

definition appended :: "goal_output list \<Rightarrow> entry list" where
  "appended outs = List.map_filter appendedEntry outs"

fun lastSaved :: "goal option \<Rightarrow> goal_output list \<Rightarrow> goal option" where
  "lastSaved g [] = g"
| "lastSaved g (Saved x # outs) = lastSaved x outs"
| "lastSaved g (_ # outs) = lastSaved g outs"

lemma restoreGoal_goalEntry: "restoreGoal (es @ [goalEntry g]) = g"
proof (cases g)
  case (Some a)
  obtain kvs where "goalJson a = JObj kvs" by (simp add: goalJson_def obj_def)
  then show ?thesis using Some readGoal_goalJson [of a]
    by (simp add: restoreGoal_def latest_append goalEntry_def)
qed (simp add: restoreGoal_def latest_append goalEntry_def)

lemma restoreGoal_handoffEntry: "restoreGoal (es @ [handoffEntry h]) = restoreGoal es"
  by (simp add: restoreGoal_def latest_append handoffEntry_def SELF_HANDOFF_STATE_TYPE_def GOAL_STATE_TYPE_def)

lemma restore_appended: "restoreGoal (es @ appended outs) = lastSaved (restoreGoal es) outs"
proof (induction outs arbitrary: es)
  case (Cons x outs)
  show ?case
  proof (cases x)
    case (Saved g)
    then show ?thesis using Cons.IH [of "es @ [goalEntry g]"]
      by (simp add: appended_def List.map_filter_simps restoreGoal_goalEntry)
  next
    case (AuditAppended h)
    then show ?thesis using Cons.IH [of "es @ [handoffEntry h]"]
      by (simp add: appended_def List.map_filter_simps restoreGoal_handoffEntry)
  qed (use Cons.IH [of es] in \<open>simp_all add: appended_def List.map_filter_simps\<close>)
qed (simp add: appended_def List.map_filter_simps)

text \<open>A handler leaves in the state what it saved last.\<close>

definition keeps_log :: "goal option \<Rightarrow> goal_session \<times> goal_output list \<Rightarrow> bool" where
  "keeps_log g r \<longleftrightarrow> lastSaved g (snd r) = gs_goal (fst r)"

lemma turns_keep_log:
  "keeps_log g (stalledTurn now what nudge x s)" "keeps_log g (productiveTurn now x s)"
  by (simp_all add: keeps_log_def stalledTurn_def productiveTurn_def Let_def)

lemma handlers_keep_log:
  "keeps_log (gs_goal s) (agentEndGoal sha now cx m s)"
  "keeps_log (restoreGoal (cx_branch cx)) (beforeAgent sha now cx s)"
  "keeps_log (gs_goal s) (childFailure sha now cx r sid gid s)"
  "keeps_log (gs_goal s) (orKeep s (startGoalTool sha now cx i ob mx reason s))"
  "keeps_log (gs_goal s) (orKeep s (updateGoalTool sha now cx st nt ev s))"
  "keeps_log (gs_goal s) (promptTimerFires delivers s)"
  "keeps_log (gs_goal s) (rollbackGate delivers a s)"
proof -
  show "keeps_log (gs_goal s) (agentEndGoal sha now cx m s)"
    using turns_keep_log [of "gs_goal s"]
    by (cases "gs_goal s") (simp_all add: agentEndGoal_def Let_def, simp_all add: keeps_log_def)
qed (auto simp: keeps_log_def beforeAgent_def childFailure_def orKeep_def startGoalTool_def updateGoalTool_def
      promptTimerFires_def rollbackGate_def sendGoalPrompt_def Let_def split: option.splits list.splits)

lemma commands_keep_log:
  "keeps_log (gs_goal s) (pause now s)" "keeps_log (gs_goal s) (clear now s)"
  "keeps_log (gs_goal s) (resume sha now cx s)" "keeps_log (gs_goal s) (reclaim sha now cx parent s)"
  "keeps_log (gs_goal s) (startByUser sha now cx newId args s)"
  by (auto simp: keeps_log_def pause_def clear_def resume_def reclaim_def startByUser_def Let_def
      split: option.splits prod.splits)

lemma command_keeps_log: "keeps_log (restoreGoal (cx_branch cx)) (goalCommand sha now cx parent newId args s)"
  using commands_keep_log [where s = "s\<lparr>gs_goal := restoreGoal (cx_branch cx)\<rparr>"]
  by (simp add: goalCommand_def Let_def) (simp add: keeps_log_def)

text \<open>The log of the session always holds the goal: when reading the branch gives the goal in memory, then
  after any handler, reading the branch with what the handler appended gives the goal then in memory.\<close>

theorem goal_state_is_durable:
  assumes "goal_step sha e s = (s', outs)" "restoreGoal branch = gs_goal s"
    and "eventCtx e = None \<or> (\<exists>cx. eventCtx e = Some cx \<and> cx_branch cx = branch)"
  shows "restoreGoal (branch @ appended outs) = gs_goal s'"
proof -
  have keeps: "lastSaved (gs_goal s) outs = gs_goal s'" if "keeps_log (gs_goal s) (goal_step sha e s)"
    using that assms(1) by (simp add: keeps_log_def)
  have "keeps_log (gs_goal s) (goal_step sha e s)"
  proof (cases e)
    case (Command now cx parent newId args)
    then show ?thesis using command_keeps_log [of cx] assms(2,3) by simp
  next
    case (AgentStarts now cx)
    then show ?thesis using handlers_keep_log(2) [of cx] assms(2,3) by simp
  next
    case (SessionStarts cx)
    then show ?thesis using assms(2,3) by (simp add: keeps_log_def startSession_def)
  qed (simp_all add: handlers_keep_log, simp_all add: keeps_log_def shutdown_def beginGate_def)
  with keeps show ?thesis by (simp add: restore_appended assms(2))
qed

section \<open>Goals that a handoff takes over\<close>

definition storable :: "goal \<Rightarrow> bool" where
  "storable g \<longleftrightarrow> g_id g \<noteq> [] \<and> g_objective g \<noteq> [] \<and> 0 \<le> g_turnsCompleted g \<and> 1 \<le> g_maxTurns g \<and>
     0 \<le> streakOf g \<and> g_handoffId g \<noteq> Some [] \<and> g_handoffTargetSessionFile g \<noteq> Some [] \<and>
     (g_status g \<in> {GTransferring, GTransferred} \<longrightarrow> g_handoffId g \<noteq> None) \<and>
     (g_status g = GTransferred \<longrightarrow> g_handoffTargetSessionFile g \<noteq> None)"

lemma goalStatusText_in: "goalStatusText st \<in> set goal_statuses"
  by (cases st) (simp_all add: goal_statuses_def)

lemma goalStatusText_eq:
  "goalStatusText st = ''transferring'' \<longleftrightarrow> st = GTransferring" "goalStatusText st = ''transferred'' \<longleftrightarrow> st = GTransferred"
  by (cases st; simp)+

lemma validGoalLog_logJson: "validGoalLog (Some (logJson l))"
proof -
  have "get (Some (logJson l)) ''timestamp'' = Some (JNum (Fin (gl_timestamp l)))"
    "get (Some (logJson l)) ''status'' = Some (JStr (goalStatusText (gl_status l)))"
    "get (Some (logJson l)) ''note'' = Some (JStr (gl_note l))"
    "get (Some (logJson l)) ''evidence'' = map_option JStr (gl_evidence l)" "isRecord (Some (logJson l))"
    by (simp_all add: logJson_def get_obj_Cons get_obj_Nil)
  then show ?thesis
    using goalStatusText_in [of "gl_status l"]
    by (cases "gl_evidence l") (simp_all add: validGoalLog_def is_finite_def is_str_def status_in_def optional_def)
qed

lemma validGoal_goalJson: "validGoal (Some (goalJson g)) \<longleftrightarrow> storable g \<and> g_turnsCompleted g \<le> g_maxTurns g"
proof -
  have "every validGoalLog (Some (JArr (map logJson (g_progressLog g))))"
    by (simp add: every_def list_all_iff validGoalLog_logJson)
  moreover have "isRecord (Some (goalJson g))" by (simp add: goalJson_def)
  moreover have "optional is_finite (map_option numJson v)" "optional isBool (map_option JBool b)"
    "is_finite (Some (numJson r))" for v b r
    by (cases v; simp add: optional_def is_finite_def numJson_def) (cases b; simp add: optional_def is_finite_def numJson_def)+
  moreover have "optional (int_at_least 0) (map_option intJson (g_emptyStopStreak g)) \<longleftrightarrow> 0 \<le> streakOf g"
    by (cases "g_emptyStopStreak g") (simp_all add: optional_def int_at_least_def streakOf_def intJson_def)
  moreover have "int_at_least n (Some (intJson i)) \<longleftrightarrow> n \<le> i" for n i
    by (simp add: int_at_least_def)
  moreover have "turns_within (Some (intJson i)) (Some (intJson j)) \<longleftrightarrow> i \<le> j" for i j
    by (simp add: turns_within_def)
  moreover have "status_in xs (Some (JStr t)) \<longleftrightarrow> t \<in> set xs" for xs t by (simp add: status_in_def)
  moreover have "is_str (map_option JStr v) \<longleftrightarrow> v \<noteq> None" "optional nonempty_str (map_option JStr v) \<longleftrightarrow> v \<noteq> Some []" for v
    by (simp_all add: optional_opt)
  moreover have "nonempty_str (Some (JStr t)) \<longleftrightarrow> t \<noteq> []" for t by (simp add: nonempty_str_def)
  ultimately show ?thesis
    using goalStatusText_in [of "g_status g"]
    unfolding validGoal_def goalJson_fields storable_def
    by (simp add: goalStatusText_eq) blast
qed

lemma carried_goal:
  "latestGoalState (es @ [goalEntry (Some g)]) =
     (if storable g \<and> g_turnsCompleted g \<le> g_maxTurns g then Some (goalJson g) else None) \<and>
   tr_goal (collectTransferState (es @ [goalEntry (Some g)])) =
     (if storable g \<and> g_turnsCompleted g \<le> g_maxTurns g \<and> g_status g = GActive then Some (goalJson g) else None)"
proof -
  have l: "latestGoalState (es @ [goalEntry (Some g)]) =
     (if storable g \<and> g_turnsCompleted g \<le> g_maxTurns g then Some (goalJson g) else None)"
    using validGoal_goalJson [of g] by (simp add: goalEntry_def)
  have "jIsStr (get (Some (goalJson g)) ''status'') ''active'' \<longleftrightarrow> g_status g = GActive"
    unfolding goalJson_fields by (cases "g_status g") simp_all
  then show ?thesis by (auto simp: collectTransferState_def Let_def l)
qed

text \<open>A saved goal is what a handoff reads back exactly when it is well formed and has not used more
  turns than its budget; an active one is then carried over.\<close>

theorem saved_goal_is_carried_within_budget:
  "latestGoalState (es @ [goalEntry (Some g)]) =
     (if storable g \<and> g_turnsCompleted g \<le> g_maxTurns g then Some (goalJson g) else None) \<and>
   tr_goal (collectTransferState (es @ [goalEntry (Some g)])) =
     (if storable g \<and> g_turnsCompleted g \<le> g_maxTurns g \<and> g_status g = GActive then Some (goalJson g) else None)"
  by (rule carried_goal)

text \<open>C31. A turn that ends without text and tool calls skips the budget check: a goal that has used its whole
  budget stays active, is prompted again, and the handoff that starts now carries no goal over.\<close>

theorem overrun_goal_is_lost:
  assumes "gs_goal s = Some g" "g_status g = GActive" "g_maxTurns g \<le> g_turnsCompleted g"
    and "\<not> heldForOrientation sha cx (Some (g_id g))"
    and "isEmptyStop (latestAssistantMessage messages)" "streakOf g < 2"
    and "goal_step sha (AgentEnds now cx messages) s = (s', outs)"
  shows "\<exists>g'. gs_goal s' = Some g' \<and> g_status g' = GActive \<and> g_id g' = g_id g \<and>
    gs_timers s' = gs_timers s @ [EmptyStopNudge g' (streakOf g + 1)] \<and>
    tr_goal (collectTransferState (es @ appended outs)) = None"
proof -
  let ?m = "latestAssistantMessage messages"
  define g' where "g' = g\<lparr>g_turnsCompleted := g_turnsCompleted g + 1, g_updatedAt := now,
    g_emptyStopStreak := Some (streakOf g + 1)\<rparr>"
  have na: "\<not> jIsStr (get ?m ''stopReason'') ''aborted''" using assms(5) by (auto simp: isEmptyStop_def)
  have st: "streakOf (g\<lparr>g_turnsCompleted := g_turnsCompleted g + 1, g_updatedAt := now\<rparr>) = streakOf g"
    by (simp add: streakOf_def)
  have r: "s' = queueGoalPrompt (EmptyStopNudge g' (streakOf g + 1)) (s\<lparr>gs_goal := Some g'\<rparr>)" "outs = [Saved (Some g')]"
    using assms na by (auto simp: agentEndGoal_def stalledTurn_def Let_def MAX_EMPTY_STOP_RETRIES_def st g'_def)
  have "g_maxTurns g' < g_turnsCompleted g'" using assms(3) by (simp add: g'_def)
  then have "tr_goal (collectTransferState (es @ appended outs)) = None"
    using carried_goal [of es g'] by (simp add: r(2) appended_def List.map_filter_simps)
  then show ?thesis using assms(2) unfolding r(1) by (intro exI [of _ g']) (simp add: g'_def)
qed

section \<open>Arguments that are read as written\<close>

definition plain_word :: "string \<Rightarrow> bool" where
  "plain_word w \<longleftrightarrow> w \<noteq> [] \<and> list_all (\<lambda>c. \<not> is_ws c \<and> \<not> is_quote c) w"

lemma tokenize_word:
  "list_all (\<lambda>c. \<not> is_ws c \<and> \<not> is_quote c) w \<Longrightarrow> tokenize (w @ s) acc = tokenize s (acc @ w)"
  by (induction w arbitrary: acc) simp_all

lemma tokenize_words:
  "list_all plain_word ws \<Longrightarrow> tokenize (joinWith '' '' ws) [] = ws"
proof (induction ws rule: induct_list012)
  case (2 w)
  then show ?case using tokenize_word [of w "[]" "[]"] by (simp add: plain_word_def emitToken_def)
next
  case (3 w v ws)
  have "tokenize (w @ '' '' @ joinWith '' '' (v # ws)) [] = w # v # ws"
    using 3 by (subst tokenize_word) (auto simp: plain_word_def emitToken_def is_ws_def)
  then show ?case by simp
qed (simp add: emitToken_def)

definition not_option :: "string \<Rightarrow> bool" where
  "not_option w \<longleftrightarrow> w \<noteq> ''--max-turns'' \<and> w \<noteq> ''--turns'' \<and> take 12 w \<noteq> ''--max-turns=''"

lemma unquote_plain: "plain_word w \<Longrightarrow> unquote w = w"
  by (auto simp: unquote_def plain_word_def list_all_iff)

lemma startArgs_words:
  "list_all plain_word ws \<Longrightarrow> list_all not_option ws \<Longrightarrow>
     startArgsLoop (ws @ [''--max-turns'', v]) mx parts = (parts @ ws, turnsFrom (jsNumber v) mx)"
proof (induction ws arbitrary: parts)
  case (Cons w ws)
  obtain x xs where "ws @ [''--max-turns'', v] = x # xs" by (cases ws) auto
  then show ?case using Cons by (auto simp: not_option_def unquote_plain)
qed simp

lemma joinWith_ends:
  "list_all plain_word ws \<Longrightarrow> ws \<noteq> [] \<Longrightarrow>
     joinWith '' '' ws \<noteq> [] \<and> hd (joinWith '' '' ws) = hd (hd ws) \<and> last (joinWith '' '' ws) = last (last ws)"
  by (induction ws rule: induct_list012) (auto simp: plain_word_def)

lemma trim_words:
  assumes "list_all plain_word ws"
  shows "js_trim (joinWith '' '' ws) = joinWith '' '' ws"
proof (cases "ws = []")
  case False
  then have "plain_word (hd ws)" "plain_word (last ws)" using assms by (auto simp: list_all_iff)
  then have "\<not> is_ws (hd (hd ws))" "\<not> is_ws (last (last ws))"
    by (auto simp: plain_word_def list_all_iff)
  then show ?thesis using joinWith_ends [OF assms False] by (intro js_trim_fixed) auto
qed (simp add: js_trim_def)

text \<open>The decimal text of a number.\<close>

lemma digit_char:
  assumes "d < 10"
  shows "is_digit (char_of (48 + d))" "digitValue (char_of (48 + d)) = Some d"
  using assms by (simp_all add: is_digit_def digitValue_def Let_def)

lemma digitsFrom_append:
  "digitsFrom b acc (s @ t) = Option.bind (digitsFrom b acc s) (\<lambda>a. digitsFrom b a t)"
  by (induction s arbitrary: acc) (auto split: option.splits)

lemma digitsFrom_natText: "digitsFrom 10 0 (natText n) = Some n"
proof (induction n rule: natText.induct)
  case (1 n)
  show ?case
  proof (cases "n < 10")
    case True
    then show ?thesis by (subst natText.simps) (simp add: digit_char)
  next
    case False
    then have "digitsFrom 10 0 (natText (n div 10)) = Some (n div 10)" using 1 by simp
    then show ?thesis using False by (subst natText.simps) (simp add: digitsFrom_append digit_char)
  qed
qed

lemma digit_no_ws: "is_digit c \<Longrightarrow> \<not> is_ws c \<and> \<not> is_quote c \<and> c \<noteq> CHR ''-'' \<and> c \<noteq> CHR ''+'' \<and> c \<noteq> CHR ''I''"
  by (auto simp: is_digit_def is_ws_def is_quote_def Let_def)

lemma digit_lower: "is_digit c \<Longrightarrow> is_digit (lower c)"
  by (simp add: is_digit_def lower_def Let_def)

lemma plain_natText: "plain_word (natText n)"
  using natText_digits [of n] by (auto simp: plain_word_def list_all_iff dest: digit_no_ws)

lemma radix_natText: "map lower (take 2 (natText n)) \<notin> {''0x'', ''0o'', ''0b''}"
proof -
  have "list_all is_digit (map lower (take 2 (natText n)))"
    using natText_digits [of n] by (auto simp: list_all_iff dest!: in_set_takeD intro!: digit_lower)
  then show ?thesis by (auto simp: is_digit_def Let_def)
qed

lemma jsNumber_natText:
  assumes "n < 2 ^ 1024 - 2 ^ 970"
  shows "jsNumber (natText n) = Fin (of_nat n)"
proof -
  note ds = natText_digits [of n]
  have hd: "is_digit (hd (natText n))" using ds by (cases "natText n") auto
  have trim: "js_trim (natText n) = natText n"
    using ds by (intro js_trim_no_ws) (auto simp: list_all_iff dest: digit_no_ws)
  have tw: "takeWhile is_digit (natText n) = natText n" "dropWhile is_digit (natText n) = []"
    using ds by (auto simp: list_all_iff takeWhile_eq_all_conv)
  have u: "unsignedDecimal (natText n) = Some (of_nat n)"
    using ds by (simp add: unsignedDecimal_def tw digits_def digitsFrom_natText exponentOf_def scale10_def)
  have "natText n \<noteq> ''Infinity''" using digit_no_ws [OF hd] by auto
  moreover have "toDouble (of_nat n) = Fin (of_nat n)"
  proof -
    have "(of_nat n :: rat) < of_nat (2 ^ 1024 - 2 ^ 970)" using assms by (simp only: of_nat_less_iff)
    also have "\<dots> = 2 ^ 1024 - 2 ^ 970" by (subst of_nat_diff) simp_all
    finally have "\<not> 2 ^ 1024 - 2 ^ 970 \<le> (of_nat n :: rat)" by (simp only: not_le)
    moreover have "\<not> (of_nat n :: rat) \<le> 2 ^ 970 - 2 ^ 1024"
    proof -
      have "(2 :: rat) ^ 970 - 2 ^ 1024 < 0" by simp
      also have "0 \<le> (of_nat n :: rat)" by simp
      finally show ?thesis by (simp only: not_le)
    qed
    ultimately show ?thesis by (simp only: toDouble_def if_False)
  qed
  ultimately have "decimalNumber 1 (natText n) = Fin (of_nat n)"
    by (simp only: decimalNumber_def u if_False option.case mult_1)
  then show ?thesis
    using ds digit_no_ws [OF hd] radix_natText [of n] by (simp add: jsNumber_def trim Let_def)
qed

text \<open>The command reads its arguments as they are written: plain words followed by \<open>--max-turns\<close> and a
  positive decimal number give the words, separated by single spaces, and the number.\<close>

theorem start_args_roundtrip:
  assumes "list_all plain_word ws" "list_all not_option ws" "0 < n" "n < 2 ^ 1024 - 2 ^ 970"
  shows "parseStartArgs (joinWith '' '' (ws @ [''--max-turns'', natText n])) = (joinWith '' '' ws, int n)"
proof -
  have "plain_word ''--max-turns''" by (simp add: plain_word_def is_ws_def is_quote_def)
  then have "tokenize (joinWith '' '' (ws @ [''--max-turns'', natText n])) [] = ws @ [''--max-turns'', natText n]"
    using assms(1) plain_natText by (intro tokenize_words) simp
  moreover have "turnsFrom (jsNumber (natText n)) DEFAULT_MAX_TURNS = int n"
    using assms(3) by (simp add: jsNumber_natText [OF assms(4)])
  ultimately show ?thesis
    using startArgs_words [OF assms(1,2)] trim_words [OF assms(1)] by (simp add: parseStartArgs_def)
qed

section \<open>Concrete instances\<close>

definition emptyCtx :: goal_ctx where
  "emptyCtx = \<lparr>cx_entries = [], cx_branch = [], cx_sessionId = ''p'', cx_sessionFile = Some ''pf'', cx_leafId = Some ''l''\<rparr>"

definition oneTurnGoal :: goal where
  "oneTurnGoal = createGoal 0 ''g'' ''ship'' 1 ''Goal created by user.''"

definition silentAnswer :: jsval where
  "silentAnswer = Some (JArr [obj [(''role'', Some (JStr ''assistant'')), (''stopReason'', Some (JStr ''stop'')),
     (''content'', Some (JArr []))]])"

definition goalSession :: "goal \<Rightarrow> goal_session" where
  "goalSession g = initialGoalSession\<lparr>gs_goal := Some g\<rparr>"

lemma emptyCtx_simps [simp]:
  "cx_entries emptyCtx = []" "cx_branch emptyCtx = []" "\<not> heldForOrientation sha emptyCtx i"
  by (simp_all add: emptyCtx_def heldForOrientation_def inspectChildHandoffOrientation_def
      inspectSelfHandoffRecords_def List.map_filter_def)

lemma inspect_Nil [simp]: "inspectSelfHandoffRecords sha [] = ([], False)"
  by (simp add: inspectSelfHandoffRecords_def List.map_filter_def)

lemma goalSession_simps [simp]: "gs_goal (goalSession g) = Some g" "gs_timers (goalSession g) = []"
  by (simp_all add: goalSession_def initialGoalSession_def)

lemma silentAnswer_empty [simp]: "isEmptyStop (latestAssistantMessage silentAnswer)"
  by (simp add: silentAnswer_def latestAssistantMessage_def arrOf_def isEmptyStop_def get_obj_Cons get_obj_Nil)

text \<open>The model answers nothing, the goal stalls; it reactivates the goal and is silent again.\<close>

definition silentRun :: "goal_event list" where
  "silentRun = [PromptTimer True, AgentEnds 5 emptyCtx silentAnswer, PromptTimer True, AgentEnds 6 emptyCtx silentAnswer,
     PromptTimer True, AgentEnds 7 emptyCtx silentAnswer, UpdateGoal 8 emptyCtx GActive ''again'' None]"

definition freshSession :: goal_session where
  "freshSession = (goalSession oneTurnGoal)\<lparr>gs_timers := [Continuation 1 oneTurnGoal]\<rparr>"

lemma silentAnswer_stop [simp]: "get (latestAssistantMessage silentAnswer) ''stopReason'' = Some (JStr ''stop'')"
  using silentAnswer_empty by (simp add: isEmptyStop_def del: silentAnswer_empty)

theorem autopilot_is_bounded_witness:
  "unattended (\<lambda>x. x) 0 silentRun freshSession \<and> length (filter isAgentEnd silentRun) = 3 \<and>
   promptsSent (snd (goal_run (\<lambda>x. x) silentRun freshSession)) \<le> 4"
proof -
  have fresh: "gs_goal freshSession = Some (createGoal 0 ''g'' ''ship'' 1 ''Goal created by user.'')"
    "waiting freshSession = 1"
    by (simp_all add: freshSession_def goalSession_def initialGoalSession_def oneTurnGoal_def waiting_def)
  have un: "unattended (\<lambda>x. x) 0 silentRun freshSession"
    by (simp add: silentRun_def freshSession_def goalSession_def initialGoalSession_def oneTurnGoal_def createGoal_def
        promptTimerFires_def attemptOpen_def sendGoalPrompt_def sentAfter_def agentEndGoal_def stalledTurn_def streakOf_def
        MAX_EMPTY_STOP_RETRIES_def pushLog_def queueGoalPrompt_def Let_def)
  have "length (filter isAgentEnd silentRun) = 3" by (simp add: silentRun_def)
  with un show ?thesis
    using autopilot_is_bounded [OF fresh(1) un prod.collapse [symmetric]] fresh(2) by simp
qed

theorem handoff_silences_the_autopilot_witness:
  "filter isPromptSent (snd (goal_run (\<lambda>x. x) [PromptTimer True]
     ((goalSession oneTurnGoal)\<lparr>gs_attemptId := Some ''a'', gs_timers := [Continuation 1 oneTurnGoal]\<rparr>))) = []"
  using handoff_silences_the_autopilot [OF _ _ _ prod.collapse [symmetric],
      where s = "(goalSession oneTurnGoal)\<lparr>gs_attemptId := Some ''a'', gs_timers := [Continuation 1 oneTurnGoal]\<rparr>"
        and es = "[PromptTimer True]" and sha = "\<lambda>x. x" and a = "''a''"]
  by (simp del: goal_run.simps)

lemma emptyCtx_owned: "reactivationBlockReason sha (emptyCtx\<lparr>cx_branch := b\<rparr>) i = None"
  by (simp add: reactivationBlockReason_def outboundGoalOwnership_def unresolvedChildOwnership_def uniqueIds_def)

theorem goal_is_driven_by_its_owner_witness:
  "\<not> givenAway (\<lambda>x. x) (emptyCtx\<lparr>cx_branch := [goalEntry (Some oneTurnGoal)]\<rparr>) ''g''"
proof -
  let ?cx = "emptyCtx\<lparr>cx_branch := [goalEntry (Some oneTurnGoal)]\<rparr>"
  have r: "restoreGoal [goalEntry (Some oneTurnGoal)] = Some oneTurnGoal"
    using restoreGoal_goalEntry [of "[]"] by simp
  have st: "g_status oneTurnGoal = GActive" "g_id oneTurnGoal = ''g''" by (simp_all add: oneTurnGoal_def createGoal_def)
  have "gs_goal (fst (beforeAgent (\<lambda>x. x) 5 ?cx initialGoalSession)) = Some oneTurnGoal"
    by (simp add: beforeAgent_def r st emptyCtx_owned)
  then have "\<exists>cx. eventCtx (AgentStarts 5 ?cx) = Some cx \<and> \<not> givenAway (\<lambda>x. x) cx (g_id oneTurnGoal)"
    using st by (intro goal_is_driven_by_its_owner [OF prod.collapse [symmetric]]) simp_all
  then show ?thesis by (simp add: st)
qed

theorem goal_state_is_durable_witness:
  "restoreGoal ([goalEntry (Some oneTurnGoal)] @ appended
     (snd (goal_step (\<lambda>x. x) (AgentEnds 5 (emptyCtx\<lparr>cx_branch := [goalEntry (Some oneTurnGoal)]\<rparr>) None)
       (goalSession oneTurnGoal)))) =
   gs_goal (fst (goal_step (\<lambda>x. x) (AgentEnds 5 (emptyCtx\<lparr>cx_branch := [goalEntry (Some oneTurnGoal)]\<rparr>) None)
       (goalSession oneTurnGoal)))"
  by (rule goal_state_is_durable [OF prod.collapse [symmetric]])
    (use restoreGoal_goalEntry [of "[]" "Some oneTurnGoal"] in simp_all)

theorem overrun_goal_is_lost_witness:
  "\<exists>g'. gs_goal (fst (goal_step (\<lambda>x. x) (AgentEnds 5 emptyCtx silentAnswer)
       (goalSession (oneTurnGoal\<lparr>g_turnsCompleted := 1\<rparr>)))) = Some g' \<and> g_status g' = GActive \<and>
     tr_goal (collectTransferState ([] @ appended (snd (goal_step (\<lambda>x. x) (AgentEnds 5 emptyCtx silentAnswer)
       (goalSession (oneTurnGoal\<lparr>g_turnsCompleted := 1\<rparr>)))))) = None"
  using overrun_goal_is_lost [OF goalSession_simps(1) _ _ _ silentAnswer_empty _ prod.collapse [symmetric],
      of "oneTurnGoal\<lparr>g_turnsCompleted := 1\<rparr>" "\<lambda>x. x" emptyCtx 5 "[]"]
  by (auto simp: oneTurnGoal_def createGoal_def streakOf_def simp del: goal_step.simps)

theorem start_args_roundtrip_witness:
  "parseStartArgs (joinWith '' '' ([''fix'', ''it''] @ [''--max-turns'', natText 5])) = (joinWith '' '' [''fix'', ''it''], 5)"
  using start_args_roundtrip [of "[''fix'', ''it'']" 5]
  by (simp add: plain_word_def not_option_def is_ws_def is_quote_def)

definition movedRequest :: request where
  "movedRequest = \<lparr>q_id = ''h'', q_createdAt = 1, q_originSessionId = ''p'', q_originSessionFile = ''pf'',
     q_contextNonce = ''0123456789abcdef'', q_kickoffHash = None, q_goalTransferred = True,
     q_goalId = Some ''g'', q_workPlanTransferred = False\<rparr>"

definition movedRecord :: handoff where
  "movedRecord = makeHandoffRecord movedRequest Prepared 2 None None None None"

definition movedGoal :: goal where
  "movedGoal = oneTurnGoal\<lparr>g_status := GTransferring, g_handoffId := Some ''h''\<rparr>"

definition movedParent :: persisted where
  "movedParent = \<lparr>pr_sessionId = ''p'', pr_entries = [handoffEntry movedRecord],
     pr_branch = Some [goalEntry (Some movedGoal)]\<rparr>"

lemma moved_reclaimable: "reclaimable (\<lambda>x. x) (emptyCtx\<lparr>cx_branch := b\<rparr>) movedParent movedGoal = Some movedRecord"
proof -
  have "handoff_ok (\<lambda>x. x) movedRecord"
    by (simp add: handoff_ok_def movedRecord_def makeHandoffRecord_def request_ok_def movedRequest_def paired_def)
  then have "inspectSelfHandoffRecords (\<lambda>x. x) [handoffEntry movedRecord] = ([(movedRecord, None)], False)"
    using inspect_written [of "\<lambda>x. x" "[movedRecord]"] by simp
  then have l: "latestHandoffForRequest (\<lambda>x. x) [handoffEntry movedRecord] ''h'' = Some (Some movedRecord)"
    by (simp add: latestHandoffForRequest_def reduceSelfHandoffRequest_def sameSelfHandoffRequest_eq movedRecord_def
        makeHandoffRecord_def movedRequest_def)
  have "storable movedGoal \<and> g_turnsCompleted movedGoal \<le> g_maxTurns movedGoal"
    by (simp add: movedGoal_def oneTurnGoal_def createGoal_def storable_def streakOf_def)
  then have g: "latestGoalState [goalEntry (Some movedGoal)] = Some (goalJson movedGoal)"
    using carried_goal [of "[]" movedGoal] by simp
  have m: "g_id movedGoal = ''g''" "g_status movedGoal = GTransferring" "g_handoffId movedGoal = Some ''h''"
    by (simp_all add: movedGoal_def oneTurnGoal_def createGoal_def)
  show ?thesis
    by (simp add: reclaimable_def movedParent_def l g m goalJson_fields)
      (simp add: emptyCtx_def movedRecord_def makeHandoffRecord_def movedRequest_def auditPending_def)
qed

theorem reclaim_revokes_the_child_witness:
  "\<exists>pr h. Some movedParent = Some pr \<and>
    (\<forall>later x. reduceSelfHandoffRequest (\<lambda>x. x) (reclaimLog 5 pr h @ later) (h_request h) = Inr x \<longrightarrow>
       (\<exists>l i. x = Some (l, i) \<and> h_status l = Failed))"
proof -
  let ?cx = "emptyCtx\<lparr>cx_branch := [goalEntry (Some movedGoal)]\<rparr>"
  let ?e = "Command 5 ?cx (Some movedParent) ''n'' ''reclaim''"
  have r: "restoreGoal (cx_branch ?cx) = Some movedGoal" using restoreGoal_goalEntry [of "[]"] by simp
  have m: "g_status movedGoal = GTransferring" "g_handoffId movedGoal = Some ''h''"
    by (simp_all add: movedGoal_def oneTurnGoal_def createGoal_def)
  have cx: "truthyStr (cx_sessionFile ?cx)" "truthyStr (cx_leafId ?cx)"
    by (simp_all add: truthyStr_def emptyCtx_def)
  have held: "\<not> heldForOrientation (\<lambda>x. x) ?cx i" for i
    by (simp add: heldForOrientation_def inspectChildHandoffOrientation_def)
  have t: "js_trim ''reclaim'' = ''reclaim''" "map lower (takeWhile (Not \<circ> is_ws) ''reclaim'') = ''reclaim''"
    by (simp_all add: js_trim_def is_ws_def lower_def Let_def)
  have g': "gs_goal (fst (goal_step (\<lambda>x. x) ?e initialGoalSession)) = Some (reclaimedGoal 5 movedGoal)"
    using r held t m cx moved_reclaimable [of "[goalEntry (Some movedGoal)]"]
    by (simp add: goalCommand_def reclaim_def Let_def truthyStr_def)
  have "g_status (reclaimedGoal 5 movedGoal) = GActive" by (simp add: reclaimedGoal_def)
  from reclaim_revokes_the_child [OF prod.collapse [symmetric] r m(1) g' this] t show ?thesis by auto
qed

end
