(* ===== verification/SelfHandoff.thy ===== *)
theory SelfHandoff
  imports Goal
begin

text \<open>
  \<open>extensions/self-handoff/index.ts\<close>, the protocol that moves the goal and the plan of a parent session
  to a fresh child session: the updates of the parent file, the handlers of the child while it is
  oriented and released, and the parts of the command that write the audit trail.

  The session manager belongs to the host: a parent file is a value of type \<open>'s\<close> with the operations
  of the record \<open>manager\<close>, and \<open>lawful\<close> is their documented behaviour: entries are only appended, the
  branch of an entry ends with it, and the branch of an appended entry is the branch it was appended to
  with that entry. \<open>sha\<close> is SHA-256,
  \<open>now\<close> the clock. The generation of the continuation text, notifications and the editor are not modelled.
\<close>

section \<open>The parent session file\<close>

record 's manager =
  m_sessionId :: "'s \<Rightarrow> string"
  m_entries :: "'s \<Rightarrow> entry list"
  m_branchOf :: "'s \<Rightarrow> string \<Rightarrow> entry list"
  m_select :: "string \<Rightarrow> 's \<Rightarrow> 's"
  m_append :: "string \<Rightarrow> jsval \<Rightarrow> 's \<Rightarrow> ('s \<times> string) option"

definition lawful :: "'s manager \<Rightarrow> bool" where
  "lawful m \<longleftrightarrow>
     (\<forall>i p. m_entries m (m_select m i p) = m_entries m p \<and> m_sessionId m (m_select m i p) = m_sessionId m p \<and>
        m_branchOf m (m_select m i p) = m_branchOf m p) \<and>
     (\<forall>ty v i p p' j. m_append m ty v (m_select m i p) = Some (p', j) \<longrightarrow>
        m_sessionId m p' = m_sessionId m p \<and> j \<noteq> [] \<and>
        (let e = (customEntry ty v)\<lparr>en_id := Some j\<rparr> in
          m_entries m p' = m_entries m p @ [e] \<and> m_branchOf m p' j = m_branchOf m p i @ [e])) \<and>
     (\<forall>p e i. e \<in> set (m_entries m p) \<and> en_id e = Some i \<longrightarrow> (\<exists>bs. m_branchOf m p i = bs @ [e]))"

text \<open>\<open>withSelfHandoffLock\<close> around an update of the parent: \<open>free\<close> says whether the lock file could be
  created, \<open>file\<close> is \<open>None\<close> when the parent file is missing.\<close>

definition withParent ::
  "'s manager \<Rightarrow> request \<Rightarrow> bool \<Rightarrow> ('s \<Rightarrow> (string + unit) \<times> 's) \<Rightarrow> 's option \<Rightarrow> (string + unit) \<times> 's option" where
  "withParent m q free act file =
     (if \<not> free then (Inl ''Another self-handoff ownership update is in progress'', file)
      else case file of
        None \<Rightarrow> (Inl ''The persisted parent session file is missing'', None)
      | Some p \<Rightarrow>
          if m_sessionId m p \<noteq> q_originSessionId q
          then (Inl ''Parent session identity does not match the handoff request'', Some p)
          else (let (r, p') = act p in (r, Some p')))"

definition sameAttempt :: "handoff option \<Rightarrow> request \<Rightarrow> bool" where
  "sameAttempt latest q \<longleftrightarrow> (case latest of None \<Rightarrow> False | Some r \<Rightarrow> sameSelfHandoffRequest (h_request r) q)"

text \<open>The reduction over all entries of the session, with the entry of the latest record; an entry without
  an identifier is not accepted by the callers.\<close>

definition sessionWideHandoff ::
  "(string \<Rightarrow> string) \<Rightarrow> entry list \<Rightarrow> request \<Rightarrow> string + (handoff option \<times> string option)" where
  "sessionWideHandoff sha entries q =
     (case reduceSelfHandoffRequest sha entries q of
        Inl _ \<Rightarrow> Inl ''The self-handoff records are in conflict''
      | Inr None \<Rightarrow> Inr (None, None)
      | Inr (Some (r, i)) \<Rightarrow> Inr (Some r, i))"

definition goalIs :: "jsval \<Rightarrow> string \<Rightarrow> request \<Rightarrow> bool" where
  "goalIs goal status q \<longleftrightarrow> jIsStr (get goal ''status'') status \<and> get goal ''id'' = map_option JStr (q_goalId q) \<and>
     jIsStr (get goal ''handoffId'') (q_id q)"

text \<open>\<open>parentGoalTransition\<close>: the newest goal entry of this request, on a branch in the expected state.\<close>

definition parentGoalTransition ::
  "'s manager \<Rightarrow> (string \<Rightarrow> string) \<Rightarrow> 's \<Rightarrow> request \<Rightarrow> string \<Rightarrow> string option" where
  "parentGoalTransition m sha p q status =
     (let expected = (if status = ''transferring'' then Prepared else ChildCreated) in
      Option.bind
        (List.find (\<lambda>e. is_custom GOAL_STATE_TYPE e \<and> goalIs (latestGoalState [e]) status q \<and>
            (case en_id e of
               None \<Rightarrow> False
             | Some i \<Rightarrow>
                 (case reduceSelfHandoffRequest sha (m_branchOf m p i) q of
                    Inr (Some (r, _)) \<Rightarrow> h_status r = expected | _ \<Rightarrow> False)))
          (rev (m_entries m p))) en_id)"

text \<open>\<open>parent.branch(id)\<close> followed by \<open>appendCustomEntry\<close> with a record.\<close>

definition appendRecordAt :: "'s manager \<Rightarrow> string \<Rightarrow> handoff \<Rightarrow> 's \<Rightarrow> (string + unit) \<times> 's" where
  "appendRecordAt m i r p =
     (let p1 = m_select m i p in
      case m_append m SELF_HANDOFF_STATE_TYPE (Some (obj (handoffFields r))) p1 of
        None \<Rightarrow> (Inl ''append failed'', p1)
      | Some (p2, _) \<Rightarrow> (Inr (), p2))"

definition verifyPreparedParentOnDisk ::
  "'s manager \<Rightarrow> (string \<Rightarrow> string) \<Rightarrow> request \<Rightarrow> 's \<Rightarrow> string + unit" where
  "verifyPreparedParentOnDisk m sha q p =
     (case sessionWideHandoff sha (m_entries m p) q of
        Inl e \<Rightarrow> Inl e
      | Inr (latest, _) \<Rightarrow>
          if \<not> sameAttempt latest q \<or> map_option h_status latest \<noteq> Some Prepared
          then Inl ''The prepared handoff is not durable in the parent file''
          else if q_goalTransferred q \<and> parentGoalTransition m sha p q ''transferring'' = None
          then Inl ''The parent transferring goal branch is missing''
          else Inr ())"

definition appendParentChildCreated ::
  "'s manager \<Rightarrow> (string \<Rightarrow> string) \<Rightarrow> rat \<Rightarrow> request \<Rightarrow> string \<Rightarrow> string \<Rightarrow> 's \<Rightarrow> (string + unit) \<times> 's" where
  "appendParentChildCreated m sha now q targetFile targetId p =
     (case sessionWideHandoff sha (m_entries m p) q of
        Inl e \<Rightarrow> (Inl e, p)
      | Inr (None, _) \<Rightarrow> (Inl ''Parent no longer has the matching prepared handoff'', p)
      | Inr (Some r, entryId) \<Rightarrow>
          if sameAttempt (Some r) q \<and> (h_status r = Transferred \<or> h_status r = ChildCreated)
          then
            (if h_targetSessionFile r \<noteq> Some targetFile \<or> h_targetSessionId r \<noteq> Some targetId \<or> \<not> truthyStr entryId
             then (Inl ''Handoff child identity changed for the same attempt'', p)
             else if q_goalTransferred q \<and>
               \<not> goalIs (latestGoalState (m_branchOf m p (the entryId)))
                   (if h_status r = Transferred then ''transferred'' else ''transferring'') q
             then (Inl ''Parent goal identity no longer matches the handoff'', p)
             else (Inr (), p))
          else if \<not> sameAttempt (Some r) q \<or> h_status r \<noteq> Prepared \<or> \<not> truthyStr entryId
          then (Inl ''Parent no longer has the matching prepared handoff'', p)
          else
            (case (if q_goalTransferred q then parentGoalTransition m sha p q ''transferring'' else entryId) of
               None \<Rightarrow> (Inl ''The parent transferring goal branch is missing'', p)
             | Some from \<Rightarrow>
                 appendRecordAt m from
                   (makeHandoffRecord q ChildCreated now (Some (targetFile, targetId)) None None
                     (Some ''The fresh session was created; parent ownership remains suspended until the child orientation checkpoint settles.'')) p))"

text \<open>The last part of \<open>finalizeParentTransferUnlocked\<close>: the transferred goal, then the transferred record; when the
  record cannot be appended, the transferring goal is appended again.\<close>

definition finalizeAppend ::
  "'s manager \<Rightarrow> (string \<Rightarrow> string) \<Rightarrow> rat \<Rightarrow> request \<Rightarrow> string \<Rightarrow> string \<Rightarrow> string \<Rightarrow> jsval \<Rightarrow> 's \<Rightarrow> (string + unit) \<times> 's" where
  "finalizeAppend m sha now q targetFile targetId entryId parentGoal p =
     (let (from, p1) =
        (case parentGoal of
           None \<Rightarrow> (Some entryId, p)
         | Some g \<Rightarrow>
             (case parentGoalTransition m sha p q ''transferred'' of
                Some i \<Rightarrow> (Some i, p)
              | None \<Rightarrow>
                  (case m_append m GOAL_STATE_TYPE (Some (transferredGoal now g (q_id q) targetFile)) (m_select m entryId p) of
                     None \<Rightarrow> (None, m_select m entryId p)
                   | Some (p', i) \<Rightarrow> (Some i, p'))))
      in case from of
           None \<Rightarrow> (Inl ''append failed'', p1)
         | Some i \<Rightarrow>
             (case appendRecordAt m i
                     (makeHandoffRecord q Transferred now (Some (targetFile, targetId)) None None
                       (Some ''The child orientation checkpoint settled and the child now owns the transferred state.'')) p1 of
                (Inr u, p2) \<Rightarrow> (Inr u, p2)
              | (Inl e, p2) \<Rightarrow>
                  (case parentGoal of
                     None \<Rightarrow> (Inl e, p2)
                   | Some g \<Rightarrow>
                       (case m_append m GOAL_STATE_TYPE (Some g) p2 of
                          None \<Rightarrow> (Inl e, p2)
                        | Some (p3, _) \<Rightarrow> (Inl e, p3)))))"

definition finalizeParentTransfer ::
  "'s manager \<Rightarrow> (string \<Rightarrow> string) \<Rightarrow> rat \<Rightarrow> request \<Rightarrow> string \<Rightarrow> string \<Rightarrow> 's \<Rightarrow> (string + unit) \<times> 's" where
  "finalizeParentTransfer m sha now q targetFile targetId p =
     (case sessionWideHandoff sha (m_entries m p) q of
        Inl e \<Rightarrow> (Inl e, p)
      | Inr (None, _) \<Rightarrow> (Inl ''Parent no longer has the matching child identity for this handoff'', p)
      | Inr (Some r, entryId) \<Rightarrow>
          if \<not> sameAttempt (Some r) q \<or> \<not> truthyStr entryId \<or> h_targetSessionFile r \<noteq> Some targetFile \<or>
             h_targetSessionId r \<noteq> Some targetId
          then (Inl ''Parent no longer has the matching child identity for this handoff'', p)
          else
            let goal = latestGoalState (m_branchOf m p (the entryId)) in
            if h_status r = Transferred
            then (if q_goalTransferred q \<and> \<not> goalIs goal ''transferred'' q
                  then (Inl ''Transferred parent goal identity no longer matches'', p) else (Inr (), p))
            else if h_status r \<noteq> ChildCreated then (Inl ''Parent handoff is not awaiting child finalization'', p)
            else if q_goalTransferred q \<and> \<not> goalIs goal ''transferring'' q
            then (Inl ''Parent goal no longer matches this handoff attempt'', p)
            else finalizeAppend m sha now q targetFile targetId (the entryId)
                   (if q_goalTransferred q then goal else None) p)"

definition verifyParentAlreadyTransferred ::
  "'s manager \<Rightarrow> (string \<Rightarrow> string) \<Rightarrow> request \<Rightarrow> string \<Rightarrow> string \<Rightarrow> 's \<Rightarrow> string + unit" where
  "verifyParentAlreadyTransferred m sha q targetFile targetId p =
     (case sessionWideHandoff sha (m_entries m p) q of
        Inl e \<Rightarrow> Inl e
      | Inr (None, _) \<Rightarrow> Inl ''The parent does not confirm this completed handoff''
      | Inr (Some r, entryId) \<Rightarrow>
          if \<not> sameAttempt (Some r) q \<or> h_status r \<noteq> Transferred \<or> \<not> truthyStr entryId \<or>
             h_targetSessionFile r \<noteq> Some targetFile \<or> h_targetSessionId r \<noteq> Some targetId
          then Inl ''The parent does not confirm this completed handoff''
          else if q_goalTransferred q \<and> \<not> goalIs (latestGoalState (m_branchOf m p (the entryId))) ''transferred'' q
          then Inl ''The parent goal does not confirm completed ownership''
          else Inr ())"

section \<open>The child session\<close>

definition orientationOf :: "(string \<Rightarrow> string) \<Rightarrow> goal_ctx \<Rightarrow> orientation" where
  "orientationOf sha cx =
     inspectChildHandoffOrientation sha (cx_entries cx) (cx_branch cx) (cx_sessionId cx) (cx_sessionFile cx) None"

definition validateTransferredChildState :: "entry list \<Rightarrow> handoff \<Rightarrow> string + unit" where
  "validateTransferredChildState branch r =
     (let goal = latestGoalState branch; plan = latestWorkPlanState branch in
      if q_goalTransferred (h_request r) \<and>
         \<not> (goal \<noteq> None \<and> get goal ''id'' = map_option JStr (q_goalId (h_request r)) \<and> jIsStr (get goal ''status'') ''active'')
      then Inl ''Child no longer owns the active transferred goal identity''
      else if q_workPlanTransferred (h_request r) \<and> arrOf (get plan ''items'') = []
      then Inl ''Child no longer contains the transferred work plan''
      else Inr ())"

definition childRecord ::
  "rat \<Rightarrow> request \<Rightarrow> handoff_status \<Rightarrow> goal_ctx \<Rightarrow> string option \<Rightarrow> bool option \<Rightarrow> string \<Rightarrow> handoff" where
  "childRecord now q status cx kickoff retry note =
     (makeHandoffRecord q status now None kickoff retry (Some note))
       \<lparr>h_targetSessionFile := cx_sessionFile cx, h_targetSessionId := Some (cx_sessionId cx)\<rparr>"

text \<open>The record that repeats the child of an earlier one.\<close>

definition sameChildRecord :: "rat \<Rightarrow> handoff \<Rightarrow> handoff_status \<Rightarrow> string option \<Rightarrow> bool option \<Rightarrow> string \<Rightarrow> handoff" where
  "sameChildRecord now r status kickoff retry note =
     (makeHandoffRecord (h_request r) status now None kickoff retry (Some note))
       \<lparr>h_targetSessionFile := h_targetSessionFile r, h_targetSessionId := h_targetSessionId r\<rparr>"

definition truthyKickoff :: "string option \<Rightarrow> bool" where
  "truthyKickoff k \<longleftrightarrow> k \<noteq> None \<and> k \<noteq> Some []"

text \<open>\<open>session_start\<close>: the record that is appended, and the kickoff put back into the editor.\<close>

definition shouldRecoverChildOrientation :: "string \<Rightarrow> bool" where
  "shouldRecoverChildOrientation reason \<longleftrightarrow> reason \<noteq> ''new'' \<and> reason \<noteq> ''fork''"

definition childSessionStart ::
  "(string \<Rightarrow> string) \<Rightarrow> rat \<Rightarrow> string \<Rightarrow> bool \<Rightarrow> goal_ctx \<Rightarrow> handoff list \<times> string option" where
  "childSessionStart sha now reason hasUI cx =
     (if \<not> shouldRecoverChildOrientation reason then ([], None)
      else case orientationOf sha cx of
        Pending Orienting r \<Rightarrow>
          if truthyKickoff (h_kickoff r) \<and> hasUI
          then (if h_retryAllowed r = Some True then []
                else [sameChildRecord now r Received (h_kickoff r) (Some True)
                  ''The exact orientation kickoff was restored after the child session resumed.''], h_kickoff r)
          else ([], None)
      | _ \<Rightarrow> ([], None))"

datatype input_action = Continue | Handled

record child_input =
  in_text :: string
  in_source :: string
  in_images :: nat
  in_idle :: bool

text \<open>An update that throws leaves the file as the update left it.\<close>

definition finalizeAndVerify ::
  "'s manager \<Rightarrow> (string \<Rightarrow> string) \<Rightarrow> rat \<Rightarrow> bool \<Rightarrow> bool \<Rightarrow> request \<Rightarrow> string \<Rightarrow> string \<Rightarrow> 's option \<Rightarrow> (string + unit) \<times> 's option" where
  "finalizeAndVerify m sha now free free2 q targetFile targetId file =
     (case withParent m q free (finalizeParentTransfer m sha now q targetFile targetId) file of
        (Inl e, file') \<Rightarrow> (Inl e, file')
      | (Inr _, file') \<Rightarrow>
          withParent m q free2 (\<lambda>p. (verifyParentAlreadyTransferred m sha q targetFile targetId p, p)) file')"

text \<open>The checks that \<open>input\<close> and \<open>before_agent_start\<close> share before they ask the parent.\<close>

definition childReady ::
  "(string \<Rightarrow> string) \<Rightarrow> goal_ctx \<Rightarrow> string option \<Rightarrow> handoff \<Rightarrow> string + unit" where
  "childReady sha cx parentSession r =
     (if \<not> truthyStr (cx_sessionFile cx) then Inl ''The handoff child session is not persisted''
      else if parentSession \<noteq> Some (q_originSessionFile (h_request r))
      then Inl ''Child session lineage no longer matches the handoff''
      else case inspectOrientationOutcome sha (cx_branch cx) (h_request r) of
             Incomplete _ _ \<Rightarrow> Inl ''the current branch does not contain the completed orientation''
           | Success _ \<Rightarrow> validateTransferredChildState (cx_branch cx) r)"

text \<open>\<open>input\<close>: the action, the request that the input releases, the parent file.\<close>

definition childInput ::
  "'s manager \<Rightarrow> (string \<Rightarrow> string) \<Rightarrow> rat \<Rightarrow> bool \<Rightarrow> bool \<Rightarrow> goal_ctx \<Rightarrow> string option \<Rightarrow> child_input \<Rightarrow> 's option \<Rightarrow>
   input_action \<times> string option \<times> 's option" where
  "childInput m sha now free free2 cx parentSession ev file =
     (case orientationOf sha cx of
        NoOrientation \<Rightarrow> (Continue, None, file)
      | Invalid _ \<Rightarrow> (Handled, None, file)
      | Pending Orienting r \<Rightarrow>
          if isOrientationKickoff sha (in_text ev) (h_request r)
          then
            (let allowed = in_images ev = 0 \<and>
               (in_source ev = ''extension'' \<or>
                ((in_source ev = ''interactive'' \<or> in_source ev = ''rpc'') \<and> h_retryAllowed r = Some True))
             in (if allowed \<and> in_idle ev then Continue else Handled, None, file))
          else (Handled, None, file)
      | Pending AwaitingReply r \<Rightarrow>
          if in_source ev = ''extension'' \<or> \<not> in_idle ev then (Handled, None, file)
          else
            (case childReady sha cx parentSession r of
              Inl _ \<Rightarrow> (Handled, None, file)
            | Inr _ \<Rightarrow>
                (case finalizeAndVerify m sha now free free2 (h_request r) (the (cx_sessionFile cx)) (cx_sessionId cx) file of
                   (Inl _, file') \<Rightarrow> (Handled, None, file')
                 | (Inr _, file') \<Rightarrow> (Continue, Some (q_id (h_request r)), file'))))"

text \<open>\<open>before_agent_start\<close>: the records appended, the pending release, and whether the guard text is added.\<close>

definition childAgentStart ::
  "'s manager \<Rightarrow> (string \<Rightarrow> string) \<Rightarrow> rat \<Rightarrow> bool \<Rightarrow> bool \<Rightarrow> goal_ctx \<Rightarrow> string option \<Rightarrow> string option \<Rightarrow> 's option \<Rightarrow>
   handoff list \<times> string option \<times> bool" where
  "childAgentStart m sha now free appends cx parentSession pending file =
     (case orientationOf sha cx of
        NoOrientation \<Rightarrow> ([], None, False)
      | Invalid _ \<Rightarrow> ([], pending, True)
      | Pending Orienting r \<Rightarrow> ([], pending, True)
      | Pending AwaitingReply r \<Rightarrow>
          if pending \<noteq> Some (q_id (h_request r)) then ([], pending, True)
          else
            (case childReady sha cx parentSession r of
              Inl _ \<Rightarrow> ([], None, True)
            | Inr _ \<Rightarrow>
                (case fst (withParent m (h_request r) free
                     (\<lambda>p. (verifyParentAlreadyTransferred m sha (h_request r) (the (cx_sessionFile cx)) (cx_sessionId cx) p, p)) file) of
                   Inl _ \<Rightarrow> ([], None, True)
                 | Inr _ \<Rightarrow>
                     if appends
                     then ([sameChildRecord now r Transferred None None
                        ''An explicit post-orientation user message was admitted and released the fresh session to begin work.''],
                       None, False)
                     else ([], None, True))))"

text \<open>\<open>tool_call\<close>: the tool is blocked.\<close>

definition toolBlocked :: "(string \<Rightarrow> string) \<Rightarrow> goal_ctx \<Rightarrow> bool" where
  "toolBlocked sha cx \<longleftrightarrow> orientationOf sha cx \<noteq> NoOrientation"

text \<open>The checks of \<open>agent_settled\<close> after a complete orientation.\<close>

definition settledChild ::
  "(string \<Rightarrow> string) \<Rightarrow> goal_ctx \<Rightarrow> string option \<Rightarrow> handoff \<Rightarrow> string + unit" where
  "settledChild sha cx parentSession latest =
     (if \<not> truthyStr (cx_sessionFile cx) then Inl ''The handoff child session is not persisted''
      else case sessionWideHandoff sha (cx_entries cx) (h_request latest) of
        Inl e \<Rightarrow> Inl e
      | Inr (sessionLatest, _) \<Rightarrow>
          (case sessionLatest of
             None \<Rightarrow> Inl ''The session-wide child handoff identity changed''
           | Some r \<Rightarrow>
               if \<not> sameAttempt (Some r) (h_request latest) \<or> h_status r \<noteq> Received \<or>
                  h_targetSessionFile r \<noteq> cx_sessionFile cx \<or> h_targetSessionId r \<noteq> Some (cx_sessionId cx)
               then Inl ''The session-wide child handoff identity changed''
               else if parentSession \<noteq> Some (q_originSessionFile (h_request latest))
               then Inl ''Child session lineage does not match the handoff request''
               else if cx_sessionFile cx = Some (q_originSessionFile (h_request latest))
               then Inl ''Child and parent session paths must differ''
               else if h_targetSessionFile latest \<noteq> cx_sessionFile cx \<or> h_targetSessionId latest \<noteq> Some (cx_sessionId cx)
               then Inl ''Received handoff record does not belong to this child''
               else validateTransferredChildState (cx_branch cx) latest))"

text \<open>\<open>recordChildHandoffFailure\<close>: the entries, after the goal extension has handled the failure event; \<open>branch\<close> is
  the branch after that.\<close>

definition childFailureEntries :: "rat \<Rightarrow> entry list \<Rightarrow> goal_ctx \<Rightarrow> handoff \<Rightarrow> entry list" where
  "childFailureEntries now branch cx r =
     (let goal = latestGoalState branch; q = h_request r in
      (case goal of
         None \<Rightarrow> []
       | Some g \<Rightarrow>
           if q_goalTransferred q \<and> get goal ''id'' = map_option JStr (q_goalId q) \<and> \<not> jIsStr (get goal ''status'') ''paused''
           then [customEntry GOAL_STATE_TYPE (Some (pausedGoalAfterHandoffFailure now g (q_id q)))] else []) @
      [handoffEntry (childRecord now q Failed cx None None
        ''The child orientation could not be validated; review the parent and child before reclaiming either goal.'')])"

text \<open>\<open>agent_settled\<close>: the entries appended to the child, the parent file. \<open>reasonText\<close> names an incomplete orientation.\<close>

definition agentSettledChild ::
  "'s manager \<Rightarrow> (string \<Rightarrow> string) \<Rightarrow> (orientation_gap \<Rightarrow> string) \<Rightarrow> rat \<Rightarrow> bool \<Rightarrow> bool \<Rightarrow> bool \<Rightarrow> bool \<Rightarrow>
   goal_ctx \<Rightarrow> string option \<Rightarrow> entry list \<Rightarrow> 's option \<Rightarrow> entry list \<times> 's option" where
  "agentSettledChild m sha gapText now idle free free2 appends cx parentSession branchAfterFailure file =
     (if \<not> idle then ([], file)
      else case orientationOf sha cx of
        Pending Orienting latest \<Rightarrow>
          (case inspectOrientationOutcome sha (cx_branch cx) (h_request latest) of
             Incomplete gap kickoff \<Rightarrow>
               (let retry = (if kickoff \<noteq> None then kickoff else h_kickoff latest) in
                (if truthyKickoff retry \<and> appends
                 then [handoffEntry (childRecord now (h_request latest) Received cx retry (Some True)
                        (''Orientation retry allowed because '' @ gapText gap @ ''.''))]
                 else [], file))
           | Success _ \<Rightarrow>
               (case settledChild sha cx parentSession latest of
                  Inl _ \<Rightarrow> (if appends then childFailureEntries now branchAfterFailure cx latest else [], file)
                | Inr _ \<Rightarrow>
                    if \<not> appends then ([], file)
                    else
                      ([handoffEntry (childRecord now (h_request latest) AwaitingUser cx None None
                          ''The child orientation settled and is waiting for the user's next explicit message.'')],
                       snd (finalizeAndVerify m sha now free free2 (h_request latest) (the (cx_sessionFile cx))
                         (cx_sessionId cx) file))))
      | _ \<Rightarrow> ([], file))"

section \<open>The command in the parent\<close>

definition hasUnresolvedChildHandoff :: "(string \<Rightarrow> string) \<Rightarrow> goal_ctx \<Rightarrow> bool" where
  "hasUnresolvedChildHandoff sha cx =
     (let (sources, malformed) = inspectSelfHandoffRecords sha (cx_entries cx) in
      malformed \<or>
      list_ex (\<lambda>c. h_targetSessionId c = Some (cx_sessionId cx) \<and> h_targetSessionFile c = cx_sessionFile cx \<and>
          Some (q_originSessionFile (h_request c)) \<noteq> cx_sessionFile cx \<and>
          (case reduceSelfHandoffRequest sha (cx_entries cx) (h_request c) of
             Inl _ \<Rightarrow> True
           | Inr None \<Rightarrow> False
           | Inr (Some (r, _)) \<Rightarrow> h_status r \<in> {Received, AwaitingUser, Failed}))
        (map fst sources))"

definition hasOutboundGoalOwnership :: "(string \<Rightarrow> string) \<Rightarrow> goal_ctx \<Rightarrow> jsval \<Rightarrow> bool" where
  "hasOutboundGoalOwnership sha cx goalId =
     (let (sources, malformed) = inspectSelfHandoffRecords sha (cx_entries cx) in
      malformed \<or>
      list_ex (\<lambda>c. q_goalTransferred (h_request c) \<and> map_option JStr (q_goalId (h_request c)) = goalId \<and>
          q_originSessionId (h_request c) = cx_sessionId cx \<and>
          Some (q_originSessionFile (h_request c)) = cx_sessionFile cx \<and>
          (case reduceSelfHandoffRequest sha (cx_entries cx) (h_request c) of
             Inl _ \<Rightarrow> True
           | Inr None \<Rightarrow> False
           | Inr (Some (r, _)) \<Rightarrow> h_status r \<in> {Prepared, ChildCreated, Transferred}))
        (map fst sources))"

text \<open>The checks before the continuation is generated; the second list is made once the session is idle.\<close>

datatype refusal =
    GoalTransferring | GoalTransferred | ParentNotOwner | ChildNotFinalized | AuditConflict
  | MalformedState | GoalBudget transfer_problem

definition commandGuard :: "(string \<Rightarrow> string) \<Rightarrow> goal_ctx \<Rightarrow> refusal option" where
  "commandGuard sha cx =
     (let goal = latestGoalState (cx_branch cx) in
      if jIsStr (get goal ''status'') ''transferring'' then Some GoalTransferring
      else if jIsStr (get goal ''status'') ''transferred'' then Some GoalTransferred
      else if goal \<noteq> None \<and> hasOutboundGoalOwnership sha cx (get goal ''id'') then Some ParentNotOwner
      else if hasUnresolvedChildHandoff sha cx then Some ChildNotFinalized
      else None)"

text \<open>The record that ends an interrupted earlier attempt of the branch.\<close>

definition supersede :: "(string \<Rightarrow> string) \<Rightarrow> rat \<Rightarrow> goal_ctx \<Rightarrow> refusal + handoff list" where
  "supersede sha now cx =
     (case latestSelfHandoffRecord sha (cx_branch cx) of
        None \<Rightarrow> Inr []
      | Some b \<Rightarrow>
          if h_status b \<noteq> Prepared \<and> h_status b \<noteq> ChildCreated then Inr []
          else (case reduceSelfHandoffRequest sha (cx_entries cx) (h_request b) of
            Inl _ \<Rightarrow> Inl AuditConflict
          | Inr None \<Rightarrow> Inr []
          | Inr (Some (prior, _)) \<Rightarrow>
              if h_status prior = Prepared \<or> h_status prior = ChildCreated
              then Inr [(makeHandoffRecord (h_request b) Failed now None None None
                  (Some ''A later explicit handoff attempt superseded this interrupted attempt.''))
                \<lparr>h_targetSessionFile := h_targetSessionFile prior, h_targetSessionId := h_targetSessionId prior\<rparr>]
              else Inr []))"

definition settledGuard :: "(string \<Rightarrow> string) \<Rightarrow> goal_ctx \<Rightarrow> refusal option" where
  "settledGuard sha cx =
     (let goal = latestGoalState (cx_branch cx) in
      if hasUnresolvedChildHandoff sha cx then Some ChildNotFinalized
      else if goal \<noteq> None \<and> hasOutboundGoalOwnership sha cx (get goal ''id'') then Some ParentNotOwner
      else None)"

text \<open>The state that is carried over, on the branch after a superseding record.\<close>

definition transferOf :: "entry list \<Rightarrow> refusal + transfer" where
  "transferOf branch =
     (let rawGoal = latestCustomEntryData branch GOAL_STATE_TYPE;
          rawPlan = latestCustomEntryData branch WORK_PLAN_STATE_TYPE;
          t = collectTransferState branch
      in if (rawGoal \<noteq> None \<and> rawGoal \<noteq> Some JNull \<and> latestGoalState branch = None) \<or>
            (rawPlan \<noteq> None \<and> latestWorkPlanState branch = None)
         then Inl MalformedState
         else case validateGoalTransfer (tr_goal t) of Some problem \<Rightarrow> Inl (GoalBudget problem) | None \<Rightarrow> Inr t)"

definition makeRequest ::
  "rat \<Rightarrow> string \<Rightarrow> string \<Rightarrow> string \<Rightarrow> string \<Rightarrow> string \<Rightarrow> transfer \<Rightarrow> request" where
  "makeRequest now attemptId sessionId originFile nonce kickoffHash t =
     \<lparr>q_id = attemptId, q_createdAt = now, q_originSessionId = sessionId, q_originSessionFile = originFile,
      q_contextNonce = nonce, q_kickoffHash = Some kickoffHash, q_goalTransferred = tr_goal t \<noteq> None,
      q_goalId = asStr (get (tr_goal t) ''id''), q_workPlanTransferred = tr_workPlan t \<noteq> None\<rparr>"

text \<open>The entries of the prepared parent, and those of \<open>rollbackPreparedState\<close>.\<close>

definition preparedEntries :: "rat \<Rightarrow> request \<Rightarrow> jsval \<Rightarrow> entry list" where
  "preparedEntries now q goal =
     handoffEntry (makeHandoffRecord q Prepared now None None None
       (Some ''The user reviewed the continuation and transferable state is ready.'')) #
     (case goal of None \<Rightarrow> [] | Some g \<Rightarrow> [customEntry GOAL_STATE_TYPE (Some (transferringGoal now g (q_id q)))])"

definition rollbackEntries :: "rat \<Rightarrow> request \<Rightarrow> jsval \<Rightarrow> handoff_status \<Rightarrow> string \<Rightarrow> entry list" where
  "rollbackEntries now q goal status note =
     (case goal of None \<Rightarrow> [] | Some g \<Rightarrow> [customEntry GOAL_STATE_TYPE (Some g)]) @
     [handoffEntry (makeHandoffRecord q status now None None None (Some note))]"

text \<open>\<open>setup\<close> of the fresh child: the entries it writes before the parent is told, the check of its own audit,
  and the entries when ownership could not be secured. \<open>before\<close> are the entries the child already has.\<close>

definition childReceived :: "rat \<Rightarrow> request \<Rightarrow> goal_ctx \<Rightarrow> string \<Rightarrow> transfer \<Rightarrow> entry list" where
  "childReceived now q cx kickoff t =
     (case tr_goal t of None \<Rightarrow> [] | Some g \<Rightarrow> [customEntry GOAL_STATE_TYPE (Some g)]) @
     (case tr_workPlan t of None \<Rightarrow> [] | Some p \<Rightarrow> [customEntry WORK_PLAN_STATE_TYPE (Some p)]) @
     [handoffEntry (childRecord now q Received cx (Some kickoff) None
       ''The fresh session received the continuation state and is awaiting its orientation checkpoint.'')]"

definition childFailed :: "rat \<Rightarrow> request \<Rightarrow> goal_ctx \<Rightarrow> jsval \<Rightarrow> jsval \<Rightarrow> string \<Rightarrow> entry list" where
  "childFailed now q cx goal plan note =
     (case goal of
        None \<Rightarrow> []
      | Some g \<Rightarrow> [customEntry GOAL_STATE_TYPE (Some (pausedGoalAfterHandoffFailure now g (q_id q)))]) @
     (case plan of None \<Rightarrow> [] | Some p \<Rightarrow> [customEntry WORK_PLAN_STATE_TYPE (Some p)]) @
     [handoffEntry (childRecord now q Failed cx None None note)]"

definition auditIsSingleReceived ::
  "(string \<Rightarrow> string) \<Rightarrow> request \<Rightarrow> goal_ctx \<Rightarrow> entry list \<Rightarrow> bool" where
  "auditIsSingleReceived sha q cx entries =
     (let (sources, malformed) = inspectSelfHandoffRecords sha entries in
      \<not> malformed \<and>
      (case map fst sources of
         [r] \<Rightarrow> sameSelfHandoffRequest (h_request r) q \<and> h_status r = Received \<and>
           h_targetSessionFile r = cx_sessionFile cx \<and> h_targetSessionId r = Some (cx_sessionId cx)
       | _ \<Rightarrow> False))"

definition childSetup ::
  "'s manager \<Rightarrow> (string \<Rightarrow> string) \<Rightarrow> rat \<Rightarrow> bool \<Rightarrow> request \<Rightarrow> goal_ctx \<Rightarrow> string \<Rightarrow> transfer \<Rightarrow> 's option \<Rightarrow>
   (string + unit) \<times> entry list \<times> 's option" where
  "childSetup m sha now free q cx kickoff t file =
     (case cx_sessionFile cx of
        None \<Rightarrow> (Inl ''The handoff child session is not persisted'', [], file)
      | Some childFile \<Rightarrow>
          let (sources, malformed) = inspectSelfHandoffRecords sha (cx_entries cx) in
          if malformed \<or> sources \<noteq> []
          then (Inl ''The fresh child already contains self-handoff audit state'',
            childFailed now q cx (tr_goal t) (tr_workPlan t)
              ''Automatic kickoff was stopped because the child already contained handoff audit state.'', file)
          else
            let own = childReceived now q cx kickoff t;
                (r, file') =
                  (if auditIsSingleReceived sha q cx (cx_entries cx @ own)
                   then withParent m q free (appendParentChildCreated m sha now q childFile (cx_sessionId cx)) file
                   else (Inl ''The child handoff audit changed during setup'', file))
            in (case r of
                 Inr _ \<Rightarrow> (Inr (), own, file')
               | Inl e \<Rightarrow> (Inl e, own @ childFailed now q cx (tr_goal t) None
                   ''Automatic kickoff was stopped because parent ownership could not be secured.'', file')))"

section \<open>Parent and child together\<close>

record 's world =
  w_parent :: "'s option"
  w_child :: "entry list"
  w_pending :: "string option"

text \<open>A record about this child session.\<close>

definition aboutChild :: "string \<Rightarrow> string \<Rightarrow> handoff \<Rightarrow> bool" where
  "aboutChild cf cid r \<longleftrightarrow> h_targetSessionFile r = Some cf \<and> h_targetSessionId r = Some cid"

definition childRecords :: "(string \<Rightarrow> string) \<Rightarrow> string \<Rightarrow> string \<Rightarrow> entry list \<Rightarrow> handoff list" where
  "childRecords sha cf cid es = filter (aboutChild cf cid) (sourceRecords sha es)"

definition isChildCtx :: "string \<Rightarrow> string \<Rightarrow> entry list \<Rightarrow> goal_ctx \<Rightarrow> bool" where
  "isChildCtx cf cid es cx \<longleftrightarrow> cx_entries cx = es \<and> cx_sessionId cx = cid \<and> cx_sessionFile cx = Some cf"

definition grows :: "'s manager \<Rightarrow> 's option \<Rightarrow> 's option \<Rightarrow> bool" where
  "grows m a b \<longleftrightarrow> (case a of None \<Rightarrow> b = None
     | Some p \<Rightarrow> \<exists>p' es. b = Some p' \<and> m_entries m p' = m_entries m p @ es)"

text \<open>
  The steps: the parent file changes in any way that only appends (its own turns, \<open>/goal reclaim\<close>,
  superseding, a rollback, other handoffs); the child log gets entries that are no records about this
  child, which only this extension writes; and the handlers of the extension in the child.
\<close>

inductive handoff_step ::
  "'s manager \<Rightarrow> (string \<Rightarrow> string) \<Rightarrow> string \<Rightarrow> string \<Rightarrow> 's world \<Rightarrow> 's world \<Rightarrow> bool"
  for m :: "'s manager" and sha cf cid where
  parent_grows: "grows m (w_parent w) p' \<Longrightarrow> handoff_step m sha cf cid w (w\<lparr>w_parent := p'\<rparr>)"
| child_grows: "childRecords sha cf cid es = [] \<Longrightarrow> handoff_step m sha cf cid w (w\<lparr>w_child := w_child w @ es\<rparr>)"
| child_setup: "isChildCtx cf cid (w_child w) cx \<Longrightarrow> q_originSessionFile q \<noteq> cf \<Longrightarrow>
    childSetup m sha now free q cx kickoff t (w_parent w) = (r, es, p') \<Longrightarrow>
    handoff_step m sha cf cid w (w\<lparr>w_parent := p', w_child := w_child w @ es\<rparr>)"
| child_starts: "isChildCtx cf cid (w_child w) cx \<Longrightarrow> childSessionStart sha now reason hasUI cx = (rs, editor) \<Longrightarrow>
    handoff_step m sha cf cid w (w\<lparr>w_child := w_child w @ map handoffEntry rs, w_pending := None\<rparr>)"
| child_input_step: "isChildCtx cf cid (w_child w) cx \<Longrightarrow>
    childInput m sha now free free2 cx parentSession ev (w_parent w) = (act, pending, p') \<Longrightarrow>
    handoff_step m sha cf cid w (w\<lparr>w_parent := p', w_pending := pending\<rparr>)"
| child_agent_starts: "isChildCtx cf cid (w_child w) cx \<Longrightarrow>
    childAgentStart m sha now free appends cx parentSession (w_pending w) (w_parent w) = (rs, pending, guarded) \<Longrightarrow>
    handoff_step m sha cf cid w (w\<lparr>w_child := w_child w @ map handoffEntry rs, w_pending := pending\<rparr>)"
| child_settles: "isChildCtx cf cid (w_child w) cx \<Longrightarrow>
    agentSettledChild m sha gapText now idle free free2 appends cx parentSession branch' (w_parent w) = (es, p') \<Longrightarrow>
    handoff_step m sha cf cid w (w\<lparr>w_parent := p', w_child := w_child w @ es\<rparr>)"

text \<open>Worlds reached from a child without records about itself.\<close>

inductive handoff_reachable ::
  "'s manager \<Rightarrow> (string \<Rightarrow> string) \<Rightarrow> string \<Rightarrow> string \<Rightarrow> 's world \<Rightarrow> bool"
  for m :: "'s manager" and sha cf cid where
  start: "childRecords sha cf cid (w_child w) = [] \<Longrightarrow> handoff_reachable m sha cf cid w"
| step: "handoff_reachable m sha cf cid w \<Longrightarrow> handoff_step m sha cf cid w w' \<Longrightarrow> handoff_reachable m sha cf cid w'"

text \<open>The parent has recorded that the child owns the state, at some time.\<close>

definition parentReleased :: "'s manager \<Rightarrow> (string \<Rightarrow> string) \<Rightarrow> request \<Rightarrow> 's option \<Rightarrow> bool" where
  "parentReleased m sha q file \<longleftrightarrow> (\<exists>p pre post l i. file = Some p \<and> m_entries m p = pre @ post \<and>
     reduceSelfHandoffRequest sha pre q = Inr (Some (l, i)) \<and> h_status l = Transferred)"

definition handoff_inv :: "'s manager \<Rightarrow> (string \<Rightarrow> string) \<Rightarrow> string \<Rightarrow> string \<Rightarrow> 's world \<Rightarrow> bool" where
  "handoff_inv m sha cf cid w \<longleftrightarrow> (\<forall>r \<in> set (childRecords sha cf cid (w_child w)).
     q_originSessionFile (h_request r) \<noteq> cf \<and>
     (h_status r \<in> {Received, AwaitingUser, Failed} \<or>
      (h_status r = Transferred \<and> parentReleased m sha (h_request r) (w_parent w))))"

lemma sourceRecords_append: "sourceRecords sha (es @ fs) = sourceRecords sha es @ sourceRecords sha fs"
  by (simp add: sourceRecords_def inspect_append)

lemma childRecords_append: "childRecords sha cf cid (es @ fs) = childRecords sha cf cid es @ childRecords sha cf cid fs"
  by (simp add: childRecords_def sourceRecords_append)

lemma parentReleased_grows: "grows m a b \<Longrightarrow> parentReleased m sha q a \<Longrightarrow> parentReleased m sha q b"
  unfolding parentReleased_def grows_def by (fastforce simp: append_assoc)

lemma handoff_inv_grows:
  assumes "handoff_inv m sha cf cid w" "grows m (w_parent w) p'"
    and "\<forall>r \<in> set (childRecords sha cf cid es). q_originSessionFile (h_request r) \<noteq> cf \<and>
      (h_status r \<in> {Received, AwaitingUser, Failed} \<or>
       (h_status r = Transferred \<and> parentReleased m sha (h_request r) p'))"
  shows "handoff_inv m sha cf cid (w\<lparr>w_parent := p', w_child := w_child w @ es\<rparr>)"
  using assms parentReleased_grows [OF assms(2)] by (auto simp: handoff_inv_def childRecords_append)

text \<open>A record that is written reads back with its status.\<close>

lemma parse_status:
  assumes "parseSelfHandoffRecord sha v = Some r"
  shows "parseHandoffStatus (get v ''status'') = Some (h_status r)"
  using assms unfolding parseSelfHandoffRecord_def Let_def bind_eq_Some_conv
  by (elim exE conjE, simp only: require_Some option.inject, hypsubst, simp)

lemma parseRequest_origin:
  assumes "parseRequest (Some (obj (requestFields q))) = Some q'"
  shows "q_originSessionFile q' = q_originSessionFile q"
  using assms unfolding parseRequest_def Let_def bind_eq_Some_conv
  by (elim exE conjE, simp only: require_Some option.inject, hypsubst)
    (simp add: requestFields_def get_obj_Cons)

lemma written_fields:
  assumes "r \<in> set (sourceRecords sha (map handoffEntry rs))"
  shows "\<exists>a \<in> set rs. h_status r = h_status a \<and>
    q_originSessionFile (h_request r) = q_originSessionFile (h_request a)"
proof -
  obtain a where a: "a \<in> set rs" "parseSelfHandoffRecord sha (Some (obj (handoffFields a))) = Some r"
    using assms by (auto simp: sourceRecords_def inspectSelfHandoffRecords_def Let_def handoffEntry_def
        List.map_filter_def)
  have f: "get (Some (obj (handoffFields a))) ''status'' = Some (JStr (statusText (h_status a)))"
    "get (Some (obj (handoffFields a))) ''request'' = Some (obj (requestFields (h_request a)))"
    by (simp_all add: handoffFields_def get_obj_Cons)
  have "h_status r = h_status a" using parse_status [OF a(2)] f(1) by simp
  moreover have "q_originSessionFile (h_request r) = q_originSessionFile (h_request a)"
    using parse_parts(1) [OF a(2)] parseRequest_origin f(2) by simp
  ultimately show ?thesis using a(1) by blast
qed

lemma parse_target:
  assumes "parseSelfHandoffRecord sha v = Some r" "h_status r = AwaitingUser"
  shows "h_targetSessionFile r \<noteq> None"
  using assms unfolding parseSelfHandoffRecord_def Let_def bind_eq_Some_conv
  by (elim exE conjE, simp only: require_Some option.inject, hypsubst) (simp add: is_str_def)

lemma no_source: "ty \<noteq> SELF_HANDOFF_STATE_TYPE \<Longrightarrow> sourceRecords sha [customEntry ty v] = []"
  by (simp add: sourceRecords_def inspectSelfHandoffRecords_def List.map_filter_def)

lemma types_differ: "GOAL_STATE_TYPE \<noteq> SELF_HANDOFF_STATE_TYPE" "WORK_PLAN_STATE_TYPE \<noteq> SELF_HANDOFF_STATE_TYPE"
  by (simp_all add: GOAL_STATE_TYPE_def WORK_PLAN_STATE_TYPE_def SELF_HANDOFF_STATE_TYPE_def)

lemma sourceRecords_Nil [simp]: "sourceRecords sha [] = []"
  by (simp add: sourceRecords_def)

text \<open>The entries of the child's handlers only hold records with the statuses of a child.\<close>

definition childEntries :: "(string \<Rightarrow> string) \<Rightarrow> string \<Rightarrow> entry list \<Rightarrow> bool" where
  "childEntries sha cf es \<longleftrightarrow> (\<forall>r \<in> set (sourceRecords sha es).
     q_originSessionFile (h_request r) \<noteq> cf \<and> h_status r \<in> {Received, AwaitingUser, Failed})"

lemma childEntries_append [simp]: "childEntries sha cf (es @ fs) \<longleftrightarrow> childEntries sha cf es \<and> childEntries sha cf fs"
  by (auto simp: childEntries_def sourceRecords_append)

lemma childEntries_Nil [simp]: "childEntries sha cf []"
  by (simp add: childEntries_def)

lemma childEntries_state [simp]:
  "childEntries sha cf [customEntry GOAL_STATE_TYPE v]" "childEntries sha cf [customEntry WORK_PLAN_STATE_TYPE v]"
  by (simp_all add: childEntries_def no_source types_differ)

lemma childEntries_record:
  assumes "list_all (\<lambda>a. q_originSessionFile (h_request a) \<noteq> cf \<and> h_status a \<in> {Received, AwaitingUser, Failed}) rs"
  shows "childEntries sha cf (map handoffEntry rs)"
  unfolding childEntries_def
proof
  fix r assume "r \<in> set (sourceRecords sha (map handoffEntry rs))"
  then show "q_originSessionFile (h_request r) \<noteq> cf \<and> h_status r \<in> {Received, AwaitingUser, Failed}"
    using written_fields assms unfolding list_all_iff by metis
qed

lemma childEntries_childRecord [simp]:
  "st \<in> {Received, AwaitingUser, Failed} \<Longrightarrow> q_originSessionFile q \<noteq> cf \<Longrightarrow>
     childEntries sha cf [handoffEntry (childRecord now q st cx k rt nt)]"
  using childEntries_record [of cf "[childRecord now q st cx k rt nt]" sha]
  by (simp add: childRecord_def makeHandoffRecord_def)

lemma childFailed_entries: "q_originSessionFile q \<noteq> cf \<Longrightarrow> childEntries sha cf (childFailed now q cx g p nt)"
  by (simp add: childFailed_def split: option.split)

lemma childReceived_entries: "q_originSessionFile q \<noteq> cf \<Longrightarrow> childEntries sha cf (childReceived now q cx k t)"
  by (simp add: childReceived_def split: option.split)

lemma childFailure_entries:
  "q_originSessionFile (h_request r) \<noteq> cf \<Longrightarrow> childEntries sha cf (childFailureEntries now branch cx r)"
  by (simp add: childFailureEntries_def Let_def split: option.split)

lemma setup_entries:
  "childSetup m sha now free q cx kickoff t fl = (r, es, p') \<Longrightarrow> q_originSessionFile q \<noteq> cf \<Longrightarrow> childEntries sha cf es"
  by (auto simp: childSetup_def Let_def childFailed_entries childReceived_entries
      split: option.splits prod.splits if_splits sum.splits)

text \<open>A pending orientation is about this child, and another file started it.\<close>

lemma orientation_pending:
  assumes "orientationOf sha cx = Pending ph r"
  shows "r \<in> set (sourceRecords sha (cx_entries cx))" "Some (q_originSessionFile (h_request r)) \<noteq> cx_sessionFile cx"
    "h_status r = (case ph of Orienting \<Rightarrow> Received | AwaitingReply \<Rightarrow> AwaitingUser)"
proof -
  let ?cs = "rev (filter (orientationCandidate (cx_sessionId cx) (cx_sessionFile cx) None)
    (map fst (fst (inspectSelfHandoffRecords sha (cx_entries cx)))))"
  have "orientationLoop sha (cx_entries cx) (cx_branch cx) (cx_sessionId cx) (cx_sessionFile cx) ?cs = Pending ph r"
    using assms by (auto simp: orientationOf_def inspectChildHandoffOrientation_def split: prod.splits if_splits)
  from orientationLoop_pending [OF this] obtain c i where c: "c \<in> set ?cs"
    "reduceSelfHandoffRequest sha (cx_entries cx) (h_request c) = Inr (Some (r, i))"
    "h_status r = (case ph of Orienting \<Rightarrow> Received | AwaitingReply \<Rightarrow> AwaitingUser)" by blast
  then show "r \<in> set (sourceRecords sha (cx_entries cx))" "Some (q_originSessionFile (h_request r)) \<noteq> cx_sessionFile cx"
    "h_status r = (case ph of Orienting \<Rightarrow> Received | AwaitingReply \<Rightarrow> AwaitingUser)"
    using reduced_is_source [OF c(2)] by (auto simp: orientationCandidate_def)
qed

lemma session_start_entries:
  assumes "childSessionStart sha now reason hasUI cx = (rs, editor)" "isChildCtx cf cid es cx"
  shows "childEntries sha cf (map handoffEntry rs)"
proof (cases "orientationOf sha cx")
  case (Pending ph r)
  then have "q_originSessionFile (h_request r) \<noteq> cf"
    using orientation_pending(2) [OF Pending] assms(2) by (simp add: isChildCtx_def)
  then show ?thesis using assms(1) Pending
    by (intro childEntries_record) (auto simp: childSessionStart_def sameChildRecord_def makeHandoffRecord_def
        split: if_splits phase.splits)
qed (use assms(1) in \<open>auto simp: childSessionStart_def split: if_splits\<close>)

lemma settled_entries:
  assumes "agentSettledChild m sha gapText now idle free free2 appends cx ps branch' fl = (es, p')"
    "isChildCtx cf cid es0 cx"
  shows "childEntries sha cf es"
proof (cases "orientationOf sha cx")
  case (Pending ph r)
  then have "q_originSessionFile (h_request r) \<noteq> cf"
    using orientation_pending(2) [OF Pending] assms(2) by (simp add: isChildCtx_def)
  then show ?thesis using assms(1) Pending
    by (auto simp: agentSettledChild_def childFailure_entries Let_def
        split: if_splits phase.splits outcome.splits sum.splits)
qed (use assms(1) in \<open>auto simp: agentSettledChild_def split: if_splits\<close>)

text \<open>The parent file only grows.\<close>

lemma grows_refl [simp]: "grows m a a"
  by (cases a) (auto simp: grows_def)

lemma grows_trans: "grows m a b \<Longrightarrow> grows m b c \<Longrightarrow> grows m a c"
  by (fastforce simp: grows_def split: option.splits)

lemma lawful_select: "lawful m \<Longrightarrow> m_entries m (m_select m i p) = m_entries m p"
  by (simp add: lawful_def)

lemma lawful_append:
  "lawful m \<Longrightarrow> m_append m ty v (m_select m i p) = Some (p', j) \<Longrightarrow>
     \<exists>e. m_entries m p' = m_entries m p @ [e]"
  unfolding lawful_def Let_def by blast

lemma select_grows: "lawful m \<Longrightarrow> grows m (Some p) (Some (m_select m i p))"
  by (simp add: grows_def lawful_select)

lemma append_grows:
  "lawful m \<Longrightarrow> m_append m ty v (m_select m i p) = Some (p', j) \<Longrightarrow> grows m (Some p) (Some p')"
  using lawful_append by (fastforce simp: grows_def)

lemma appendRecordAt_grows:
  assumes "lawful m"
  shows "grows m (Some p) (Some (snd (appendRecordAt m i r p)))"
    "fst (appendRecordAt m i r p) = Inl e \<Longrightarrow> snd (appendRecordAt m i r p) = m_select m i p"
  using select_grows [OF assms] append_grows [OF assms]
  by (auto simp: appendRecordAt_def Let_def split: option.splits)

lemma finalizeAppend_grows:
  assumes "lawful m"
  shows "grows m (Some p) (Some (snd (finalizeAppend m sha now q tf ti eid g p)))"
proof -
  obtain src p1 where fp: "(case g of
           None \<Rightarrow> (Some eid, p)
         | Some g \<Rightarrow>
             (case parentGoalTransition m sha p q ''transferred'' of
                Some i \<Rightarrow> (Some i, p)
              | None \<Rightarrow>
                  (case m_append m GOAL_STATE_TYPE (Some (transferredGoal now g (q_id q) tf)) (m_select m eid p) of
                     None \<Rightarrow> (None, m_select m eid p)
                   | Some (p', i) \<Rightarrow> (Some i, p')))) = (src, p1)" by force
  then have g1: "grows m (Some p) (Some p1)"
    using select_grows [OF assms] append_grows [OF assms] by (auto split: option.splits)
  let ?r = "makeHandoffRecord q Transferred now (Some (tf, ti)) None None
    (Some ''The child orientation checkpoint settled and the child now owns the transferred state.'')"
  have "grows m (Some p1) (Some (snd (finalizeAppend m sha now q tf ti eid g p)))"
  proof (cases src)
    case None
    then show ?thesis unfolding finalizeAppend_def fp by simp
  next
    case (Some i)
    obtain res p2 where r: "appendRecordAt m i ?r p1 = (res, p2)" by force
    have g2: "grows m (Some p1) (Some p2)" and sel: "res = Inl e \<Longrightarrow> p2 = m_select m i p1" for e
      using appendRecordAt_grows [OF assms, where p = p1 and i = i and r = ?r] r by auto
    show ?thesis
      unfolding finalizeAppend_def fp using Some r g2 sel append_grows [OF assms, where p = p1 and i = i]
      by (auto simp: Let_def split: option.splits sum.splits)
  qed
  then show ?thesis using g1 grows_trans by blast
qed

lemma finalize_grows:
  assumes "lawful m"
  shows "grows m (Some p) (Some (snd (finalizeParentTransfer m sha now q tf ti p)))"
  using finalizeAppend_grows [OF assms, where p = p]
  by (auto simp: finalizeParentTransfer_def Let_def split: option.splits sum.splits prod.splits)

lemma childCreated_grows:
  assumes "lawful m"
  shows "grows m (Some p) (Some (snd (appendParentChildCreated m sha now q tf ti p)))"
  using appendRecordAt_grows(1) [OF assms, where p = p]
  by (auto simp: appendParentChildCreated_def Let_def split: option.splits sum.splits prod.splits)

lemma withParent_grows:
  "(\<And>p. grows m (Some p) (Some (snd (act p)))) \<Longrightarrow> grows m fl (snd (withParent m q free act fl))"
  by (cases fl) (auto simp: withParent_def grows_def split: prod.splits, (metis snd_conv)+)

lemma finalizeAndVerify_grows:
  assumes "lawful m"
  shows "grows m fl (snd (finalizeAndVerify m sha now free free2 q tf ti fl))"
proof -
  obtain r fl2 where f: "withParent m q free (finalizeParentTransfer m sha now q tf ti) fl = (r, fl2)" by force
  have g1: "grows m fl fl2"
    using withParent_grows [where act = "finalizeParentTransfer m sha now q tf ti", OF finalize_grows [OF assms],
        where fl = fl and q = q and free = free] f
    by simp
  have "grows m fl2 (snd (withParent m q free2 (\<lambda>p. (verifyParentAlreadyTransferred m sha q tf ti p, p)) fl2))"
    by (rule withParent_grows) simp
  with g1 grows_trans [OF g1] show ?thesis by (cases r) (simp_all add: finalizeAndVerify_def f)
qed

lemma setup_grows:
  assumes "lawful m" "childSetup m sha now free q cx kickoff t fl = (r, es, p')"
  shows "grows m fl p'"
proof -
  have "grows m fl (snd (withParent m q free (appendParentChildCreated m sha now q cf cid) fl))" for cf cid
    by (rule withParent_grows) (rule childCreated_grows [OF assms(1)])
  then show ?thesis using assms(2)
    by (auto simp: childSetup_def Let_def split: option.splits prod.splits if_splits sum.splits) (metis snd_conv)+
qed

lemma input_grows:
  assumes "lawful m" "childInput m sha now free free2 cx ps ev fl = (act, pending, p')"
  shows "grows m fl p'"
  using assms(2) finalizeAndVerify_grows [OF assms(1), where fl = fl]
  by (auto simp: childInput_def Let_def split: orientation.splits phase.splits if_splits sum.splits prod.splits)
    (metis snd_conv)+

lemma settled_grows:
  assumes "lawful m"
    "agentSettledChild m sha gapText now idle free free2 appends cx ps branch' fl = (es, p')"
  shows "grows m fl p'"
  using assms(2) finalizeAndVerify_grows [OF assms(1), where fl = fl]
  by (auto simp: agentSettledChild_def Let_def split: orientation.splits phase.splits if_splits sum.splits outcome.splits)

text \<open>The only record of a child that says it was released is written after the parent confirmed it.\<close>

lemma verified_released:
  assumes "withParent m q free (\<lambda>p. (verifyParentAlreadyTransferred m sha q tf ti p, p)) fl = (Inr u, fl2)"
  shows "parentReleased m sha q fl"
proof -
  obtain p where p: "fl = Some p" "verifyParentAlreadyTransferred m sha q tf ti p = Inr u"
    using assms by (auto simp: withParent_def split: option.splits if_splits)
  then obtain r i where "reduceSelfHandoffRequest sha (m_entries m p) q = Inr (Some (r, i))" "h_status r = Transferred"
    by (auto simp: verifyParentAlreadyTransferred_def sessionWideHandoff_def Let_def split: sum.splits option.splits if_splits)
  then show ?thesis using p(1) by (auto simp: parentReleased_def intro: exI [of _ "[]"])
qed

lemma sameChildRecord_ok:
  assumes "r \<in> set (sourceRecords sha es)" "st \<in> {Transferred, Failed}" "h_targetSessionFile r \<noteq> None"
  shows "handoff_ok sha (sameChildRecord now r st None None nt)"
proof -
  obtain v where v: "parseSelfHandoffRecord sha v = Some r" using source_parsed [OF assms(1)] by blast
  show ?thesis
    using parse_parts [OF v] parse_paired [OF v] parseRequest_ok [OF parse_parts(1) [OF v]] assms(2,3)
    by (auto simp: handoff_ok_def sameChildRecord_def makeHandoffRecord_def paired_def)
qed

lemma agent_start_entries:
  assumes "childAgentStart m sha now free appends cx ps pending fl = (rs, pending', guarded)"
    and "isChildCtx cf cid es cx" "r \<in> set (sourceRecords sha (map handoffEntry rs))"
  shows "q_originSessionFile (h_request r) \<noteq> cf \<and> h_status r = Transferred \<and> parentReleased m sha (h_request r) fl"
proof -
  obtain l where l: "orientationOf sha cx = Pending AwaitingReply l"
    "rs = [sameChildRecord now l Transferred None None
        ''An explicit post-orientation user message was admitted and released the fresh session to begin work.'']"
    and v: "\<exists>u fl2. withParent m (h_request l) free (\<lambda>p. (verifyParentAlreadyTransferred m sha (h_request l)
        (the (cx_sessionFile cx)) (cx_sessionId cx) p, p)) fl = (Inr u, fl2)"
    using assms(1,3)
    by (auto simp: childAgentStart_def split: orientation.splits phase.splits if_splits sum.splits) (metis prod.collapse)
  note pending = orientation_pending [OF l(1)]
  obtain v where "parseSelfHandoffRecord sha v = Some l" using source_parsed [OF pending(1)] by blast
  then have "h_targetSessionFile l \<noteq> None" using parse_target pending(3) by simp
  then have "handoff_ok sha (hd rs)" using sameChildRecord_ok [OF pending(1)] l(2) by simp
  then have "sourceRecords sha (map handoffEntry rs) = rs"
    using inspect_written [of sha rs] l(2) by (simp add: sourceRecords_def)
  then have "r = hd rs" using assms(3) l(2) by simp
  then show ?thesis using v verified_released l(2) pending(2) assms(2)
    by (auto simp: sameChildRecord_def makeHandoffRecord_def isChildCtx_def)
qed

lemma handoff_step_inv:
  assumes "lawful m" "handoff_step m sha cf cid w w'" "handoff_inv m sha cf cid w"
  shows "handoff_inv m sha cf cid w'"
  using assms(2)
proof cases
  case (parent_grows p')
  then show ?thesis using handoff_inv_grows [OF assms(3), of p' "[]"] by (simp add: childRecords_def)
next
  case (child_grows es)
  then show ?thesis using assms(3) by (simp add: handoff_inv_def childRecords_append)
next
  case (child_setup cx q now free kickoff t r es p')
  then show ?thesis
    using handoff_inv_grows [OF assms(3) setup_grows [OF assms(1)]] setup_entries
    by (fastforce simp: childEntries_def childRecords_def)
next
  case (child_starts cx now reason hasUI rs editor)
  then have "childEntries sha cf (map handoffEntry rs)" using session_start_entries by blast
  then have "handoff_inv m sha cf cid (w\<lparr>w_parent := w_parent w, w_child := w_child w @ map handoffEntry rs\<rparr>)"
    by (intro handoff_inv_grows [OF assms(3) grows_refl]) (simp add: childEntries_def childRecords_def)
  then show ?thesis using child_starts(1) by (simp add: handoff_inv_def)
next
  case (child_input_step cx now free free2 ps ev act pending p')
  then have "handoff_inv m sha cf cid (w\<lparr>w_parent := p', w_child := w_child w @ []\<rparr>)"
    by (intro handoff_inv_grows [OF assms(3) input_grows [OF assms(1)]]) (simp_all add: childRecords_def)
  then show ?thesis using child_input_step(1) by (simp add: handoff_inv_def)
next
  case (child_agent_starts cx now free appends ps rs pending guarded)
  have "\<forall>r \<in> set (childRecords sha cf cid (map handoffEntry rs)). q_originSessionFile (h_request r) \<noteq> cf \<and>
      h_status r = Transferred \<and> parentReleased m sha (h_request r) (w_parent w)"
    using agent_start_entries [OF child_agent_starts(3,2)] by (simp add: childRecords_def)
  then have "handoff_inv m sha cf cid (w\<lparr>w_parent := w_parent w, w_child := w_child w @ map handoffEntry rs\<rparr>)"
    by (intro handoff_inv_grows [OF assms(3) grows_refl]) simp
  then show ?thesis using child_agent_starts(1) by (simp add: handoff_inv_def)
next
  case (child_settles cx gapText now idle free free2 appends ps branch' es p')
  then have "childEntries sha cf es" using settled_entries by blast
  with child_settles show ?thesis
    using handoff_inv_grows [OF assms(3) settled_grows [OF assms(1) child_settles(3)], of es]
    by (simp add: childEntries_def childRecords_def)
qed

lemma handoff_reachable_inv:
  "handoff_reachable m sha cf cid w \<Longrightarrow> lawful m \<Longrightarrow> handoff_inv m sha cf cid w"
proof (induction rule: handoff_reachable.induct)
  case (start w)
  then show ?case by (simp add: handoff_inv_def)
next
  case (step w w')
  then show ?case using handoff_step_inv by blast
qed

section \<open>Who may work\<close>

lemma orientationLoop_none:
  "orientationLoop sha es branch sid sfile rs = NoOrientation \<Longrightarrow> c \<in> set rs \<Longrightarrow>
     \<exists>x. reduceSelfHandoffRequest sha es (h_request c) = Inr x \<and>
       (\<forall>r i. x = Some (r, i) \<longrightarrow> h_status r \<notin> {Received, AwaitingUser})"
  by (induction rs) (auto split: sum.splits option.splits if_splits prod.splits)

text \<open>When the reduction of a record's request succeeds, so does the lookup of its identifier, with the same record.\<close>

lemma reduction_is_lookup:
  assumes "r \<in> set (sourceRecords sha es)" "reduceSelfHandoffRequest sha es (h_request r) = Inr (Some (l, i))"
  shows "latestHandoffForRequest sha es (q_id (h_request r)) = Some (Some l)"
proof -
  let ?rs = "sourceRecords sha es"
  obtain c where c: "List.find (\<lambda>x. q_id (h_request x) = q_id (h_request r)) ?rs = Some c"
    using assms(1) by (cases "List.find (\<lambda>x. q_id (h_request x) = q_id (h_request r)) ?rs") (auto simp: find_None_iff)
  then have "c \<in> set ?rs" "q_id (h_request c) = q_id (h_request r)" by (auto dest: find_Some_in)
  then have "c \<in> set (map fst (requestTrail sha es (h_request r)))"
    by (auto simp: requestTrail_def trail_def sourceRecords_def)
  then have "h_request c = h_request r"
    using assms(2) by (auto simp: reduce_iff consistent_def list_all_iff)
  moreover have "\<not> snd (inspectSelfHandoffRecords sha es)" using assms(2) by (simp add: reduce_iff wellFormedLog_def)
  ultimately show ?thesis using c assms(2)
    by (simp add: latestHandoffForRequest_def sourceRecords_def case_prod_unfold Let_def)
qed

lemma ownershipLoop_blocks:
  assumes "x \<in> set ids" "latestHandoffForRequest sha es x = Some (Some r)" "blocks r"
  shows "ownershipLoop sha es blocks reason ids \<noteq> None"
  using ownershipLoop_None [of sha es blocks reason ids x] assms by auto

text \<open>A log in which the records about this child come from another session file.\<close>

lemma reduced_child_record:
  assumes "r \<in> set (childRecords sha cf cid es)" "reduceSelfHandoffRequest sha es (h_request r) = Inr x"
  shows "\<exists>l i. x = Some (l, i) \<and> l \<in> set (childRecords sha cf cid es) \<and> h_request l = h_request r"
proof -
  let ?t = "requestTrail sha es (h_request r)"
  have c: "consistent (h_request r) (map fst ?t)" and x: "x = (if ?t = [] then None else Some (last ?t))"
    using assms(2) by (auto simp: reduce_iff)
  have mem: "r \<in> set (map fst ?t)"
    using assms(1) by (auto simp: childRecords_def requestTrail_def trail_def sourceRecords_def)
  then have ne: "?t \<noteq> []" by auto
  obtain l i where l: "last ?t = (l, i)" by force
  then have "l = last (map fst ?t)" using ne by (simp add: last_map)
  then have "aboutChild cf cid l"
    using consistent_target_kept [OF c mem] assms(1) by (simp add: childRecords_def aboutChild_def)
  moreover have "l \<in> set (sourceRecords sha es) \<and> h_request l = h_request r"
    using reduced_is_source [of sha es "h_request r" l i] assms(2) x ne l by simp
  ultimately show ?thesis using x ne l by (simp add: childRecords_def)
qed

lemma working_child_record:
  assumes cx: "isChildCtx cf cid es cx" and free: "\<not> toolBlocked sha cx"
    and origin: "\<forall>r \<in> set (childRecords sha cf cid es). q_originSessionFile (h_request r) \<noteq> cf"
    and r: "r \<in> set (childRecords sha cf cid es)"
  shows "\<exists>l i. reduceSelfHandoffRequest sha es (h_request r) = Inr (Some (l, i)) \<and>
    l \<in> set (childRecords sha cf cid es) \<and> h_request l = h_request r \<and> h_status l \<notin> {Received, AwaitingUser}"
proof -
  have none: "orientationLoop sha es (cx_branch cx) cid (Some cf)
      (rev (filter (orientationCandidate cid (Some cf) None) (sourceRecords sha es))) = NoOrientation"
    using free cx by (auto simp: toolBlocked_def orientationOf_def inspectChildHandoffOrientation_def isChildCtx_def
        sourceRecords_def case_prod_unfold Let_def split: if_splits)
  have "r \<in> set (rev (filter (orientationCandidate cid (Some cf) None) (sourceRecords sha es)))"
    using r origin by (auto simp: orientationCandidate_def aboutChild_def childRecords_def)
  from orientationLoop_none [OF none this] obtain x where x: "reduceSelfHandoffRequest sha es (h_request r) = Inr x"
    "\<And>l i. x = Some (l, i) \<Longrightarrow> h_status l \<notin> {Received, AwaitingUser}" by auto
  from reduced_child_record [OF r x(1)] x show ?thesis by auto
qed

lemma failed_child_is_blocked:
  assumes cx: "isChildCtx cf cid es cx" and free: "\<not> toolBlocked sha cx"
    and origin: "\<forall>r \<in> set (childRecords sha cf cid es). q_originSessionFile (h_request r) \<noteq> cf"
    and r: "r \<in> set (childRecords sha cf cid es)" "q_goalId (h_request r) = Some gid"
    and l: "reduceSelfHandoffRequest sha es (h_request r) = Inr (Some (l, i))" "h_status l = Failed"
  shows "reactivationBlockReason sha cx gid \<noteq> None"
proof -
  have src: "r \<in> set (sourceRecords sha es)" "aboutChild cf cid r" using r by (simp_all add: childRecords_def)
  have es: "cx_entries cx = es" "cx_sessionId cx = cid" "cx_sessionFile cx = Some cf" using cx by (simp_all add: isChildCtx_def)
  have wf: "\<not> snd (inspectSelfHandoffRecords sha es)" using l(1) by (simp add: reduce_iff wellFormedLog_def)
  have "h_request l = h_request r" using reduced_is_source [OF l(1)] by simp
  then have "unresolvedChildOwnership sha cx (Some gid) \<noteq> None"
    unfolding unresolvedChildOwnership_def Let_def case_prod_unfold es if_not_P [OF wf]
    using reduction_is_lookup [OF src(1) l(1)] l(2) r(2) src origin r(1)
    by (intro ownershipLoop_blocks [of "q_id (h_request r)" _ _ _ l]) (auto simp: sourceRecords_def aboutChild_def)
  moreover have "\<not> orientingHere sha cx gid c" if c: "c \<in> set (sourceRecords sha es)" for c
  proof
    assume o: "orientingHere sha cx gid c"
    then have cc: "c \<in> set (childRecords sha cf cid es)"
      using c by (simp add: orientingHere_def childRecords_def aboutChild_def es)
    obtain k j where k: "reduceSelfHandoffRequest sha es (h_request c) = Inr (Some (k, j))"
      "h_status k \<notin> {Received, AwaitingUser}"
      using working_child_record [OF cx free origin cc] by blast
    then show False using o reduction_is_lookup [OF c k(1)] by (simp add: orientingHere_def es)
  qed
  then have "\<not> list_ex (orientingHere sha cx gid) (map fst (fst (inspectSelfHandoffRecords sha es)))"
    unfolding list_ex_iff sourceRecords_def by blast
  ultimately show ?thesis
    using wf by (auto simp: reactivationBlockReason_def es Let_def case_prod_unfold split: option.splits)
qed

text \<open>C3. Parent and child never both work on a goal that was handed over. In every world that the protocol
  reaches, with any parent turns, reclaims and rollbacks in between: while the parent may drive the
  goal, the child's tools are blocked or the child may not drive the goal.\<close>

theorem parent_and_child_exclude_each_other:
  assumes "lawful m" "handoff_reachable m sha cf cid w" "w_parent w = Some p"
    and "cx_entries pcx = m_entries m p" "isChildCtx cf cid (w_child w) ccx"
    and "r \<in> set (childRecords sha cf cid (w_child w))" "movesGoalFrom pcx gid r"
  shows "reactivationBlockReason sha pcx gid \<noteq> None \<or> toolBlocked sha ccx \<or>
    reactivationBlockReason sha ccx gid \<noteq> None"
proof (rule ccontr)
  assume free: "\<not> ?thesis"
  let ?q = "h_request r"
  have inv: "handoff_inv m sha cf cid w" by (rule handoff_reachable_inv [OF assms(2,1)])
  then have origin: "\<forall>r \<in> set (childRecords sha cf cid (w_child w)). q_originSessionFile (h_request r) \<noteq> cf"
    by (simp add: handoff_inv_def)
  obtain l i where l: "reduceSelfHandoffRequest sha (w_child w) ?q = Inr (Some (l, i))"
    "l \<in> set (childRecords sha cf cid (w_child w))" "h_request l = ?q" "h_status l \<notin> {Received, AwaitingUser}"
    using working_child_record [OF assms(5) _ origin assms(6)] free by auto
  have "q_goalId ?q = Some gid" using assms(7) by (simp add: movesGoalFrom_def)
  then have "h_status l \<noteq> Failed"
    using failed_child_is_blocked [OF assms(5) _ origin assms(6) _ l(1)] free by auto
  then have "parentReleased m sha ?q (Some p)"
    using inv l(2,3,4) assms(3) by (auto simp: handoff_inv_def)
  then obtain pre post t j where t: "m_entries m p = pre @ post"
    "reduceSelfHandoffRequest sha pre ?q = Inr (Some (t, j))" "h_status t = Transferred"
    by (auto simp: parentReleased_def)
  have "t \<in> set (sourceRecords sha (pre @ post))" "h_request t = ?q"
    using reduced_is_source [OF t(2)] by (simp_all add: sourceRecords_append)
  moreover have "childHolds sha (pre @ post) t"
  proof (cases "reduceSelfHandoffRequest sha (pre @ post) ?q")
    case (Inr x)
    from ended_stays_ended [OF t(2) _ this] t(3) Inr \<open>h_request t = ?q\<close> show ?thesis
      by (auto simp: childHolds_def)
  qed (simp add: childHolds_def \<open>h_request t = ?q\<close>)
  moreover have "movesGoalFrom pcx gid t" using assms(7) \<open>h_request t = ?q\<close> by (simp add: movesGoalFrom_def)
  ultimately have "givenAway sha pcx gid"
    unfolding givenAway_def list_ex_iff assms(4) t(1) by blast
  then show False using reactivation_owned free by blast
qed

text \<open>While a child is oriented it admits only the exact kickoff, sent by the extension or by the user after a
  retry was allowed, without images and when idle; a later message is admitted only from the user, when
  idle, after a complete orientation, with the parent's record that the child now owns the state.\<close>

theorem oriented_child_admits:
  assumes "childInput m sha now free free2 cx parentSession ev fl = (Continue, released, fl')"
    and "orientationOf sha cx = Pending ph r"
  shows "(ph = Orienting \<and> isOrientationKickoff sha (in_text ev) (h_request r) \<and> in_images ev = 0 \<and> in_idle ev \<and>
      (in_source ev = ''extension'' \<or> h_retryAllowed r = Some True) \<and> released = None \<and> fl' = fl) \<or>
    (ph = AwaitingReply \<and> in_source ev \<noteq> ''extension'' \<and> in_idle ev \<and>
      parentSession = Some (q_originSessionFile (h_request r)) \<and>
      (\<exists>k. inspectOrientationOutcome sha (cx_branch cx) (h_request r) = Success k) \<and>
      released = Some (q_id (h_request r)) \<and> parentReleased m sha (h_request r) fl')"
proof (cases ph)
  case Orienting
  then show ?thesis using assms by (auto simp: childInput_def Let_def split: if_splits)
next
  case AwaitingReply
  then have ready: "childReady sha cx parentSession r = Inr ()" "in_source ev \<noteq> ''extension''" "in_idle ev"
    and fin: "\<exists>u. finalizeAndVerify m sha now free free2 (h_request r) (the (cx_sessionFile cx)) (cx_sessionId cx) fl = (Inr u, fl')"
    and released: "released = Some (q_id (h_request r))"
    using assms by (auto simp: childInput_def split: if_splits sum.splits prod.splits)
  obtain fl1 u where "withParent m (h_request r) free2 (\<lambda>p. (verifyParentAlreadyTransferred m sha (h_request r)
      (the (cx_sessionFile cx)) (cx_sessionId cx) p, p)) fl1 = (Inr u, fl')"
    using fin by (auto simp: finalizeAndVerify_def split: sum.splits prod.splits)
  moreover from this have "fl1 = fl'" by (auto simp: withParent_def split: if_splits option.splits)
  ultimately have "parentReleased m sha (h_request r) fl'" using verified_released by blast
  moreover have "parentSession = Some (q_originSessionFile (h_request r))"
    "\<exists>k. inspectOrientationOutcome sha (cx_branch cx) (h_request r) = Success k"
    using ready(1) by (auto simp: childReady_def split: if_splits outcome.splits)
  ultimately show ?thesis using AwaitingReply ready(2,3) released by simp
qed

section \<open>Finalizing is confirmed and may be repeated\<close>

lemma sessionWide_Inr:
  "sessionWideHandoff sha es q = Inr (Some r, i) \<longleftrightarrow> reduceSelfHandoffRequest sha es q = Inr (Some (r, i))"
  by (auto simp: sessionWideHandoff_def split: sum.splits option.splits)

lemma reduce_append_other:
  assumes "\<not> is_custom SELF_HANDOFF_STATE_TYPE e"
  shows "reduceSelfHandoffRequest sha (es @ [e]) q = reduceSelfHandoffRequest sha es q"
proof -
  have "inspectSelfHandoffRecords sha [e] = ([], False)"
    using assms by (simp add: inspectSelfHandoffRecords_def List.map_filter_def)
  then have "inspectSelfHandoffRecords sha (es @ [e]) = inspectSelfHandoffRecords sha es"
    by (simp add: inspect_append)
  then show ?thesis by (simp add: reduceSelfHandoffRequest_def)
qed

lemma latestGoal_append_goal:
  "is_custom GOAL_STATE_TYPE e \<Longrightarrow> latestGoalState (bs @ [e]) = latestGoalState [e]"
  using latest_append [of "[]" e] by (simp add: latestGoalState_def latest_append)

lemma latestGoal_append_other:
  "\<not> is_custom GOAL_STATE_TYPE e \<Longrightarrow> latestGoalState (bs @ [e]) = latestGoalState bs"
  by (simp add: latestGoalState_def latest_append)

lemma is_custom_id [simp]: "is_custom ty ((customEntry ty' v)\<lparr>en_id := j\<rparr>) \<longleftrightarrow> ty' = ty"
  by (auto simp: is_custom_def customEntry_def)

lemma en_data_id [simp]: "en_data ((customEntry ty v)\<lparr>en_id := j\<rparr>) = v"
  by (simp add: customEntry_def)

lemma append_law:
  assumes "lawful m" "m_append m ty v (m_select m i p) = Some (p', j)"
  defines "e \<equiv> (customEntry ty v)\<lparr>en_id := Some j\<rparr>"
  shows "m_entries m p' = m_entries m p @ [e]" "m_branchOf m p' j = m_branchOf m p i @ [e]" "j \<noteq> []"
    "m_sessionId m p' = m_sessionId m p"
  using assms unfolding lawful_def Let_def e_def by blast+

text \<open>A transferred record after one that created the child.\<close>

lemma transferred_reduces:
  assumes red: "reduceSelfHandoffRequest sha es q = Inr (Some (r, i))" and st: "h_status r = ChildCreated"
    and target: "h_targetSessionFile r = Some tf" "h_targetSessionId r = Some ti"
    and a_def: "a = makeHandoffRecord q Transferred now (Some (tf, ti)) None None nt"
    and e: "e = (customEntry SELF_HANDOFF_STATE_TYPE (Some (obj (handoffFields a))))\<lparr>en_id := Some j\<rparr>"
  shows "reduceSelfHandoffRequest sha (es @ [e]) q = Inr (Some (a, Some j))"
proof -
  have src: "r \<in> set (sourceRecords sha es)" "h_request r = q" using reduced_is_source [OF red] by simp_all
  obtain v where v: "parseSelfHandoffRecord sha v = Some r" using source_parsed [OF src(1)] by blast
  have "handoff_ok sha a"
    using parse_parts [OF v] parseRequest_ok [OF parse_parts(1) [OF v]] target src(2)
    by (simp add: a_def handoff_ok_def makeHandoffRecord_def paired_def)
  then have p: "parseSelfHandoffRecord sha (Some (obj (handoffFields a))) = Some a" by (rule parseHandoff_read)
  have ins: "inspectSelfHandoffRecords sha [e] = ([(a, Some j)], False)"
    by (simp add: inspectSelfHandoffRecords_def e p List.map_filter_def)
  then have one: "requestTrail sha [e] q = [(a, Some j)]"
    by (simp add: requestTrail_def trail_def a_def makeHandoffRecord_def)
  let ?t = "requestTrail sha es q"
  have t: "wellFormedLog sha es" "consistent q (map fst ?t)" "?t \<noteq> []" "last ?t = (r, i)"
    using red by (auto simp: reduce_iff split: if_splits)
  have "follows r a" using st target by (simp add: follows_def a_def makeHandoffRecord_def)
  then have "consistent q (map fst ?t @ [a])"
    using t by (simp add: consistent_def successively_append_iff last_map a_def makeHandoffRecord_def)
  then show ?thesis
    using t(1,3) ins by (simp add: reduce_iff requestTrail_append one wellFormedLog_def inspect_append)
qed

lemma goalIs_transferred:
  assumes "goalIs (Some g) ''transferring'' q" "validGoal (Some g)" "q_id q \<noteq> []" "tf \<noteq> []"
    and "is_custom GOAL_STATE_TYPE e" "en_data e = Some (transferredGoal now g (q_id q) tf)"
  shows "goalIs (latestGoalState (bs @ [e])) ''transferred'' q"
proof -
  have r: "isRecord (Some g)" using assms(2) by (rule validGoal_isRecord)
  have "validGoal (Some (transferredGoal now g (q_id q) tf))" by (rule validGoal_transferred [OF assms(2-4)])
  then have "latestGoalState (bs @ [e]) = Some (transferredGoal now g (q_id q) tf)"
    using assms(5,6) by (simp add: latestGoalState_def latest_append)
  then show ?thesis using assms(1) by (simp add: goalIs_def transferredGoal_def get_spread [OF r])
qed

lemma transition_branch:
  assumes "lawful m" "parentGoalTransition m sha p q ''transferred'' = Some i"
  shows "goalIs (latestGoalState (m_branchOf m p i)) ''transferred'' q"
proof -
  obtain e where e: "e \<in> set (m_entries m p)" "is_custom GOAL_STATE_TYPE e" "goalIs (latestGoalState [e]) ''transferred'' q"
    "en_id e = Some i"
    using assms(2) by (auto simp: parentGoalTransition_def bind_eq_Some_conv dest!: find_Some_in split: option.splits)
  then obtain bs where "m_branchOf m p i = bs @ [e]" using assms(1) unfolding lawful_def by blast
  then show ?thesis using latestGoal_append_goal [OF e(2)] e(3) by simp
qed

lemma request_parts:
  assumes "reduceSelfHandoffRequest sha es q = Inr (Some (r, i))"
  shows "q_id q \<noteq> []" "h_targetSessionFile r \<noteq> Some []" "h_request r = q"
proof -
  have src: "r \<in> set (sourceRecords sha es)" "h_request r = q" using reduced_is_source [OF assms] by simp_all
  obtain v where v: "parseSelfHandoffRecord sha v = Some r" using source_parsed [OF src(1)] by blast
  show "q_id q \<noteq> []" "h_targetSessionFile r \<noteq> Some []" "h_request r = q"
    using parse_parts [OF v] parseRequest_ok [OF parse_parts(1) [OF v]] src(2) by (auto simp: request_ok_def)
qed

text \<open>Appending the transferred record where the branch already has the transferred goal.\<close>

lemma appended_record_verifies:
  assumes "lawful m" and red: "reduceSelfHandoffRequest sha (m_entries m p1) q = Inr (Some (r, eid))" "h_status r = ChildCreated"
    "h_targetSessionFile r = Some tf" "h_targetSessionId r = Some ti"
    and goal: "q_goalTransferred q \<Longrightarrow> goalIs (latestGoalState (m_branchOf m p1 i)) ''transferred'' q"
    and app: "appendRecordAt m i (makeHandoffRecord q Transferred now (Some (tf, ti)) None None nt) p1 = (Inr u, p2)"
  shows "\<exists>a j. reduceSelfHandoffRequest sha (m_entries m p2) q = Inr (Some (a, Some j)) \<and> h_status a = Transferred \<and>
    j \<noteq> [] \<and> h_targetSessionFile a = Some tf \<and> h_targetSessionId a = Some ti \<and>
    (q_goalTransferred q \<longrightarrow> goalIs (latestGoalState (m_branchOf m p2 j)) ''transferred'' q)"
proof -
  let ?a = "makeHandoffRecord q Transferred now (Some (tf, ti)) None None nt"
  let ?v = "Some (obj (handoffFields ?a))"
  obtain j where j: "m_append m SELF_HANDOFF_STATE_TYPE ?v (m_select m i p1) = Some (p2, j)"
    using app by (auto simp: appendRecordAt_def Let_def split: option.splits)
  note law = append_law [OF assms(1) j]
  have "reduceSelfHandoffRequest sha (m_entries m p2) q = Inr (Some (?a, Some j))"
    unfolding law(1) by (rule transferred_reduces [OF red refl refl])
  moreover have "q_goalTransferred q \<longrightarrow> goalIs (latestGoalState (m_branchOf m p2 j)) ''transferred'' q"
    using goal by (simp add: law(2) latestGoal_append_other SELF_HANDOFF_STATE_TYPE_def GOAL_STATE_TYPE_def)
  ultimately show ?thesis using law(3) by (intro exI [of _ ?a] exI [of _ j]) (simp add: makeHandoffRecord_def)
qed

lemma finalizeAppend_verifies:
  assumes "lawful m" and red: "reduceSelfHandoffRequest sha (m_entries m p) q = Inr (Some (r, eid))" "h_status r = ChildCreated"
    "h_targetSessionFile r = Some tf" "h_targetSessionId r = Some ti"
    and g: "if q_goalTransferred q then g \<noteq> None \<and> goalIs g ''transferring'' q \<and> validGoal g else g = None"
    and fin: "finalizeAppend m sha now q tf ti eid0 g p = (Inr u, p2)"
  shows "\<exists>a j. reduceSelfHandoffRequest sha (m_entries m p2) q = Inr (Some (a, Some j)) \<and> h_status a = Transferred \<and>
    j \<noteq> [] \<and> h_targetSessionFile a = Some tf \<and> h_targetSessionId a = Some ti \<and>
    (q_goalTransferred q \<longrightarrow> goalIs (latestGoalState (m_branchOf m p2 j)) ''transferred'' q)"
proof -
  note fin' = fin [unfolded finalizeAppend_def]
  note ends = appended_record_verifies [OF assms(1) _ red(2-4)]
  show ?thesis
  proof (cases "q_goalTransferred q")
    case False
    then have "g = None" using g by simp
    then have "appendRecordAt m eid0 (makeHandoffRecord q Transferred now (Some (tf, ti)) None None
        (Some ''The child orientation checkpoint settled and the child now owns the transferred state.'')) p = (Inr u, p2)"
      using fin' by (simp split: sum.splits prod.splits)
    then show ?thesis using ends [OF red(1)] False by blast
  next
    case True
    then obtain g0 where g0: "g = Some g0" "goalIs (Some g0) ''transferring'' q" "validGoal (Some g0)" using g by auto
    show ?thesis
    proof (cases "parentGoalTransition m sha p q ''transferred''")
      case (Some i)
      then have "appendRecordAt m i (makeHandoffRecord q Transferred now (Some (tf, ti)) None None
          (Some ''The child orientation checkpoint settled and the child now owns the transferred state.'')) p = (Inr u, p2)"
        using fin' g0(1) by (simp split: sum.splits prod.splits option.splits)
      then show ?thesis using ends [OF red(1)] transition_branch [OF assms(1) Some] by blast
    next
      case None
      then obtain p1 i where p1: "m_append m GOAL_STATE_TYPE (Some (transferredGoal now g0 (q_id q) tf)) (m_select m eid0 p) = Some (p1, i)"
        and app: "appendRecordAt m i (makeHandoffRecord q Transferred now (Some (tf, ti)) None None
          (Some ''The child orientation checkpoint settled and the child now owns the transferred state.'')) p1 = (Inr u, p2)"
        using fin' g0(1) by (auto split: sum.splits prod.splits option.splits)
      note law = append_law [OF assms(1) p1]
      have "reduceSelfHandoffRequest sha (m_entries m p1) q = Inr (Some (r, eid))"
        unfolding law(1) using red(1) by (subst reduce_append_other) (simp_all add: SELF_HANDOFF_STATE_TYPE_def GOAL_STATE_TYPE_def)
      moreover have "goalIs (latestGoalState (m_branchOf m p1 i)) ''transferred'' q"
        unfolding law(2) using request_parts [OF red(1)] red(3)
        by (intro goalIs_transferred [OF g0(2,3)]) auto
      ultimately show ?thesis using ends app by blast
    qed
  qed
qed

lemma sameAttempt_Some [simp]: "sameAttempt (Some r) q \<longleftrightarrow> h_request r = q"
  by (simp add: sameAttempt_def sameSelfHandoffRequest_eq)

lemma confirmed:
  assumes "reduceSelfHandoffRequest sha (m_entries m p) q = Inr (Some (a, Some j))" "h_status a = Transferred" "j \<noteq> []"
    "h_targetSessionFile a = Some tf" "h_targetSessionId a = Some ti"
    "q_goalTransferred q \<longrightarrow> goalIs (latestGoalState (m_branchOf m p j)) ''transferred'' q"
  shows "verifyParentAlreadyTransferred m sha q tf ti p = Inr () \<and>
    finalizeParentTransfer m sha now q tf ti p = (Inr (), p)"
proof -
  have "sessionWideHandoff sha (m_entries m p) q = Inr (Some a, Some j)" using assms(1) by (simp add: sessionWide_Inr)
  moreover have "h_request a = q" using request_parts [OF assms(1)] by simp
  ultimately show ?thesis using assms(2-6)
    by (simp add: verifyParentAlreadyTransferred_def finalizeParentTransfer_def Let_def truthyStr_def)
qed

text \<open>C32. Finalizing the transfer is confirmed and may be repeated: when it succeeds, on any of its branches, the
  parent file then confirms the completed handoff, and finalizing again succeeds without a change.\<close>

theorem finalizing_is_confirmed:
  assumes "lawful m" "finalizeParentTransfer m sha now q tf ti p = (Inr u, p')"
  shows "verifyParentAlreadyTransferred m sha q tf ti p' = Inr () \<and>
    finalizeParentTransfer m sha later q tf ti p' = (Inr (), p')"
proof -
  obtain r eid where wide: "sessionWideHandoff sha (m_entries m p) q = Inr (Some r, eid)"
    using assms(2) by (auto simp: finalizeParentTransfer_def split: sum.splits option.splits)
  note red = wide [unfolded sessionWide_Inr]
  let ?g = "latestGoalState (m_branchOf m p (the eid))"
  have ok: "truthyStr eid" "h_targetSessionFile r = Some tf" "h_targetSessionId r = Some ti"
    using assms(2) by (auto simp: finalizeParentTransfer_def wide split: if_splits)
  then obtain j where j: "eid = Some j" "j \<noteq> []" by (auto simp: truthyStr_def)
  have req: "h_request r = q" using request_parts [OF red] by simp
  show ?thesis
  proof (cases "h_status r = Transferred")
    case True
    then have "p' = p" "q_goalTransferred q \<longrightarrow> goalIs ?g ''transferred'' q"
      using assms(2) ok req by (auto simp: finalizeParentTransfer_def wide split: if_splits)
    then show ?thesis using confirmed [OF red [unfolded j(1)] True j(2) ok(2,3)] j(1) by simp
  next
    case False
    have st: "h_status r = ChildCreated"
      and gi: "q_goalTransferred q \<longrightarrow> goalIs ?g ''transferring'' q"
      and fin: "finalizeAppend m sha now q tf ti j (if q_goalTransferred q then ?g else None) p = (Inr u, p')"
      using assms(2) ok req False j(1) by (auto simp: finalizeParentTransfer_def wide Let_def split: if_splits)
    have "?g \<noteq> None \<and> validGoal ?g" if g: "goalIs ?g ''transferring'' q"
    proof -
      have "?g \<noteq> None" using g by (cases ?g) (simp_all add: goalIs_def)
      then show ?thesis by (auto simp: latestGoalState_def Let_def split: if_splits)
    qed
    then have "if q_goalTransferred q
      then (if q_goalTransferred q then ?g else None) \<noteq> None \<and>
        goalIs (if q_goalTransferred q then ?g else None) ''transferring'' q \<and>
        validGoal (if q_goalTransferred q then ?g else None)
      else (if q_goalTransferred q then ?g else None) = None"
      using gi by simp
    from finalizeAppend_verifies [OF assms(1) red st ok(2,3) this fin] obtain a i where
      "reduceSelfHandoffRequest sha (m_entries m p') q = Inr (Some (a, Some i))" "h_status a = Transferred" "i \<noteq> []"
      "h_targetSessionFile a = Some tf" "h_targetSessionId a = Some ti"
      "q_goalTransferred q \<longrightarrow> goalIs (latestGoalState (m_branchOf m p' i)) ''transferred'' q"
      by (elim exE conjE)
    then show ?thesis by (rule confirmed)
  qed
qed

section \<open>Preparing and rolling back\<close>

lemma prepared_reduces:
  assumes "wellFormedLog sha es" "\<forall>r \<in> set (sourceRecords sha es). q_id (h_request r) \<noteq> q_id q" "request_ok q"
  shows "reduceSelfHandoffRequest sha (es @ [handoffEntry (makeHandoffRecord q Prepared now None None None nt)]) q =
    Inr (Some (makeHandoffRecord q Prepared now None None None nt, None))"
proof -
  let ?a = "makeHandoffRecord q Prepared now None None None nt"
  have "handoff_ok sha ?a" using assms(3) by (simp add: handoff_ok_def makeHandoffRecord_def paired_def)
  then have ins: "inspectSelfHandoffRecords sha [handoffEntry ?a] = ([(?a, None)], False)"
    using inspect_written [of sha "[?a]"] by simp
  have "requestTrail sha es q = []"
    using assms(2) by (auto simp: requestTrail_def trail_def sourceRecords_def filter_empty_conv)
  moreover have "requestTrail sha [handoffEntry ?a] q = [(?a, None)]"
    by (simp add: requestTrail_def trail_def ins) (simp add: makeHandoffRecord_def)
  ultimately show ?thesis
    using assms(1) ins by (simp add: reduce_iff requestTrail_append wellFormedLog_def inspect_append consistent_def)
      (simp add: makeHandoffRecord_def)
qed

text \<open>From the moment the handoff is prepared the parent does not drive its goal: with the entries of the
  prepared state in the log, the goal cannot be reactivated and the latest goal entry is transferring.\<close>

theorem prepared_parent_gives_up:
  assumes "wellFormedLog sha es" "\<forall>r \<in> set (sourceRecords sha es). q_id (h_request r) \<noteq> q_id q" "request_ok q"
    and "q_goalTransferred q" "q_goalId q = Some gid" "tr_goal (collectTransferState es) = Some g"
    and "cx_entries cx = es @ preparedEntries now q (Some g)" "cx_sessionId cx = q_originSessionId q"
      "cx_sessionFile cx = Some (q_originSessionFile q)"
  shows "reactivationBlockReason sha cx gid \<noteq> None \<and>
    goalIs (latestGoalState (cx_entries cx)) ''transferring'' (q\<lparr>q_goalId := asStr (get (Some g) ''id'')\<rparr>) \<and>
    tr_goal (collectTransferState (cx_entries cx)) = None"
proof -
  define a where "a = makeHandoffRecord q Prepared now None None None
    (Some ''The user reviewed the continuation and transferable state is ready.'')"
  define e where "e = customEntry GOAL_STATE_TYPE (Some (transferringGoal now g (q_id q)))"
  have es: "cx_entries cx = (es @ [handoffEntry a]) @ [e]"
    using assms(7) by (simp add: preparedEntries_def a_def e_def)
  have red: "reduceSelfHandoffRequest sha (cx_entries cx) q = Inr (Some (a, None))"
    unfolding es using prepared_reduces [OF assms(1-3)] types_differ(1)
    by (subst reduce_append_other) (simp_all add: e_def a_def)
  have src: "a \<in> set (sourceRecords sha (cx_entries cx))" "h_request a = q"
    using reduced_is_source [OF red] by simp_all
  have "h_status a = Prepared" by (simp add: a_def makeHandoffRecord_def)
  then have "childHolds sha (cx_entries cx) a" using red src(2) by (simp add: childHolds_def)
  moreover have "movesGoalFrom cx gid a" using assms(4,5,8,9) src(2) by (simp add: movesGoalFrom_def)
  ultimately have "givenAway sha cx gid" using src(1) unfolding givenAway_def list_ex_iff by blast
  moreover have v: "validGoal (Some g)"
    using assms(6) by (auto simp: collectTransferState_def latestGoalState_def Let_def split: if_splits)
  moreover have vt: "validGoal (Some (transferringGoal now g (q_id q)))"
    using validGoal_transferring [OF v] assms(3) by (simp add: request_ok_def)
  then have l: "latestGoalState (cx_entries cx) = Some (transferringGoal now g (q_id q))"
    unfolding es e_def by (simp only: latestGoalState_append if_True)
  moreover have "\<exists>i. get (Some g) ''id'' = Some (JStr i)"
    using v by (auto simp: validGoal_def nonempty_str_def split: option.splits)
  ultimately show ?thesis
    using reactivation_owned [of sha cx gid] validGoal_isRecord [OF v]
    by (auto simp: goalIs_def transferringGoal_def get_spread collectTransferState_def Let_def)
qed

lemma rolled_back_reduces:
  assumes "wellFormedLog sha es" "\<forall>r \<in> set (sourceRecords sha es). q_id (h_request r) \<noteq> q_id q" "request_ok q"
    and st: "st \<in> {Failed, Cancelled}" "validGoal (Some g)"
  shows "sourceRecords sha (es @ preparedEntries now q (Some g) @ rollbackEntries later q (Some g) st nt) =
      sourceRecords sha es @ [makeHandoffRecord q Prepared now None None None
        (Some ''The user reviewed the continuation and transferable state is ready.''),
        makeHandoffRecord q st later None None None (Some nt)] \<and>
    reduceSelfHandoffRequest sha (es @ preparedEntries now q (Some g) @ rollbackEntries later q (Some g) st nt) q =
      Inr (Some (makeHandoffRecord q st later None None None (Some nt), None))"
proof -
  let ?a = "makeHandoffRecord q Prepared now None None None
    (Some ''The user reviewed the continuation and transferable state is ready.'')"
  let ?b = "makeHandoffRecord q st later None None None (Some nt)"
  let ?new = "preparedEntries now q (Some g) @ rollbackEntries later q (Some g) st nt"
  have "handoff_ok sha ?a" "handoff_ok sha ?b" using assms(3) st(1)
    by (auto simp: handoff_ok_def makeHandoffRecord_def paired_def)
  then have ins: "inspectSelfHandoffRecords sha [handoffEntry ?a] = ([(?a, None)], False)"
    "inspectSelfHandoffRecords sha [handoffEntry ?b] = ([(?b, None)], False)"
    using inspect_written [of sha "[?a]"] inspect_written [of sha "[?b]"] by simp_all
  have goal: "inspectSelfHandoffRecords sha [customEntry GOAL_STATE_TYPE v] = ([], False)" for v
    by (simp add: inspectSelfHandoffRecords_def List.map_filter_def types_differ)
  have "?new = [handoffEntry ?a] @ [customEntry GOAL_STATE_TYPE (Some (transferringGoal now g (q_id q)))] @
      [customEntry GOAL_STATE_TYPE (Some g)] @ [handoffEntry ?b]"
    by (simp add: preparedEntries_def rollbackEntries_def)
  then have new: "inspectSelfHandoffRecords sha ?new = ([(?a, None), (?b, None)], False)"
    by (simp only: inspect_append ins goal) simp
  have fl: "follows ?a ?b" using st by (auto simp: follows_def makeHandoffRecord_def)
  have "requestTrail sha es q = []"
    using assms(2) by (auto simp: requestTrail_def trail_def sourceRecords_def filter_empty_conv)
  moreover have "requestTrail sha ?new q = [(?a, None), (?b, None)]"
    by (simp add: requestTrail_def trail_def new) (simp add: makeHandoffRecord_def)
  moreover have "h_request ?a = q" "h_request ?b = q" by (simp_all add: makeHandoffRecord_def)
  ultimately have "reduceSelfHandoffRequest sha (es @ ?new) q = Inr (Some (?b, None))"
    using assms(1) new fl by (simp add: reduce_iff requestTrail_append wellFormedLog_def inspect_append consistent_def)
  moreover have "sourceRecords sha ?new = [?a, ?b]" by (simp add: sourceRecords_def new)
  ultimately show ?thesis by (simp add: sourceRecords_append)
qed

text \<open>C33. A rolled-back handoff gives the goal back: after the prepared state and its rollback the request has
  ended as failed or cancelled, the latest goal entry is the original one, and no record of this
  handoff keeps the parent from driving it.\<close>

theorem rollback_returns_the_goal:
  assumes "wellFormedLog sha es" "\<forall>r \<in> set (sourceRecords sha es). q_id (h_request r) \<noteq> q_id q" "request_ok q"
    and "st \<in> {Failed, Cancelled}" "validGoal (Some g)"
    and "cx_entries cx = es @ preparedEntries now q (Some g) @ rollbackEntries later q (Some g) st nt"
    and "\<forall>r \<in> set (sourceRecords sha es). \<not> movesGoalFrom cx gid r"
  shows "latestGoalState (cx_entries cx) = Some g \<and> \<not> givenAway sha cx gid \<and>
    (\<exists>r. reduceSelfHandoffRequest sha (cx_entries cx) q = Inr (Some (r, None)) \<and> h_status r = st)"
proof -
  let ?b = "makeHandoffRecord q st later None None None (Some nt)"
  note rolled = rolled_back_reduces [OF assms(1-5), of now later nt, folded assms(6)]
  have b: "h_status ?b = st" "h_request ?b = q" by (simp_all add: makeHandoffRecord_def)
  have en: "cx_entries cx = (es @ preparedEntries now q (Some g) @ [customEntry GOAL_STATE_TYPE (Some g)]) @ [handoffEntry ?b]"
    using assms(6) by (simp add: rollbackEntries_def)
  moreover have "\<not> is_custom GOAL_STATE_TYPE (handoffEntry ?b)" using types_differ(1) by (simp add: handoffEntry_def)
  ultimately have "latestGoalState (cx_entries cx) =
      latestGoalState ((es @ preparedEntries now q (Some g)) @ [customEntry GOAL_STATE_TYPE (Some g)])"
    unfolding en using latestGoal_append_other by (metis append_assoc)
  then have l: "latestGoalState (cx_entries cx) = Some g"
    using assms(5) by (simp only: latestGoalState_append if_True)
  have wf: "wellFormedLog sha (cx_entries cx)" using rolled by (simp add: reduce_iff)
  have "\<not> childHolds sha (cx_entries cx) r" if "h_request r = q" for r
    using that rolled b assms(4) by (auto simp: childHolds_def)
  then have "\<not> (movesGoalFrom cx gid r \<and> childHolds sha (cx_entries cx) r)"
    if "r \<in> set (sourceRecords sha (cx_entries cx))" for r
    using that rolled assms(7) by (auto simp: makeHandoffRecord_def)
  then have "\<not> givenAway sha cx gid" using wf by (auto simp: givenAway_def list_ex_iff)
  then show ?thesis using l rolled b by blast
qed

section \<open>Concrete instances\<close>

text \<open>A session manager: a tree of entries with the branch of each, and the branch of the selected leaf.\<close>

record tree =
  t_leaf :: "entry list"
  t_nodes :: "(string \<times> jsval \<times> entry list) list"

definition nodeId :: "nat \<Rightarrow> string" where
  "nodeId k = replicate (Suc k) CHR ''x''"

definition nodeEntry :: "nat \<Rightarrow> string \<times> jsval \<times> entry list \<Rightarrow> entry" where
  "nodeEntry k n = (customEntry (fst n) (fst (snd n)))\<lparr>en_id := Some (nodeId k)\<rparr>"

definition treeEntries :: "tree \<Rightarrow> entry list" where
  "treeEntries t = map (\<lambda>k. nodeEntry k (t_nodes t ! k)) [0..<length (t_nodes t)]"

definition treeBranch :: "tree \<Rightarrow> string \<Rightarrow> entry list" where
  "treeBranch t i = (case length i of 0 \<Rightarrow> [] | Suc k \<Rightarrow>
     if i = nodeId k \<and> k < length (t_nodes t) then snd (snd (t_nodes t ! k)) @ [nodeEntry k (t_nodes t ! k)] else [])"

definition treeManager :: "tree manager" where
  "treeManager = \<lparr>m_sessionId = (\<lambda>_. ''p''), m_entries = treeEntries, m_branchOf = treeBranch,
     m_select = (\<lambda>i t. t\<lparr>t_leaf := treeBranch t i\<rparr>),
     m_append = (\<lambda>ty v t. let e = nodeEntry (length (t_nodes t)) (ty, v, t_leaf t) in
       Some (t\<lparr>t_leaf := t_leaf t @ [e], t_nodes := t_nodes t @ [(ty, v, t_leaf t)]\<rparr>, nodeId (length (t_nodes t))))\<rparr>"

lemma tree_lawful: "lawful treeManager"
proof -
  have b: "treeBranch (t\<lparr>t_leaf := l\<rparr>) i = treeBranch t i" for t l i by (simp add: treeBranch_def split: nat.split)
  have en: "treeEntries (t\<lparr>t_leaf := l\<rparr>) = treeEntries t" for t l by (simp add: treeEntries_def)
  have app: "treeEntries (t\<lparr>t_leaf := l, t_nodes := t_nodes t @ [n]\<rparr>) = treeEntries t @ [nodeEntry (length (t_nodes t)) n]"
    for t l n by (simp add: treeEntries_def nth_append)
  have top: "treeBranch (t\<lparr>t_leaf := l, t_nodes := t_nodes t @ [n]\<rparr>) (nodeId (length (t_nodes t))) =
      snd (snd n) @ [nodeEntry (length (t_nodes t)) n]" for t l n
    by (simp add: treeBranch_def nodeId_def)
  have last: "\<exists>bs. treeBranch t i = bs @ [e]" if e: "e \<in> set (treeEntries t)" "en_id e = Some i" for t e i
  proof -
    obtain k where k: "k < length (t_nodes t)" "e = nodeEntry k (t_nodes t ! k)" using e(1) by (auto simp: treeEntries_def)
    then have "i = nodeId k" using e(2) by (simp add: nodeEntry_def)
    then show ?thesis using k by (simp add: treeBranch_def nodeId_def)
  qed
  have ne: "nodeId k \<noteq> []" for k by (simp add: nodeId_def)
  show ?thesis
    unfolding lawful_def treeManager_def using last
    by (auto simp: b en app [unfolded nodeEntry_def] top [unfolded nodeEntry_def] ne nodeEntry_def Let_def)
qed

definition movingRequest :: request where
  "movingRequest = sampleRequest\<lparr>q_goalTransferred := True, q_goalId := Some ''g1''\<rparr>"

definition childCtx :: "entry list \<Rightarrow> goal_ctx" where
  "childCtx es = emptyCtx\<lparr>cx_entries := es, cx_branch := es, cx_sessionId := ''c'', cx_sessionFile := Some ''cf''\<rparr>"

definition recordNode :: "handoff \<Rightarrow> string \<times> jsval \<times> entry list" where
  "recordNode r = (SELF_HANDOFF_STATE_TYPE, Some (obj (handoffFields r)), [])"

definition oneRecord :: "handoff \<Rightarrow> tree" where
  "oneRecord r = \<lparr>t_leaf = [], t_nodes = [recordNode r]\<rparr>"

lemma oneRecord_reduces:
  assumes "handoff_ok sha r"
  shows "reduceSelfHandoffRequest sha (treeEntries (oneRecord r)) (h_request r) = Inr (Some (r, Some ''x''))"
proof -
  have "inspectSelfHandoffRecords sha (treeEntries (oneRecord r)) = ([(r, Some ''x'')], False)"
    using parseHandoff_read [OF assms]
    by (simp add: oneRecord_def recordNode_def treeEntries_def nodeEntry_def nodeId_def inspectSelfHandoffRecords_def
        List.map_filter_def)
  then show ?thesis by (simp add: reduceSelfHandoffRequest_def sameSelfHandoffRequest_def)
qed

theorem finalizing_is_confirmed_witness:
  "\<exists>p'. finalizeParentTransfer treeManager (\<lambda>x. x) 3 sampleRequest ''cf'' ''c'' (oneRecord (sampleHandoff ChildCreated)) = (Inr (), p') \<and>
    verifyParentAlreadyTransferred treeManager (\<lambda>x. x) sampleRequest ''cf'' ''c'' p' = Inr ()"
proof -
  let ?p = "oneRecord (sampleHandoff ChildCreated)"
  have "sessionWideHandoff (\<lambda>x. x) (m_entries treeManager ?p) sampleRequest = Inr (Some (sampleHandoff ChildCreated), Some ''x'')"
    using oneRecord_reduces [OF sampleHandoff_ok [of _ ChildCreated]] by (simp add: sessionWide_Inr treeManager_def)
  moreover have "q_goalTransferred sampleRequest = False" by (simp add: sampleRequest_def)
  ultimately obtain p' where p': "finalizeParentTransfer treeManager (\<lambda>x. x) 3 sampleRequest ''cf'' ''c'' ?p = (Inr (), p')"
    by (simp add: finalizeParentTransfer_def finalizeAppend_def appendRecordAt_def truthyStr_def Let_def treeManager_def)
  then show ?thesis using finalizing_is_confirmed [OF tree_lawful p'] by blast
qed

lemma childReceived_source:
  assumes "a = childRecord now q Received cx (Some k) None
      ''The fresh session received the continuation state and is awaiting its orientation checkpoint.''" "handoff_ok sha a"
  shows "a \<in> set (sourceRecords sha (childReceived now q cx k t @ es))"
proof -
  have "a \<in> set (sourceRecords sha [handoffEntry a])"
    using inspect_written [of sha "[a]"] assms(2) by (simp add: sourceRecords_def)
  then show ?thesis using sourceRecords_append [of sha "[handoffEntry a]" es]
    by (auto simp: childReceived_def assms(1) [symmetric] sourceRecords_append)
qed

theorem parent_and_child_exclude_each_other_witness:
  "\<exists>w. handoff_reachable treeManager (\<lambda>x. x) ''cf'' ''c'' w \<and> childRecords (\<lambda>x. x) ''cf'' ''c'' (w_child w) \<noteq> [] \<and>
    (reactivationBlockReason (\<lambda>x. x) emptyCtx ''g1'' \<noteq> None \<or> toolBlocked (\<lambda>x. x) (childCtx (w_child w)) \<or>
     reactivationBlockReason (\<lambda>x. x) (childCtx (w_child w)) ''g1'' \<noteq> None)"
proof -
  let ?sha = "\<lambda>x::string. x" and ?t = "\<lparr>tr_goal = Some sampleGoal, tr_workPlan = None\<rparr>"
  let ?init = "\<lparr>w_parent = Some \<lparr>t_leaf = [], t_nodes = []\<rparr>, w_child = [], w_pending = None\<rparr> :: tree world"
  define a where "a = childRecord 4 movingRequest Received (childCtx []) (Some ''go'') None
      ''The fresh session received the continuation state and is awaiting its orientation checkpoint.''"
  obtain r es p' where s: "childSetup treeManager ?sha 4 True movingRequest (childCtx []) ''go'' ?t (w_parent ?init) = (r, es, p')"
    using prod_cases3 by blast
  let ?w = "?init\<lparr>w_parent := p', w_child := w_child ?init @ es\<rparr>"
  have ctx: "isChildCtx ''cf'' ''c'' es' (childCtx es')" for es' by (simp add: isChildCtx_def childCtx_def)
  have w0: "handoff_reachable treeManager ?sha ''cf'' ''c'' ?init"
    by (rule handoff_reachable.start) (simp add: childRecords_def)
  have "handoff_step treeManager ?sha ''cf'' ''c'' ?init ?w"
    by (rule child_setup [OF _ _ s]) (simp_all add: isChildCtx_def childCtx_def movingRequest_def sampleRequest_def)
  then have w: "handoff_reachable treeManager ?sha ''cf'' ''c'' ?w"
    by (rule handoff_reachable.step [OF w0])
  have grown: "p' = Some \<lparr>t_leaf = [], t_nodes = []\<rparr>" "\<exists>more. es = childReceived 4 movingRequest (childCtx []) ''go'' ?t @ more"
    using s by (auto simp: childSetup_def withParent_def appendParentChildCreated_def sessionWideHandoff_def
        reduceSelfHandoffRequest_def treeManager_def treeEntries_def childCtx_def Let_def
        split: if_splits sum.splits prod.splits option.splits)
  have "handoff_ok ?sha a"
    by (simp add: a_def childRecord_def makeHandoffRecord_def handoff_ok_def paired_def childCtx_def request_ok_def
        movingRequest_def sampleRequest_def)
  then have "a \<in> set (sourceRecords ?sha es)" using grown(2) childReceived_source [OF a_def] by blast
  then have a: "a \<in> set (childRecords ?sha ''cf'' ''c'' (w_child ?w))"
    by (simp add: childRecords_def aboutChild_def a_def childRecord_def childCtx_def)
  have "reactivationBlockReason ?sha emptyCtx ''g1'' \<noteq> None \<or> toolBlocked ?sha (childCtx (w_child ?w)) \<or>
      reactivationBlockReason ?sha (childCtx (w_child ?w)) ''g1'' \<noteq> None"
    by (rule parent_and_child_exclude_each_other [OF tree_lawful w _ _ ctx a, where p = "\<lparr>t_leaf = [], t_nodes = []\<rparr>"])
      (simp_all add: grown(1) treeManager_def treeEntries_def movesGoalFrom_def a_def childRecord_def makeHandoffRecord_def
        movingRequest_def sampleRequest_def emptyCtx_def)
  moreover have "childRecords ?sha ''cf'' ''c'' (w_child ?w) \<noteq> []" using a by auto
  ultimately show ?thesis using w by blast
qed


definition kickoffRequest :: request where
  "kickoffRequest = sampleRequest\<lparr>q_kickoffHash := Some (replicate 64 CHR ''a'')\<rparr>"

definition kickoffRecord :: handoff where
  "kickoffRecord = makeHandoffRecord kickoffRequest Received 2 (Some (''cf'', ''c'')) (Some ''go'') None None"

lemma kickoff_pending:
  "orientationOf (\<lambda>_. replicate 64 CHR ''a'') (childCtx [handoffEntry kickoffRecord]) = Pending Orienting kickoffRecord"
proof -
  let ?sha = "\<lambda>_::string. replicate 64 CHR ''a''" and ?es = "[handoffEntry kickoffRecord]"
  have "handoff_ok ?sha kickoffRecord"
    by (simp add: handoff_ok_def kickoffRecord_def makeHandoffRecord_def request_ok_def kickoffRequest_def sampleRequest_def
        paired_def orientationKickoffHash_def is_sha_hex_def is_lower_hex_def list_all_iff)
  then have i: "inspectSelfHandoffRecords ?sha ?es = ([(kickoffRecord, None)], False)"
    using inspect_written [of ?sha "[kickoffRecord]"] by simp
  then have red: "reduceSelfHandoffRequest ?sha ?es kickoffRequest = Inr (Some (kickoffRecord, None))"
    by (simp add: reduceSelfHandoffRequest_def sameSelfHandoffRequest_def kickoffRecord_def makeHandoffRecord_def)
  have "orientationCandidate ''c'' (Some ''cf'') None kickoffRecord"
    by (simp add: orientationCandidate_def kickoffRecord_def makeHandoffRecord_def kickoffRequest_def sampleRequest_def)
  moreover have "h_request kickoffRecord = kickoffRequest" "h_status kickoffRecord = Received"
    "h_targetSessionFile kickoffRecord = Some ''cf''" "h_targetSessionId kickoffRecord = Some ''c''"
    by (simp_all add: kickoffRecord_def makeHandoffRecord_def)
  ultimately show ?thesis
    using red by (simp add: orientationOf_def childCtx_def inspectChildHandoffOrientation_def i)
qed

theorem oriented_child_admits_witness:
  "in_images \<lparr>in_text = ''go'', in_source = ''extension'', in_images = 0, in_idle = True\<rparr> = 0 \<and>
   childInput treeManager (\<lambda>_. replicate 64 CHR ''a'') 5 True True (childCtx [handoffEntry kickoffRecord]) (Some ''pf'')
     \<lparr>in_text = ''go'', in_source = ''extension'', in_images = 0, in_idle = True\<rparr> None = (Continue, None, None)"
proof -
  have "isOrientationKickoff (\<lambda>_. replicate 64 CHR ''a'') ''go'' (h_request kickoffRecord)"
    by (simp add: isOrientationKickoff_def kickoffRecord_def makeHandoffRecord_def kickoffRequest_def orientationKickoffHash_def)
  then have i: "childInput treeManager (\<lambda>_. replicate 64 CHR ''a'') 5 True True (childCtx [handoffEntry kickoffRecord]) (Some ''pf'')
     \<lparr>in_text = ''go'', in_source = ''extension'', in_images = 0, in_idle = True\<rparr> None = (Continue, None, None)"
    by (simp add: childInput_def kickoff_pending)
  show ?thesis using oriented_child_admits [OF i kickoff_pending] i by simp
qed

theorem prepared_parent_gives_up_witness:
  "reactivationBlockReason (\<lambda>x. x)
     (emptyCtx\<lparr>cx_entries := [customEntry GOAL_STATE_TYPE (Some sampleGoal)] @ preparedEntries 3 movingRequest (Some sampleGoal)\<rparr>) ''g1'' \<noteq> None"
proof -
  let ?es = "[customEntry GOAL_STATE_TYPE (Some sampleGoal)]"
  let ?cx = "emptyCtx\<lparr>cx_entries := ?es @ preparedEntries 3 movingRequest (Some sampleGoal)\<rparr>"
  have "wellFormedLog (\<lambda>x. x) ?es"
    by (simp add: wellFormedLog_def inspectSelfHandoffRecords_def List.map_filter_def types_differ)
  moreover have "\<forall>r \<in> set (sourceRecords (\<lambda>x. x) ?es). q_id (h_request r) \<noteq> q_id movingRequest"
    by (simp add: no_source types_differ)
  moreover have "tr_goal (collectTransferState ?es) = Some sampleGoal"
    using latestGoalState_append [of "[]" sampleGoal] validGoal_sample
    by (simp add: collectTransferState_def Let_def) (simp add: sampleGoal_def get_obj_Cons)
  ultimately show ?thesis
    using prepared_parent_gives_up [of "\<lambda>x. x" ?es movingRequest "''g1''" sampleGoal ?cx 3]
    by (simp add: request_ok_def movingRequest_def sampleRequest_def emptyCtx_def)
qed

theorem rollback_returns_the_goal_witness:
  "latestGoalState ([customEntry GOAL_STATE_TYPE (Some sampleGoal)] @ preparedEntries 3 movingRequest (Some sampleGoal) @
     rollbackEntries 4 movingRequest (Some sampleGoal) Cancelled ''no'') = Some sampleGoal"
proof -
  let ?es = "[customEntry GOAL_STATE_TYPE (Some sampleGoal)]"
  have "wellFormedLog (\<lambda>x. x) ?es"
    by (simp add: wellFormedLog_def inspectSelfHandoffRecords_def List.map_filter_def types_differ)
  moreover have "sourceRecords (\<lambda>x. x) ?es = []" by (simp add: no_source types_differ)
  ultimately show ?thesis
    using rollback_returns_the_goal [of "\<lambda>x. x" ?es movingRequest Cancelled sampleGoal
        "emptyCtx\<lparr>cx_entries := ?es @ preparedEntries 3 movingRequest (Some sampleGoal) @
           rollbackEntries 4 movingRequest (Some sampleGoal) Cancelled ''no''\<rparr>" 3 4 "''no''" "''g1''"] validGoal_sample
    by (simp add: request_ok_def movingRequest_def sampleRequest_def emptyCtx_def)
qed

end
