(* ===== verification/WorkPlan.thy ===== *)
theory WorkPlan
  imports SessionEntries
begin

text \<open>
  \<open>extensions/work-plan/index.ts\<close>: the work plan of a session, the \<open>work_plan\<close> tool that changes it,
  its timers, its rendering, and the reminders about open items. A call reads the clock once in the
  model; the code reads it several times within one synchronous call. Numbers in tool parameters are
  JSON numbers, the times and identifiers that the code produces are integers.
\<close>

section \<open>Plans\<close>

datatype plan_status = PTodo | PActive | PDone | PBlocked

record plan_item =
  pi_id :: int
  pi_title :: string
  pi_status :: plan_status
  pi_blockedBy :: "int list"
  pi_note :: "string option"
  pi_createdAt :: int
  pi_updatedAt :: int
  pi_startedAt :: "int option"
  pi_completedAt :: "int option"
  pi_activeMs :: "int option"
  pi_runStartedAt :: "int option"

record plan =
  pl_items :: "plan_item list"
  pl_nextId :: int
  pl_activeId :: "int option"
  pl_createdAt :: int
  pl_updatedAt :: int

definition MAX_ITEMS :: nat where "MAX_ITEMS = 40"
definition KEEP_RECENT_DONE :: nat where "KEEP_RECENT_DONE = 3"

definition emptyPlan :: "int \<Rightarrow> plan" where
  "emptyPlan now = \<lparr>pl_items = [], pl_nextId = 1, pl_activeId = None, pl_createdAt = now, pl_updatedAt = now\<rparr>"

definition normalizeTitle :: "string option \<Rightarrow> string" where
  "normalizeTitle title = (case title of None \<Rightarrow> [] | Some s \<Rightarrow> collapse_ws (js_trim s))"

definition positiveInt :: "jnum \<Rightarrow> int option" where
  "positiveInt n = (case intNum (Some (JNum n)) of None \<Rightarrow> None | Some i \<Rightarrow> if 0 < i then Some i else None)"

definition normalizeBlockedBy :: "jnum list option \<Rightarrow> int list" where
  "normalizeBlockedBy values =
     (case values of None \<Rightarrow> [] | Some ns \<Rightarrow> sort (remdups (List.map_filter positiveInt ns)))"

definition has_id :: "jnum option \<Rightarrow> plan_item \<Rightarrow> bool" where
  "has_id n item \<longleftrightarrow> n = Some (Fin (of_int (pi_id item)))"

definition findItem :: "plan \<Rightarrow> jnum option \<Rightarrow> plan_item option" where
  "findItem p n = (if n = None then None else List.find (has_id n) (pl_items p))"

definition activeItem :: "plan \<Rightarrow> plan_item option" where
  "activeItem p =
     (case pl_activeId p of None \<Rightarrow> None | Some a \<Rightarrow> List.find (\<lambda>i. pi_id i = a) (pl_items p))"

definition openItems :: "plan \<Rightarrow> plan_item list" where
  "openItems p = filter (\<lambda>i. pi_status i \<noteq> PDone \<and> (pi_status i \<noteq> PBlocked \<or> pi_blockedBy i \<noteq> [])) (pl_items p)"

type_synonym signature = "(int \<times> plan_status \<times> string) list"

definition planSignature :: "plan \<Rightarrow> signature" where
  "planSignature p = map (\<lambda>i. (pi_id i, pi_status i, pi_title i)) (pl_items p)"

text \<open>A number as a condition: neither absent nor zero.\<close>

definition truthy :: "int option \<Rightarrow> bool" where
  "truthy v = (case v of None \<Rightarrow> False | Some n \<Rightarrow> n \<noteq> 0)"

definition orZero :: "int option \<Rightarrow> int" where
  "orZero v = (case v of None \<Rightarrow> 0 | Some n \<Rightarrow> n)"

definition effectiveActiveMs :: "int \<Rightarrow> plan_item \<Rightarrow> int" where
  "effectiveActiveMs now i =
     (if truthy (pi_runStartedAt i) then orZero (pi_activeMs i) + max 0 (now - orZero (pi_runStartedAt i))
      else orZero (pi_activeMs i))"

definition flushRun :: "int \<Rightarrow> plan_item \<Rightarrow> plan_item" where
  "flushRun now i =
     (if truthy (pi_runStartedAt i)
      then i\<lparr>pi_activeMs := Some (orZero (pi_activeMs i) + max 0 (now - orZero (pi_runStartedAt i))),
             pi_runStartedAt := None\<rparr>
      else i)"

text \<open>One turn of the loop of \<open>setActive\<close>.\<close>

definition setActiveItem :: "int \<Rightarrow> int option \<Rightarrow> bool \<Rightarrow> plan_item \<Rightarrow> plan_item" where
  "setActiveItem now target streaming i =
     (if Some (pi_id i) = target
      then
        let j = i\<lparr>pi_status := PActive,
              pi_startedAt := Some (case pi_startedAt i of None \<Rightarrow> now | Some s \<Rightarrow> s), pi_updatedAt := now\<rparr>
        in if streaming \<and> \<not> truthy (pi_runStartedAt j) then j\<lparr>pi_runStartedAt := Some now\<rparr> else j
      else if pi_status i = PActive
      then (flushRun now i)\<lparr>pi_status := (if pi_blockedBy i \<noteq> [] then PBlocked else PTodo), pi_updatedAt := now\<rparr>
      else flushRun now i)"

definition setActive :: "int \<Rightarrow> int option \<Rightarrow> bool \<Rightarrow> plan \<Rightarrow> plan" where
  "setActive now target streaming p =
     p\<lparr>pl_activeId := target, pl_items := map (setActiveItem now target streaming) (pl_items p)\<rparr>"

section \<open>The tool\<close>

record item_input =
  ii_title :: string
  ii_status :: "plan_status option"
  ii_blockedBy :: "jnum list option"
  ii_note :: "string option"

record plan_params =
  pp_items :: "item_input list option"
  pp_id :: "jnum option"
  pp_ids :: "jnum list option"
  pp_title :: "string option"
  pp_status :: "plan_status option"
  pp_blockedBy :: "jnum list option"
  pp_note :: "string option"

datatype plan_action = ASet | AAdd | AUpdate | AActivate | AComplete | ABlock | AUnblock | AClear | AList

datatype plan_error = MaxItems | TitleRequired | ValidIdRequired

text \<open>\<open>note?.trim() || undefined\<close>.\<close>

definition trimmedNote :: "string option \<Rightarrow> string option" where
  "trimmedNote note =
     (case note of None \<Rightarrow> None | Some s \<Rightarrow> if js_trim s = [] then None else Some (js_trim s))"

definition newStatus :: "plan_status option \<Rightarrow> int list \<Rightarrow> plan_status" where
  "newStatus status blockedBy =
     (case status of Some st \<Rightarrow> st | None \<Rightarrow> if blockedBy \<noteq> [] then PBlocked else PTodo)"

definition newItem :: "int \<Rightarrow> int \<Rightarrow> string \<Rightarrow> plan_status option \<Rightarrow> jnum list option \<Rightarrow> string option \<Rightarrow> plan_item" where
  "newItem now i title status blockedBy note =
     (let deps = normalizeBlockedBy blockedBy in
      \<lparr>pi_id = i, pi_title = title, pi_status = newStatus status deps, pi_blockedBy = deps,
       pi_note = trimmedNote note, pi_createdAt = now, pi_updatedAt = now, pi_startedAt = None,
       pi_completedAt = None, pi_activeMs = None, pi_runStartedAt = None\<rparr>)"

definition stampNew :: "int \<Rightarrow> plan_status option \<Rightarrow> plan_item \<Rightarrow> plan_item" where
  "stampNew now status i =
     i\<lparr>pi_startedAt := (if status = Some PActive then Some now else None),
       pi_completedAt := (if status = Some PDone then Some now else None)\<rparr>"

definition addInput :: "int \<Rightarrow> plan \<Rightarrow> item_input \<Rightarrow> plan" where
  "addInput now p x =
     (let title = normalizeTitle (Some (ii_title x)) in
      if title = [] then p
      else p\<lparr>pl_nextId := pl_nextId p + 1,
             pl_items := pl_items p @
               [stampNew now (ii_status x)
                 (newItem now (pl_nextId p) title (ii_status x) (ii_blockedBy x) (ii_note x))]\<rparr>)"

definition setPlan :: "int \<Rightarrow> bool \<Rightarrow> plan_params \<Rightarrow> plan" where
  "setPlan now streaming ps =
     (let p = foldl (addInput now) (emptyPlan now)
            (take MAX_ITEMS (case pp_items ps of None \<Rightarrow> [] | Some xs \<Rightarrow> xs));
          firstActive = (case List.find (\<lambda>i. pi_status i = PActive) (pl_items p) of
              Some i \<Rightarrow> Some i
            | None \<Rightarrow> List.find (\<lambda>i. pi_status i \<noteq> PDone \<and> pi_status i \<noteq> PBlocked) (pl_items p))
      in setActive now (map_option pi_id firstActive) streaming p)"

definition addItem :: "int \<Rightarrow> bool \<Rightarrow> plan_params \<Rightarrow> plan \<Rightarrow> plan_error + plan" where
  "addItem now streaming ps p =
     (if length (pl_items p) \<ge> MAX_ITEMS then Inl MaxItems
      else
        let title = normalizeTitle (pp_title ps) in
        if title = [] then Inl TitleRequired
        else
          let item = newItem now (pl_nextId p) title (pp_status ps) (pp_blockedBy ps) (pp_note ps);
              p' = p\<lparr>pl_nextId := pl_nextId p + 1, pl_items := pl_items p @ [item]\<rparr>
          in Inr (if pi_status item = PActive then setActive now (Some (pi_id item)) streaming p' else p'))"

text \<open>Assigning to the item that \<open>findItem\<close> returned.\<close>

definition changeItem :: "plan_item \<Rightarrow> plan_item \<Rightarrow> plan \<Rightarrow> plan" where
  "changeItem old new p = p\<lparr>pl_items := update_first (\<lambda>i. pi_id i = pi_id old) (\<lambda>_. new) (pl_items p)\<rparr>"

definition withNote :: "string option \<Rightarrow> plan_item \<Rightarrow> plan_item" where
  "withNote note i = (if note = None then i else i\<lparr>pi_note := trimmedNote note\<rparr>)"

definition updatedItem :: "int \<Rightarrow> plan_params \<Rightarrow> plan_item \<Rightarrow> plan_item" where
  "updatedItem now ps i0 =
     (let title = normalizeTitle (pp_title ps);
          i1 = (if title \<noteq> [] then i0\<lparr>pi_title := title\<rparr> else i0);
          i2 = (if pp_blockedBy ps = None then i1
                else
                  let j = i1\<lparr>pi_blockedBy := normalizeBlockedBy (pp_blockedBy ps)\<rparr> in
                  if pp_status ps = None \<and> pi_status j \<noteq> PDone \<and> pi_status j \<noteq> PActive
                  then j\<lparr>pi_status := (if pi_blockedBy j \<noteq> [] then PBlocked else PTodo)\<rparr> else j);
          i3 = withNote (pp_note ps) i2;
          i4 = (case pp_status ps of None \<Rightarrow> i3 | Some st \<Rightarrow> i3\<lparr>pi_status := st\<rparr>)
      in i4\<lparr>pi_updatedAt := now\<rparr>)"

definition updateItem :: "int \<Rightarrow> bool \<Rightarrow> plan_params \<Rightarrow> plan \<Rightarrow> plan_error + plan" where
  "updateItem now streaming ps p =
     (case findItem p (pp_id ps) of
        None \<Rightarrow> Inl ValidIdRequired
      | Some i0 \<Rightarrow>
          let i = updatedItem now ps i0 in
          if pi_status i = PActive
          then Inr (setActive now (Some (pi_id i)) streaming (changeItem i0 i p))
          else if pl_activeId p = Some (pi_id i)
          then Inr ((changeItem i0 (flushRun now i) p)\<lparr>pl_activeId := None\<rparr>)
          else Inr (changeItem i0 i p))"

definition activateItem :: "int \<Rightarrow> bool \<Rightarrow> plan_params \<Rightarrow> plan \<Rightarrow> plan_error + plan" where
  "activateItem now streaming ps p =
     (case findItem p (pp_id ps) of
        None \<Rightarrow> Inl ValidIdRequired
      | Some i \<Rightarrow> Inr (setActive now (Some (pi_id i)) streaming p))"

definition completedItem :: "int \<Rightarrow> string option \<Rightarrow> plan_item \<Rightarrow> plan_item" where
  "completedItem now note i =
     withNote note ((flushRun now i)\<lparr>pi_status := PDone, pi_completedAt := Some now, pi_updatedAt := now\<rparr>)"

definition completeOne :: "int \<Rightarrow> string option \<Rightarrow> int \<Rightarrow> plan \<Rightarrow> plan" where
  "completeOne now note i p =
     p\<lparr>pl_items := update_first (\<lambda>x. pi_id x = i) (completedItem now note) (pl_items p),
       pl_activeId := (if pl_activeId p = Some i then None else pl_activeId p)\<rparr>"

definition releaseItem :: "int \<Rightarrow> int list \<Rightarrow> plan_item \<Rightarrow> plan_item" where
  "releaseItem now doneIds i =
     (if \<not> list_ex (\<lambda>d. d \<in> set doneIds) (pi_blockedBy i) then i
      else
        let j = i\<lparr>pi_blockedBy := filter (\<lambda>d. d \<notin> set doneIds) (pi_blockedBy i)\<rparr>
        in j\<lparr>pi_status := (if pi_status j = PBlocked \<and> pi_blockedBy j = [] then PTodo else pi_status j),
             pi_updatedAt := now\<rparr>)"

text \<open>The items that \<open>complete\<close> found, in the order they were given.\<close>

definition completeDone :: "int \<Rightarrow> bool \<Rightarrow> string option \<Rightarrow> int list \<Rightarrow> plan \<Rightarrow> plan" where
  "completeDone now streaming note doneIds p =
     (let p1 = fold (completeOne now note) doneIds p;
          p2 = p1\<lparr>pl_items := map (releaseItem now doneIds) (pl_items p1)\<rparr>
      in if pl_activeId p2 \<noteq> None then p2
         else case List.find (\<lambda>i. pi_status i = PTodo \<and> pi_blockedBy i = []) (pl_items p2) of
             None \<Rightarrow> p2
           | Some next \<Rightarrow> setActive now (Some (pi_id next)) streaming p2)"

definition completeItems :: "int \<Rightarrow> bool \<Rightarrow> plan_params \<Rightarrow> plan \<Rightarrow> plan_error + plan" where
  "completeItems now streaming ps p =
     (let ids = (case pp_ids ps of
            Some (n # ns) \<Rightarrow> map Some (n # ns)
          | _ \<Rightarrow> [case pp_id ps of Some n \<Rightarrow> Some n | None \<Rightarrow> map_option (\<lambda>a. Fin (of_int a)) (pl_activeId p)])
      in case those (map (findItem p) ids) of
           None \<Rightarrow> Inl ValidIdRequired
         | Some items \<Rightarrow> Inr (completeDone now streaming (pp_note ps) (map pi_id items) p))"

definition blockItem :: "int \<Rightarrow> plan_params \<Rightarrow> plan \<Rightarrow> plan_error + plan" where
  "blockItem now ps p =
     (case findItem p (pp_id ps) of
        None \<Rightarrow> Inl ValidIdRequired
      | Some i \<Rightarrow>
          let j = (withNote (pp_note ps) ((flushRun now i)\<lparr>pi_status := PBlocked,
                pi_blockedBy := normalizeBlockedBy (pp_blockedBy ps)\<rparr>))\<lparr>pi_updatedAt := now\<rparr>;
              p' = changeItem i j p
          in Inr (if pl_activeId p = Some (pi_id i) then p'\<lparr>pl_activeId := None\<rparr> else p'))"

definition unblockItem :: "int \<Rightarrow> plan_params \<Rightarrow> plan \<Rightarrow> plan_error + plan" where
  "unblockItem now ps p =
     (case findItem p (pp_id ps) of
        None \<Rightarrow> Inl ValidIdRequired
      | Some i \<Rightarrow>
          Inr (changeItem i ((withNote (pp_note ps) (i\<lparr>pi_status := PTodo, pi_blockedBy := []\<rparr>))\<lparr>pi_updatedAt := now\<rparr>) p))"

text \<open>The plan after the switch of \<open>execute\<close>; \<open>list\<close> returns before it is saved.\<close>

fun runAction :: "int \<Rightarrow> bool \<Rightarrow> plan_action \<Rightarrow> plan_params \<Rightarrow> plan \<Rightarrow> plan_error + plan" where
  "runAction now streaming ASet ps p = Inr (setPlan now streaming ps)"
| "runAction now streaming AAdd ps p = addItem now streaming ps p"
| "runAction now streaming AUpdate ps p = updateItem now streaming ps p"
| "runAction now streaming AActivate ps p = activateItem now streaming ps p"
| "runAction now streaming AComplete ps p = completeItems now streaming ps p"
| "runAction now streaming ABlock ps p = blockItem now ps p"
| "runAction now streaming AUnblock ps p = unblockItem now ps p"
| "runAction now streaming AClear ps p = Inr (emptyPlan now)"
| "runAction now streaming AList ps p = Inr p"

text \<open>\<open>execute\<close>: the error, the plan and the plan that was appended to the session, if any.\<close>

definition executePlan ::
  "int \<Rightarrow> bool \<Rightarrow> plan_action \<Rightarrow> plan_params \<Rightarrow> plan \<Rightarrow> plan_error option \<times> plan \<times> plan option" where
  "executePlan now streaming action ps p =
     (case runAction now streaming action ps p of
        Inl err \<Rightarrow> (Some err, p, None)
      | Inr p' \<Rightarrow>
          if action = AList then (None, p', None)
          else let saved = p'\<lparr>pl_updatedAt := now\<rparr> in (None, saved, Some saved))"

section \<open>The invariant of plans\<close>

definition item_ok :: "int \<Rightarrow> plan_item \<Rightarrow> bool" where
  "item_ok nextId i \<longleftrightarrow> 0 < pi_id i \<and> pi_id i < nextId \<and> pi_title i \<noteq> [] \<and>
     list_all (\<lambda>d. 0 < d) (pi_blockedBy i) \<and> 0 \<le> orZero (pi_activeMs i)"

definition items_ok :: "plan \<Rightarrow> bool" where
  "items_ok p \<longleftrightarrow> distinct (map pi_id (pl_items p)) \<and> list_all (item_ok (pl_nextId p)) (pl_items p) \<and>
     1 \<le> pl_nextId p \<and> length (pl_items p) \<le> MAX_ITEMS"

definition activeIds :: "plan_item list \<Rightarrow> int list" where
  "activeIds items = map pi_id (filter (\<lambda>i. pi_status i = PActive) items)"

definition active_ok :: "plan \<Rightarrow> bool" where
  "active_ok p \<longleftrightarrow> activeIds (pl_items p) = (case pl_activeId p of None \<Rightarrow> [] | Some a \<Rightarrow> [a])"

definition plan_ok :: "plan \<Rightarrow> bool" where
  "plan_ok p \<longleftrightarrow> items_ok p \<and> active_ok p"

lemma flushRun_simps [simp]:
  "pi_id (flushRun now i) = pi_id i" "pi_title (flushRun now i) = pi_title i"
  "pi_status (flushRun now i) = pi_status i" "pi_blockedBy (flushRun now i) = pi_blockedBy i"
  by (simp_all add: flushRun_def)

lemma flushRun_activeMs: "0 \<le> orZero (pi_activeMs i) \<Longrightarrow> 0 \<le> orZero (pi_activeMs (flushRun now i))"
  by (auto simp: flushRun_def orZero_def)

lemma withNote_simps [simp]:
  "pi_id (withNote n i) = pi_id i" "pi_title (withNote n i) = pi_title i"
  "pi_status (withNote n i) = pi_status i" "pi_blockedBy (withNote n i) = pi_blockedBy i"
  "pi_activeMs (withNote n i) = pi_activeMs i"
  by (simp_all add: withNote_def)

lemma setActiveItem_simps [simp]:
  "pi_id (setActiveItem now t st i) = pi_id i" "pi_title (setActiveItem now t st i) = pi_title i"
  "pi_blockedBy (setActiveItem now t st i) = pi_blockedBy i"
  "pi_status (setActiveItem now t st i) = PActive \<longleftrightarrow> Some (pi_id i) = t"
  by (auto simp: setActiveItem_def Let_def)

lemma item_ok_setActive: "item_ok n i \<Longrightarrow> item_ok n (setActiveItem now t st i)"
  using flushRun_activeMs [of i now] by (simp add: item_ok_def) (simp add: setActiveItem_def Let_def)

lemma positiveInt_pos: "positiveInt n = Some i \<Longrightarrow> 0 < i"
  by (cases "intNum (Some (JNum n))") (simp_all add: positiveInt_def split: if_splits)

lemma set_map_filter: "set (List.map_filter f xs) = {y. \<exists>x \<in> set xs. f x = Some y}"
  by (induction xs) (auto simp: List.map_filter_simps split: option.splits)

lemma normalizeBlockedBy_pos: "list_all (\<lambda>d. 0 < d) (normalizeBlockedBy v)"
  using positiveInt_pos
  by (cases v) (auto simp: normalizeBlockedBy_def list_all_iff set_map_filter)

lemma items_ok_setActive: "items_ok p \<Longrightarrow> items_ok (setActive now t st p)"
  by (auto simp: items_ok_def setActive_def list_all_iff item_ok_setActive o_def)

lemma activeIds_setActive:
  "activeIds (map (setActiveItem now t st) items) = filter (\<lambda>x. Some x = t) (map pi_id items)"
  by (induction items) (auto simp: activeIds_def)

lemma filter_eq_distinct: "distinct xs \<Longrightarrow> a \<in> set xs \<Longrightarrow> filter (\<lambda>x. x = a) xs = [a]"
  by (induction xs) (auto simp: filter_empty_conv)

lemma plan_ok_setActive:
  assumes "items_ok p" "case t of None \<Rightarrow> True | Some a \<Rightarrow> a \<in> pi_id ` set (pl_items p)"
  shows "plan_ok (setActive now t st p)"
proof -
  have "active_ok (setActive now t st p)"
    using assms filter_eq_distinct [of "map pi_id (pl_items p)"]
    by (cases t) (auto simp: active_ok_def setActive_def activeIds_setActive items_ok_def)
  with items_ok_setActive [OF assms(1)] show ?thesis by (simp add: plan_ok_def)
qed

lemma findItem_in: "findItem p n = Some i \<Longrightarrow> i \<in> set (pl_items p)"
  by (auto simp: findItem_def dest: find_Some_in split: if_splits)

lemma map_id_update_first:
  "(\<And>x. P x \<Longrightarrow> pi_id (f x) = pi_id x) \<Longrightarrow> map pi_id (update_first P f items) = map pi_id items"
  by (rule map_update_first)

lemma items_ok_change:
  assumes "items_ok p" "pi_id new = pi_id old" "old \<in> set (pl_items p)" "item_ok (pl_nextId p) new"
  shows "items_ok (changeItem old new p)"
  using assms map_id_update_first [of "\<lambda>i. pi_id i = pi_id old" "\<lambda>_. new" "pl_items p"]
  by (auto simp: items_ok_def changeItem_def list_all_iff dest: update_first_pred)

lemma activeIds_update_first:
  assumes "distinct (map pi_id items)" "\<And>x. pi_id x = a \<Longrightarrow> pi_id (f x) = a \<and> pi_status (f x) \<noteq> PActive"
  shows "activeIds (update_first (\<lambda>x. pi_id x = a) f items) = filter (\<lambda>x. x \<noteq> a) (activeIds items)"
  using assms
proof (induction items)
  case (Cons x items)
  have "filter (\<lambda>y. y \<noteq> a) (activeIds items) = activeIds items" if "pi_id x = a"
    using Cons.prems(1) that by (auto simp: activeIds_def filter_id_conv image_iff)
  with Cons show ?case by (auto simp: activeIds_def)
qed (simp add: activeIds_def)

lemma active_ok_remove:
  assumes "active_ok p" "activeIds items = filter (\<lambda>x. x \<noteq> a) (activeIds (pl_items p))"
    "activeId = (if pl_activeId p = Some a then None else pl_activeId p)"
  shows "activeIds items = (case activeId of None \<Rightarrow> [] | Some a \<Rightarrow> [a])"
  using assms by (auto simp: active_ok_def split: option.splits)

lemma plan_ok_change:
  assumes "plan_ok p" "old \<in> set (pl_items p)" "pi_id new = pi_id old" "item_ok (pl_nextId p) new"
    "pi_status new \<noteq> PActive"
  shows "plan_ok ((changeItem old new p)\<lparr>pl_activeId :=
    (if pl_activeId p = Some (pi_id old) then None else pl_activeId p)\<rparr>)"
proof -
  have "activeIds (update_first (\<lambda>i. pi_id i = pi_id old) (\<lambda>_. new) (pl_items p)) =
      filter (\<lambda>x. x \<noteq> pi_id old) (activeIds (pl_items p))"
    using assms by (intro activeIds_update_first) (auto simp: plan_ok_def items_ok_def)
  from active_ok_remove [OF _ this refl] assms(1)
  have a: "activeIds (update_first (\<lambda>i. pi_id i = pi_id old) (\<lambda>_. new) (pl_items p)) =
      (case if pl_activeId p = Some (pi_id old) then None else pl_activeId p of None \<Rightarrow> [] | Some a \<Rightarrow> [a])"
    by (simp add: plan_ok_def)
  have "items_ok (changeItem old new p)"
    using assms by (intro items_ok_change) (auto simp: plan_ok_def)
  with a show ?thesis by (simp add: plan_ok_def items_ok_def active_ok_def changeItem_def)
qed

lemma item_ok_in: "plan_ok p \<Longrightarrow> i \<in> set (pl_items p) \<Longrightarrow> item_ok (pl_nextId p) i"
  by (auto simp: plan_ok_def items_ok_def list_all_iff)

lemma plan_ok_empty [simp]: "plan_ok (emptyPlan now)"
  by (simp add: plan_ok_def items_ok_def active_ok_def activeIds_def emptyPlan_def)

lemma item_ok_newItem:
  "0 < i \<Longrightarrow> i < n \<Longrightarrow> title \<noteq> [] \<Longrightarrow> item_ok n (newItem now i title st deps note)"
  by (simp add: item_ok_def newItem_def Let_def normalizeBlockedBy_pos orZero_def)

lemma item_ok_mono: "item_ok n i \<Longrightarrow> n \<le> m \<Longrightarrow> item_ok m i"
  by (simp add: item_ok_def)

lemma items_ok_append:
  assumes "items_ok p" "length (pl_items p) < MAX_ITEMS" "pi_id i = pl_nextId p" "item_ok (pl_nextId p + 1) i"
  shows "items_ok (p\<lparr>pl_nextId := pl_nextId p + 1, pl_items := pl_items p @ [i]\<rparr>)"
  using assms
  by (auto simp: items_ok_def list_all_iff item_ok_def intro: item_ok_mono)

lemma items_ok_addInput:
  assumes "items_ok p" "length (pl_items p) < MAX_ITEMS"
  shows "items_ok (addInput now p x) \<and> length (pl_items (addInput now p x)) \<le> Suc (length (pl_items p))"
proof -
  let ?t = "normalizeTitle (Some (ii_title x))"
  let ?i = "stampNew now (ii_status x) (newItem now (pl_nextId p) ?t (ii_status x) (ii_blockedBy x) (ii_note x))"
  have "item_ok (pl_nextId p + 1) ?i \<and> pi_id ?i = pl_nextId p" if "?t \<noteq> []"
    using item_ok_newItem [of "pl_nextId p" "pl_nextId p + 1" ?t] that assms(1)
    by (simp add: stampNew_def item_ok_def items_ok_def) (simp add: newItem_def Let_def)
  then show ?thesis
    using items_ok_append [OF assms, of ?i] assms(1) by (auto simp: addInput_def Let_def)
qed

lemma items_ok_foldl:
  "items_ok p \<Longrightarrow> length (pl_items p) + length xs \<le> MAX_ITEMS \<Longrightarrow> items_ok (foldl (addInput now) p xs)"
proof (induction xs arbitrary: p)
  case (Cons x xs)
  then have "items_ok (addInput now p x)" "length (pl_items (addInput now p x)) \<le> Suc (length (pl_items p))"
    using items_ok_addInput [of p now x] by auto
  with Cons.prems show ?case by (simp add: Cons.IH)
qed simp

lemma plan_ok_set: "plan_ok (setPlan now st ps)"
proof -
  let ?xs = "take MAX_ITEMS (case pp_items ps of None \<Rightarrow> [] | Some xs \<Rightarrow> xs)"
  have "items_ok (foldl (addInput now) (emptyPlan now) ?xs)"
    by (rule items_ok_foldl) (simp_all add: items_ok_def emptyPlan_def)
  then show ?thesis
    unfolding setPlan_def Let_def
    by (intro plan_ok_setActive) (auto split: option.splits dest: find_Some_in)
qed

lemma plan_ok_add:
  assumes "plan_ok p" "addItem now st ps p = Inr p'"
  shows "plan_ok p'"
proof -
  let ?t = "normalizeTitle (pp_title ps)"
  let ?i = "newItem now (pl_nextId p) ?t (pp_status ps) (pp_blockedBy ps) (pp_note ps)"
  let ?p = "p\<lparr>pl_nextId := pl_nextId p + 1, pl_items := pl_items p @ [?i]\<rparr>"
  from assms(2) have t: "?t \<noteq> []" "length (pl_items p) < MAX_ITEMS"
    and p': "p' = (if pi_status ?i = PActive then setActive now (Some (pi_id ?i)) st ?p else ?p)"
    by (auto simp: addItem_def Let_def split: if_splits)
  have "items_ok p" using assms(1) by (simp add: plan_ok_def)
  moreover have "item_ok (pl_nextId p + 1) ?i"
    using t(1) calculation by (intro item_ok_newItem) (auto simp: items_ok_def)
  moreover have "pi_id ?i = pl_nextId p" by (simp add: newItem_def Let_def)
  ultimately have ok: "items_ok ?p" using items_ok_append t(2) by blast
  show ?thesis
  proof (cases "pi_status ?i = PActive")
    case True
    then show ?thesis using plan_ok_setActive [OF ok] p' by simp
  next
    case False
    then have "active_ok ?p" using assms(1) by (simp add: plan_ok_def active_ok_def activeIds_def)
    with False ok p' show ?thesis by (simp add: plan_ok_def)
  qed
qed

lemma updatedItem_simps: "pi_id (updatedItem now ps i) = pi_id i"
  "item_ok n i \<Longrightarrow> item_ok n (updatedItem now ps i)"
  using normalizeBlockedBy_pos [of "pp_blockedBy ps"]
  by (auto simp: updatedItem_def Let_def item_ok_def split: option.splits)

lemma item_ok_flush: "item_ok n i \<Longrightarrow> item_ok n (flushRun now i)"
  using flushRun_activeMs by (auto simp: item_ok_def)

lemma plan_ok_update:
  assumes "plan_ok p" "updateItem now st ps p = Inr p'"
  shows "plan_ok p'"
proof -
  obtain i0 where i0: "findItem p (pp_id ps) = Some i0"
    using assms(2) by (auto simp: updateItem_def split: option.splits)
  let ?i = "updatedItem now ps i0"
  have i: "i0 \<in> set (pl_items p)" "pi_id ?i = pi_id i0" "item_ok (pl_nextId p) ?i"
    using findItem_in [OF i0] item_ok_in [OF assms(1)] updatedItem_simps by auto
  have items: "items_ok (changeItem i0 ?i p)"
    using assms(1) i by (intro items_ok_change) (auto simp: plan_ok_def)
  show ?thesis
  proof (cases "pi_status ?i = PActive")
    case True
    have "map pi_id (pl_items (changeItem i0 ?i p)) = map pi_id (pl_items p)"
      by (simp add: changeItem_def, rule map_id_update_first) (use i(2) in simp)
    then have "pi_id ` set (pl_items (changeItem i0 ?i p)) = pi_id ` set (pl_items p)"
      by (metis list.set_map)
    then have "pi_id ?i \<in> pi_id ` set (pl_items (changeItem i0 ?i p))"
      using i(1,2) by simp
    then show ?thesis
      using True assms(2) i0 plan_ok_setActive [OF items, of "Some (pi_id ?i)"]
      by (auto simp: updateItem_def Let_def)
  next
    case False
    have "p' = (if pl_activeId p = Some (pi_id i0) then (changeItem i0 (flushRun now ?i) p)\<lparr>pl_activeId := None\<rparr>
        else changeItem i0 ?i p)"
      using assms(2) i0 False i(2) by (auto simp: updateItem_def Let_def split: if_splits)
    moreover have "plan_ok ((changeItem i0 (flushRun now ?i) p)\<lparr>pl_activeId :=
        (if pl_activeId p = Some (pi_id i0) then None else pl_activeId p)\<rparr>)"
      using assms(1) i False by (intro plan_ok_change) (simp_all add: item_ok_flush)
    moreover have "plan_ok ((changeItem i0 ?i p)\<lparr>pl_activeId :=
        (if pl_activeId p = Some (pi_id i0) then None else pl_activeId p)\<rparr>)"
      using assms(1) i False by (intro plan_ok_change) simp_all
    ultimately show ?thesis by (auto simp: changeItem_def split: if_splits)
  qed
qed

lemma plan_ok_activate:
  assumes "plan_ok p" "activateItem now st ps p = Inr p'"
  shows "plan_ok p'"
  using assms plan_ok_setActive [of p]
  by (auto simp: activateItem_def plan_ok_def split: option.splits dest!: findItem_in)

lemma plan_ok_block:
  assumes "plan_ok p" "blockItem now ps p = Inr p'"
  shows "plan_ok p'"
proof -
  obtain i where i: "findItem p (pp_id ps) = Some i"
    using assms(2) by (auto simp: blockItem_def split: option.splits)
  let ?j = "(withNote (pp_note ps) ((flushRun now i)\<lparr>pi_status := PBlocked,
      pi_blockedBy := normalizeBlockedBy (pp_blockedBy ps)\<rparr>))\<lparr>pi_updatedAt := now\<rparr>"
  have "item_ok (pl_nextId p) ?j"
    using item_ok_flush [OF item_ok_in [OF assms(1) findItem_in [OF i]], of now]
    by (simp add: item_ok_def normalizeBlockedBy_pos)
  then have "plan_ok ((changeItem i ?j p)\<lparr>pl_activeId :=
      (if pl_activeId p = Some (pi_id i) then None else pl_activeId p)\<rparr>)"
    using assms(1) findItem_in [OF i] by (intro plan_ok_change) simp_all
  then show ?thesis
    using assms(2) i by (auto simp: blockItem_def Let_def changeItem_def split: if_splits)
qed

lemma plan_ok_unblock:
  assumes "plan_ok p" "unblockItem now ps p = Inr p'"
    "pl_activeId p = None \<or> pp_id ps \<noteq> map_option (\<lambda>a. Fin (of_int a)) (pl_activeId p)"
  shows "plan_ok p'"
proof -
  obtain i where i: "findItem p (pp_id ps) = Some i"
    using assms(2) by (auto simp: unblockItem_def split: option.splits)
  then have "pl_activeId p \<noteq> Some (pi_id i)"
    using assms(3) by (auto simp: findItem_def has_id_def dest: find_Some_in split: if_splits)
  let ?j = "(withNote (pp_note ps) (i\<lparr>pi_status := PTodo, pi_blockedBy := []\<rparr>))\<lparr>pi_updatedAt := now\<rparr>"
  have "item_ok (pl_nextId p) ?j"
    using item_ok_in [OF assms(1) findItem_in [OF i]] by (simp add: item_ok_def)
  then have "plan_ok ((changeItem i ?j p)\<lparr>pl_activeId :=
      (if pl_activeId p = Some (pi_id i) then None else pl_activeId p)\<rparr>)"
    using assms(1) findItem_in [OF i] by (intro plan_ok_change) simp_all
  then show ?thesis
    using assms(2) i \<open>pl_activeId p \<noteq> Some (pi_id i)\<close>
    by (auto simp: unblockItem_def changeItem_def split: if_splits)
qed


lemma completedItem_simps [simp]:
  "pi_id (completedItem now note i) = pi_id i" "pi_status (completedItem now note i) = PDone"
  "item_ok n i \<Longrightarrow> item_ok n (completedItem now note i)"
  using flushRun_activeMs [of i now] by (auto simp: completedItem_def item_ok_def)

lemma items_ok_update_first:
  assumes "items_ok p" "\<And>x. P x \<Longrightarrow> pi_id (f x) = pi_id x" "\<And>x. item_ok (pl_nextId p) x \<Longrightarrow> item_ok (pl_nextId p) (f x)"
  shows "items_ok (p\<lparr>pl_items := update_first P f (pl_items p)\<rparr>)"
  using assms map_id_update_first [of P f "pl_items p"]
  by (auto simp: items_ok_def list_all_iff dest: update_first_pred)

lemma completeOne_ok:
  assumes "plan_ok p"
  shows "plan_ok (completeOne now note i p)"
proof -
  have "items_ok (p\<lparr>pl_items := update_first (\<lambda>x. pi_id x = i) (completedItem now note) (pl_items p)\<rparr>)"
    using assms by (intro items_ok_update_first) (simp_all add: plan_ok_def)
  moreover have "activeIds (update_first (\<lambda>x. pi_id x = i) (completedItem now note) (pl_items p)) =
      filter (\<lambda>x. x \<noteq> i) (activeIds (pl_items p))"
    using assms by (intro activeIds_update_first) (simp_all add: plan_ok_def items_ok_def)
  ultimately show ?thesis
    using assms by (auto simp: plan_ok_def completeOne_def items_ok_def active_ok_def split: option.splits)
qed

lemma complete_all_ok: "plan_ok p \<Longrightarrow> plan_ok (fold (completeOne now note) ids p)"
  by (induction ids arbitrary: p) (simp_all add: completeOne_ok)

lemma releaseItem_simps [simp]:
  "pi_id (releaseItem now ids i) = pi_id i"
  "pi_status (releaseItem now ids i) = PActive \<longleftrightarrow> pi_status i = PActive"
  "item_ok n i \<Longrightarrow> item_ok n (releaseItem now ids i)"
  by (auto simp: releaseItem_def Let_def item_ok_def list_all_iff)

lemma releaseItems_ok:
  assumes "plan_ok p"
  shows "plan_ok (p\<lparr>pl_items := map (releaseItem now ids) (pl_items p)\<rparr>)"
proof -
  have "activeIds (map (releaseItem now ids) items) = activeIds items" for items
    by (induction items) (auto simp: activeIds_def)
  with assms show ?thesis
    by (simp add: plan_ok_def items_ok_def active_ok_def list_all_iff o_def)
qed

lemma plan_ok_completeDone:
  assumes "plan_ok p"
  shows "plan_ok (completeDone now st note ids p)"
proof -
  let ?p1 = "fold (completeOne now note) ids p"
  let ?p2 = "?p1\<lparr>pl_items := map (releaseItem now ids) (pl_items ?p1)\<rparr>"
  let ?next = "List.find (\<lambda>i. pi_status i = PTodo \<and> pi_blockedBy i = []) (pl_items ?p2)"
  have ok: "plan_ok ?p2" by (intro releaseItems_ok complete_all_ok assms(1))
  have "plan_ok (setActive now (Some (pi_id n)) st ?p2)" if "?next = Some n" for n
    using ok find_Some_in [OF that] by (intro plan_ok_setActive) (simp_all add: plan_ok_def)
  with ok show ?thesis
    unfolding completeDone_def Let_def by (cases ?next) simp_all
qed

lemma plan_ok_complete: "plan_ok p \<Longrightarrow> completeItems now st ps p = Inr p' \<Longrightarrow> plan_ok p'"
  unfolding completeItems_def Let_def using plan_ok_completeDone by (auto split: option.splits)

text \<open>C11. Every action of the tool except unblocking the active item keeps the plan well formed.\<close>

theorem actions_keep_the_plan:
  assumes "plan_ok p" "runAction now streaming action ps p = Inr p'"
    "action = AUnblock \<Longrightarrow> pl_activeId p = None \<or> pp_id ps \<noteq> map_option (\<lambda>a. Fin (of_int a)) (pl_activeId p)"
  shows "plan_ok p'"
proof (cases action)
  case ASet
  then show ?thesis using assms(2) plan_ok_set [of now streaming ps] by simp
next
  case AAdd
  then show ?thesis using assms(2) by (simp add: plan_ok_add [OF assms(1)])
next
  case AUpdate
  then show ?thesis using assms(2) by (simp add: plan_ok_update [OF assms(1)])
next
  case AActivate
  then show ?thesis using assms(2) by (simp add: plan_ok_activate [OF assms(1)])
next
  case AComplete
  then show ?thesis using assms(2) by (simp add: plan_ok_complete [OF assms(1)])
next
  case ABlock
  then show ?thesis using assms(2) by (simp add: plan_ok_block [OF assms(1)])
next
  case AUnblock
  then show ?thesis using assms(2) by (simp add: plan_ok_unblock [OF assms(1) _ assms(3)])
next
  case AClear
  then show ?thesis using assms(2) plan_ok_empty [of now] by simp
next
  case AList
  then show ?thesis using assms(1,2) by simp
qed

definition twoItems :: plan where
  "twoItems = \<lparr>pl_items =
     [\<lparr>pi_id = 1, pi_title = ''a'', pi_status = PActive, pi_blockedBy = [], pi_note = None, pi_createdAt = 1,
       pi_updatedAt = 1, pi_startedAt = Some 1, pi_completedAt = None, pi_activeMs = None, pi_runStartedAt = Some 1\<rparr>,
      \<lparr>pi_id = 2, pi_title = ''b'', pi_status = PBlocked, pi_blockedBy = [1], pi_note = None, pi_createdAt = 1,
       pi_updatedAt = 1, pi_startedAt = None, pi_completedAt = None, pi_activeMs = None, pi_runStartedAt = None\<rparr>],
     pl_nextId = 3, pl_activeId = Some 1, pl_createdAt = 1, pl_updatedAt = 1\<rparr>"

definition noParams :: plan_params where
  "noParams = \<lparr>pp_items = None, pp_id = None, pp_ids = None, pp_title = None, pp_status = None,
     pp_blockedBy = None, pp_note = None\<rparr>"

lemma plan_ok_twoItems: "plan_ok twoItems"
  by (simp add: plan_ok_def items_ok_def active_ok_def activeIds_def twoItems_def item_ok_def orZero_def MAX_ITEMS_def)

theorem actions_keep_the_plan_witness:
  "pl_activeId (completeDone 5 False None [1] twoItems) = Some 2 \<and> plan_ok (completeDone 5 False None [1] twoItems)"
proof -
  have "runAction 5 False AComplete noParams twoItems = Inr (completeDone 5 False None [1] twoItems)"
    by (simp add: completeItems_def noParams_def twoItems_def findItem_def has_id_def)
  from actions_keep_the_plan [OF plan_ok_twoItems this]
  show ?thesis
    by (simp add: completeDone_def completeOne_def completedItem_def releaseItem_def setActive_def twoItems_def
        withNote_def flushRun_def truthy_def Let_def)
qed

end
