(* ===== verification/WorkPlanSession.thy ===== *)
theory WorkPlanSession
  imports WorkPlan
begin

text \<open>
  \<open>extensions/work-plan/index.ts\<close>, continued: the state that the extension appends to the session and
  the check of \<open>self-handoff\<close> on it, the condensed list of finished items, the timers of active items,
  and the reminders about open items, whose in-memory variables are the record \<open>plan_session\<close>.
\<close>

section \<open>The stored state\<close>

fun planStatusName :: "plan_status \<Rightarrow> string" where
  "planStatusName PTodo = ''todo''"
| "planStatusName PActive = ''active''"
| "planStatusName PDone = ''done''"
| "planStatusName PBlocked = ''blocked''"

abbreviation jint :: "int \<Rightarrow> json" where
  "jint n \<equiv> JNum (Fin (of_int n))"

text \<open>\<open>clone(state)\<close>: \<open>JSON.stringify\<close> drops what is \<open>undefined\<close>.\<close>

definition itemJson :: "plan_item \<Rightarrow> json" where
  "itemJson i = obj [(''id'', Some (jint (pi_id i))), (''title'', Some (JStr (pi_title i))),
     (''status'', Some (JStr (planStatusName (pi_status i)))),
     (''blockedBy'', Some (JArr (map jint (pi_blockedBy i)))), (''note'', map_option JStr (pi_note i)),
     (''createdAt'', Some (jint (pi_createdAt i))), (''updatedAt'', Some (jint (pi_updatedAt i))),
     (''startedAt'', map_option jint (pi_startedAt i)), (''completedAt'', map_option jint (pi_completedAt i)),
     (''activeMs'', map_option jint (pi_activeMs i)), (''runStartedAt'', map_option jint (pi_runStartedAt i))]"

definition planJson :: "plan \<Rightarrow> json" where
  "planJson p = obj [(''version'', Some (JNum (Fin 1))), (''items'', Some (JArr (map itemJson (pl_items p)))),
     (''nextId'', Some (jint (pl_nextId p))), (''activeId'', map_option jint (pl_activeId p)),
     (''createdAt'', Some (jint (pl_createdAt p))), (''updatedAt'', Some (jint (pl_updatedAt p)))]"

text \<open>Every dependency names another item of the plan.\<close>

definition deps_ok :: "plan \<Rightarrow> bool" where
  "deps_ok p \<longleftrightarrow> list_all (\<lambda>i. list_all (\<lambda>d. d \<noteq> pi_id i \<and> d \<in> pi_id ` set (pl_items p)) (pi_blockedBy i)) (pl_items p)"

lemma get_itemJson:
  "get (Some (itemJson i)) ''id'' = Some (jint (pi_id i))"
  "get (Some (itemJson i)) ''title'' = Some (JStr (pi_title i))"
  "get (Some (itemJson i)) ''status'' = Some (JStr (planStatusName (pi_status i)))"
  "get (Some (itemJson i)) ''blockedBy'' = Some (JArr (map jint (pi_blockedBy i)))"
  "get (Some (itemJson i)) ''note'' = map_option JStr (pi_note i)"
  "get (Some (itemJson i)) ''createdAt'' = Some (jint (pi_createdAt i))"
  "get (Some (itemJson i)) ''updatedAt'' = Some (jint (pi_updatedAt i))"
  "get (Some (itemJson i)) ''startedAt'' = map_option jint (pi_startedAt i)"
  "get (Some (itemJson i)) ''completedAt'' = map_option jint (pi_completedAt i)"
  "get (Some (itemJson i)) ''activeMs'' = map_option jint (pi_activeMs i)"
  "get (Some (itemJson i)) ''runStartedAt'' = map_option jint (pi_runStartedAt i)"
  by (simp_all add: itemJson_def get_obj lookup_field_def)

lemma get_planJson:
  "get (Some (planJson p)) ''version'' = Some (JNum (Fin 1))"
  "get (Some (planJson p)) ''items'' = Some (JArr (map itemJson (pl_items p)))"
  "get (Some (planJson p)) ''nextId'' = Some (jint (pl_nextId p))"
  "get (Some (planJson p)) ''activeId'' = map_option jint (pl_activeId p)"
  "get (Some (planJson p)) ''createdAt'' = Some (jint (pl_createdAt p))"
  "get (Some (planJson p)) ''updatedAt'' = Some (jint (pl_updatedAt p))"
  by (simp_all add: planJson_def get_obj lookup_field_def)

lemma isRecord_planJson: "isRecord (Some (planJson p))"
  by (simp add: planJson_def)

lemma planStatusName_active: "planStatusName st = ''active'' \<longleftrightarrow> st = PActive"
  by (cases st) simp_all

lemma planStatusName_in: "planStatusName st \<in> set plan_statuses"
  by (cases st) (simp_all add: plan_statuses_def)

lemma optional_map:
  "optional is_str (map_option JStr v)" "optional is_finite (map_option jint w)"
  by (cases v; simp add: optional_def is_str_def) (cases w; simp add: optional_def is_finite_def)

lemma validPlanItem_itemJson:
  assumes "item_ok n i"
  shows "validPlanItem (Some (itemJson i))"
proof -
  have "optional (\<lambda>x. case finiteNum x of None \<Rightarrow> False | Some r \<Rightarrow> 0 \<le> r) (map_option jint (pi_activeMs i))"
    using assms by (cases "pi_activeMs i") (simp_all add: optional_def item_ok_def orZero_def)
  moreover have "every (int_at_least 1) (Some (JArr (map jint (pi_blockedBy i))))"
    using assms by (auto simp: every_def item_ok_def list_all_iff int_at_least_def)
  moreover have "isRecord (Some (itemJson i))" by (simp add: itemJson_def)
  ultimately show ?thesis
    using assms
    unfolding validPlanItem_def get_itemJson
    by (simp add: optional_map planStatusName_in status_in_def nonempty_str_def item_ok_def
        int_at_least_def is_finite_def)
qed

lemma foldl_max_less: "(n :: int) < m \<Longrightarrow> \<forall>x \<in> set xs. x < m \<Longrightarrow> foldl max n xs < m"
  by (induction xs arbitrary: n) auto

lemma intOf_jint [simp]: "intOf (Some (jint n)) = n"
  by (simp add: intOf_def)

lemma validPlan_planJson_active: "validPlan (Some (planJson p)) \<Longrightarrow> active_ok p"
  unfolding validPlan_def Let_def
  by (auto simp: get_planJson get_itemJson planStatusName_active filter_map activeIds_def o_def arrOf_def
      active_ok_def split: option.splits if_splits)

lemma validPlan_planJson:
  assumes "plan_ok p"
  shows "validPlan (Some (planJson p)) \<longleftrightarrow> deps_ok p"
proof -
  let ?v = "Some (planJson p)" and ?items = "map itemJson (pl_items p)"
  let ?itemId = "\<lambda>i. intOf (get (Some i) ''id'')"
  have items: "arrOf (get ?v ''items'') = ?items" by (simp add: get_planJson arrOf_def)
  have ids: "map ?itemId ?items = map pi_id (pl_items p)" by (simp add: get_itemJson)
  have active: "map ?itemId (filter (\<lambda>i. jIsStr (get (Some i) ''status'') ''active'') ?items) = activeIds (pl_items p)"
    by (simp add: get_itemJson planStatusName_active filter_map activeIds_def o_def)
  have valid: "every validPlanItem (get ?v ''items'')"
    using assms validPlanItem_itemJson
    by (fastforce simp: every_def get_planJson list_all_iff plan_ok_def items_ok_def)
  have "pl_activeId p = Some a \<Longrightarrow> 0 < a" for a
    using assms by (force simp: plan_ok_def active_ok_def items_ok_def list_all_iff item_ok_def activeIds_def
        dest: arg_cong [of _ _ set])
  then have top: "isRecord ?v \<and> jIs (get ?v ''version'') 1 \<and> every validPlanItem (get ?v ''items'') \<and>
      int_at_least 1 (get ?v ''nextId'') \<and> optional (int_at_least 1) (get ?v ''activeId'') \<and>
      is_finite (get ?v ''createdAt'') \<and> is_finite (get ?v ''updatedAt'')"
    using valid assms isRecord_planJson [of p]
    by (cases "pl_activeId p")
      (simp_all add: get_planJson plan_ok_def items_ok_def int_at_least_def optional_def is_finite_def)
  have "list_all (\<lambda>i. list_all (\<lambda>d. intOf (Some d) \<noteq> ?itemId i \<and> intOf (Some d) \<in> set (map pi_id (pl_items p)))
      (arrOf (get (Some i) ''blockedBy''))) ?items \<longleftrightarrow> deps_ok p"
    by (simp add: deps_ok_def list.pred_map o_def get_itemJson arrOf_def)
  moreover have "case get ?v ''activeId'' of None \<Rightarrow> activeIds (pl_items p) = []
      | Some a \<Rightarrow> activeIds (pl_items p) = [intOf (Some a)]"
    using assms by (simp add: get_planJson plan_ok_def active_ok_def split: option.splits)
  moreover have "distinct (map pi_id (pl_items p)) \<and> foldl max 0 (map pi_id (pl_items p)) < intOf (get ?v ''nextId'')"
    using assms
    by (auto simp: plan_ok_def items_ok_def get_planJson list_all_iff item_ok_def intro!: foldl_max_less)
  ultimately show ?thesis
    unfolding validPlan_def Let_def items ids active using top by simp
qed


section \<open>The condensed list\<close>

datatype render_entry = RItem plan_item | RSummary nat

definition isDone :: "plan_item \<Rightarrow> bool" where
  "isDone i \<longleftrightarrow> pi_status i = PDone"

fun emitEntries :: "int list \<Rightarrow> nat \<Rightarrow> bool \<Rightarrow> plan_item list \<Rightarrow> render_entry list" where
  "emitEntries keepIds hiddenCount emitted [] = []"
| "emitEntries keepIds hiddenCount emitted (i # items) =
     (if isDone i \<and> pi_id i \<notin> set keepIds
      then (if emitted then [] else [RSummary hiddenCount]) @ emitEntries keepIds hiddenCount True items
      else RItem i # emitEntries keepIds hiddenCount emitted items)"

text \<open>\<open>doneItems.slice(-KEEP_RECENT_DONE)\<close> drops all but the last three.\<close>

definition renderEntries :: "plan_item list \<Rightarrow> render_entry list" where
  "renderEntries items =
     (let doneItems = filter isDone items in
      if length doneItems \<le> KEEP_RECENT_DONE + 1 then map RItem items
      else
        let keepIds = map pi_id (drop (length doneItems - KEEP_RECENT_DONE) doneItems);
            hiddenCount = length doneItems - KEEP_RECENT_DONE
        in emitEntries keepIds hiddenCount False items)"

fun entryCount :: "render_entry \<Rightarrow> nat" where
  "entryCount (RItem i) = 1"
| "entryCount (RSummary n) = n"

fun entryItem :: "render_entry \<Rightarrow> plan_item option" where
  "entryItem (RItem i) = Some i"
| "entryItem (RSummary n) = None"

abbreviation hidden :: "int list \<Rightarrow> plan_item \<Rightarrow> bool" where
  "hidden keepIds i \<equiv> isDone i \<and> pi_id i \<notin> set keepIds"

lemma emitEntries_count:
  "sum_list (map entryCount (emitEntries keepIds n emitted items)) =
     length (filter (\<lambda>i. \<not> hidden keepIds i) items) +
     (if emitted \<or> filter (hidden keepIds) items = [] then 0 else n)"
  by (induction items arbitrary: emitted) auto

lemma emitEntries_items:
  "List.map_filter entryItem (emitEntries keepIds n emitted items) = filter (\<lambda>i. \<not> hidden keepIds i) items"
  by (induction items arbitrary: emitted) (auto simp: List.map_filter_simps)

lemma filter_mem_suffix:
  "distinct (map f (xs @ ys)) \<Longrightarrow> filter (\<lambda>x. f x \<notin> set (map f ys)) (xs @ ys) = xs"
  by (induction xs) (auto simp: filter_empty_conv image_iff)

lemma hidden_items:
  assumes "distinct (map pi_id items)" "n \<le> length (filter isDone items)"
  shows "filter (hidden (map pi_id (drop n (filter isDone items)))) items = take n (filter isDone items)"
proof -
  let ?d = "filter isDone items"
  have "filter (hidden (map pi_id (drop n ?d))) items = filter (\<lambda>i. pi_id i \<notin> set (map pi_id (drop n ?d))) ?d"
    by (simp add: conj_commute)
  also have "\<dots> = filter (\<lambda>i. pi_id i \<notin> set (map pi_id (drop n ?d))) (take n ?d @ drop n ?d)" by simp
  also have "\<dots> = take n ?d"
    using distinct_map_filter [OF assms(1), of isDone] by (intro filter_mem_suffix) simp
  finally show ?thesis .
qed


text \<open>The condensed list accounts for every item: the counts of its lines add up to the number of
  items, its item lines are the items in their order without the finished ones that are older than the
  last three, and a list with at most four finished items is shown whole.\<close>

theorem condensed_list_is_complete:
  assumes "distinct (map pi_id items)"
  shows "sum_list (map entryCount (renderEntries items)) = length items \<and>
    filter (\<lambda>i. \<not> isDone i) (List.map_filter entryItem (renderEntries items)) = filter (\<lambda>i. \<not> isDone i) items \<and>
    length (filter isDone (List.map_filter entryItem (renderEntries items))) =
      (if length (filter isDone items) \<le> 4 then length (filter isDone items) else 3)"
proof (cases "length (filter isDone items) \<le> 4")
  case True
  then have "renderEntries items = map RItem items" by (simp add: renderEntries_def KEEP_RECENT_DONE_def)
  moreover have "entryCount \<circ> RItem = (\<lambda>_. 1)" "List.map_filter entryItem (map RItem items) = items"
    by (auto simp: o_def) (induction items; simp add: List.map_filter_simps)
  ultimately show ?thesis using True by (simp add: sum_list_triv)
next
  case False
  define n where "n = length (filter isDone items) - 3"
  let ?keep = "map pi_id (drop n (filter isDone items))"
  have entries: "renderEntries items = emitEntries ?keep n False items"
    using False by (simp add: renderEntries_def KEEP_RECENT_DONE_def n_def Let_def)
  have h: "filter (hidden ?keep) items = take n (filter isDone items)"
    using assms by (rule hidden_items) (simp add: n_def)
  let ?shown = "filter (\<lambda>i. \<not> hidden ?keep i) items"
  have n: "length (filter (hidden ?keep) items) = n" "n \<noteq> 0" "length (filter isDone items) = n + 3"
    using False unfolding h by (auto simp: n_def)
  then have len: "length ?shown + n = length items"
    using sum_length_filter_compl [of "hidden ?keep" items] by simp
  have "filter (hidden ?keep) (filter isDone items) = filter (hidden ?keep) items"
    "filter (\<lambda>i. \<not> hidden ?keep i) (filter isDone items) = filter isDone ?shown"
    by (simp_all add: conj_commute)
  then have shown3: "length (filter isDone ?shown) = 3"
    using sum_length_filter_compl [of "hidden ?keep" "filter isDone items"] n by simp
  have "filter (\<lambda>i. \<not> isDone i) ?shown = filter (\<lambda>i. \<not> isDone i) items"
    unfolding filter_filter by (rule filter_cong) auto
  moreover have "filter (hidden ?keep) items \<noteq> []" using n(1,2) by auto
  ultimately show ?thesis
    using shown3 len False entries
    by (simp only: emitEntries_count emitEntries_items if_False simp_thms)
qed


section \<open>The session\<close>

record plan_session =
  ws_plan :: plan
  ws_lastStopReason :: "string option"
  ws_notified :: "signature option"
  ws_reconcileRunPending :: bool
  ws_timer :: bool

definition initial_session :: "int \<Rightarrow> plan_session" where
  "initial_session now = \<lparr>ws_plan = emptyPlan now, ws_lastStopReason = None, ws_notified = None,
     ws_reconcileRunPending = False, ws_timer = False\<rparr>"

text \<open>
  \<open>restore\<close> reads the data of the plan entries of the branch, in their order; \<open>null\<close> is the empty plan.
\<close>

definition clearRun :: "plan_item \<Rightarrow> plan_item" where
  "clearRun i = (if truthy (pi_runStartedAt i) then i\<lparr>pi_runStartedAt := None\<rparr> else i)"

definition restorePlan :: "int \<Rightarrow> plan option list \<Rightarrow> plan" where
  "restorePlan now entries =
     (let p = fold (\<lambda>d _. case d of None \<Rightarrow> emptyPlan now | Some q \<Rightarrow> q) entries (emptyPlan now)
      in p\<lparr>pl_items := map clearRun (pl_items p)\<rparr>)"

definition restore :: "int \<Rightarrow> plan option list \<Rightarrow> plan_session \<Rightarrow> plan_session" where
  "restore now entries s = s\<lparr>ws_plan := restorePlan now entries\<rparr>"

text \<open>What the handlers write: entries of the session and messages with the items they list.\<close>

datatype plan_output = Saved plan | OpenNotice "plan_item list" | ReconcileSent "plan_item list" | ReconcileFailed

definition save :: "int \<Rightarrow> plan_session \<Rightarrow> plan_session \<times> plan_output list" where
  "save now s =
     (let p = (ws_plan s)\<lparr>pl_updatedAt := now\<rparr> in (s\<lparr>ws_plan := p\<rparr>, [Saved p]))"

definition sessionStart :: "int \<Rightarrow> plan option list \<Rightarrow> plan_session \<Rightarrow> plan_session" where
  "sessionStart now entries s =
     (restore now entries s)\<lparr>ws_lastStopReason := None, ws_notified := None, ws_reconcileRunPending := False,
        ws_timer := False\<rparr>"

definition beforeAgentStart ::
  "int \<Rightarrow> plan option list \<Rightarrow> bool \<Rightarrow> plan_session \<Rightarrow> plan_session \<times> plan_output list" where
  "beforeAgentStart now entries held s0 =
     (let s = restore now entries s0;
          open = openItems (ws_plan s);
          signature = planSignature (ws_plan s)
      in if open \<noteq> [] \<and> Some signature \<noteq> ws_notified s \<and> \<not> held
         then (s\<lparr>ws_notified := Some signature\<rparr>, [OpenNotice open]) else (s, []))"

text \<open>\<open>held\<close> is \<open>selfHandoffPending(ctx)\<close>.\<close>

definition agentStart :: "int \<Rightarrow> bool \<Rightarrow> plan_session \<Rightarrow> plan_session" where
  "agentStart now held s0 =
     (let s = s0\<lparr>ws_lastStopReason := None\<rparr> in
      if held then s
      else case activeItem (ws_plan s) of
          None \<Rightarrow> s
        | Some a \<Rightarrow>
            if truthy (pi_runStartedAt a) then s
            else s\<lparr>ws_plan := changeItem a (a\<lparr>pi_runStartedAt := Some now\<rparr>) (ws_plan s)\<rparr>)"

definition agentEnd :: "int \<Rightarrow> string option \<Rightarrow> bool \<Rightarrow> plan_session \<Rightarrow> plan_session \<times> plan_output list" where
  "agentEnd now stopReason held s0 =
     (let s = s0\<lparr>ws_lastStopReason := stopReason\<rparr> in
      if held then (s, [])
      else
        let p = ws_plan s;
            changed = list_ex (\<lambda>i. truthy (pi_runStartedAt i)) (pl_items p);
            s' = s\<lparr>ws_plan := p\<lparr>pl_items := map (flushRun now) (pl_items p)\<rparr>\<rparr>
        in if changed then save now s' else (s', []))"

text \<open>\<open>canRemind\<close> is \<open>ctx.hasUI && Number(process.env.PI_SUBAGENT_DEPTH ?? 0) === 0\<close>.\<close>

definition agentSettled :: "bool \<Rightarrow> plan_session \<Rightarrow> plan_session" where
  "agentSettled canRemind s =
     (if ws_reconcileRunPending s
      then s\<lparr>ws_reconcileRunPending := False, ws_notified := Some (planSignature (ws_plan s))\<rparr>
      else if ws_lastStopReason s \<noteq> Some ''stop'' then s
      else if \<not> canRemind then s
      else s\<lparr>ws_timer := True\<rparr>)"

definition timerFires :: "bool \<Rightarrow> bool \<Rightarrow> bool \<Rightarrow> bool \<Rightarrow> plan_session \<Rightarrow> plan_session \<times> plan_output list" where
  "timerFires idle held goalActive sendOk s0 =
     (if \<not> ws_timer s0 then (s0, [])
      else
        let s = s0\<lparr>ws_timer := False\<rparr> in
        if \<not> idle \<or> held \<or> goalActive then (s, [])
        else
          let open = openItems (ws_plan s); signature = planSignature (ws_plan s) in
          if open = [] \<or> Some signature = ws_notified s then (s, [])
          else if sendOk
          then (s\<lparr>ws_notified := Some signature, ws_reconcileRunPending := True\<rparr>, [ReconcileSent open])
          else (s\<lparr>ws_notified := Some signature, ws_reconcileRunPending := False\<rparr>, [ReconcileFailed]))"

definition toolCall ::
  "int \<Rightarrow> bool \<Rightarrow> plan_action \<Rightarrow> plan_params \<Rightarrow> plan_session \<Rightarrow> plan_session \<times> plan_output list" where
  "toolCall now streaming action ps s =
     (case executePlan now streaming action ps (ws_plan s) of
        (err, p, saved) \<Rightarrow> (s\<lparr>ws_plan := p\<rparr>, (case saved of None \<Rightarrow> [] | Some q \<Rightarrow> [Saved q])))"

text \<open>The command \<open>/plan\<close>; without \<open>clear\<close> it only shows the plan.\<close>

definition planCommand ::
  "int \<Rightarrow> plan option list \<Rightarrow> bool \<Rightarrow> bool \<Rightarrow> plan_session \<Rightarrow> plan_session \<times> plan_output list" where
  "planCommand now entries verbClear held s0 =
     (let s = restore now entries s0 in
      if verbClear \<and> \<not> held then save now (s\<lparr>ws_plan := emptyPlan now\<rparr>) else (s, []))"

datatype plan_event =
    SessionStart int "plan option list"
  | SessionTree int "plan option list"
  | BeforeAgentStart int "plan option list" bool
  | AgentStart int bool
  | AgentEnd int "string option" bool
  | AgentSettled bool
  | TimerFires bool bool bool bool
  | ToolCall int bool plan_action plan_params
  | PlanCommand int "plan option list" bool bool
  | SessionShutdown

fun session_step :: "plan_event \<Rightarrow> plan_session \<Rightarrow> plan_session \<times> plan_output list" where
  "session_step (SessionStart now es) s = (sessionStart now es s, [])"
| "session_step (SessionTree now es) s = (restore now es s, [])"
| "session_step (BeforeAgentStart now es held) s = beforeAgentStart now es held s"
| "session_step (AgentStart now held) s = (agentStart now held s, [])"
| "session_step (AgentEnd now reason held) s = agentEnd now reason held s"
| "session_step (AgentSettled can) s = (agentSettled can s, [])"
| "session_step (TimerFires idle held goalActive ok) s = timerFires idle held goalActive ok s"
| "session_step (ToolCall now streaming action ps) s = toolCall now streaming action ps s"
| "session_step (PlanCommand now es verbClear held) s = planCommand now es verbClear held s"
| "session_step SessionShutdown s = (s\<lparr>ws_timer := False\<rparr>, [])"

fun session_run :: "plan_event list \<Rightarrow> plan_session \<Rightarrow> plan_session \<times> plan_output list" where
  "session_run [] s = (s, [])"
| "session_run (e # es) s =
     (let (s', outs) = session_step e s; (s'', outs') = session_run es s' in (s'', outs @ outs'))"


section \<open>Properties of the session\<close>

fun isReconcile :: "plan_output \<Rightarrow> bool" where
  "isReconcile (ReconcileSent _) = True"
| "isReconcile _ = False"

fun isSettled :: "plan_event \<Rightarrow> bool" where
  "isSettled (AgentSettled _) = True"
| "isSettled _ = False"

fun isSessionStart :: "plan_event \<Rightarrow> bool" where
  "isSessionStart (SessionStart _ _) = True"
| "isSessionStart _ = False"

definition timer_ok :: "plan_session \<Rightarrow> bool" where
  "timer_ok s \<longleftrightarrow> \<not> (ws_timer s \<and> ws_reconcileRunPending s)"

lemmas session_defs = sessionStart_def restore_def beforeAgentStart_def agentStart_def agentEnd_def
  agentSettled_def timerFires_def toolCall_def planCommand_def save_def Let_def

text \<open>The handlers that do not touch the variables of the reminder.\<close>

definition quiet :: "plan_session \<times> plan_output list \<Rightarrow> plan_session \<Rightarrow> bool" where
  "quiet r s \<longleftrightarrow> ws_timer (fst r) = ws_timer s \<and> ws_reconcileRunPending (fst r) = ws_reconcileRunPending s \<and>
     filter isReconcile (snd r) = []"

lemma quiet_steps:
  "quiet (beforeAgentStart now es held s) s"
  "quiet (agentStart now held s, []) s"
  "quiet (agentEnd now reason held s) s"
  "quiet (toolCall now streaming action ps s) s"
  "quiet (planCommand now es verbClear held s) s"
  by (simp_all add: quiet_def session_defs split: option.splits prod.splits)

lemma settle_step:
  "timer_ok s \<Longrightarrow> timer_ok (agentSettled can s) \<and>
     of_bool (ws_timer (agentSettled can s)) + of_bool (ws_reconcileRunPending s) \<le>
     (1 :: nat) + of_bool (ws_reconcileRunPending (agentSettled can s)) + of_bool (ws_timer s)"
  by (auto simp: agentSettled_def timer_ok_def)

lemma timer_step:
  "timer_ok s \<Longrightarrow> timer_ok (fst (timerFires idle held goalActive ok s)) \<and>
     2 * length (filter isReconcile (snd (timerFires idle held goalActive ok s))) +
     of_bool (ws_timer (fst (timerFires idle held goalActive ok s))) + of_bool (ws_reconcileRunPending s) \<le>
     of_bool (ws_reconcileRunPending (fst (timerFires idle held goalActive ok s))) + (of_bool (ws_timer s) :: nat)"
  by (auto simp: timerFires_def timer_ok_def Let_def)

lemma session_step_count:
  assumes "timer_ok s"
  shows "timer_ok (fst (session_step e s)) \<and>
    2 * length (filter isReconcile (snd (session_step e s))) + of_bool (ws_timer (fst (session_step e s))) +
      of_bool (ws_reconcileRunPending s) \<le>
    of_bool (isSettled e) + of_bool (isSessionStart e) + of_bool (ws_reconcileRunPending (fst (session_step e s))) +
      (of_bool (ws_timer s) :: nat)"
proof -
  have quiet: ?thesis if "quiet (session_step e s) s" "\<not> isSettled e" "\<not> isSessionStart e"
    using that assms by (simp add: quiet_def timer_ok_def)
  show ?thesis
  proof (cases e)
    case (SessionStart now es)
    then show ?thesis using assms by (simp add: sessionStart_def timer_ok_def)
  next
    case (AgentSettled can)
    then show ?thesis using settle_step [OF assms] by simp
  next
    case (TimerFires idle held goalActive ok)
    then show ?thesis using timer_step [OF assms] by simp
  next
    case (SessionTree now es)
    then show ?thesis by (intro quiet) (simp_all add: quiet_def restore_def)
  next
    case SessionShutdown
    then show ?thesis using assms by (simp add: timer_ok_def)
  qed (use quiet quiet_steps in simp_all)
qed

lemma session_run_count:
  "timer_ok s \<Longrightarrow>
     2 * length (filter isReconcile (snd (session_run es s))) + of_bool (ws_reconcileRunPending s) \<le>
     length (filter isSettled es) + length (filter isSessionStart es) + 1 + (of_bool (ws_timer s) :: nat)"
proof (induction es arbitrary: s)
  case (Cons e es)
  obtain s1 outs where s1: "session_step e s = (s1, outs)" by force
  obtain s2 outs' where s2: "session_run es s1 = (s2, outs')" by force
  from session_step_count [OF Cons.prems, of e] s1
  have "timer_ok s1" and step: "2 * length (filter isReconcile outs) + of_bool (ws_timer s1) + of_bool (ws_reconcileRunPending s) \<le>
    of_bool (isSettled e) + of_bool (isSessionStart e) + of_bool (ws_reconcileRunPending s1) + (of_bool (ws_timer s) :: nat)"
    by simp_all
  with Cons.IH [OF this(1)] s2
  have "2 * length (filter isReconcile outs') + of_bool (ws_reconcileRunPending s1) \<le>
    length (filter isSettled es) + length (filter isSessionStart es) + 1 + (of_bool (ws_timer s1) :: nat)" by simp
  moreover have "length (filter isSettled (e # es)) = of_bool (isSettled e) + length (filter isSettled es)"
    "length (filter isSessionStart (e # es)) = of_bool (isSessionStart e) + length (filter isSessionStart es)"
    by simp_all
  ultimately show ?case using step by (simp add: s1 s2)
qed simp


interpretation reminder: event_machine "\<lambda>e s. fst (session_step e s)" "\<lambda>_. True" timer_ok
  by unfold_locales (use session_step_count in blast)

text \<open>C24. A plan that keeps the invariant is taken over by a handoff exactly when every dependency names
  another item of the plan; the tool checks no dependency, so it can store a plan that no handoff carries.\<close>

theorem stored_plan_is_carried:
  assumes "plan_ok p"
  shows "latestWorkPlanState (entries @ [customEntry WORK_PLAN_STATE_TYPE (Some (planJson p))]) =
    (if deps_ok p then Some (planJson p) else None)"
  using validPlan_planJson [OF assms] by (simp add: latestWorkPlanState_def latest_append Let_def)

text \<open>Unblocking the active item of a well-formed plan succeeds, leaves the plan with an active
  identifier that no active item has, and the plan that is stored is refused by a handoff.\<close>

theorem unblocking_the_active_item_breaks_the_plan:
  assumes "plan_ok p" "pl_activeId p = Some a" "pp_id ps = Some (Fin (of_int a))"
  shows "\<exists>p'. runAction now streaming AUnblock ps p = Inr p' \<and> pl_activeId p' = Some a \<and> \<not> plan_ok p' \<and>
    latestWorkPlanState (entries @ [customEntry WORK_PLAN_STATE_TYPE (Some (planJson p'))]) = None"
proof -
  have "a \<in> set (activeIds (pl_items p))" using assms(1,2) by (simp add: plan_ok_def active_ok_def)
  then obtain x where "x \<in> set (pl_items p)" "pi_id x = a" by (auto simp: activeIds_def)
  then obtain i where i: "findItem p (pp_id ps) = Some i"
    using assms(3) by (cases "findItem p (pp_id ps)") (auto simp: findItem_def has_id_def find_None_iff)
  then have id: "pi_id i = a" using assms(3) by (auto simp: findItem_def has_id_def dest!: find_Some_in)
  obtain j where j: "pi_id j = a" "pi_status j \<noteq> PActive" "runAction now streaming AUnblock ps p = Inr (changeItem i j p)"
    by (rule that [of "(withNote (pp_note ps) (i\<lparr>pi_status := PTodo, pi_blockedBy := []\<rparr>))\<lparr>pi_updatedAt := now\<rparr>"])
      (simp_all add: unblockItem_def i id)
  have "activeIds (pl_items (changeItem i j p)) = filter (\<lambda>x. x \<noteq> a) (activeIds (pl_items p))"
    using assms(1) j id activeIds_update_first [of "pl_items p" a "\<lambda>_. j"]
    by (simp add: changeItem_def plan_ok_def items_ok_def)
  then have "activeIds (pl_items (changeItem i j p)) = []"
    using assms(1,2) by (simp add: plan_ok_def active_ok_def)
  then have "\<not> active_ok (changeItem i j p)" using assms(2) by (simp add: active_ok_def) (simp add: changeItem_def)
  then show ?thesis
    using j assms(2) validPlan_planJson_active [of "changeItem i j p"]
    by (auto simp: plan_ok_def latestWorkPlanState_def latest_append Let_def changeItem_def)
qed

text \<open>When a run ends, every running timer is folded into its item: what an item is charged with at any
  later time is what it was charged with when the run ended, and the entry that is appended holds it.\<close>

theorem idle_time_is_not_charged:
  "map (effectiveActiveMs later) (pl_items (ws_plan (fst (agentEnd now reason False s)))) =
     map (effectiveActiveMs now) (pl_items (ws_plan s)) \<and>
   snd (agentEnd now reason False s) =
     (if filter (\<lambda>i. truthy (pi_runStartedAt i)) (pl_items (ws_plan s)) = [] then []
      else [Saved (ws_plan (fst (agentEnd now reason False s)))])"
proof -
  have "effectiveActiveMs later (flushRun now i) = effectiveActiveMs now i" for i
    by (simp add: effectiveActiveMs_def flushRun_def truthy_def orZero_def)
  then show ?thesis
    by (auto simp: agentEnd_def save_def Let_def list_ex_iff filter_empty_conv)
qed

text \<open>A message about open items is only sent for a plan that the model was not shown last, lists exactly
  the open items, of which there is at least one, and records the plan as shown.\<close>

theorem reminders_are_new:
  assumes "session_step e s = (s', outs)" "OpenNotice items \<in> set outs \<or> ReconcileSent items \<in> set outs"
  shows "items \<noteq> [] \<and> items = openItems (ws_plan s') \<and> ws_notified s' = Some (planSignature (ws_plan s')) \<and>
    ws_notified s \<noteq> ws_notified s'"
proof (cases e)
  case (BeforeAgentStart now es held)
  then show ?thesis using assms by (auto simp: beforeAgentStart_def restore_def Let_def split: if_splits)
next
  case (TimerFires idle held goalActive ok)
  then show ?thesis using assms by (auto simp: timerFires_def Let_def split: if_splits)
next
  case (AgentEnd now reason held)
  then show ?thesis using assms by (auto simp: agentEnd_def save_def Let_def split: if_splits)
next
  case (ToolCall now streaming action ps)
  then show ?thesis using assms by (auto simp: toolCall_def split: prod.splits option.splits)
next
  case (PlanCommand now es verbClear held)
  then show ?thesis using assms by (auto simp: planCommand_def save_def Let_def split: if_splits)
qed (use assms in auto)

text \<open>Between session starts, the follow-up checks that are sent are at most half of the settled runs:
  the run that a check starts settles without arming another check.\<close>

theorem reconcile_checks_are_bounded:
  "2 * length (filter isReconcile (snd (session_run es (initial_session now)))) \<le>
     length (filter isSettled es) + length (filter isSessionStart es) + 1"
  using session_run_count [of "initial_session now" es] by (simp add: initial_session_def timer_ok_def)

section \<open>Concrete instances\<close>

theorem condensed_list_is_complete_witness:
  "sum_list (map entryCount (renderEntries (pl_items twoItems))) = 2"
  using condensed_list_is_complete [of "pl_items twoItems"] by (simp add: twoItems_def)

theorem stored_plan_is_carried_witness:
  "latestWorkPlanState ([] @ [customEntry WORK_PLAN_STATE_TYPE (Some (planJson twoItems))]) = Some (planJson twoItems)"
  using stored_plan_is_carried [OF plan_ok_twoItems, of "[]"] by (simp add: deps_ok_def twoItems_def)

theorem unblocking_the_active_item_breaks_the_plan_witness:
  "\<exists>p'. runAction 5 False AUnblock (noParams\<lparr>pp_id := Some (Fin 1)\<rparr>) twoItems = Inr p' \<and> pl_activeId p' = Some 1 \<and>
    \<not> plan_ok p' \<and> latestWorkPlanState ([] @ [customEntry WORK_PLAN_STATE_TYPE (Some (planJson p'))]) = None"
  by (rule unblocking_the_active_item_breaks_the_plan [OF plan_ok_twoItems]) (simp_all add: twoItems_def)

theorem reminders_are_new_witness:
  "ws_notified (fst (session_step (BeforeAgentStart 5 [Some twoItems] False) (initial_session 1))) =
     Some [(1, PActive, ''a''), (2, PBlocked, ''b'')] \<and>
   ws_notified (initial_session 1) \<noteq>
     ws_notified (fst (session_step (BeforeAgentStart 5 [Some twoItems] False) (initial_session 1)))"
proof -
  let ?r = "session_step (BeforeAgentStart 5 [Some twoItems] False) (initial_session 1)"
  let ?items = "openItems (ws_plan (fst ?r))"
  have sig: "planSignature (ws_plan (fst ?r)) = [(1, PActive, ''a''), (2, PBlocked, ''b'')]"
    and "snd ?r = [OpenNotice ?items]"
    by (simp_all add: beforeAgentStart_def restore_def restorePlan_def initial_session_def openItems_def
        planSignature_def twoItems_def clearRun_def truthy_def Let_def)
  then have "OpenNotice ?items \<in> set (snd ?r)" by (simp only:) simp
  then have "?items \<noteq> [] \<and> ?items = openItems (ws_plan (fst ?r)) \<and>
      ws_notified (fst ?r) = Some (planSignature (ws_plan (fst ?r))) \<and>
      ws_notified (initial_session 1) \<noteq> ws_notified (fst ?r)"
    by (intro reminders_are_new [OF prod.collapse [symmetric]] disjI1)
  then show ?thesis using sig by metis
qed

end
