(* ===== verification/JsonSchema.thy ===== *)
theory JsonSchema
  imports JsPrelude
begin

text \<open>
  The part of JSON Schema that \<open>extensions/_shared/structured-output.ts\<close> accepts, written down from the
  specification and over the JSON values alone: nothing here refers to the validator. \<open>same_value\<close> is the
  equality of JSON values, \<open>has_type\<close> the types, \<open>assertion_holds\<close> what a keyword without subschemas asks of
  a value, and \<open>conforms\<close> the meaning of a whole schema: every member of a schema object is a keyword that must
  hold.
\<close>

section \<open>JSON values\<close>

text \<open>
  A value that \<open>JSON.parse\<close> returns for a text all of whose numbers are in the range of a double: the names of an
  object are distinct and every number is finite.
\<close>

fun well_formed :: "json \<Rightarrow> bool" where
  "well_formed (JNum n) \<longleftrightarrow> (case n of Fin _ \<Rightarrow> True | _ \<Rightarrow> False)"
| "well_formed (JArr xs) \<longleftrightarrow> list_all well_formed xs"
| "well_formed (JObj kvs) \<longleftrightarrow> distinct (map fst kvs) \<and> list_all (\<lambda>(k, v). well_formed v) kvs"
| "well_formed v \<longleftrightarrow> True"

text \<open>Objects are equal when they have the same names with equal values, in any order.\<close>

fun same_value :: "json \<Rightarrow> json \<Rightarrow> bool" where
  "same_value (JArr xs) (JArr ys) \<longleftrightarrow> list_all2 same_value xs ys"
| "same_value (JObj kvs) (JObj kws) \<longleftrightarrow>
     fst ` set kvs = fst ` set kws \<and> (\<forall>(k, x) \<in> set kvs. \<forall>(j, y) \<in> set kws. k = j \<longrightarrow> same_value x y)"
| "same_value v w \<longleftrightarrow> v = w"

fun elements :: "json \<Rightarrow> json list" where
  "elements (JArr xs) = xs"
| "elements _ = []"

fun members :: "json \<Rightarrow> (string \<times> json) list" where
  "members (JObj kvs) = kvs"
| "members _ = []"

section \<open>Keywords\<close>

text \<open>\<open>integer\<close> is any number with a zero fractional part.\<close>

inductive has_type :: "string \<Rightarrow> json \<Rightarrow> bool" where
  "has_type ''null'' JNull"
| "has_type ''boolean'' (JBool b)"
| "has_type ''number'' (JNum (Fin r))"
| "has_type ''integer'' (JNum (Fin (of_int i)))"
| "has_type ''string'' (JStr s)"
| "has_type ''array'' (JArr xs)"
| "has_type ''object'' (JObj kvs)"

inductive_simps has_type_simps:
  "has_type t JNull" "has_type t (JBool b)" "has_type t (JNum n)" "has_type t (JStr s)"
  "has_type t (JArr xs)" "has_type t (JObj kvs)"

text \<open>
  A keyword speaks about values of one type and holds for all others. Its first argument is its name, the second
  what the schema gives for it, the third the value that is checked.
\<close>

definition assertion_holds :: "string \<Rightarrow> json \<Rightarrow> json \<Rightarrow> bool" where
  "assertion_holds key arg val \<longleftrightarrow>
     (key = ''type'' \<longrightarrow> (\<exists>t. (arg = JStr t \<or> JStr t \<in> set (elements arg)) \<and> has_type t val)) \<and>
     (key = ''enum'' \<longrightarrow> (\<exists>x \<in> set (elements arg). same_value x val)) \<and>
     (key = ''const'' \<longrightarrow> same_value arg val) \<and>
     (key = ''minLength'' \<longrightarrow> (\<forall>n s. arg = JNum (Fin n) \<longrightarrow> val = JStr s \<longrightarrow> n \<le> of_nat (length s))) \<and>
     (key = ''maxLength'' \<longrightarrow> (\<forall>n s. arg = JNum (Fin n) \<longrightarrow> val = JStr s \<longrightarrow> of_nat (length s) \<le> n)) \<and>
     (key = ''minimum'' \<longrightarrow> (\<forall>n r. arg = JNum (Fin n) \<longrightarrow> val = JNum (Fin r) \<longrightarrow> n \<le> r)) \<and>
     (key = ''maximum'' \<longrightarrow> (\<forall>n r. arg = JNum (Fin n) \<longrightarrow> val = JNum (Fin r) \<longrightarrow> r \<le> n)) \<and>
     (key = ''exclusiveMinimum'' \<longrightarrow> (\<forall>n r. arg = JNum (Fin n) \<longrightarrow> val = JNum (Fin r) \<longrightarrow> n < r)) \<and>
     (key = ''exclusiveMaximum'' \<longrightarrow> (\<forall>n r. arg = JNum (Fin n) \<longrightarrow> val = JNum (Fin r) \<longrightarrow> r < n)) \<and>
     (key = ''minItems'' \<longrightarrow> (\<forall>n xs. arg = JNum (Fin n) \<longrightarrow> val = JArr xs \<longrightarrow> n \<le> of_nat (length xs))) \<and>
     (key = ''maxItems'' \<longrightarrow> (\<forall>n xs. arg = JNum (Fin n) \<longrightarrow> val = JArr xs \<longrightarrow> of_nat (length xs) \<le> n)) \<and>
     (key = ''uniqueItems'' \<longrightarrow> arg = JBool True \<longrightarrow>
        (\<forall>j < length (elements val). \<forall>i < j. \<not> same_value (elements val ! i) (elements val ! j))) \<and>
     (key = ''minProperties'' \<longrightarrow> (\<forall>n kvs. arg = JNum (Fin n) \<longrightarrow> val = JObj kvs \<longrightarrow> n \<le> of_nat (length kvs))) \<and>
     (key = ''maxProperties'' \<longrightarrow> (\<forall>n kvs. arg = JNum (Fin n) \<longrightarrow> val = JObj kvs \<longrightarrow> of_nat (length kvs) \<le> n)) \<and>
     (key = ''required'' \<longrightarrow> (\<forall>p kvs. JStr p \<in> set (elements arg) \<longrightarrow> val = JObj kvs \<longrightarrow> p \<in> fst ` set kvs))"

text \<open>The names that the \<open>properties\<close> of a schema object declare.\<close>

definition declared :: "(string \<times> json) list \<Rightarrow> string set" where
  "declared keywords = {p. \<exists>arg. (''properties'', arg) \<in> set keywords \<and> p \<in> fst ` set (members arg)}"

lemma size_elements: "x \<in> set (elements v) \<Longrightarrow> size x < size v"
  by (cases v) (auto dest: size_list_estimation' [of _ _ "size x" size])

lemma size_members: "(k, x) \<in> set (members v) \<Longrightarrow> size x < size v"
proof (cases v)
  case (JObj kvs)
  moreover assume "(k, x) \<in> set (members v)"
  ultimately have "size_prod (\<lambda>_. 0) size (k, x) \<le> size_list (size_prod (\<lambda>_. 0) size) kvs"
    by (intro size_list_estimation') auto
  then show ?thesis by (simp add: JObj)
qed simp_all

lemma size_keyword: "(k, x) \<in> set kvs \<Longrightarrow> size x < size (JObj kvs)"
  using size_members [of k x "JObj kvs"] by simp

lemma size_keyword_element: "(k, arg) \<in> set kvs \<Longrightarrow> x \<in> set (elements arg) \<Longrightarrow> size x < size (JObj kvs)"
  using size_keyword size_elements less_trans by blast

lemma size_keyword_member: "(k, arg) \<in> set kvs \<Longrightarrow> (j, x) \<in> set (members arg) \<Longrightarrow> size x < size (JObj kvs)"
  using size_keyword size_members less_trans by blast

section \<open>Schemas\<close>

function conforms :: "json \<Rightarrow> json \<Rightarrow> bool" where
  "conforms (JBool b) val \<longleftrightarrow> b"
| "conforms (JObj keywords) val \<longleftrightarrow> (\<forall>(key, arg) \<in> set keywords.
     assertion_holds key arg val \<and>
     (key = ''allOf'' \<longrightarrow> (\<forall>c \<in> set (elements arg). conforms c val)) \<and>
     (key = ''anyOf'' \<longrightarrow> (\<exists>c \<in> set (elements arg). conforms c val)) \<and>
     (key = ''oneOf'' \<longrightarrow> length (filter (\<lambda>c. conforms c val) (elements arg)) = 1) \<and>
     (key = ''items'' \<longrightarrow> (\<forall>x \<in> set (elements val). conforms arg x)) \<and>
     (key = ''properties'' \<longrightarrow> (\<forall>(p, c) \<in> set (members arg). \<forall>(q, x) \<in> set (members val). p = q \<longrightarrow> conforms c x)) \<and>
     (key = ''additionalProperties'' \<longrightarrow>
        (\<forall>(q, x) \<in> set (members val). q \<notin> declared keywords \<longrightarrow> conforms arg x)))"
| "conforms JNull val \<longleftrightarrow> False"
| "conforms (JNum n) val \<longleftrightarrow> False"
| "conforms (JStr s) val \<longleftrightarrow> False"
| "conforms (JArr xs) val \<longleftrightarrow> False"
  by pat_completeness auto
termination
  by (relation "measure (\<lambda>(schema, _). size schema)")
    (auto simp del: json.size intro: size_keyword size_keyword_element size_keyword_member)

declare conforms.simps(2) [simp del]

lemma well_formed_member: "well_formed v \<Longrightarrow> (k, x) \<in> set (members v) \<Longrightarrow> well_formed x"
  by (cases v) (auto simp: list_all_iff)

lemma well_formed_element: "well_formed v \<Longrightarrow> x \<in> set (elements v) \<Longrightarrow> well_formed x"
  by (cases v) (auto simp: list_all_iff)

lemma well_formed_distinct: "well_formed v \<Longrightarrow> distinct (map fst (members v))"
  by (cases v) auto

lemma same_value_refl [simp]: "well_formed v \<Longrightarrow> same_value v v"
proof (induction v)
  case (JArr xs)
  then show ?case by (simp add: list_all_iff list.rel_refl_strong)
next
  case (JObj kvs)
  have "same_value x y" if "(k, x) \<in> set kvs" "(k, y) \<in> set kvs" for k x y
  proof -
    from that JObj.prems have "x = y" by (metis eq_key_imp_eq_value well_formed.simps(3))
    with that JObj show ?thesis by (auto simp: list_all_iff)
  qed
  then show ?case by auto
qed simp_all

end
