(* ===== verification/FileLock.thy ===== *)
theory FileLock
  imports JsPrelude
begin

text \<open>
  \<open>extensions/_shared/file-lock.ts\<close>: the lock directory that serialises every store of the extensions.
  One system call is one step, the calls of all attempts interleave in any order, processes crash at any
  point, and every call may fail. An attempt is one call of \<open>withInterprocessLock\<close>; its program counter
  names the next call. A marker \<open>owner-<pid>-<token>.json\<close> is \<open>Owner pid (attempt, round)\<close>: the token is
  a fresh UUID per round. Identifiers of dead processes are not used again, a directory that is held open
  keeps its inode, and the clock is arbitrary.
\<close>

section \<open>The protocol\<close>

type_synonym attempt = nat

datatype lock_name = Owner int "attempt \<times> nat" | LegacyOwner | OtherFile string

datatype lock_pc =
    Idle
  | Made
  | Opened nat
  | Published nat
  | Stated nat nat
  | Holding
  | Cleanup bool
  | CleanupDir bool
  | BreakStat
  | BreakList "lock_name list"
  | BreakUnlink lock_name "lock_name list"
  | Waiting
  | Releasing
  | ReleasingDir
  | Finished
  | Failed
  | Crashed

record lock_state =
  ls_dir :: "(nat \<times> lock_name set) option"
  ls_pc :: "attempt \<Rightarrow> lock_pc"
  ls_round :: "attempt \<Rightarrow> nat"
  ls_alive :: "int set"

definition goto :: "attempt \<Rightarrow> lock_pc \<Rightarrow> lock_state \<Rightarrow> lock_state" where
  "goto a pc s = s\<lparr>ls_pc := (ls_pc s)(a := pc)\<rparr>"

definition ownerName :: "(attempt \<Rightarrow> int) \<Rightarrow> lock_state \<Rightarrow> attempt \<Rightarrow> lock_name" where
  "ownerName pid s a = Owner (pid a) (a, ls_round s a)"

text \<open>The inodes that are held open: \<open>mkdir\<close> does not get one of them.\<close>

fun pinned_by :: "lock_pc \<Rightarrow> nat set" where
  "pinned_by (Opened i) = {i}"
| "pinned_by (Published i) = {i}"
| "pinned_by (Stated i j) = {i}"
| "pinned_by _ = {}"

definition unlink :: "lock_name \<Rightarrow> lock_state \<Rightarrow> lock_state" where
  "unlink name s = s\<lparr>ls_dir := map_option (\<lambda>(i, names). (i, names - {name})) (ls_dir s)\<rparr>"

text \<open>\<open>removeEmptyLock\<close>: \<open>rmdir\<close> only removes an empty directory.\<close>

definition removeEmptyLock :: "lock_state \<Rightarrow> lock_state" where
  "removeEmptyLock s = s\<lparr>ls_dir := (case ls_dir s of
     None \<Rightarrow> None | Some (i, names) \<Rightarrow> if names = {} then None else Some (i, names))\<rparr>"

definition crash :: "(attempt \<Rightarrow> int) \<Rightarrow> int \<Rightarrow> lock_state \<Rightarrow> lock_state" where
  "crash pid p s = s\<lparr>ls_alive := ls_alive s - {p}, ls_pc := (\<lambda>a. if pid a = p then Crashed else ls_pc s a)\<rparr>"

fun in_try :: "lock_pc \<Rightarrow> bool" where
  "in_try Made = True"
| "in_try (Opened i) = True"
| "in_try (Published i) = True"
| "in_try (Stated i j) = True"
| "in_try _ = False"

fun in_break :: "lock_pc \<Rightarrow> bool" where
  "in_break BreakStat = True"
| "in_break (BreakList xs) = True"
| "in_break (BreakUnlink x xs) = True"
| "in_break _ = False"

inductive lock_step :: "(attempt \<Rightarrow> int) \<Rightarrow> lock_state \<Rightarrow> lock_state \<Rightarrow> bool" for pid where
  Mkdir: "ls_pc s a = Idle \<Longrightarrow> ls_dir s = None \<Longrightarrow> \<forall>b. i \<notin> pinned_by (ls_pc s b) \<Longrightarrow>
    lock_step pid s (goto a Made (s\<lparr>ls_dir := Some (i, {})\<rparr>))"
| MkdirExists: "ls_pc s a = Idle \<Longrightarrow> ls_dir s \<noteq> None \<Longrightarrow> lock_step pid s (goto a BreakStat s)"
| Open: "ls_pc s a = Made \<Longrightarrow> ls_dir s = Some (i, names) \<Longrightarrow> lock_step pid s (goto a (Opened i) s)"
| Publish: "ls_pc s a = Opened i \<Longrightarrow> ls_dir s = Some (j, names) \<Longrightarrow> ownerName pid s a \<notin> names \<Longrightarrow>
    lock_step pid s (goto a (Published i) (s\<lparr>ls_dir := Some (j, insert (ownerName pid s a) names)\<rparr>))"
| Stat: "ls_pc s a = Published i \<Longrightarrow> ls_dir s = Some (j, names) \<Longrightarrow> lock_step pid s (goto a (Stated i j) s)"
| Acquire: "ls_pc s a = Stated i j \<Longrightarrow> ls_dir s = Some (k, names) \<Longrightarrow> i = j \<Longrightarrow> names = {ownerName pid s a} \<Longrightarrow>
    lock_step pid s (goto a Holding s)"
| Lose: "ls_pc s a = Stated i j \<Longrightarrow> ls_dir s = Some (k, names) \<Longrightarrow> i \<noteq> j \<or> names \<noteq> {ownerName pid s a} \<Longrightarrow>
    lock_step pid s (goto a (Cleanup False) s)"
| Gone: "in_try (ls_pc s a) \<Longrightarrow> ls_dir s = None \<Longrightarrow> lock_step pid s (goto a (Cleanup False) s)"
| TryFault: "in_try (ls_pc s a) \<Longrightarrow> lock_step pid s (goto a (Cleanup throws) s)"
| CleanupUnlink: "ls_pc s a = Cleanup throws \<Longrightarrow>
    lock_step pid s (goto a (CleanupDir throws) (unlink (ownerName pid s a) s))"
| CleanupRmdir: "ls_pc s a = CleanupDir throws \<Longrightarrow>
    lock_step pid s (goto a (if throws then Failed else BreakStat) (removeEmptyLock s))"
| BreakNothing: "ls_pc s a = BreakStat \<Longrightarrow> lock_step pid s (goto a Waiting s)"
| BreakRead: "ls_pc s a = BreakStat \<Longrightarrow> ls_dir s = Some (i, set names) \<Longrightarrow> lock_step pid s (goto a (BreakList names) s)"
| BreakAlive: "ls_pc s a = BreakList (Owner p t # names) \<Longrightarrow> p \<in> ls_alive s \<Longrightarrow> lock_step pid s (goto a (BreakList names) s)"
| BreakDead: "ls_pc s a = BreakList (Owner p t # names) \<Longrightarrow> p \<notin> ls_alive s \<Longrightarrow>
    lock_step pid s (goto a (BreakUnlink (Owner p t) names) s)"
| BreakLegacy: "ls_pc s a = BreakList (LegacyOwner # names) \<Longrightarrow> lock_step pid s (goto a (BreakUnlink LegacyOwner names) s)"
| BreakLegacyAlive: "ls_pc s a = BreakList (LegacyOwner # names) \<Longrightarrow> lock_step pid s (goto a (BreakList names) s)"
| BreakOther: "ls_pc s a = BreakList (OtherFile f # names) \<Longrightarrow> lock_step pid s (goto a (BreakList names) s)"
| BreakRemove: "ls_pc s a = BreakUnlink name names \<Longrightarrow> lock_step pid s (goto a (BreakList names) (unlink name s))"
| BreakRmdir: "ls_pc s a = BreakList [] \<Longrightarrow> lock_step pid s (goto a Waiting (removeEmptyLock s))"
| BreakFault: "in_break (ls_pc s a) \<Longrightarrow> lock_step pid s (goto a Waiting s)"
| Retry: "ls_pc s a = Waiting \<Longrightarrow> lock_step pid s (goto a Idle (s\<lparr>ls_round := (ls_round s)(a := Suc (ls_round s a))\<rparr>))"
| Release: "ls_pc s a = Holding \<Longrightarrow> lock_step pid s (goto a Releasing s)"
| ReleaseUnlink: "ls_pc s a = Releasing \<Longrightarrow> lock_step pid s (goto a ReleasingDir (unlink (ownerName pid s a) s))"
| ReleaseRmdir: "ls_pc s a = ReleasingDir \<Longrightarrow> lock_step pid s (goto a Finished (removeEmptyLock s))"
| GiveUp: "ls_pc s a \<in> {Idle, Waiting, Cleanup throws, CleanupDir throws, Releasing, ReleasingDir} \<Longrightarrow> lock_step pid s (goto a Failed s)"
| Crash: "p \<in> ls_alive s \<Longrightarrow> lock_step pid s (crash pid p s)"

text \<open>Any directory may be left over from earlier runs.\<close>

inductive lock_reachable :: "(attempt \<Rightarrow> int) \<Rightarrow> lock_state \<Rightarrow> bool" for pid where
  initial: "lock_reachable pid \<lparr>ls_dir = dir, ls_pc = (\<lambda>_. Idle), ls_round = (\<lambda>_. 0), ls_alive = alive\<rparr>"
    if "range pid \<subseteq> alive"
| step: "lock_reachable pid s \<Longrightarrow> lock_step pid s s' \<Longrightarrow> lock_reachable pid s'"

section \<open>The invariant\<close>

text \<open>An attempt whose marker is published and not yet withdrawn.\<close>

fun visible :: "lock_pc \<Rightarrow> bool" where
  "visible (Published i) = True"
| "visible (Stated i j) = True"
| "visible Holding = True"
| "visible _ = False"

definition marked :: "(attempt \<Rightarrow> int) \<Rightarrow> lock_state \<Rightarrow> bool" where
  "marked pid s \<longleftrightarrow> (\<forall>a. visible (ls_pc s a) \<longrightarrow> (\<exists>i names. ls_dir s = Some (i, names) \<and> ownerName pid s a \<in> names))"

definition living :: "(attempt \<Rightarrow> int) \<Rightarrow> lock_state \<Rightarrow> bool" where
  "living pid s \<longleftrightarrow> (\<forall>a. ls_pc s a \<noteq> Crashed \<longrightarrow> pid a \<in> ls_alive s)"

definition reaping :: "lock_state \<Rightarrow> bool" where
  "reaping s \<longleftrightarrow> (\<forall>a p t names. ls_pc s a = BreakUnlink (Owner p t) names \<longrightarrow> p \<notin> ls_alive s)"

definition exclusive :: "lock_state \<Rightarrow> bool" where
  "exclusive s \<longleftrightarrow> (\<forall>a b. ls_pc s a = Holding \<longrightarrow> ls_pc s b = Holding \<longrightarrow> a = b)"

definition lock_inv :: "(attempt \<Rightarrow> int) \<Rightarrow> lock_state \<Rightarrow> bool" where
  "lock_inv pid s \<longleftrightarrow> marked pid s \<and> living pid s \<and> reaping s \<and> exclusive s"

lemma goto_simps [simp]:
  "ls_dir (goto a pc s) = ls_dir s" "ls_pc (goto a pc s) = (ls_pc s)(a := pc)"
  "ls_round (goto a pc s) = ls_round s" "ls_alive (goto a pc s) = ls_alive s"
  by (simp_all add: goto_def)

lemma unlink_simps [simp]:
  "ls_pc (unlink n s) = ls_pc s" "ls_round (unlink n s) = ls_round s" "ls_alive (unlink n s) = ls_alive s"
  by (simp_all add: unlink_def)

lemma removeEmptyLock_simps [simp]:
  "ls_pc (removeEmptyLock s) = ls_pc s" "ls_round (removeEmptyLock s) = ls_round s"
  "ls_alive (removeEmptyLock s) = ls_alive s"
  by (simp_all add: removeEmptyLock_def)

lemma not_crashed: "in_try pc \<Longrightarrow> pc \<noteq> Crashed" "in_break pc \<Longrightarrow> pc \<noteq> Crashed"
  by auto

lemma living_step: "lock_step pid s s' \<Longrightarrow> living pid s \<Longrightarrow> living pid s'"
  by (induction rule: lock_step.induct) (auto simp: living_def crash_def dest: not_crashed)

lemma reaping_step: "lock_step pid s s' \<Longrightarrow> reaping s \<Longrightarrow> reaping s'"
  by (induction rule: lock_step.induct) (auto simp: reaping_def crash_def split: if_splits)

text \<open>What happens to the markers of the others when one attempt moves.\<close>

lemma marked_goto:
  assumes "marked pid s" "ls_round s' = ls_round s" "ls_pc s' = ls_pc s" "\<not> visible pc"
    "\<And>b i names. b \<noteq> a \<Longrightarrow> visible (ls_pc s b) \<Longrightarrow> ls_dir s = Some (i, names) \<Longrightarrow> ownerName pid s b \<in> names \<Longrightarrow>
       \<exists>j names'. ls_dir s' = Some (j, names') \<and> ownerName pid s b \<in> names'"
  shows "marked pid (goto a pc s')"
  using assms unfolding marked_def ownerName_def by (auto split: if_splits)

lemma marked_unlink:
  assumes "marked pid s" "\<not> visible pc" "\<And>b. b \<noteq> a \<Longrightarrow> visible (ls_pc s b) \<Longrightarrow> ownerName pid s b \<noteq> name"
  shows "marked pid (goto a pc (unlink name s))"
  by (rule marked_goto [OF assms(1) _ _ assms(2)]) (use assms(3) in \<open>auto simp: unlink_def\<close>)

lemma marked_removeEmpty:
  "marked pid s \<Longrightarrow> \<not> visible pc \<Longrightarrow> marked pid (goto a pc (removeEmptyLock s))"
  by (rule marked_goto [of pid s]) (auto simp: removeEmptyLock_def)

lemma marked_same: "marked pid s \<Longrightarrow> \<not> visible pc \<Longrightarrow> marked pid (goto a pc s)"
  by (rule marked_goto [of pid s]) auto

lemma marked_advance: "marked pid s \<Longrightarrow> visible (ls_pc s a) \<Longrightarrow> marked pid (goto a pc s)"
  by (simp add: marked_def ownerName_def)

lemma marked_visible:
  "marked pid s \<Longrightarrow> visible (ls_pc s b) \<Longrightarrow> ls_dir s = Some (i, names) \<Longrightarrow> ownerName pid s b \<in> names"
  by (auto simp: marked_def)

lemma visible_alive: "living pid s \<Longrightarrow> visible (ls_pc s b) \<Longrightarrow> pid b \<in> ls_alive s"
  by (cases "ls_pc s b") (auto simp: living_def)

lemma owner_other: "b \<noteq> a \<Longrightarrow> ownerName pid s b \<noteq> ownerName pid s a"
  by (simp add: ownerName_def)

lemma marked_step:
  assumes "lock_step pid s s'" "lock_inv pid s"
  shows "marked pid s'"
  using assms
proof (induction rule: lock_step.induct)
  case (Mkdir s a i)
  then have "\<not> visible (ls_pc s b)" for b by (auto simp: lock_inv_def marked_def)
  then show ?case by (auto simp: marked_def)
next
  case (Publish s a i j names)
  then show ?case by (fastforce simp: lock_inv_def marked_def ownerName_def)
next
  case (Stat s a i j names)
  then show ?case by (intro marked_advance) (simp_all add: lock_inv_def)
next
  case (Acquire s a i j k names)
  then show ?case by (intro marked_advance) (simp_all add: lock_inv_def)
next
  case (BreakRemove s a name names)
  have "ownerName pid s b \<noteq> name" if "visible (ls_pc s b)" for b
  proof
    assume "ownerName pid s b = name"
    then have "pid b \<notin> ls_alive s"
      using BreakRemove unfolding lock_inv_def reaping_def ownerName_def by blast
    then show False using BreakRemove.prems visible_alive [of pid s b] that by (simp add: lock_inv_def)
  qed
  then show ?case using BreakRemove by (intro marked_unlink) (auto simp: lock_inv_def)
next
  case (Retry s a)
  then show ?case by (auto simp: lock_inv_def marked_def ownerName_def)
next
  case (Crash p s)
  then show ?case by (auto simp: lock_inv_def marked_def ownerName_def crash_def)
next
  case (CleanupUnlink s a throws)
  then show ?case by (intro marked_unlink) (simp_all add: lock_inv_def owner_other)
next
  case (ReleaseUnlink s a)
  then show ?case by (intro marked_unlink) (simp_all add: lock_inv_def owner_other)
qed (auto simp: lock_inv_def intro!: marked_same marked_removeEmpty)

lemma exclusive_step:
  assumes "lock_step pid s s'" "lock_inv pid s"
  shows "exclusive s'"
  using assms
proof (induction rule: lock_step.induct)
  case (Acquire s a i j k names)
  have "ls_pc s b \<noteq> Holding" for b
  proof
    assume "ls_pc s b = Holding"
    then have "ownerName pid s b \<in> names"
      using Acquire marked_visible [of pid s b k names] by (simp add: lock_inv_def)
    then have "b = a" using Acquire by (auto simp: ownerName_def)
    with \<open>ls_pc s b = Holding\<close> show False using Acquire by simp
  qed
  then show ?case by (auto simp: exclusive_def)
qed (auto simp: lock_inv_def exclusive_def crash_def)

lemma lock_inv_step: "lock_step pid s s' \<Longrightarrow> lock_inv pid s \<Longrightarrow> lock_inv pid s'"
  using marked_step living_step reaping_step exclusive_step by (auto simp: lock_inv_def)

lemma lock_inv_reachable: "lock_reachable pid s \<Longrightarrow> lock_inv pid s"
proof (induction rule: lock_reachable.induct)
  case (initial alive dir)
  then show ?case by (auto simp: lock_inv_def marked_def living_def reaping_def exclusive_def)
qed (rule lock_inv_step)

section \<open>The abstract lock\<close>

text \<open>What the lock promises: nobody or one attempt holds it, and it is taken only when nobody does.\<close>

inductive mutex_step :: "attempt set \<Rightarrow> attempt set \<Rightarrow> bool" where
  Stay: "mutex_step H H"
| Take: "mutex_step {} {a}"
| Drop: "mutex_step {a} {}"

definition holders :: "lock_state \<Rightarrow> attempt set" where
  "holders s = {a. ls_pc s a = Holding}"

lemma holders_cases: "exclusive s \<Longrightarrow> holders s = {} \<or> (\<exists>a. holders s = {a})"
  unfolding exclusive_def holders_def by blast

lemma holders_goto: "pc \<noteq> Holding \<Longrightarrow> ls_pc s' = ls_pc s \<Longrightarrow> ls_pc s a \<noteq> Holding \<Longrightarrow> holders (goto a pc s') = holders s"
  by (auto simp: holders_def)

lemma mutex_shrinks: "exclusive s \<Longrightarrow> H \<subseteq> holders s \<Longrightarrow> mutex_step (holders s) H"
  using holders_cases [of s] by (auto intro: mutex_step.intros dest!: subset_singletonD)

lemma mutex_grows:
  assumes "exclusive s'" "holders s' = insert a (holders s)" "a \<notin> holders s"
  shows "mutex_step (holders s) (holders s')"
proof -
  have "holders s = {}" using holders_cases [OF assms(1)] assms(2,3) by auto
  with assms(2) show ?thesis by (simp add: Take)
qed

text \<open>C2. The lock directory implements the abstract lock: from every reachable state, whatever the interleaving,
  the crashes and the failing calls, a step changes the set of holders as the abstract lock allows, and at most one
  attempt ever holds the lock.\<close>

theorem lock_refines_mutex:
  assumes "lock_reachable pid s" "lock_step pid s s'"
  shows "mutex_step (holders s) (holders s') \<and> (holders s' = {} \<or> (\<exists>a. holders s' = {a}))"
proof -
  have s: "exclusive s" and s': "exclusive s'"
    using lock_inv_reachable [OF assms(1)] lock_inv_step [OF assms(2)] by (auto simp: lock_inv_def)
  have "holders s' \<subseteq> holders s \<or> (\<exists>a. a \<notin> holders s \<and> holders s' = insert a (holders s))"
    using assms(2) by (induction rule: lock_step.induct) (auto simp: holders_def crash_def split: if_splits)
  with s s' show ?thesis using mutex_shrinks mutex_grows holders_cases [OF s'] by blast
qed

section \<open>Abandoned locks\<close>

lemma break_list:
  assumes "ls_pc s a = BreakList names" "ls_dir s = Some (i, N)" "N \<subseteq> set names"
    "\<forall>n \<in> set names. \<exists>p t. n = Owner p t \<and> p \<notin> ls_alive s"
  shows "\<exists>s'. (lock_step pid)\<^sup>*\<^sup>* s s' \<and> ls_dir s' = None \<and> ls_pc s' a = Waiting"
  using assms
proof (induction names arbitrary: s N)
  case Nil
  have "lock_step pid s (goto a Waiting (removeEmptyLock s))" using Nil by (intro BreakRmdir) simp
  moreover have "ls_dir (goto a Waiting (removeEmptyLock s)) = None" using Nil by (simp add: removeEmptyLock_def)
  ultimately show ?case by (intro exI [of _ "goto a Waiting (removeEmptyLock s)"]) auto
next
  case (Cons n names)
  then obtain p t where n: "n = Owner p t" "p \<notin> ls_alive s" by auto
  let ?s1 = "goto a (BreakUnlink n names) s"
  let ?s2 = "goto a (BreakList names) (unlink n ?s1)"
  have "lock_step pid s ?s1" unfolding n(1) by (rule BreakDead [OF _ n(2)]) (use Cons.prems(1) n in simp)
  moreover have "lock_step pid ?s1 ?s2" by (rule BreakRemove) simp
  moreover have "\<exists>s'. (lock_step pid)\<^sup>*\<^sup>* ?s2 s' \<and> ls_dir s' = None \<and> ls_pc s' a = Waiting"
    by (rule Cons.IH [of _ "N - {n}"]) (use Cons.prems in \<open>auto simp: unlink_def\<close>)
  ultimately show ?case by (meson converse_rtranclp_into_rtranclp)
qed

text \<open>C29. A lock directory that holds only markers of dead processes does not stay: an attempt that starts to
  reclaim it can remove it by its own steps.\<close>

theorem abandoned_lock_is_reclaimed:
  assumes "ls_pc s a = BreakStat" "ls_dir s = Some (i, set names)"
    "\<forall>n \<in> set names. \<exists>p t. n = Owner p t \<and> p \<notin> ls_alive s"
  shows "\<exists>s'. (lock_step pid)\<^sup>*\<^sup>* s s' \<and> ls_dir s' = None \<and> ls_pc s' a = Waiting"
proof -
  have "lock_step pid s (goto a (BreakList names) s)" using assms(1,2) by (rule BreakRead)
  moreover have "\<exists>s'. (lock_step pid)\<^sup>*\<^sup>* (goto a (BreakList names) s) s' \<and> ls_dir s' = None \<and> ls_pc s' a = Waiting"
    by (rule break_list) (use assms in auto)
  ultimately show ?thesis by (meson converse_rtranclp_into_rtranclp)
qed

section \<open>Concrete instances\<close>

definition sampleLock :: lock_state where
  "sampleLock = \<lparr>ls_dir = None, ls_pc = (\<lambda>_. Idle), ls_round = (\<lambda>_. 0), ls_alive = {1}\<rparr>"

text \<open>One attempt takes the free lock.\<close>

theorem lock_refines_mutex_witness:
  "\<exists>s'. lock_reachable (\<lambda>_. 1) s' \<and> mutex_step {} (holders s') \<and> holders s' = {0}"
proof -
  let ?p = "\<lambda>_ :: attempt. 1 :: int"
  let ?m = "Owner 1 (0, 0)"
  let ?s1 = "goto 0 Made (sampleLock\<lparr>ls_dir := Some (7, {})\<rparr>)"
  let ?s2 = "goto 0 (Opened 7) ?s1"
  let ?s3 = "goto 0 (Published 7) (?s2\<lparr>ls_dir := Some (7, insert (ownerName ?p ?s2 0) {})\<rparr>)"
  let ?s4 = "goto 0 (Stated 7 7) ?s3"
  let ?s5 = "goto 0 Holding ?s4"
  have "lock_reachable ?p sampleLock" unfolding sampleLock_def by (rule initial) simp
  moreover have "lock_step ?p sampleLock ?s1" by (rule Mkdir) (simp_all add: sampleLock_def)
  ultimately have "lock_reachable ?p ?s1" by (rule lock_reachable.step)
  moreover have "lock_step ?p ?s1 ?s2" by (rule Open) simp_all
  ultimately have "lock_reachable ?p ?s2" by (rule lock_reachable.step)
  moreover have "lock_step ?p ?s2 ?s3" by (rule Publish) simp_all
  ultimately have "lock_reachable ?p ?s3" by (rule lock_reachable.step)
  moreover have "lock_step ?p ?s3 ?s4" by (rule Stat) simp_all
  ultimately have r4: "lock_reachable ?p ?s4" by (rule lock_reachable.step)
  have st: "lock_step ?p ?s4 ?s5" by (rule Acquire [where i = 7 and j = 7]) (simp_all add: ownerName_def)
  have "holders ?s4 = {}" "holders ?s5 = {0}" by (auto simp: holders_def sampleLock_def)
  with lock_refines_mutex [OF r4 st] lock_reachable.step [OF r4 st] show ?thesis by (intro exI [of _ ?s5]) simp
qed

theorem abandoned_lock_is_reclaimed_witness:
  "\<exists>s'. (lock_step (\<lambda>_. 1))\<^sup>*\<^sup>* (goto 0 BreakStat (sampleLock\<lparr>ls_dir := Some (3, {Owner 9 (4, 0)})\<rparr>)) s' \<and>
     ls_dir s' = None \<and> ls_pc s' 0 = Waiting"
  by (rule abandoned_lock_is_reclaimed [where i = 3 and names = "[Owner 9 (4, 0)]"])
    (simp_all add: sampleLock_def)

end
