(* ===== verification/ToolSummaryState.thy ===== *)
theory ToolSummaryState
  imports SessionEntries
begin

text \<open>
  \<open>extensions/tool-summary/state.ts\<close>: the configuration and the outcomes that the tool-summary extension
  appends to a session, the checks on what it reads back, and the state that it restores from the entries of
  a session. Records stay JSON values. The product \<open>rawChars * (1 - 0.4)\<close> is the exact \<open>3/5\<close>: the rounded
  product of a safe integer compares to an integer in the same way.
\<close>

section \<open>Records\<close>

definition POLICY_VERSION :: string where "POLICY_VERSION = ''tool-summary-v2''"
definition DEFAULT_STANDARD_THRESHOLD :: rat where "DEFAULT_STANDARD_THRESHOLD = 16000"
definition DEFAULT_HIGH_FIDELITY_THRESHOLD :: rat where "DEFAULT_HIGH_FIDELITY_THRESHOLD = 24000"
definition LEGACY_DEFAULT_STANDARD_THRESHOLD :: rat where "LEGACY_DEFAULT_STANDARD_THRESHOLD = 8000"
definition LEGACY_DEFAULT_HIGH_FIDELITY_THRESHOLD :: rat where "LEGACY_DEFAULT_HIGH_FIDELITY_THRESHOLD = 16000"
definition SUMMARY_HARD_MAX_CHARS :: nat where "SUMMARY_HARD_MAX_CHARS = 4000"
definition DEFAULT_IMAGE_RETENTION :: rat where "DEFAULT_IMAGE_RETENTION = 4"
definition IMAGE_RETENTION_DISABLED :: int where "IMAGE_RETENTION_DISABLED = -1"
definition MAX_IMAGE_RETENTION :: int where "MAX_IMAGE_RETENTION = 64"

definition TOOL_SUMMARY_CONFIG_TYPE :: string where "TOOL_SUMMARY_CONFIG_TYPE = ''pi-tool-summary-config''"
definition TOOL_SUMMARY_EXPOSURE_TYPE :: string where "TOOL_SUMMARY_EXPOSURE_TYPE = ''pi-tool-summary-exposure''"
definition TOOL_SUMMARY_COMPLETE_TYPE :: string where "TOOL_SUMMARY_COMPLETE_TYPE = ''pi-tool-summary-complete''"
definition TOOL_SUMMARY_RETRY_TYPE :: string where "TOOL_SUMMARY_RETRY_TYPE = ''pi-tool-summary-retry''"
definition TOOL_SUMMARY_SKIP_TYPE :: string where "TOOL_SUMMARY_SKIP_TYPE = ''pi-tool-summary-skip''"

definition isValidImageRetention :: "jsval \<Rightarrow> bool" where
  "isValidImageRetention v \<longleftrightarrow> (case intNum v of
     None \<Rightarrow> False | Some i \<Rightarrow> IMAGE_RETENTION_DISABLED \<le> i \<and> i \<le> MAX_IMAGE_RETENTION)"

definition replacementIsWorthwhile :: "int \<Rightarrow> string \<Rightarrow> bool" where
  "replacementIsWorthwhile rawChars replacement \<longleftrightarrow>
     length replacement \<le> SUMMARY_HARD_MAX_CHARS \<and> 5 * int (length replacement) \<le> 3 * rawChars"

abbreviation isPositiveInteger :: "jsval \<Rightarrow> bool" where
  "isPositiveInteger v \<equiv> int_at_least 1 v"

definition num_le :: "jsval \<Rightarrow> jsval \<Rightarrow> bool" where
  "num_le a b \<longleftrightarrow> (case (finiteNum a, finiteNum b) of (Some x, Some y) \<Rightarrow> x \<le> y | _ \<Rightarrow> False)"

definition defaultToolSummaryConfig :: "rat \<Rightarrow> json" where
  "defaultToolSummaryConfig timestamp = obj [(''version'', Some (JNum (Fin 1))), (''mode'', Some (JStr ''on'')),
     (''standardThreshold'', Some (JNum (Fin DEFAULT_STANDARD_THRESHOLD))),
     (''highFidelityThreshold'', Some (JNum (Fin DEFAULT_HIGH_FIDELITY_THRESHOLD))),
     (''imageRetention'', Some (JNum (Fin DEFAULT_IMAGE_RETENTION))), (''epoch'', Some (JStr ''initial'')),
     (''updatedAt'', Some (JNum (Fin timestamp)))]"

definition isToolSummaryConfig :: "jsval \<Rightarrow> bool" where
  "isToolSummaryConfig v \<longleftrightarrow> jIs (get v ''version'') 1 \<and> status_in [''on'', ''pause'', ''off''] (get v ''mode'') \<and>
     isPositiveInteger (get v ''standardThreshold'') \<and> isPositiveInteger (get v ''highFidelityThreshold'') \<and>
     num_le (get v ''standardThreshold'') (get v ''highFidelityThreshold'') \<and>
     optional isValidImageRetention (get v ''imageRetention'') \<and> nonempty_str (get v ''epoch'') \<and>
     is_finite (get v ''updatedAt'')"

text \<open>\<open>/^[a-f0-9]{64}$/.test(rawHash)\<close> converts its argument: an array of one element becomes that element.\<close>

fun testsAsHash :: "json \<Rightarrow> bool" where
  "testsAsHash (JStr s) \<longleftrightarrow> length s = 64 \<and> list_all is_lower_hex s"
| "testsAsHash (JArr [x]) \<longleftrightarrow> testsAsHash x"
| "testsAsHash _ \<longleftrightarrow> False"

definition isHash :: "jsval \<Rightarrow> bool" where
  "isHash v \<longleftrightarrow> (case v of None \<Rightarrow> False | Some x \<Rightarrow> testsAsHash x)"

text \<open>The fields that all four kinds of records share.\<close>

definition sharedFields :: "jsval \<Rightarrow> bool" where
  "sharedFields v \<longleftrightarrow> jIs (get v ''version'') 1 \<and> is_str (get v ''epoch'') \<and> is_str (get v ''key'') \<and>
     is_str (get v ''toolCallId'') \<and> is_str (get v ''toolName'') \<and> isHash (get v ''rawHash'') \<and>
     jIsStr (get v ''policyVersion'') POLICY_VERSION"

definition isExposureRecord :: "jsval \<Rightarrow> bool" where
  "isExposureRecord v \<longleftrightarrow> sharedFields v \<and> is_finite (get v ''exposedAt'')"

definition isReplacement :: "jsval \<Rightarrow> bool" where
  "isReplacement v \<longleftrightarrow> (case asStr (get v ''replacement'') of
     None \<Rightarrow> False
   | Some r \<Rightarrow> 0 < length r \<and> length r \<le> SUMMARY_HARD_MAX_CHARS \<and>
       (case intNum (get v ''rawChars'') of None \<Rightarrow> False | Some n \<Rightarrow> replacementIsWorthwhile n r))"

text \<open>
  A \<open>null\<close> model is not \<open>undefined\<close>, so reading its \<open>provider\<close> throws: \<open>None\<close>.
\<close>

definition isCompletedSummaryRecord :: "jsval \<Rightarrow> bool option" where
  "isCompletedSummaryRecord v =
     (if sharedFields v \<and> isPositiveInteger (get v ''rawChars'') \<and> isPositiveInteger (get v ''rawLines'') \<and>
         isReplacement v \<and> status_in [''model'', ''deterministic''] (get v ''source'') \<and> is_finite (get v ''createdAt'')
      then (case get v ''model'' of
              None \<Rightarrow> Some True
            | Some JNull \<Rightarrow> None
            | Some m \<Rightarrow> Some (is_str (get (Some m) ''provider'') \<and> is_str (get (Some m) ''id'')))
      else Some False)"

definition isSummaryRetryRecord :: "jsval \<Rightarrow> bool" where
  "isSummaryRetryRecord v \<longleftrightarrow> sharedFields v \<and> isPositiveInteger (get v ''attempt'') \<and> is_finite (get v ''failedAt'') \<and>
     is_finite (get v ''retryAfter'') \<and> num_le (get v ''failedAt'') (get v ''retryAfter'')"

definition isSkippedSummaryRecord :: "jsval \<Rightarrow> bool" where
  "isSkippedSummaryRecord v \<longleftrightarrow> sharedFields v \<and> isPositiveInteger (get v ''rawChars'') \<and>
     status_in [''not-worthwhile'', ''required-evidence-overflow''] (get v ''reason'') \<and> is_finite (get v ''createdAt'')"

section \<open>Restoring the state\<close>

record tool_summary_state =
  ts_config :: json
  ts_exposures :: "string \<Rightarrow> json option"
  ts_summaries :: "string \<Rightarrow> json option"
  ts_retries :: "string \<Rightarrow> json option"
  ts_skips :: "string \<Rightarrow> json option"

definition storedConfig :: "json \<Rightarrow> json" where
  "storedConfig data = spread data [(''imageRetention'',
     if isValidImageRetention (get (Some data) ''imageRetention'') then get (Some data) ''imageRetention''
     else Some (JNum (Fin DEFAULT_IMAGE_RETENTION)))]"

fun configFrom :: "json \<Rightarrow> entry list \<Rightarrow> json" where
  "configFrom config [] = config"
| "configFrom config (e # es) =
     configFrom (if is_custom TOOL_SUMMARY_CONFIG_TYPE e \<and> isToolSummaryConfig (en_data e)
                 then (case en_data e of None \<Rightarrow> config | Some data \<Rightarrow> storedConfig data) else config) es"

definition migratedConfig :: "json \<Rightarrow> json" where
  "migratedConfig config =
     (if jIs (get (Some config) ''standardThreshold'') LEGACY_DEFAULT_STANDARD_THRESHOLD \<and>
         jIs (get (Some config) ''highFidelityThreshold'') LEGACY_DEFAULT_HIGH_FIDELITY_THRESHOLD
      then spread config [(''standardThreshold'', Some (JNum (Fin DEFAULT_STANDARD_THRESHOLD))),
             (''highFidelityThreshold'', Some (JNum (Fin DEFAULT_HIGH_FIDELITY_THRESHOLD)))]
      else config)"

definition restoreConfig :: "entry list \<Rightarrow> json" where
  "restoreConfig entries = migratedConfig (configFrom (defaultToolSummaryConfig 0) entries)"

definition recordKey :: "jsval \<Rightarrow> string" where
  "recordKey v = (case asStr (get v ''key'') of None \<Rightarrow> [] | Some k \<Rightarrow> k)"

definition in_epoch :: "tool_summary_state \<Rightarrow> jsval \<Rightarrow> bool" where
  "in_epoch st v \<longleftrightarrow> get v ''epoch'' = get (Some (ts_config st)) ''epoch''"

definition undecided :: "tool_summary_state \<Rightarrow> string \<Rightarrow> bool" where
  "undecided st k \<longleftrightarrow> ts_summaries st k = None \<and> ts_skips st k = None"

text \<open>\<open>{ ...data, model: data.model ? { ...data.model } : undefined }\<close>\<close>

definition storedSummary :: "json \<Rightarrow> json" where
  "storedSummary data = spread data [(''model'', get (Some data) ''model'')]"

text \<open>\<open>!previous || data.failedAt >= previous.failedAt\<close>\<close>

definition supersedes :: "json option \<Rightarrow> json \<Rightarrow> bool" where
  "supersedes previous data \<longleftrightarrow>
     (case previous of None \<Rightarrow> True | Some p \<Rightarrow> num_le (get (Some p) ''failedAt'') (get (Some data) ''failedAt''))"

text \<open>The four kinds of entries.\<close>

definition restoreExposure :: "json \<Rightarrow> tool_summary_state \<Rightarrow> tool_summary_state" where
  "restoreExposure data st =
     (let k = recordKey (Some data) in
      if isExposureRecord (Some data) \<and> in_epoch st (Some data) \<and> ts_exposures st k = None
      then st\<lparr>ts_exposures := (ts_exposures st)(k \<mapsto> data)\<rparr> else st)"

definition restoreCompleted :: "json \<Rightarrow> tool_summary_state \<Rightarrow> tool_summary_state" where
  "restoreCompleted data st =
     (let k = recordKey (Some data) in
      if isCompletedSummaryRecord (Some data) = Some True \<and> in_epoch st (Some data) \<and> undecided st k
      then st\<lparr>ts_summaries := (ts_summaries st)(k \<mapsto> storedSummary data), ts_retries := (ts_retries st)(k := None)\<rparr>
      else st)"

definition restoreRetry :: "json \<Rightarrow> tool_summary_state \<Rightarrow> tool_summary_state" where
  "restoreRetry data st =
     (let k = recordKey (Some data) in
      if isSummaryRetryRecord (Some data) \<and> in_epoch st (Some data) \<and> undecided st k \<and> supersedes (ts_retries st k) data
      then st\<lparr>ts_retries := (ts_retries st)(k \<mapsto> data)\<rparr> else st)"

definition restoreSkip :: "json \<Rightarrow> tool_summary_state \<Rightarrow> tool_summary_state" where
  "restoreSkip data st =
     (let k = recordKey (Some data) in
      if isSkippedSummaryRecord (Some data) \<and> in_epoch st (Some data) \<and> undecided st k
      then st\<lparr>ts_skips := (ts_skips st)(k \<mapsto> data), ts_retries := (ts_retries st)(k := None)\<rparr> else st)"

text \<open>One turn of the second loop; \<open>None\<close> is an exception.\<close>

definition restoreEntry :: "entry \<Rightarrow> tool_summary_state \<Rightarrow> tool_summary_state option" where
  "restoreEntry e st =
     (case en_data e of
        None \<Rightarrow> Some st
      | Some data \<Rightarrow>
          if is_custom TOOL_SUMMARY_EXPOSURE_TYPE e then Some (restoreExposure data st)
          else if is_custom TOOL_SUMMARY_COMPLETE_TYPE e
          then (if isCompletedSummaryRecord (Some data) = None then None else Some (restoreCompleted data st))
          else if is_custom TOOL_SUMMARY_RETRY_TYPE e then Some (restoreRetry data st)
          else if is_custom TOOL_SUMMARY_SKIP_TYPE e then Some (restoreSkip data st)
          else Some st)"

fun restoreEntries :: "entry list \<Rightarrow> tool_summary_state \<Rightarrow> tool_summary_state option" where
  "restoreEntries [] st = Some st"
| "restoreEntries (e # es) st = (case restoreEntry e st of None \<Rightarrow> None | Some st' \<Rightarrow> restoreEntries es st')"

definition emptySummaryState :: "json \<Rightarrow> tool_summary_state" where
  "emptySummaryState config = \<lparr>ts_config = config, ts_exposures = (\<lambda>_. None), ts_summaries = (\<lambda>_. None),
     ts_retries = (\<lambda>_. None), ts_skips = (\<lambda>_. None)\<rparr>"

definition restoreToolSummaryState :: "entry list \<Rightarrow> tool_summary_state option" where
  "restoreToolSummaryState entries = restoreEntries entries (emptySummaryState (restoreConfig entries))"

section \<open>Making records\<close>

record summary_input =
  si_key :: string
  si_toolCallId :: string
  si_toolName :: string
  si_rawHash :: string

definition sharedRecord :: "json \<Rightarrow> summary_input \<Rightarrow> (string \<times> jsval) list" where
  "sharedRecord config input = [(''version'', Some (JNum (Fin 1))), (''epoch'', get (Some config) ''epoch''),
     (''key'', Some (JStr (si_key input))), (''toolCallId'', Some (JStr (si_toolCallId input))),
     (''toolName'', Some (JStr (si_toolName input))), (''rawHash'', Some (JStr (si_rawHash input)))]"

abbreviation jintv :: "int \<Rightarrow> jsval" where
  "jintv n \<equiv> Some (JNum (Fin (of_int n)))"

definition makeExposureRecord :: "json \<Rightarrow> summary_input \<Rightarrow> int \<Rightarrow> json" where
  "makeExposureRecord config input timestamp = obj (sharedRecord config input @
     [(''policyVersion'', Some (JStr POLICY_VERSION)), (''exposedAt'', jintv timestamp)])"

definition makeCompletedSummaryRecord ::
  "json \<Rightarrow> summary_input \<Rightarrow> int \<Rightarrow> int \<Rightarrow> string \<Rightarrow> string \<Rightarrow> (string \<times> string) option \<Rightarrow> int \<Rightarrow> json" where
  "makeCompletedSummaryRecord config input rawChars rawLines replacement source model timestamp =
     obj (sharedRecord config input @
       [(''rawChars'', jintv rawChars), (''rawLines'', jintv rawLines), (''replacement'', Some (JStr replacement)),
        (''source'', Some (JStr source)),
        (''model'', map_option (\<lambda>(provider, i). obj [(''provider'', Some (JStr provider)), (''id'', Some (JStr i))]) model),
        (''policyVersion'', Some (JStr POLICY_VERSION)), (''createdAt'', jintv timestamp)])"

definition makeSummaryRetryRecord :: "json \<Rightarrow> summary_input \<Rightarrow> int \<Rightarrow> int \<Rightarrow> int \<Rightarrow> json" where
  "makeSummaryRetryRecord config input attempt retryAfter timestamp = obj (sharedRecord config input @
     [(''policyVersion'', Some (JStr POLICY_VERSION)), (''attempt'', jintv attempt), (''failedAt'', jintv timestamp),
      (''retryAfter'', jintv retryAfter)])"

definition makeSkippedSummaryRecord :: "json \<Rightarrow> summary_input \<Rightarrow> int \<Rightarrow> string option \<Rightarrow> int \<Rightarrow> json" where
  "makeSkippedSummaryRecord config input rawChars reason timestamp = obj (sharedRecord config input @
     [(''rawChars'', jintv rawChars), (''policyVersion'', Some (JStr POLICY_VERSION)),
      (''reason'', Some (JStr (case reason of None \<Rightarrow> ''not-worthwhile'' | Some r \<Rightarrow> r))), (''createdAt'', jintv timestamp)])"

definition updatedConfig :: "json \<Rightarrow> (string \<times> jsval) list \<Rightarrow> int \<Rightarrow> json" where
  "updatedConfig config patch timestamp =
     spread config (patch @ [(''version'', Some (JNum (Fin 1))), (''updatedAt'', jintv timestamp)])"

text \<open>What the summaries save, given their \<open>rawChars\<close> and the lengths of their replacements.\<close>

definition estimatedContextSavings :: "(int \<times> nat) list \<Rightarrow> nat \<times> int \<times> int \<times> int" where
  "estimatedContextSavings summaries =
     (let rawChars = sum_list (map fst summaries); replacementChars = sum_list (map (int \<circ> snd) summaries)
      in (length summaries, rawChars, replacementChars, max 0 (rawChars - replacementChars)))"


section \<open>The configuration\<close>

lemma storedConfig_valid:
  assumes "isToolSummaryConfig (Some data)"
  shows "isToolSummaryConfig (Some (storedConfig data))"
proof -
  have "isRecord (Some data)" using assms by (cases data) (auto simp: isToolSummaryConfig_def)
  then have g: "get (Some (storedConfig data)) k = (if k = ''imageRetention''
      then (if isValidImageRetention (get (Some data) ''imageRetention'') then get (Some data) ''imageRetention''
            else Some (JNum (Fin DEFAULT_IMAGE_RETENTION))) else get (Some data) k)" for k
    by (simp add: storedConfig_def get_spread)
  have "isValidImageRetention (Some (JNum (Fin DEFAULT_IMAGE_RETENTION)))"
    by (simp add: isValidImageRetention_def DEFAULT_IMAGE_RETENTION_def IMAGE_RETENTION_DISABLED_def MAX_IMAGE_RETENTION_def)
  then show ?thesis using assms by (simp add: isToolSummaryConfig_def g optional_def)
qed

lemma defaultConfig_valid: "isToolSummaryConfig (Some (defaultToolSummaryConfig t))"
  by (simp add: isToolSummaryConfig_def defaultToolSummaryConfig_def get_obj_Cons get_obj_Nil status_in_def
      int_at_least_def num_le_def optional_def isValidImageRetention_def nonempty_str_def is_finite_def
      DEFAULT_STANDARD_THRESHOLD_def DEFAULT_HIGH_FIDELITY_THRESHOLD_def DEFAULT_IMAGE_RETENTION_def
      IMAGE_RETENTION_DISABLED_def MAX_IMAGE_RETENTION_def)

lemma configFrom_valid: "isToolSummaryConfig (Some c) \<Longrightarrow> isToolSummaryConfig (Some (configFrom c es))"
  by (induction es arbitrary: c) (auto simp: storedConfig_valid split: option.splits)

lemma migratedConfig_valid:
  assumes "isToolSummaryConfig (Some c)"
  shows "isToolSummaryConfig (Some (migratedConfig c))"
proof -
  have "isRecord (Some c)" using assms by (cases c) (auto simp: isToolSummaryConfig_def)
  with assms show ?thesis
    by (simp add: migratedConfig_def isToolSummaryConfig_def get_spread int_at_least_def num_le_def
        DEFAULT_STANDARD_THRESHOLD_def DEFAULT_HIGH_FIDELITY_THRESHOLD_def)
qed

lemma restoreConfig_valid: "isToolSummaryConfig (Some (restoreConfig es))"
  unfolding restoreConfig_def by (intro migratedConfig_valid configFrom_valid defaultConfig_valid)

section \<open>The outcomes\<close>

definition outcomes_ok :: "tool_summary_state \<Rightarrow> bool" where
  "outcomes_ok st \<longleftrightarrow>
     (\<forall>k. (ts_summaries st k = None \<or> ts_skips st k = None) \<and> (ts_retries st k = None \<or> undecided st k) \<and>
       (\<forall>d. ts_summaries st k = Some d \<longrightarrow> isCompletedSummaryRecord (Some d) = Some True \<and>
          in_epoch st (Some d) \<and> recordKey (Some d) = k))"

lemma get_storedSummary:
  assumes "isCompletedSummaryRecord (Some data) = Some True"
  shows "get (Some (storedSummary data)) k = get (Some data) k"
proof -
  have "isRecord (Some data)"
    using assms by (cases data) (auto simp: isCompletedSummaryRecord_def sharedFields_def split: if_splits)
  then show ?thesis by (simp add: storedSummary_def get_spread)
qed

lemma storedSummary_ok:
  assumes "isCompletedSummaryRecord (Some data) = Some True"
  shows "isCompletedSummaryRecord (Some (storedSummary data)) = Some True"
    "in_epoch st (Some (storedSummary data)) = in_epoch st (Some data)"
    "recordKey (Some (storedSummary data)) = recordKey (Some data)"
  using assms
  by (simp_all only: isCompletedSummaryRecord_def sharedFields_def isReplacement_def in_epoch_def recordKey_def
      get_storedSummary [OF assms])

lemma restoreEntry_cases:
  "restoreEntry e st = Some st' \<Longrightarrow>
     st' = st \<or> (\<exists>d. st' = restoreExposure d st) \<or> (\<exists>d. st' = restoreCompleted d st) \<or>
     (\<exists>d. st' = restoreRetry d st) \<or> (\<exists>d. st' = restoreSkip d st)"
  unfolding restoreEntry_def by (cases "en_data e") (auto split: if_splits)

lemma restoreCompleted_ok:
  assumes "outcomes_ok st"
  shows "outcomes_ok (restoreCompleted d st)"
proof (cases "isCompletedSummaryRecord (Some d) = Some True \<and> in_epoch st (Some d) \<and> undecided st (recordKey (Some d))")
  case True
  then show ?thesis
    using assms storedSummary_ok [of d]
    by (simp add: outcomes_ok_def undecided_def in_epoch_def restoreCompleted_def Let_def)
qed (use assms in \<open>auto simp: restoreCompleted_def Let_def\<close>)

lemma restore_kinds_ok:
  assumes "outcomes_ok st"
  shows "outcomes_ok (restoreExposure d st)" "outcomes_ok (restoreRetry d st)" "outcomes_ok (restoreSkip d st)"
  using assms
  by (simp_all add: outcomes_ok_def undecided_def in_epoch_def restoreExposure_def restoreRetry_def restoreSkip_def Let_def)

lemma restore_kinds_config:
  "ts_config (restoreExposure d st) = ts_config st" "ts_config (restoreCompleted d st) = ts_config st"
  "ts_config (restoreRetry d st) = ts_config st" "ts_config (restoreSkip d st) = ts_config st"
  by (simp_all add: restoreExposure_def restoreCompleted_def restoreRetry_def restoreSkip_def Let_def)

definition extends :: "tool_summary_state \<Rightarrow> tool_summary_state \<Rightarrow> bool" where
  "extends st st' \<longleftrightarrow> ts_summaries st \<subseteq>\<^sub>m ts_summaries st' \<and> ts_skips st \<subseteq>\<^sub>m ts_skips st' \<and>
     ts_exposures st \<subseteq>\<^sub>m ts_exposures st'"

lemma extends_trans: "extends a b \<Longrightarrow> extends b c \<Longrightarrow> extends a c"
  unfolding extends_def using map_le_trans by blast

lemma map_le_fresh: "m k = None \<Longrightarrow> m \<subseteq>\<^sub>m m(k \<mapsto> v)"
  by (auto simp: map_le_def dom_def)

lemma restore_kinds_extend:
  "extends st (restoreExposure d st)" "extends st (restoreCompleted d st)"
  "extends st (restoreRetry d st)" "extends st (restoreSkip d st)"
  by (simp_all add: extends_def restoreExposure_def restoreCompleted_def restoreRetry_def restoreSkip_def Let_def
      undecided_def map_le_fresh)

lemma restoreEntry_step:
  assumes "restoreEntry e st = Some st'"
  shows "ts_config st' = ts_config st" "extends st st'" "outcomes_ok st \<Longrightarrow> outcomes_ok st'"
proof -
  have "extends st st" by (simp add: extends_def)
  then show "ts_config st' = ts_config st" "extends st st'" "outcomes_ok st \<Longrightarrow> outcomes_ok st'"
    using restoreEntry_cases [OF assms] restore_kinds_config restore_kinds_extend restore_kinds_ok restoreCompleted_ok
    by metis+
qed

lemma restoreEntries_steps:
  "restoreEntries es st = Some st' \<Longrightarrow> outcomes_ok st \<Longrightarrow>
     outcomes_ok st' \<and> ts_config st' = ts_config st \<and> extends st st'"
proof (induction es arbitrary: st)
  case (Cons e es)
  then obtain s1 where s1: "restoreEntry e st = Some s1" "restoreEntries es s1 = Some st'"
    by (auto split: option.splits)
  show ?case
    using restoreEntry_step [OF s1(1)] Cons.IH [OF s1(2)] Cons.prems(2) extends_trans by metis
qed (simp add: extends_def)

lemma restoreEntries_append:
  "restoreEntries (es @ fs) st = (case restoreEntries es st of None \<Rightarrow> None | Some st' \<Rightarrow> restoreEntries fs st')"
  by (induction es arbitrary: st) (auto split: option.splits)

lemma emptySummaryState_ok: "outcomes_ok (emptySummaryState c)"
  by (simp add: outcomes_ok_def emptySummaryState_def undecided_def)

lemma restore_ok: "restoreToolSummaryState es = Some st \<Longrightarrow> outcomes_ok st \<and> ts_config st = restoreConfig es"
  using restoreEntries_steps [of es "emptySummaryState (restoreConfig es)" st] emptySummaryState_ok [of "restoreConfig es"]
  by (simp add: restoreToolSummaryState_def) (simp add: emptySummaryState_def)


section \<open>Properties\<close>

text \<open>Whatever the entries of a session, the restored configuration is valid, a result has at most one terminal
  outcome, a pending retry belongs to a result without one, and every restored summary is a valid record of
  the current epoch that is stored under its own key.\<close>

theorem restored_outcomes_are_exclusive:
  assumes "restoreToolSummaryState es = Some st"
  shows "isToolSummaryConfig (Some (ts_config st)) \<and> (ts_summaries st k = None \<or> ts_skips st k = None) \<and>
    (ts_retries st k = None \<or> undecided st k) \<and>
    (case ts_summaries st k of
       None \<Rightarrow> True
     | Some d \<Rightarrow> isCompletedSummaryRecord (Some d) = Some True \<and> in_epoch st (Some d) \<and> recordKey (Some d) = k)"
proof -
  have "outcomes_ok st" "ts_config st = restoreConfig es" using restore_ok [OF assms] by auto
  then show ?thesis
    using restoreConfig_valid by (auto simp: outcomes_ok_def split: option.split)
qed

text \<open>Terminal outcomes and exposures are frozen: while the configuration stays, entries that are appended to
  the session never change or remove one that was restored before them.\<close>

theorem outcomes_are_frozen:
  assumes "restoreToolSummaryState es = Some st" "restoreToolSummaryState (es @ fs) = Some st'"
    "restoreConfig (es @ fs) = restoreConfig es"
  shows "ts_summaries st \<subseteq>\<^sub>m ts_summaries st' \<and> ts_skips st \<subseteq>\<^sub>m ts_skips st' \<and> ts_exposures st \<subseteq>\<^sub>m ts_exposures st'"
proof -
  have "restoreEntries fs st = Some st'"
    using assms by (simp add: restoreToolSummaryState_def restoreEntries_append)
  moreover have "outcomes_ok st" using restore_ok [OF assms(1)] by simp
  ultimately show ?thesis using restoreEntries_steps extends_def by blast
qed

lemma get_makeCompleted:
  "get (Some (makeCompletedSummaryRecord c i n l r s m t)) ''version'' = Some (JNum (Fin 1))"
  "get (Some (makeCompletedSummaryRecord c i n l r s m t)) ''epoch'' = get (Some c) ''epoch''"
  "get (Some (makeCompletedSummaryRecord c i n l r s m t)) ''key'' = Some (JStr (si_key i))"
  "get (Some (makeCompletedSummaryRecord c i n l r s m t)) ''toolCallId'' = Some (JStr (si_toolCallId i))"
  "get (Some (makeCompletedSummaryRecord c i n l r s m t)) ''toolName'' = Some (JStr (si_toolName i))"
  "get (Some (makeCompletedSummaryRecord c i n l r s m t)) ''rawHash'' = Some (JStr (si_rawHash i))"
  "get (Some (makeCompletedSummaryRecord c i n l r s m t)) ''rawChars'' = jintv n"
  "get (Some (makeCompletedSummaryRecord c i n l r s m t)) ''rawLines'' = jintv l"
  "get (Some (makeCompletedSummaryRecord c i n l r s m t)) ''replacement'' = Some (JStr r)"
  "get (Some (makeCompletedSummaryRecord c i n l r s m t)) ''source'' = Some (JStr s)"
  "get (Some (makeCompletedSummaryRecord c i n l r s m t)) ''model'' =
     map_option (\<lambda>(p, j). obj [(''provider'', Some (JStr p)), (''id'', Some (JStr j))]) m"
  "get (Some (makeCompletedSummaryRecord c i n l r s m t)) ''policyVersion'' = Some (JStr POLICY_VERSION)"
  "get (Some (makeCompletedSummaryRecord c i n l r s m t)) ''createdAt'' = jintv t"
  by (simp_all add: makeCompletedSummaryRecord_def sharedRecord_def get_obj lookup_field_def)

lemma makeCompleted_valid:
  assumes "length (si_rawHash i) = 64" "list_all is_lower_hex (si_rawHash i)" "0 < n" "0 < l" "r \<noteq> []"
    "replacementIsWorthwhile n r" "s = ''model'' \<or> s = ''deterministic''" "is_str (get (Some c) ''epoch'')"
  shows "isCompletedSummaryRecord (Some (makeCompletedSummaryRecord c i n l r s m t)) = Some True"
proof -
  let ?d = "Some (makeCompletedSummaryRecord c i n l r s m t)"
  have "sharedFields ?d" using assms by (simp add: sharedFields_def get_makeCompleted is_str_def isHash_def)
  moreover have "isReplacement ?d"
    using assms by (simp add: isReplacement_def get_makeCompleted replacementIsWorthwhile_def)
  moreover have "isPositiveInteger (get ?d ''rawChars'')" "isPositiveInteger (get ?d ''rawLines'')"
    "status_in [''model'', ''deterministic''] (get ?d ''source'')" "is_finite (get ?d ''createdAt'')"
    using assms by (auto simp: get_makeCompleted int_at_least_def status_in_def is_finite_def)
  moreover have "(case get ?d ''model'' of None \<Rightarrow> Some True | Some JNull \<Rightarrow> None
      | Some m \<Rightarrow> Some (is_str (get (Some m) ''provider'') \<and> is_str (get (Some m) ''id''))) = Some True"
    by (cases m) (auto simp: get_makeCompleted obj_def List.map_filter_simps is_str_def)
  ultimately show ?thesis unfolding isCompletedSummaryRecord_def by simp
qed

text \<open>C19. A summary that the extension records for a result without a terminal outcome is restored with exactly the
  fields that were recorded, and ends the retries of that result.\<close>

theorem recorded_summary_is_restored:
  assumes "restoreToolSummaryState es = Some st" "undecided st (si_key i)"
    "length (si_rawHash i) = 64" "list_all is_lower_hex (si_rawHash i)" "0 < n" "0 < l" "r \<noteq> []"
    "replacementIsWorthwhile n r" "s = ''model'' \<or> s = ''deterministic''"
    "restored = restoreToolSummaryState
       (es @ [customEntry TOOL_SUMMARY_COMPLETE_TYPE (Some (makeCompletedSummaryRecord (ts_config st) i n l r s m t))])"
  shows "\<exists>st' d. restored = Some st' \<and> ts_summaries st' (si_key i) = Some d \<and> ts_retries st' (si_key i) = None \<and>
    get (Some d) field = get (Some (makeCompletedSummaryRecord (ts_config st) i n l r s m t)) field"
proof -
  let ?d = "makeCompletedSummaryRecord (ts_config st) i n l r s m t"
  let ?e = "customEntry TOOL_SUMMARY_COMPLETE_TYPE (Some ?d)"
  have c: "ts_config st = restoreConfig es" using restore_ok [OF assms(1)] by simp
  have "isToolSummaryConfig (Some (ts_config st))" using restoreConfig_valid by (simp add: c)
  then have "is_str (get (Some (ts_config st)) ''epoch'')"
    by (auto simp: isToolSummaryConfig_def nonempty_str_def is_str_def split: option.splits)
  then have valid: "isCompletedSummaryRecord (Some ?d) = Some True" using assms by (intro makeCompleted_valid)
  have k: "recordKey (Some ?d) = si_key i" by (simp add: recordKey_def get_makeCompleted)
  have "in_epoch st (Some ?d)" by (simp add: in_epoch_def get_makeCompleted)
  then have "restoreEntry ?e st = Some (st\<lparr>ts_summaries := (ts_summaries st)(si_key i \<mapsto> storedSummary ?d),
      ts_retries := (ts_retries st)(si_key i := None)\<rparr>)"
    using valid assms(2) k
    by (simp add: restoreEntry_def restoreCompleted_def TOOL_SUMMARY_COMPLETE_TYPE_def TOOL_SUMMARY_EXPOSURE_TYPE_def Let_def)
  moreover have "restoreConfig (es @ [?e]) = restoreConfig es"
  proof -
    have "configFrom c0 (es @ [?e]) = configFrom c0 es" for c0
      by (induction es arbitrary: c0) (simp_all add: TOOL_SUMMARY_COMPLETE_TYPE_def TOOL_SUMMARY_CONFIG_TYPE_def)
    then show ?thesis by (simp add: restoreConfig_def)
  qed
  ultimately have "restored = Some (st\<lparr>ts_summaries := (ts_summaries st)(si_key i \<mapsto> storedSummary ?d),
      ts_retries := (ts_retries st)(si_key i := None)\<rparr>)"
    using assms(1,10) by (simp add: restoreToolSummaryState_def restoreEntries_append)
  then show ?thesis using get_storedSummary [OF valid, of field] by simp
qed

section \<open>Concrete instances\<close>

definition sampleInput :: summary_input where
  "sampleInput = \<lparr>si_key = ''k'', si_toolCallId = ''c'', si_toolName = ''bash'', si_rawHash = replicate 64 CHR ''a''\<rparr>"

lemma restore_nothing: "restoreToolSummaryState [] = Some (emptySummaryState (restoreConfig []))"
  by (simp add: restoreToolSummaryState_def)

theorem recorded_summary_is_restored_witness:
  "\<exists>st' d. restoreToolSummaryState ([] @ [customEntry TOOL_SUMMARY_COMPLETE_TYPE
      (Some (makeCompletedSummaryRecord (ts_config (emptySummaryState (restoreConfig []))) sampleInput 100 3 ''short'' ''model'' None 9))]) =
        Some st' \<and> ts_summaries st' (si_key sampleInput) = Some d \<and> ts_retries st' (si_key sampleInput) = None \<and>
     get (Some d) ''replacement'' = get (Some (makeCompletedSummaryRecord (ts_config (emptySummaryState (restoreConfig [])))
        sampleInput 100 3 ''short'' ''model'' None 9)) ''replacement''"
  by (rule recorded_summary_is_restored [OF restore_nothing])
    (simp_all add: emptySummaryState_def undecided_def sampleInput_def is_lower_hex_def list_all_iff replacementIsWorthwhile_def
      SUMMARY_HARD_MAX_CHARS_def)

theorem restored_outcomes_are_exclusive_witness:
  "isToolSummaryConfig (Some (ts_config (emptySummaryState (restoreConfig []))))"
  using restored_outcomes_are_exclusive [OF restore_nothing, of "''k''"] by simp

theorem outcomes_are_frozen_witness:
  "ts_summaries (emptySummaryState (restoreConfig [])) \<subseteq>\<^sub>m ts_summaries (emptySummaryState (restoreConfig []))"
  using outcomes_are_frozen [of "[]" "emptySummaryState (restoreConfig [])" "[]" "emptySummaryState (restoreConfig [])"] restore_nothing
  by simp

end
