(* ===== verification/JobStore.thy ===== *)
theory JobStore
  imports SessionEntries "HOL-Library.Multiset"
begin

text \<open>
  \<open>extensions/_shared/job-store.ts\<close>: the file of background jobs that all sessions on a host share. Every
  mutation runs under the interprocess lock: it prunes the store, changes it and raises its revision. A job
  keeps the fields that the code checks typed and those that it copies as values; \<open>upsertStoredJob\<close> is only
  called with records that set every field, so a merge replaces all of them. \<open>Date.parse\<close>, \<open>toISOString\<close>,
  the collation of \<open>localeCompare\<close> and the process table are the environment.
\<close>

section \<open>Jobs\<close>

datatype job_status = Running | AwaitingAnswer | Canceling | Completed | JobFailed | Canceled

record job_question =
  q_id :: string
  q_exchange :: int
  q_text :: string
  q_askedAt :: string

record job_owner =
  o_id :: string
  o_pid :: int
  o_startedAt :: string
  o_heartbeatAt :: string
  o_leaseExpiresAt :: string

record job =
  j_id :: string
  j_status :: job_status
  j_mode :: jsval
  j_label :: "string option"
  j_startedAt :: jsval
  j_updatedAt :: jsval
  j_cwd :: jsval
  j_notifiedAt :: jsval
  j_result :: jsval
  j_error :: "string option"
  j_owner :: "job_owner option"
  j_cancelRequestedAt :: jsval
  j_cancelRequestedBy :: jsval
  j_interactive :: bool
  j_maxExchanges :: "int option"
  j_question :: "job_question option"
  j_lastAnsweredQuestionId :: "string option"
  j_stateRevision :: int

record job_store =
  st_revision :: int
  st_updatedAt :: string
  st_jobs :: "job list"

record job_env =
  je_parse :: "json \<Rightarrow> int option"
  je_iso :: "int \<Rightarrow> string"
  je_before :: "jsval \<Rightarrow> jsval \<Rightarrow> bool"
  je_kill :: procs

fun terminal :: "job_status \<Rightarrow> bool" where
  "terminal Completed = True"
| "terminal JobFailed = True"
| "terminal Canceled = True"
| "terminal _ = False"

abbreviation term_job :: "job \<Rightarrow> bool" where
  "term_job j \<equiv> terminal (j_status j)"

fun statusName :: "job_status \<Rightarrow> string" where
  "statusName Running = ''running''"
| "statusName AwaitingAnswer = ''awaiting_answer''"
| "statusName Canceling = ''canceling''"
| "statusName Completed = ''completed''"
| "statusName JobFailed = ''failed''"
| "statusName Canceled = ''canceled''"

definition parseJobStatus :: "jsval \<Rightarrow> job_status option" where
  "parseJobStatus v = List.find (\<lambda>st. v = Some (JStr (statusName st))) [Running, AwaitingAnswer, Canceling, Completed, JobFailed, Canceled]"

text \<open>A value as a condition and \<open>a ?? b\<close>.\<close>

definition js_truthy :: "jsval \<Rightarrow> bool" where
  "js_truthy v \<longleftrightarrow> v \<notin> {None, Some JNull, Some (JBool False), Some (JNum (Fin 0)), Some (JNum NaN), Some (JStr [])}"

definition coalesce :: "jsval \<Rightarrow> jsval \<Rightarrow> jsval" where
  "coalesce a b = (if a = None \<or> a = Some JNull then b else a)"

section \<open>Reading\<close>

definition MAX_QUESTION_BYTES :: nat where "MAX_QUESTION_BYTES = 64 * 1024"

definition normalizeInteractiveExchangeLimit :: "jsval \<Rightarrow> int option" where
  "normalizeInteractiveExchangeLimit v = (case intNum v of
     None \<Rightarrow> None | Some i \<Rightarrow> if 1 \<le> i \<and> i \<le> 20 then Some i else None)"

definition parseOwner :: "jsval \<Rightarrow> job_owner option" where
  "parseOwner v = do {
     i \<leftarrow> asStr (get v ''id'');
     p \<leftarrow> intNum (get v ''pid'');
     s \<leftarrow> asStr (get v ''startedAt'');
     h \<leftarrow> asStr (get v ''heartbeatAt'');
     l \<leftarrow> asStr (get v ''leaseExpiresAt'');
     Some \<lparr>o_id = i, o_pid = p, o_startedAt = s, o_heartbeatAt = h, o_leaseExpiresAt = l\<rparr>
   }"

definition parseQuestion :: "jsval \<Rightarrow> job_question option" where
  "parseQuestion v = do {
     i \<leftarrow> asStr (get v ''id'');
     require (length i \<le> 160);
     e \<leftarrow> intNum (get v ''exchange'');
     require (0 < e);
     t \<leftarrow> asStr (get v ''text'');
     require (utf8_length t \<le> MAX_QUESTION_BYTES);
     a \<leftarrow> asStr (get v ''askedAt'');
     require (jTrue (get v ''untrusted''));
     Some \<lparr>q_id = i, q_exchange = e, q_text = t, q_askedAt = a\<rparr>
   }"

definition normalizeJob :: "jsval \<Rightarrow> job option" where
  "normalizeJob v =
     (case asStr (get v ''id'') of
        None \<Rightarrow> None
      | Some i \<Rightarrow>
          let status = (case parseJobStatus (get v ''status'') of Some st \<Rightarrow> st | None \<Rightarrow> JobFailed) in
          Some \<lparr>j_id = i, j_status = status, j_mode = get v ''mode'', j_label = asStr (get v ''label''),
            j_startedAt = get v ''startedAt'', j_updatedAt = get v ''updatedAt'', j_cwd = get v ''cwd'',
            j_notifiedAt = get v ''notifiedAt'', j_result = get v ''result'', j_error = asStr (get v ''error''),
            j_owner = parseOwner (get v ''owner''),
            j_cancelRequestedAt = get v ''cancelRequestedAt'', j_cancelRequestedBy = get v ''cancelRequestedBy'',
            j_interactive = jTrue (get v ''interactive''),
            j_maxExchanges = normalizeInteractiveExchangeLimit (get v ''maxExchanges''),
            j_question = (if status = AwaitingAnswer then parseQuestion (get v ''question'') else None),
            j_lastAnsweredQuestionId = (case asStr (get v ''lastAnsweredQuestionId'') of
               None \<Rightarrow> None | Some s \<Rightarrow> if length s \<le> 160 then Some s else None),
            j_stateRevision = (case intNum (get v ''stateRevision'') of
               None \<Rightarrow> 0 | Some n \<Rightarrow> if 0 \<le> n then n else 0)\<rparr>)"

definition normalizeStore :: "job_env \<Rightarrow> jsval \<Rightarrow> job_store" where
  "normalizeStore env v =
     \<lparr>st_revision = (case intNum (get v ''revision'') of None \<Rightarrow> 0 | Some n \<Rightarrow> n),
      st_updatedAt = (case asStr (get v ''updatedAt'') of None \<Rightarrow> je_iso env 0 | Some s \<Rightarrow> s),
      st_jobs = (case asArr (get v ''jobs'') of
         None \<Rightarrow> [] | Some xs \<Rightarrow> List.map_filter (\<lambda>x. normalizeJob (Some x)) xs)\<rparr>"

section \<open>Leases\<close>

definition parseDate :: "job_env \<Rightarrow> job \<Rightarrow> int option" where
  "parseDate env j = (case coalesce (j_updatedAt j) (coalesce (j_startedAt j) (Some (JStr []))) of
     None \<Rightarrow> None | Some v \<Rightarrow> je_parse env v)"

definition isJobOwnerStale :: "job_env \<Rightarrow> int \<Rightarrow> job \<Rightarrow> bool" where
  "isJobOwnerStale env now j =
     (if term_job j then False
      else case j_owner j of
          Some o' \<Rightarrow> \<not> isProcessAlive (je_kill env) (o_pid o') \<or>
            (case je_parse env (JStr (o_leaseExpiresAt o')) of None \<Rightarrow> True | Some t \<Rightarrow> t \<le> now)
        | None \<Rightarrow> (case parseDate env j of None \<Rightarrow> True | Some t \<Rightarrow> now - t > 60000))"

definition LEASE_EXPIRED :: string where
  "LEASE_EXPIRED = ''Background job owner lease expired before the job reached a terminal state.''"

definition orExpired :: "string option \<Rightarrow> string option" where
  "orExpired e = (case e of None \<Rightarrow> Some LEASE_EXPIRED | Some s \<Rightarrow> Some s)"

record job_snapshot =
  sn_id :: string
  sn_status :: job_status
  sn_label :: "string option"
  sn_error :: "string option"
  sn_ownerId :: "string option"
  sn_ownerPid :: "int option"
  sn_cancelRequestedAt :: jsval
  sn_interactive :: bool
  sn_maxExchanges :: "int option"
  sn_question :: "job_question option"
  sn_stateRevision :: int

definition effectiveSnapshot :: "job_env \<Rightarrow> int \<Rightarrow> job \<Rightarrow> job_snapshot" where
  "effectiveSnapshot env now j =
     (let expired = \<not> term_job j \<and> isJobOwnerStale env now j in
      \<lparr>sn_id = j_id j, sn_status = (if expired then JobFailed else j_status j), sn_label = j_label j,
       sn_error = (if expired then orExpired (j_error j) else j_error j),
       sn_ownerId = map_option o_id (j_owner j), sn_ownerPid = map_option o_pid (j_owner j),
       sn_cancelRequestedAt = j_cancelRequestedAt j, sn_interactive = j_interactive j,
       sn_maxExchanges = j_maxExchanges j,
       sn_question = (if expired then None else if j_status j = AwaitingAnswer then j_question j else None),
       sn_stateRevision = j_stateRevision j\<rparr>)"

text \<open>\<open>Array.prototype.sort\<close> is stable; \<open>before a b\<close> is \<open>compare(a, b) <= 0\<close>.\<close>

fun insert_by :: "('a \<Rightarrow> 'a \<Rightarrow> bool) \<Rightarrow> 'a \<Rightarrow> 'a list \<Rightarrow> 'a list" where
  "insert_by before x [] = [x]"
| "insert_by before x (y # ys) = (if before x y then x # y # ys else y # insert_by before x ys)"

definition sort_by :: "('a \<Rightarrow> 'a \<Rightarrow> bool) \<Rightarrow> 'a list \<Rightarrow> 'a list" where
  "sort_by before xs = foldr (insert_by before) xs []"

definition byStart :: "job_env \<Rightarrow> job \<Rightarrow> job \<Rightarrow> bool" where
  "byStart env a b = je_before env (j_startedAt a) (j_startedAt b)"

definition failStale :: "job_env \<Rightarrow> int \<Rightarrow> job \<Rightarrow> job" where
  "failStale env now j =
     (if \<not> term_job j \<and> isJobOwnerStale env now j
      then j\<lparr>j_status := JobFailed, j_question := None, j_stateRevision := j_stateRevision j + 1,
             j_updatedAt := Some (JStr (je_iso env now)), j_error := orExpired (j_error j)\<rparr>
      else j)"

definition young :: "job_env \<Rightarrow> int \<Rightarrow> int \<Rightarrow> job \<Rightarrow> bool" where
  "young env now maxAgeMs j = (case parseDate env j of None \<Rightarrow> True | Some t \<Rightarrow> now - t \<le> maxAgeMs)"

definition pruneJobs :: "job_env \<Rightarrow> int \<Rightarrow> nat \<Rightarrow> int \<Rightarrow> job list \<Rightarrow> job list" where
  "pruneJobs env now maxJobs maxAgeMs jobs =
     (let jobs = map (failStale env now) jobs;
          active = filter (\<lambda>j. \<not> term_job j) jobs;
          finished = sort_by (byStart env) (filter (\<lambda>j. term_job j \<and> young env now maxAgeMs j) jobs);
          terminalLimit = maxJobs - length active;
          retained = (if 0 < terminalLimit then drop (length finished - terminalLimit) finished else [])
      in sort_by (byStart env) (active @ retained))"

section \<open>Mutations\<close>

definition mutateJobs ::
  "job_env \<Rightarrow> int \<Rightarrow> nat \<Rightarrow> int \<Rightarrow> (job list \<Rightarrow> job list \<times> 'r) \<Rightarrow> job_store \<Rightarrow> job_store \<times> 'r" where
  "mutateJobs env now maxJobs maxAgeMs mutator store =
     (let (jobs, r) = mutator (pruneJobs env now maxJobs maxAgeMs (st_jobs store)) in
      (store\<lparr>st_jobs := jobs, st_revision := st_revision store + 1, st_updatedAt := je_iso env now\<rparr>, r))"

definition dropQuestion :: "job \<Rightarrow> job" where
  "dropQuestion j = (if j_status j = AwaitingAnswer then j else j\<lparr>j_question := None\<rparr>)"

definition mergeJob :: "job \<Rightarrow> job \<Rightarrow> job" where
  "mergeJob existing incoming =
     (if j_stateRevision incoming < j_stateRevision existing then existing
      else if term_job existing \<and> j_stateRevision incoming \<le> j_stateRevision existing then existing
      else if term_job existing \<and> \<not> term_job incoming then existing
      else if j_status existing = Canceling \<and> \<not> term_job incoming then existing
      else if j_stateRevision incoming = j_stateRevision existing \<and> j_status existing = AwaitingAnswer \<and>
        j_status incoming = Running then existing
      else
        dropQuestion (if js_truthy (j_cancelRequestedAt existing) \<and> \<not> js_truthy (j_cancelRequestedAt incoming)
          then incoming\<lparr>j_cancelRequestedAt := j_cancelRequestedAt existing,
                 j_cancelRequestedBy := j_cancelRequestedBy existing\<rparr>
          else incoming))"

abbreviation has_job :: "string \<Rightarrow> job \<Rightarrow> bool" where
  "has_job i j \<equiv> j_id j = i"

definition upsertJob :: "job \<Rightarrow> job list \<Rightarrow> job list \<times> unit" where
  "upsertJob j jobs =
     (if List.find (has_job (j_id j)) jobs = None then jobs @ [j]
      else update_first (has_job (j_id j)) (\<lambda>e. mergeJob e j) jobs, ())"

definition activeCount :: "job list \<Rightarrow> nat" where
  "activeCount jobs = length (filter (\<lambda>j. \<not> term_job j) jobs)"

definition createIfCapacity :: "job \<Rightarrow> nat \<Rightarrow> job list \<Rightarrow> job list \<times> bool \<times> nat" where
  "createIfCapacity j maxActive jobs =
     (if activeCount jobs \<ge> maxActive then (jobs, False, activeCount jobs)
      else (jobs @ [j], True, activeCount jobs + 1))"

definition canceledJob :: "job_env \<Rightarrow> int \<Rightarrow> string \<Rightarrow> job \<Rightarrow> job" where
  "canceledJob env now requestedBy j =
     j\<lparr>j_status := Canceling, j_question := None, j_stateRevision := j_stateRevision j + 1,
       j_cancelRequestedAt := coalesce (j_cancelRequestedAt j) (Some (JStr (je_iso env now))),
       j_cancelRequestedBy := Some (JStr requestedBy), j_updatedAt := Some (JStr (je_iso env now))\<rparr>"

definition requestCancellation :: "job_env \<Rightarrow> int \<Rightarrow> string \<Rightarrow> string \<Rightarrow> job list \<Rightarrow> job list \<times> job option" where
  "requestCancellation env now i requestedBy jobs =
     (case List.find (has_job i) jobs of
        None \<Rightarrow> (jobs, None)
      | Some j \<Rightarrow>
          if term_job j then (jobs, Some j)
          else if j_status j = Canceling \<and> js_truthy (j_cancelRequestedAt j) then (jobs, Some j)
          else
            let j' = canceledJob env now requestedBy j
            in (update_first (has_job i) (\<lambda>_. j') jobs, Some j'))"

datatype claim_result = Claimed job | JobNotFound | NotOwner job | IsCanceling job | IsTerminal job
  | NotAwaiting job | QuestionMismatch job

definition answeredJob :: "job_env \<Rightarrow> int \<Rightarrow> string \<Rightarrow> job \<Rightarrow> job" where
  "answeredJob env now questionId j =
     j\<lparr>j_status := Running, j_question := None, j_lastAnsweredQuestionId := Some questionId,
       j_stateRevision := j_stateRevision j + 1, j_updatedAt := Some (JStr (je_iso env now))\<rparr>"

definition claimAnswer :: "job_env \<Rightarrow> int \<Rightarrow> string \<Rightarrow> string \<Rightarrow> string \<Rightarrow> job list \<Rightarrow> job list \<times> claim_result" where
  "claimAnswer env now i ownerId questionId jobs =
     (case List.find (has_job i) jobs of
        None \<Rightarrow> (jobs, JobNotFound)
      | Some j \<Rightarrow>
          if map_option o_id (j_owner j) \<noteq> Some ownerId then (jobs, NotOwner j)
          else if js_truthy (j_cancelRequestedAt j) \<or> j_status j = Canceling then (jobs, IsCanceling j)
          else if term_job j then (jobs, IsTerminal j)
          else if j_status j \<noteq> AwaitingAnswer \<or> j_question j = None then (jobs, NotAwaiting j)
          else if map_option q_id (j_question j) \<noteq> Some questionId then (jobs, QuestionMismatch j)
          else
            let j' = answeredJob env now questionId j
            in (update_first (has_job i) (\<lambda>_. j') jobs, Claimed j'))"

definition heartbeatJob :: "job_env \<Rightarrow> int \<Rightarrow> string \<Rightarrow> int \<Rightarrow> job \<Rightarrow> job" where
  "heartbeatJob env now ownerId leaseMs j =
     (case j_owner j of
        None \<Rightarrow> j
      | Some o' \<Rightarrow>
          if o_id o' \<noteq> ownerId \<or> term_job j then j
          else j\<lparr>j_owner := Some (o'\<lparr>o_heartbeatAt := je_iso env now, o_leaseExpiresAt := je_iso env (now + leaseMs)\<rparr>),
                 j_updatedAt := Some (JStr (je_iso env now))\<rparr>)"

definition heartbeatJobs :: "job_env \<Rightarrow> int \<Rightarrow> string \<Rightarrow> int \<Rightarrow> job list \<Rightarrow> job list \<times> string list" where
  "heartbeatJobs env now ownerId leaseMs jobs =
     (map (heartbeatJob env now ownerId leaseMs) jobs,
      map j_id (filter (\<lambda>j. map_option o_id (j_owner j) = Some ownerId \<and> \<not> term_job j \<and>
        (js_truthy (j_cancelRequestedAt j) \<or> j_status j = Canceling)) jobs))"

datatype job_op =
    Upsert job
  | CreateIfCapacity job nat
  | RequestCancellation string string
  | ClaimAnswer string string string
  | Heartbeat string int

fun runOp :: "job_env \<Rightarrow> int \<Rightarrow> job_op \<Rightarrow> job list \<Rightarrow> job list" where
  "runOp env now (Upsert j) jobs = fst (upsertJob j jobs)"
| "runOp env now (CreateIfCapacity j n) jobs = fst (createIfCapacity j n jobs)"
| "runOp env now (RequestCancellation i by) jobs = fst (requestCancellation env now i by jobs)"
| "runOp env now (ClaimAnswer i own q) jobs = fst (claimAnswer env now i own q jobs)"
| "runOp env now (Heartbeat own leaseMs) jobs = fst (heartbeatJobs env now own leaseMs jobs)"

definition mutation :: "job_env \<Rightarrow> int \<Rightarrow> nat \<Rightarrow> int \<Rightarrow> job_op \<Rightarrow> job_store \<Rightarrow> job_store" where
  "mutation env now maxJobs maxAgeMs oper store =
     fst (mutateJobs env now maxJobs maxAgeMs (\<lambda>jobs. (runOp env now oper jobs, ())) store)"


section \<open>Pruning\<close>

lemma mset_insert_by [simp]: "mset (insert_by before x ys) = add_mset x (mset ys)"
  by (induction ys) auto

lemma mset_sort_by [simp]: "mset (sort_by before xs) = mset xs"
  unfolding sort_by_def by (induction xs) auto

lemma set_sort_by [simp]: "set (sort_by before xs) = set xs"
  using mset_sort_by [of before xs] by (metis set_mset_mset)

lemma length_sort_by [simp]: "length (sort_by before xs) = length xs"
  using mset_sort_by [of before xs] by (metis size_mset)

lemma mset_drop_subset: "mset (drop n xs) \<subseteq># mset xs"
  by (metis append_take_drop_id mset_append mset_subset_eq_add_right)

lemma mset_partition: "mset (filter P xs) + mset (filter (\<lambda>x. \<not> P x) xs) = mset xs"
  by (induction xs) auto

lemma pruneJobs_subset: "mset (pruneJobs env now m a jobs) \<subseteq># mset (map (failStale env now) jobs)"
proof -
  define js where "js = map (failStale env now) jobs"
  define old where "old = sort_by (byStart env) (filter (\<lambda>j. term_job j \<and> young env now a j) js)"
  define kept where "kept = (if 0 < m - length (filter (\<lambda>j. \<not> term_job j) js)
    then drop (length old - (m - length (filter (\<lambda>j. \<not> term_job j) js))) old else [])"
  have "mset kept \<subseteq># mset old" by (simp add: kept_def mset_drop_subset)
  also have "mset old = mset (filter (young env now a) (filter term_job js))"
    by (simp add: old_def conj_commute)
  also have "\<dots> \<subseteq># mset (filter term_job js)" by (simp only: mset_filter multiset_filter_subset)
  finally have "mset (filter (\<lambda>j. \<not> term_job j) js) + mset kept \<subseteq># mset js"
    using mset_partition [of term_job js] by (metis add.commute subset_mset.add_left_mono)
  then show ?thesis
    unfolding pruneJobs_def Let_def js_def [symmetric] old_def [symmetric] kept_def [symmetric]
    by (simp only: mset_sort_by mset_append)
qed

lemma distinct_map_subset:
  assumes "mset xs \<subseteq># mset ys" "distinct (map f ys)"
  shows "distinct (map f xs)"
proof -
  have "mset (map f xs) \<subseteq># mset (map f ys)" using image_mset_subseteq_mono [OF assms(1), of f] by simp
  then have "count (mset (map f xs)) a \<le> 1" for a
    using assms(2) mset_subset_eq_count [of "mset (map f xs)" "mset (map f ys)" a]
    by (metis distinct_count_atmost_1 le_trans less_imp_le_nat linorder_not_le nat_le_linear zero_le_one)
  then show ?thesis unfolding distinct_count_atmost_1
    by (metis count_greater_zero_iff count_eq_zero_iff dual_order.antisym less_one linorder_not_less set_mset_mset)
qed

lemma failStale_id [simp]: "j_id (failStale env now j) = j_id j"
  by (simp add: failStale_def)

lemma pruned_from:
  assumes "k \<in> set (pruneJobs env now m a jobs)"
  shows "\<exists>j \<in> set jobs. k = failStale env now j"
  using set_mset_mono [OF pruneJobs_subset [of env now m a jobs]] assms by auto

lemma pruned_distinct: "distinct (map j_id jobs) \<Longrightarrow> distinct (map j_id (pruneJobs env now m a jobs))"
  by (rule distinct_map_subset [OF pruneJobs_subset]) (simp add: o_def)

section \<open>Progress of a job\<close>

text \<open>What never goes back: the revision, a terminal status, and a request to cancel.\<close>

definition job_le :: "job \<Rightarrow> job \<Rightarrow> bool" where
  "job_le j j' \<longleftrightarrow> j_stateRevision j \<le> j_stateRevision j' \<and> (term_job j \<longrightarrow> term_job j') \<and>
     (js_truthy (j_cancelRequestedAt j) \<longrightarrow> js_truthy (j_cancelRequestedAt j')) \<and>
     (j_status j = Canceling \<longrightarrow> j_status j' = Canceling \<or> term_job j')"

lemma job_le_refl [simp]: "job_le j j"
  by (simp add: job_le_def)

lemma job_le_trans: "job_le a b \<Longrightarrow> job_le b c \<Longrightarrow> job_le a c"
  by (auto simp: job_le_def)

lemma failStale_le: "job_le j (failStale env now j)"
  by (simp add: failStale_def job_le_def)

lemma dropQuestion_simps [simp]:
  "j_id (dropQuestion j) = j_id j" "j_stateRevision (dropQuestion j) = j_stateRevision j"
  "j_status (dropQuestion j) = j_status j" "j_cancelRequestedAt (dropQuestion j) = j_cancelRequestedAt j"
  by (simp_all add: dropQuestion_def)

lemma mergeJob_le: "job_le e (mergeJob e j)"
  by (simp add: mergeJob_def job_le_def)

lemma mergeJob_id: "j_id e = j_id j \<Longrightarrow> j_id (mergeJob e j) = j_id j"
  by (simp add: mergeJob_def)

lemma coalesce_truthy: "js_truthy a \<Longrightarrow> js_truthy (coalesce a b)"
  by (auto simp: coalesce_def js_truthy_def)

lemma update_first_same_id:
  assumes "distinct (map j_id jobs)" "k \<in> set jobs" "j' \<in> set (update_first (has_job i) f jobs)" "j_id j' = j_id k"
    "\<And>e. j_id e = i \<Longrightarrow> j_id (f e) = i"
  shows "j' = k \<or> (j_id k = i \<and> j' = f k)"
  using assms(1-4)
proof (induction jobs)
  case (Cons x xs)
  have inj: "a = b" if "a \<in> set (x # xs)" "b \<in> set (x # xs)" "j_id a = j_id b" for a b
    using that Cons.prems(1) by (meson inj_onD distinct_map)
  show ?case
  proof (cases "j_id x = i")
    case True
    then consider "j' = f x" | "j' \<in> set xs" using Cons.prems(3) by auto
    then show ?thesis
    proof cases
      case 1
      then have "j_id k = j_id x" using assms(5) [OF True] Cons.prems(4) True by simp
      then have "k = x" using inj [of k x] Cons.prems(2) by simp
      then show ?thesis using 1 True by simp
    next
      case 2
      then show ?thesis using inj [of j' k] Cons.prems(2,4) by auto
    qed
  next
    case False
    then consider "j' = x" | "j' \<in> set (update_first (has_job i) f xs)" using Cons.prems(3) by auto
    then show ?thesis
    proof cases
      case 1
      then show ?thesis using inj [of j' k] Cons.prems(2,4) by auto
    next
      case 2
      show ?thesis
      proof (cases "k = x")
        case True
        have "j_id j' \<in> j_id ` set xs" using update_first_pred [OF 2] assms(5) by force
        then show ?thesis using Cons.prems(1,4) True by auto
      next
        case False
        then show ?thesis using Cons 2 by auto
      qed
    qed
  qed
qed simp


text \<open>The identifier that a mutation adds is fresh.\<close>

fun fresh_op :: "job_op \<Rightarrow> job list \<Rightarrow> bool" where
  "fresh_op (CreateIfCapacity j n) jobs \<longleftrightarrow> j_id j \<notin> j_id ` set jobs"
| "fresh_op _ jobs \<longleftrightarrow> True"

lemma find_has_job: "List.find (has_job i) jobs = Some j \<Longrightarrow> j \<in> set jobs \<and> j_id j = i"
  by (rule find_Some_in)

lemma same_id: "distinct (map j_id jobs) \<Longrightarrow> a \<in> set jobs \<Longrightarrow> b \<in> set jobs \<Longrightarrow> j_id a = j_id b \<Longrightarrow> a = b"
  by (meson inj_onD distinct_map)

lemma replaced_le:
  assumes "distinct (map j_id jobs)" "k \<in> set jobs" "List.find (has_job i) jobs = Some j"
    "j' \<in> set (update_first (has_job i) (\<lambda>_. new) jobs)" "j_id j' = j_id k" "j_id new = i" "job_le j new"
  shows "job_le k j'"
proof -
  have "j' = k \<or> (j_id k = i \<and> j' = new)" by (rule update_first_same_id [OF assms(1,2,4,5)]) (simp add: assms(6))
  moreover have "j = k" if "j_id k = i"
    by (rule same_id [OF assms(1)]) (use find_has_job [OF assms(3)] assms(2) that in simp_all)
  ultimately show ?thesis using assms(7) by auto
qed

lemma canceledJob_le: "job_le j (canceledJob env now who j)" if "\<not> term_job j"
  using that coalesce_truthy [of "j_cancelRequestedAt j"] by (simp add: canceledJob_def job_le_def)

lemma runOp_le:
  assumes "distinct (map j_id jobs)" "k \<in> set jobs" "j' \<in> set (runOp env now oper jobs)" "j_id j' = j_id k"
    "fresh_op oper jobs"
  shows "job_le k j'"
proof (cases oper)
  case (Upsert j)
  show ?thesis
  proof (cases "List.find (has_job (j_id j)) jobs")
    case None
    then have "j_id j \<noteq> j_id k" using assms(2) by (auto simp: find_None_iff)
    then have "j' \<in> set jobs" using assms(3,4) None Upsert by (auto simp: upsertJob_def)
    then show ?thesis using same_id [OF assms(1) _ assms(2) assms(4)] by simp
  next
    case (Some e)
    have "j' = k \<or> (j_id k = j_id j \<and> j' = mergeJob k j)"
      by (rule update_first_same_id [OF assms(1,2) _ assms(4)])
        (use assms(3) Some Upsert in \<open>simp_all add: upsertJob_def mergeJob_id\<close>)
    then show ?thesis using mergeJob_le by auto
  qed
next
  case (CreateIfCapacity j n)
  then have "j' \<in> set jobs" using assms by (auto simp: createIfCapacity_def split: if_splits)
  then show ?thesis using same_id [OF assms(1) _ assms(2) assms(4)] by simp
next
  case (RequestCancellation i who)
  have keep: "j' \<in> set jobs \<Longrightarrow> job_le k j'" using same_id [OF assms(1) _ assms(2) assms(4)] by simp
  show ?thesis
  proof (cases "List.find (has_job i) jobs")
    case (Some j)
    show ?thesis
    proof (cases "term_job j \<or> (j_status j = Canceling \<and> js_truthy (j_cancelRequestedAt j))")
      case True
      then show ?thesis using assms(3) Some RequestCancellation keep by (auto simp: requestCancellation_def)
    next
      case False
      then have "j' \<in> set (update_first (has_job i) (\<lambda>_. canceledJob env now who j) jobs)"
        using assms(3) Some RequestCancellation by (auto simp: requestCancellation_def Let_def)
      moreover have "j_id (canceledJob env now who j) = i" using find_has_job [OF Some] by (simp add: canceledJob_def)
      ultimately show ?thesis using replaced_le [OF assms(1,2) Some] canceledJob_le False assms(4) by blast
    qed
  qed (use assms(3) RequestCancellation keep in \<open>simp add: requestCancellation_def\<close>)
next
  case (ClaimAnswer i own q)
  have keep: "j' \<in> set jobs \<Longrightarrow> job_le k j'" using same_id [OF assms(1) _ assms(2) assms(4)] by simp
  show ?thesis
  proof (cases "List.find (has_job i) jobs")
    case (Some j)
    have "j' \<in> set jobs \<or> (j' \<in> set (update_first (has_job i) (\<lambda>_. answeredJob env now q j) jobs) \<and>
        j_status j = AwaitingAnswer)"
      using assms(3) Some ClaimAnswer by (auto simp: claimAnswer_def Let_def split: if_splits)
    moreover have "j_id (answeredJob env now q j) = i" using find_has_job [OF Some] by (simp add: answeredJob_def)
    moreover have "job_le j (answeredJob env now q j)" if "j_status j = AwaitingAnswer"
      using that by (simp add: answeredJob_def job_le_def)
    ultimately show ?thesis using keep replaced_le [OF assms(1,2) Some _ assms(4)] by blast
  qed (use assms(3) ClaimAnswer keep in \<open>simp add: claimAnswer_def\<close>)
next
  case (Heartbeat own ms)
  then obtain x where x: "x \<in> set jobs" "j' = heartbeatJob env now own ms x"
    using assms(3) by (auto simp: heartbeatJobs_def)
  have "j_id (heartbeatJob env now own ms x) = j_id x" "job_le x (heartbeatJob env now own ms x)"
    by (auto simp: heartbeatJob_def job_le_def split: option.splits)
  then show ?thesis using same_id [OF assms(1) x(1) assms(2)] x(2) assms(4) by auto
qed


section \<open>Properties\<close>

text \<open>C7. No mutation takes a job back: while a job stays in the store, its revision never falls, a terminal job stays
  terminal, a request to cancel is never lost, and a canceling job only ends.\<close>

theorem jobs_never_go_back:
  assumes "distinct (map j_id (st_jobs store))" "j \<in> set (st_jobs store)"
    "j_id j \<in> j_id ` set (pruneJobs env now m a (st_jobs store))"
    "fresh_op oper (pruneJobs env now m a (st_jobs store))"
    "j' \<in> set (st_jobs (mutation env now m a oper store))" "j_id j' = j_id j"
  shows "j_stateRevision j \<le> j_stateRevision j' \<and> (term_job j \<longrightarrow> term_job j') \<and>
    (js_truthy (j_cancelRequestedAt j) \<longrightarrow> js_truthy (j_cancelRequestedAt j')) \<and>
    (j_status j = Canceling \<longrightarrow> j_status j' = Canceling \<or> term_job j')"
proof -
  let ?jobs = "pruneJobs env now m a (st_jobs store)"
  obtain k where k: "k \<in> set ?jobs" "j_id k = j_id j" using assms(3) by auto
  obtain j0 where j0: "j0 \<in> set (st_jobs store)" "k = failStale env now j0" using pruned_from [OF k(1)] by blast
  have "j0 = j" by (rule same_id [OF assms(1) j0(1) assms(2)]) (use j0 k in simp)
  then have "job_le j k" using j0(2) failStale_le by simp
  moreover have "job_le k j'"
    by (rule runOp_le [OF pruned_distinct [OF assms(1)] k(1) _ _ assms(4)])
      (use assms(5,6) k(2) in \<open>simp_all add: mutation_def mutateJobs_def\<close>)
  ultimately show ?thesis using job_le_trans unfolding job_le_def by blast
qed

lemma find_update_first:
  "List.find (has_job i) jobs = Some j \<Longrightarrow> j_id new = i \<Longrightarrow>
     List.find (has_job i) (update_first (has_job i) (\<lambda>_. new) jobs) = Some new"
  by (induction jobs) (auto split: if_splits)

text \<open>C20. An answer is claimed at most once: a claim succeeds only for the owner of a job that waits for exactly this
  question and is not being canceled, the job then runs with the question answered, and until the job asks again
  every further claim is refused.\<close>

theorem answer_is_claimed_once:
  assumes "claimAnswer env now i own q jobs = (jobs', Claimed j')"
  shows "(\<exists>j question. List.find (has_job i) jobs = Some j \<and> map_option o_id (j_owner j) = Some own \<and>
      j_status j = AwaitingAnswer \<and> \<not> js_truthy (j_cancelRequestedAt j) \<and> j_question j = Some question \<and>
      q_id question = q \<and> j_stateRevision j' = j_stateRevision j + 1) \<and>
    List.find (has_job i) jobs' = Some j' \<and> j_status j' = Running \<and> j_question j' = None \<and>
    j_lastAnsweredQuestionId j' = Some q \<and>
    snd (claimAnswer env later i own2 q2 jobs') \<in> {NotOwner j', IsCanceling j', NotAwaiting j'}"
proof (cases "List.find (has_job i) jobs")
  case None
  then show ?thesis using assms by (simp add: claimAnswer_def)
next
  case (Some j)
  have ok: "map_option o_id (j_owner j) = Some own" "\<not> js_truthy (j_cancelRequestedAt j)" "j_status j = AwaitingAnswer"
      "map_option q_id (j_question j) = Some q"
    and j': "j' = answeredJob env now q j" "jobs' = update_first (has_job i) (\<lambda>_. answeredJob env now q j) jobs"
    using assms Some by (auto simp: claimAnswer_def Let_def split: if_splits)
  have "j_id (answeredJob env now q j) = i" using find_has_job [OF Some] by (simp add: answeredJob_def)
  then have find: "List.find (has_job i) jobs' = Some j'" using find_update_first [OF Some] j' by simp
  obtain question where "j_question j = Some question" "q_id question = q" using ok(4) by auto
  then have "\<exists>j question. List.find (has_job i) jobs = Some j \<and> map_option o_id (j_owner j) = Some own \<and>
      j_status j = AwaitingAnswer \<and> \<not> js_truthy (j_cancelRequestedAt j) \<and> j_question j = Some question \<and>
      q_id question = q \<and> j_stateRevision j' = j_stateRevision j + 1"
    using Some ok j'(1) by (simp add: answeredJob_def)
  moreover have "snd (claimAnswer env later i own2 q2 jobs') \<in> {NotOwner j', IsCanceling j', NotAwaiting j'}"
    using find j'(1) by (simp add: claimAnswer_def answeredJob_def)
  ultimately show ?thesis using find j'(1) by (simp add: answeredJob_def)
qed

text \<open>Pruning is bounded and spares live work: it keeps every job that is neither terminal nor stale, unchanged, and
  unless the jobs in progress alone are more, at most \<open>maxJobs\<close> jobs; a job that is created afterwards keeps the
  number of jobs in progress within the capacity.\<close>

theorem pruning_is_bounded:
  "length (pruneJobs env now m a jobs) \<le> max m (activeCount jobs) \<and>
   filter (\<lambda>j. \<not> term_job j \<and> \<not> isJobOwnerStale env now j \<and> j \<notin> set (pruneJobs env now m a jobs)) jobs = [] \<and>
   (case createIfCapacity j n (pruneJobs env now m a jobs) of
      (jobs', created, active) \<Rightarrow>
        activeCount jobs' \<le> max n (activeCount (pruneJobs env now m a jobs)) \<and> (created \<or> jobs' = pruneJobs env now m a jobs))"
proof -
  define js where "js = map (failStale env now) jobs"
  define act where "act = filter (\<lambda>j. \<not> term_job j) js"
  define old where "old = sort_by (byStart env) (filter (\<lambda>j. term_job j \<and> young env now a j) js)"
  define kept where "kept = (if 0 < m - length act then drop (length old - (m - length act)) old else [])"
  have p: "pruneJobs env now m a jobs = sort_by (byStart env) (act @ kept)"
    unfolding pruneJobs_def Let_def js_def [symmetric] act_def [symmetric] old_def [symmetric] kept_def [symmetric] ..
  have "length act \<le> activeCount jobs"
    unfolding act_def js_def activeCount_def filter_map length_map by (rule filter_length_mono) (auto simp: failStale_def split: if_splits)
  then have "length (pruneJobs env now m a jobs) \<le> max m (activeCount jobs)"
    unfolding p length_sort_by length_append by (auto simp: kept_def)
  moreover have "j \<in> set (pruneJobs env now m a jobs)"
    if "j \<in> set jobs" "\<not> term_job j" "\<not> isJobOwnerStale env now j" for j
  proof -
    have "failStale env now j = j" using that by (simp add: failStale_def)
    then have "j \<in> set act" using that by (force simp: act_def js_def)
    then show ?thesis by (simp add: p)
  qed
  ultimately show ?thesis
    by (auto simp: createIfCapacity_def activeCount_def filter_empty_conv)
qed

section \<open>Concrete instances\<close>

definition sampleJob :: job where
  "sampleJob = \<lparr>j_id = ''j'', j_status = AwaitingAnswer, j_mode = None, j_label = None, j_startedAt = Some (JStr ''1''),
     j_updatedAt = Some (JStr ''1''), j_cwd = None, j_notifiedAt = None, j_result = None, j_error = None,
     j_owner = Some \<lparr>o_id = ''me'', o_pid = 7, o_startedAt = ''1'', o_heartbeatAt = ''1'', o_leaseExpiresAt = ''9''\<rparr>,
     j_cancelRequestedAt = None, j_cancelRequestedBy = None, j_interactive = True, j_maxExchanges = Some 5,
     j_question = Some \<lparr>q_id = ''q'', q_exchange = 1, q_text = ''why'', q_askedAt = ''1''\<rparr>,
     j_lastAnsweredQuestionId = None, j_stateRevision = 2\<rparr>"

definition sampleEnv :: job_env where
  "sampleEnv = \<lparr>je_parse = (\<lambda>v. case v of JStr s \<Rightarrow> if s = ''9'' then Some 9 else Some 1 | _ \<Rightarrow> None),
     je_iso = (\<lambda>t. if t = 9 then ''9'' else ''1''), je_before = (\<lambda>_ _. True), je_kill = (\<lambda>p. KillOk)\<rparr>"

lemma sample_pruned: "pruneJobs sampleEnv 5 100 1000 [sampleJob] = [sampleJob]"
  by (simp add: pruneJobs_def failStale_def isJobOwnerStale_def sampleJob_def sampleEnv_def isProcessAlive_def
      sort_by_def Let_def)

theorem jobs_never_go_back_witness:
  "j_stateRevision sampleJob \<le> j_stateRevision (canceledJob sampleEnv 5 ''you'' sampleJob) \<and>
   js_truthy (j_cancelRequestedAt (canceledJob sampleEnv 5 ''you'' sampleJob))"
proof -
  let ?store = "\<lparr>st_revision = 1, st_updatedAt = ''1'', st_jobs = [sampleJob]\<rparr>"
  have "canceledJob sampleEnv 5 ''you'' sampleJob \<in>
      set (st_jobs (mutation sampleEnv 5 100 1000 (RequestCancellation ''j'' ''you'') ?store))"
    using sample_pruned
    by (simp add: mutation_def mutateJobs_def requestCancellation_def) (simp add: sampleJob_def Let_def)
  from jobs_never_go_back [OF _ _ _ _ this, of sampleJob] sample_pruned
  have "j_stateRevision sampleJob \<le> j_stateRevision (canceledJob sampleEnv 5 ''you'' sampleJob)"
    by (simp add: canceledJob_def)
  then show ?thesis by (simp add: canceledJob_def sampleJob_def sampleEnv_def coalesce_def js_truthy_def)
qed

theorem answer_is_claimed_once_witness:
  "snd (claimAnswer sampleEnv 6 ''j'' ''me'' ''q'' [answeredJob sampleEnv 5 ''q'' sampleJob]) =
     NotAwaiting (answeredJob sampleEnv 5 ''q'' sampleJob)"
proof -
  have "claimAnswer sampleEnv 5 ''j'' ''me'' ''q'' [sampleJob] =
      ([answeredJob sampleEnv 5 ''q'' sampleJob], Claimed (answeredJob sampleEnv 5 ''q'' sampleJob))"
    by (simp add: claimAnswer_def sampleJob_def js_truthy_def Let_def)
  from answer_is_claimed_once [OF this, where later = 6 and ?own2.0 = "''me''" and ?q2.0 = "''q''"]
  have "snd (claimAnswer sampleEnv 6 ''j'' ''me'' ''q'' [answeredJob sampleEnv 5 ''q'' sampleJob]) \<in>
      {NotOwner (answeredJob sampleEnv 5 ''q'' sampleJob), IsCanceling (answeredJob sampleEnv 5 ''q'' sampleJob),
       NotAwaiting (answeredJob sampleEnv 5 ''q'' sampleJob)}" by blast
  then show ?thesis by (simp add: claimAnswer_def answeredJob_def sampleJob_def js_truthy_def)
qed

end
