(* ===== verification/WorkflowJournal.thy ===== *)
theory WorkflowJournal
  imports TextBounds
begin

text \<open>
  \<open>extensions/workflow/journal.ts\<close>: the canonical text of the context of a workflow, which identifies it, the
  journal file with the values of its finished steps, and the two operations on it. Parameters are
  \<open>sha\<close> (SHA-256), \<open>numText\<close> (the text that \<open>JSON.stringify\<close> gives a number) and \<open>encode\<close>, what
  \<open>JSON.stringify\<close> makes of a JavaScript value: it throws, or yields no text, or a text of some
  bytes that \<open>JSON.parse\<close> reads back as the given JSON value. The journal file is changed under the
  lock of \<open>FileLock\<close>, so persisting an entry is one atomic step.
\<close>

section \<open>Canonical text\<close>

definition numberText :: "(rat \<Rightarrow> string) \<Rightarrow> jnum \<Rightarrow> string" where
  "numberText numText n = (case n of Fin r \<Rightarrow> numText r | _ \<Rightarrow> ''null'')"

text \<open>The keys of an object in the order of \<open>sort\<close>.\<close>

definition sortedKeys :: "(string \<times> 'a) list \<Rightarrow> string list" where
  "sortedKeys kvs = sort (remdups (map fst kvs))"

fun canonicalJson :: "(rat \<Rightarrow> string) \<Rightarrow> json \<Rightarrow> string" where
  "canonicalJson numText JNull = ''null''"
| "canonicalJson numText (JBool b) = (if b then ''true'' else ''false'')"
| "canonicalJson numText (JNum n) = numberText numText n"
| "canonicalJson numText (JStr s) = jsonString s"
| "canonicalJson numText (JArr xs) = ''['' @ joinWith '','' (map (canonicalJson numText) xs) @ '']''"
| "canonicalJson numText (JObj kvs) =
     (let parts = map (\<lambda>(k, v). (k, canonicalJson numText v)) kvs in
      ''{'' @ joinWith '','' (map (\<lambda>k. jsonString k @ '':'' @ the (map_of parts k)) (sortedKeys parts)) @ ''}'')"

text \<open>The value that the text stands for: keys sorted, the first value of a key, no infinities.\<close>

fun canonicalValue :: "json \<Rightarrow> json" where
  "canonicalValue (JNum n) = (case n of Fin r \<Rightarrow> JNum n | _ \<Rightarrow> JNull)"
| "canonicalValue (JArr xs) = JArr (map canonicalValue xs)"
| "canonicalValue (JObj kvs) =
     (let parts = map (\<lambda>(k, v). (k, canonicalValue v)) kvs in
      JObj (map (\<lambda>k. (k, the (map_of parts k))) (sortedKeys parts)))"
| "canonicalValue v = v"

text \<open>What the texts of numbers have to be: distinct, and made of the characters of a number.\<close>

definition number_texts :: "(rat \<Rightarrow> string) \<Rightarrow> bool" where
  "number_texts numText \<longleftrightarrow> inj numText \<and>
     (\<forall>r. numText r \<noteq> [] \<and> list_all (\<lambda>c. is_digit c \<or> c \<in> set ''-+.e'') (numText r))"

text \<open>An escaped code unit is read back from the front of a text.\<close>

definition hexValue :: "char \<Rightarrow> nat" where
  "hexValue c = (let n = (of_char c :: nat) in if n < 58 then n - 48 else n - 87)"

fun unescape :: "string \<Rightarrow> char \<times> string" where
  "unescape (x # y # ys) =
     (if x \<noteq> CHR 92 then (x, y # ys)
      else if y = CHR ''b'' then (CHR 8, ys) else if y = CHR ''t'' then (CHR 9, ys) else if y = CHR ''n'' then (CHR 10, ys)
      else if y = CHR ''f'' then (CHR 12, ys) else if y = CHR ''r'' then (CHR 13, ys)
      else if y = CHR ''u'' then (char_of (16 * hexValue (ys ! 2) + hexValue (ys ! 3)), drop 4 ys)
      else (y, ys))"
| "unescape xs = (hd xs, tl xs)"

lemma hexValue_digit: "n < 16 \<Longrightarrow> hexValue (hexDigit n) = n"
  by (simp add: hexValue_def hexDigit_def Let_def)

lemma unescape_other: "x \<noteq> CHR 92 \<Longrightarrow> unescape (x # xs) = (x, xs)"
  by (cases xs) simp_all

lemma unescape_jsonChar: "unescape (jsonChar c @ r) = (c, r)"
proof -
  define n where "n = (of_char c :: nat)"
  have c: "c = char_of n" by (simp add: n_def)
  note def = jsonChar_def [of c, unfolded Let_def, folded n_def]
  consider "n = 34" | "n = 92" | "n = 8" | "n = 9" | "n = 10" | "n = 12" | "n = 13"
    | (low) "n < 32" "n \<noteq> 8" "n \<noteq> 9" "n \<noteq> 10" "n \<noteq> 12" "n \<noteq> 13" | (plain) "32 \<le> n" "n \<noteq> 34" "n \<noteq> 92" by linarith
  then show ?thesis
  proof cases
    case low
    then have "jsonChar c = [CHR 92, CHR ''u'', CHR ''0'', CHR ''0'', hexDigit (n div 16), hexDigit (n mod 16)]"
      by (simp add: def)
    then show ?thesis using low by (simp add: hexValue_digit c)
  next
    case plain
    then have "c \<noteq> CHR 92" by (auto simp: n_def)
    then show ?thesis using plain by (simp add: def unescape_other)
  qed (simp_all add: def, simp_all add: c char_of_def bit_Suc_0_iff)
qed

lemma jsonChar_decodes: "jsonChar c @ r = jsonChar d @ s \<Longrightarrow> c = d \<and> r = s"
  by (metis unescape_jsonChar prod.inject)

lemma jsonChar_start: "\<exists>x xs. jsonChar c = x # xs \<and> x \<noteq> CHR 34"
proof -
  have "c \<noteq> CHR 34" if "(of_char c :: nat) \<noteq> 34" using that by auto
  then show ?thesis by (simp add: jsonChar_def Let_def)
qed

lemma jsonChars_decode:
  "concat (map jsonChar a) @ CHR 34 # r = concat (map jsonChar b) @ CHR 34 # s \<Longrightarrow> a = b \<and> r = s"
proof (induction a arbitrary: b)
  case Nil
  then show ?case
  proof (cases b)
    case (Cons c cs)
    then show ?thesis using Nil jsonChar_start [of c] by auto
  qed simp
next
  case (Cons x xs)
  show ?case
  proof (cases b)
    case Nil
    then show ?thesis using Cons.prems jsonChar_start [of x] by auto
  next
    case (Cons y ys)
    then have "jsonChar x @ concat (map jsonChar xs) @ CHR 34 # r = jsonChar y @ concat (map jsonChar ys) @ CHR 34 # s"
      using Cons.prems by simp
    from jsonChar_decodes [OF this] show ?thesis using Cons.IH local.Cons by auto
  qed
qed

lemma jsonString_decodes: "jsonString a @ r = jsonString b @ s \<Longrightarrow> a = b \<and> r = s"
  using jsonChars_decode [of a r b s] by (simp add: jsonString_def)

section \<open>Texts of values\<close>

text \<open>The text of a value in the order it has.\<close>

fun printJson :: "(rat \<Rightarrow> string) \<Rightarrow> json \<Rightarrow> string" where
  "printJson numText JNull = ''null''"
| "printJson numText (JBool b) = (if b then ''true'' else ''false'')"
| "printJson numText (JNum n) = numberText numText n"
| "printJson numText (JStr s) = jsonString s"
| "printJson numText (JArr xs) = ''['' @ joinWith '','' (map (printJson numText) xs) @ '']''"
| "printJson numText (JObj kvs) =
     ''{'' @ joinWith '','' (map (\<lambda>(k, v). jsonString k @ '':'' @ printJson numText v) kvs) @ ''}''"

lemma joinWith_cong_map:
  "(\<And>x. x \<in> set xs \<Longrightarrow> f x = g x) \<Longrightarrow> joinWith sep (map f xs) = joinWith sep (map g xs)"
  by (metis map_cong)

lemma map_of_map_snd: "map_of (map (\<lambda>(k, v). (k, f v)) kvs) k = map_option f (map_of kvs k)"
  by (induction kvs) auto

lemma sortedKeys_map: "sortedKeys (map (\<lambda>(k, v). (k, f v)) kvs) = sortedKeys kvs"
  by (simp add: sortedKeys_def comp_def case_prod_unfold)

lemma sortedKeys_in: "k \<in> set (sortedKeys kvs) \<Longrightarrow> \<exists>v. map_of kvs k = Some v \<and> (k, v) \<in> set kvs"
  by (simp add: sortedKeys_def) (metis (no_types) map_of_SomeD map_of_eq_None_iff not_None_eq list.set_map)

lemma canonicalJson_prints: "canonicalJson numText v = printJson numText (canonicalValue v)"
proof (induction v)
  case (JNum n)
  then show ?case by (simp add: numberText_def split: jnum.split)
next
  case (JArr xs)
  then show ?case by (auto intro!: joinWith_cong_map)
next
  case (JObj kvs)
  let ?c = "map (\<lambda>(k, v). (k, canonicalJson numText v)) kvs" and ?v = "map (\<lambda>(k, v). (k, canonicalValue v)) kvs"
  have "jsonString k @ '':'' @ the (map_of ?c k) = jsonString k @ '':'' @ printJson numText (the (map_of ?v k))"
    if k: "k \<in> set (sortedKeys kvs)" for k
  proof -
    obtain v where v: "map_of kvs k = Some v" "(k, v) \<in> set kvs" using sortedKeys_in [OF k] by blast
    then have "canonicalJson numText v = printJson numText (canonicalValue v)" using JObj by auto
    then show ?thesis using v(1) by (simp add: map_of_map_snd)
  qed
  then show ?case
    by (auto simp: Let_def sortedKeys_map comp_def intro!: joinWith_cong_map)
qed simp_all


section \<open>Reading the text back\<close>

text \<open>What follows a value inside an array, an object or at the end.\<close>

definition value_end :: "string \<Rightarrow> bool" where
  "value_end r \<longleftrightarrow> r = [] \<or> hd r \<in> set '',]}''"

definition decodes :: "('a \<Rightarrow> bool) \<Rightarrow> ('a \<Rightarrow> string) \<Rightarrow> 'a \<Rightarrow> bool" where
  "decodes A f x \<longleftrightarrow> (\<forall>y r s. A y \<longrightarrow> value_end r \<longrightarrow> value_end s \<longrightarrow> f x @ r = f y @ s \<longrightarrow> x = y \<and> r = s)"

lemma decodesD:
  "decodes A f x \<Longrightarrow> f x @ r = f y @ s \<Longrightarrow> A y \<Longrightarrow> value_end r \<Longrightarrow> value_end s \<Longrightarrow> x = y \<and> r = s"
  by (simp add: decodes_def)

lemma list_decodes:
  assumes "\<forall>x \<in> set xs. decodes A f x" "\<forall>y \<in> set ys. A y" "\<And>y. \<exists>c cs. f y = c # cs \<and> c \<noteq> close" "close \<in> set '']}''"
    and "joinWith '','' (map f xs) @ close # r = joinWith '','' (map f ys) @ close # s"
  shows "xs = ys \<and> r = s"
  using assms(1,2,5)
proof (induction xs arbitrary: ys)
  case Nil
  then show ?case
  proof (cases ys)
    case (Cons y zs)
    obtain c cs where "f y = c # cs" "c \<noteq> close" using assms(3) by blast
    then show ?thesis using Nil Cons by (cases zs) auto
  qed simp
next
  case (Cons x xs)
  obtain c cs where x: "f x = c # cs" "c \<noteq> close" using assms(3) by blast
  show ?case
  proof (cases ys)
    case Nil
    then show ?thesis using Cons.prems x by (cases xs) auto
  next
    case ys: (Cons y zs)
    have split: "joinWith '','' (map f (u # us)) @ close # t =
        f u @ (if us = [] then close # t else CHR '','' # joinWith '','' (map f us) @ close # t)" for u us t
      by (cases us) simp_all
    let ?r = "if xs = [] then close # r else CHR '','' # joinWith '','' (map f xs) @ close # r"
    let ?s = "if zs = [] then close # s else CHR '','' # joinWith '','' (map f zs) @ close # s"
    have eq: "f x @ ?r = f y @ ?s" using Cons.prems(3) unfolding ys split .
    have "decodes A f x" "A y" "value_end ?r" "value_end ?s" using Cons.prems(1,2) assms(4) by (auto simp: value_end_def ys)
    from decodesD [OF this(1) eq this(2-4)] have xy: "x = y" "?r = ?s" by blast+
    have "close \<noteq> CHR '',''" using assms(4) by auto
    then have "joinWith '','' (map f xs) @ close # r = joinWith '','' (map f zs) @ close # s"
      using xy(2) by (auto split: if_splits)
    then show ?thesis using Cons.IH Cons.prems(1,2) xy(1) ys by auto
  qed
qed

lemma numText_end:
  assumes "number_texts numText" "numText a @ r = numText b @ s" "value_end r" "value_end s"
  shows "a = b \<and> r = s"
proof -
  let ?P = "\<lambda>c. is_digit c \<or> c \<in> set ''-+.e''"
  have P: "list_all ?P (numText x)" for x using assms(1) by (simp add: number_texts_def)
  have stop: "takeWhile ?P (numText x @ t) = numText x" if "value_end t" for x t
  proof -
    have "takeWhile ?P t = []"
      using that by (cases t) (auto simp: value_end_def is_digit_def Let_def)
    then show ?thesis using P [of x] by (subst takeWhile_append2) (auto simp: list_all_iff)
  qed
  have "numText a = numText b" using stop [OF assms(3), of a] stop [OF assms(4), of b] assms(2) by simp
  then show ?thesis using assms(1,2) by (auto simp: number_texts_def inj_def)
qed

text \<open>The first character of a text tells the kind of the value.\<close>

definition kindOf :: "char \<Rightarrow> nat" where
  "kindOf c = (if c = CHR ''n'' then 0 else if c = CHR ''t'' then 1 else if c = CHR ''f'' then 2
     else if c = CHR 34 then 4 else if c = CHR ''['' then 5 else if c = CHR ''{'' then 6 else 3)"

fun finite_json :: "json \<Rightarrow> bool" where
  "finite_json (JNum n) = (case n of Fin _ \<Rightarrow> True | _ \<Rightarrow> False)"
| "finite_json (JArr xs) = list_all finite_json xs"
| "finite_json (JObj kvs) = list_all (\<lambda>(k, v). finite_json v) kvs"
| "finite_json _ = True"

fun valueKind :: "json \<Rightarrow> nat" where
  "valueKind JNull = 0"
| "valueKind (JBool b) = (if b then 1 else 2)"
| "valueKind (JNum n) = (case n of Fin _ \<Rightarrow> 3 | _ \<Rightarrow> 0)"
| "valueKind (JStr s) = 4"
| "valueKind (JArr xs) = 5"
| "valueKind (JObj kvs) = 6"

lemma number_char: "is_digit c \<or> c \<in> set ''-+.e'' \<Longrightarrow> c \<notin> set ''ntf[{]}'' \<and> c \<noteq> CHR 34"
  by (auto simp: is_digit_def Let_def)

lemma print_start:
  assumes "number_texts numText"
  shows "\<exists>c cs. printJson numText v = c # cs \<and> kindOf c = valueKind v \<and> c \<notin> set '']}''"
proof (cases v)
  case (JNum n)
  show ?thesis
  proof (cases n)
    case (Fin r)
    obtain c cs where c: "numText r = c # cs" "is_digit c \<or> c \<in> set ''-+.e''"
      using assms by (cases "numText r") (auto simp: number_texts_def dest!: spec [of _ r])
    have "kindOf c = 3" "c \<notin> set '']}''" using number_char [OF c(2)] by (auto simp: kindOf_def)
    moreover have "printJson numText v = c # cs" "valueKind v = 3" using JNum Fin c(1) by (simp_all add: numberText_def)
    ultimately show ?thesis by (intro exI [of _ c] exI [of _ cs]) simp
  qed (use JNum in \<open>simp_all add: numberText_def kindOf_def\<close>)
qed (simp_all add: kindOf_def jsonString_def)


lemma same_kind:
  assumes "number_texts numText" "printJson numText v @ r = printJson numText w @ s"
  shows "valueKind v = valueKind w"
  using print_start [OF assms(1), of v] print_start [OF assms(1), of w] assms(2) by auto

lemma kind_cases:
  "valueKind w = 0 \<Longrightarrow> finite_json w \<Longrightarrow> w = JNull" "valueKind w = 1 \<Longrightarrow> w = JBool True" "valueKind w = 2 \<Longrightarrow> w = JBool False"
  "valueKind w = 3 \<Longrightarrow> \<exists>b. w = JNum (Fin b)" "valueKind w = 4 \<Longrightarrow> \<exists>y. w = JStr y"
  "valueKind w = 5 \<Longrightarrow> \<exists>ys. w = JArr ys" "valueKind w = 6 \<Longrightarrow> \<exists>ys. w = JObj ys"
  by (cases w; simp split: if_splits jnum.splits)+

lemma print_decodes:
  assumes "number_texts numText"
  shows "finite_json v \<Longrightarrow> decodes finite_json (printJson numText) v"
proof (induction v)
  case JNull
  show ?case unfolding decodes_def
  proof (intro allI impI)
    fix w r s assume w: "finite_json w" "printJson numText JNull @ r = printJson numText w @ s"
    have "valueKind w = 0" using same_kind [OF assms w(2)] by simp
    then have "w = JNull" using w(1) by (rule kind_cases(1))
    then show "JNull = w \<and> r = s" using w(2) by simp
  qed
next
  case (JBool b)
  show ?case unfolding decodes_def
  proof (intro allI impI)
    fix w r s assume w: "finite_json w" "printJson numText (JBool b) @ r = printJson numText w @ s"
    have "valueKind w = (if b then 1 else 2)" using same_kind [OF assms w(2)] by simp
    then have "w = JBool b" using kind_cases(2,3) by (metis (full_types))
    then show "JBool b = w \<and> r = s" using w(2) by simp
  qed
next
  case (JNum n)
  then obtain a where a: "n = Fin a" by (cases n) auto
  show ?case unfolding decodes_def
  proof (intro allI impI)
    fix w r s assume w: "finite_json w" "value_end r" "value_end s" "printJson numText (JNum n) @ r = printJson numText w @ s"
    obtain b where "w = JNum (Fin b)" using same_kind [OF assms w(4)] kind_cases(4) [of w] a by auto
    then show "JNum n = w \<and> r = s" using numText_end [OF assms _ w(2,3), of a b] w(4) a by (simp add: numberText_def)
  qed
next
  case (JStr x)
  show ?case unfolding decodes_def
  proof (intro allI impI)
    fix w r s assume w: "finite_json w" "printJson numText (JStr x) @ r = printJson numText w @ s"
    obtain y where "w = JStr y" using same_kind [OF assms w(2)] kind_cases(5) [of w] by auto
    then have "jsonString x @ r = jsonString y @ s" using w(2) by simp
    then show "JStr x = w \<and> r = s" using jsonString_decodes \<open>w = JStr y\<close> by blast
  qed
next
  case (JArr xs)
  show ?case unfolding decodes_def
  proof (intro allI impI)
    fix w r s assume w: "finite_json w" "printJson numText (JArr xs) @ r = printJson numText w @ s"
    obtain ys where ys: "w = JArr ys" using same_kind [OF assms w(2)] kind_cases(6) [of w] by auto
    have "xs = ys \<and> r = s"
    proof (rule list_decodes [where f = "printJson numText" and close = "CHR '']''" and A = finite_json])
      show "\<forall>x \<in> set xs. decodes finite_json (printJson numText) x"
        using JArr by (auto simp: list_all_iff)
      show "\<exists>c cs. printJson numText y = c # cs \<and> c \<noteq> CHR '']''" for y
        using print_start [OF assms, of y] by auto
    qed (use w ys in \<open>auto simp: list_all_iff\<close>)
    then show "JArr xs = w \<and> r = s" using ys by simp
  qed
next
  case (JObj kvs)
  let ?f = "\<lambda>(k, v). jsonString k @ '':'' @ printJson numText v"
  show ?case unfolding decodes_def
  proof (intro allI impI)
    fix w r s assume w: "finite_json w" "printJson numText (JObj kvs) @ r = printJson numText w @ s"
    obtain ys where ys: "w = JObj ys" using same_kind [OF assms w(2)] kind_cases(7) [of w] by auto
    have "kvs = ys \<and> r = s"
    proof (rule list_decodes [where f = ?f and close = "CHR ''}''" and A = "\<lambda>(k, v). finite_json v"])
      show "\<forall>x \<in> set kvs. decodes (\<lambda>(k, v). finite_json v) ?f x"
      proof
        fix x assume x: "x \<in> set kvs"
        obtain k v where kv: "x = (k, v)" by force
        have v: "decodes finite_json (printJson numText) v" using JObj x kv by (auto simp: list_all_iff)
        show "decodes (\<lambda>(k, v). finite_json v) ?f x"
          unfolding decodes_def kv
        proof (intro allI impI)
          fix y r s assume y: "case y of (k, v) \<Rightarrow> finite_json v" "value_end r" "value_end s" "?f (k, v) @ r = ?f y @ s"
          obtain l u where l: "y = (l, u)" by force
          have "jsonString k @ CHR '':'' # printJson numText v @ r = jsonString l @ CHR '':'' # printJson numText u @ s"
            using y(4) l by simp
          from jsonString_decodes [OF this] have "k = l" "printJson numText v @ r = printJson numText u @ s" by simp_all
          then show "(k, v) = y \<and> r = s" using decodesD [OF v _ _ y(2,3)] y(1) l by simp
        qed
      qed
      show "\<exists>c cs. ?f y = c # cs \<and> c \<noteq> CHR ''}''" for y
        by (simp add: jsonString_def case_prod_unfold)
    qed (use w ys in \<open>auto simp: list_all_iff\<close>)
    then show "JObj kvs = w \<and> r = s" using ys by simp
  qed
qed

lemma finite_canonical: "finite_json (canonicalValue v)"
proof (induction v)
  case (JObj kvs)
  have "finite_json (the (map_of (map (\<lambda>(k, v). (k, canonicalValue v)) kvs) k))" if k: "k \<in> set (sortedKeys kvs)" for k
    using sortedKeys_in [OF k] JObj by (auto simp: map_of_map_snd)
  then show ?case by (simp add: Let_def list_all_iff sortedKeys_map)
qed (simp_all add: list_all_iff split: jnum.split)

lemma canonicalJson_inj:
  assumes "number_texts numText"
  shows "canonicalJson numText v = canonicalJson numText w \<longleftrightarrow> canonicalValue v = canonicalValue w"
proof
  assume "canonicalJson numText v = canonicalJson numText w"
  then have "printJson numText (canonicalValue v) @ [] = printJson numText (canonicalValue w) @ []"
    by (simp add: canonicalJson_prints)
  then show "canonicalValue v = canonicalValue w"
    using print_decodes [OF assms finite_canonical] finite_canonical unfolding decodes_def
    by (metis value_end_def)
qed (simp add: canonicalJson_prints)

section \<open>The journal file\<close>

definition WORKFLOW_JOURNAL_VERSION :: rat where
  "WORKFLOW_JOURNAL_VERSION = 2"

record journal_entry =
  je_key :: string
  je_value :: json
  je_completedAt :: string

record stored_journal =
  sj_id :: string
  sj_contextHash :: string
  sj_context :: jsval
  sj_updatedAt :: string
  sj_entries :: "journal_entry list"

text \<open>A JavaScript \<open>Map\<close> from keys to entries keeps the place of a key that is set again.\<close>

type_synonym entry_map = "(string \<times> journal_entry) list"

record journal =
  jn_id :: string
  jn_contextHash :: string
  jn_context :: json
  jn_entries :: entry_map

datatype journal_error =
    EmptyId | LongId | NotSerializable | TooLarge nat | CorruptJournal | InvalidEntry
  | IdentityMismatch | ContextMismatch

fun parseEntries :: "json list \<Rightarrow> journal_error + journal_entry list" where
  "parseEntries [] = Inr []"
| "parseEntries (e # es) =
     (case (asStr (get (Some e) ''key''), get (Some e) ''value'', asStr (get (Some e) ''completedAt'')) of
        (Some k, Some v, Some t) \<Rightarrow>
          bind_r (parseEntries es) (\<lambda>rest. Inr (\<lparr>je_key = k, je_value = v, je_completedAt = t\<rparr> # rest))
      | _ \<Rightarrow> Inl InvalidEntry)"

text \<open>\<open>epoch\<close> is the text of \<open>new Date(0)\<close>.\<close>

definition parseStoredJournal :: "string \<Rightarrow> jsval \<Rightarrow> journal_error + stored_journal" where
  "parseStoredJournal epoch v =
     (case (asStr (get v ''id''), asStr (get v ''contextHash''), asArr (get v ''entries'')) of
        (Some i, Some h, Some es) \<Rightarrow>
          if \<not> jIs (get v ''version'') WORKFLOW_JOURNAL_VERSION then Inl CorruptJournal
          else bind_r (parseEntries es) (\<lambda>entries.
            Inr \<lparr>sj_id = i, sj_contextHash = h, sj_context = get v ''context'',
              sj_updatedAt = (case asStr (get v ''updatedAt'') of Some t \<Rightarrow> t | None \<Rightarrow> epoch), sj_entries = entries\<rparr>)
      | _ \<Rightarrow> Inl CorruptJournal)"

text \<open>The file: missing, or what \<open>readJsonFile\<close> makes of it (\<open>undefined\<close> when it is no JSON).\<close>

definition readStoredJournal :: "string \<Rightarrow> jsval option \<Rightarrow> journal_error + stored_journal option" where
  "readStoredJournal epoch file =
     (case file of None \<Rightarrow> Inr None | Some v \<Rightarrow> bind_r (parseStoredJournal epoch v) (\<lambda>s. Inr (Some s)))"

definition assertJournalIdentity :: "stored_journal \<Rightarrow> string \<Rightarrow> string \<Rightarrow> journal_error + unit" where
  "assertJournalIdentity stored i contextHash =
     (if sj_id stored \<noteq> i then Inl IdentityMismatch
      else if sj_contextHash stored \<noteq> contextHash then Inl ContextMismatch
      else Inr ())"

text \<open>\<open>JSON.stringify\<close> of a value: it throws, gives no text, or a text of some bytes.\<close>

datatype encoded = Throws | NoText | Encoded json nat

definition exactJournalValue :: "encoded \<Rightarrow> nat \<Rightarrow> journal_error + json" where
  "exactJournalValue v maxBytes =
     (case v of
        Throws \<Rightarrow> Inl NotSerializable
      | NoText \<Rightarrow> Inl NotSerializable
      | Encoded j bytes \<Rightarrow> if bytes > maxBytes then Inl (TooLarge bytes) else Inr j)"

definition entryMap :: "journal_entry list \<Rightarrow> entry_map" where
  "entryMap es = fold (\<lambda>e m. AList.update (je_key e) e m) es []"

definition storedEntries :: "stored_journal option \<Rightarrow> journal_entry list" where
  "storedEntries s = (case s of None \<Rightarrow> [] | Some s \<Rightarrow> sj_entries s)"

definition checkIdentity :: "stored_journal option \<Rightarrow> string \<Rightarrow> string \<Rightarrow> journal_error + unit" where
  "checkIdentity s i h = (case s of None \<Rightarrow> Inr () | Some s \<Rightarrow> assertJournalIdentity s i h)"

definition openWorkflowJournal ::
  "(rat \<Rightarrow> string) \<Rightarrow> (string \<Rightarrow> string) \<Rightarrow> string \<Rightarrow> string \<Rightarrow> encoded \<Rightarrow> jsval option \<Rightarrow> journal_error + journal" where
  "openWorkflowJournal numText sha epoch rawId context file =
     (let i = js_trim rawId in
      if i = [] then Inl EmptyId
      else if utf8_length i > 512 then Inl LongId
      else bind_r (exactJournalValue context (1024 * 1024)) (\<lambda>c.
        let h = sha (canonicalJson numText c) in
        bind_r (readStoredJournal epoch file) (\<lambda>stored.
          bind_r (checkIdentity stored i h) (\<lambda>_.
            Inr \<lparr>jn_id = i, jn_contextHash = h, jn_context = c, jn_entries = entryMap (storedEntries stored)\<rparr>))))"

definition entryJson :: "journal_entry \<Rightarrow> json" where
  "entryJson e = obj [(''key'', Some (JStr (je_key e))), (''value'', Some (je_value e)),
     (''completedAt'', Some (JStr (je_completedAt e)))]"

definition journalJson :: "journal \<Rightarrow> string \<Rightarrow> entry_map \<Rightarrow> json" where
  "journalJson j updatedAt m =
     obj [(''version'', Some (JNum (Fin WORKFLOW_JOURNAL_VERSION))), (''id'', Some (JStr (jn_id j))),
       (''contextHash'', Some (JStr (jn_contextHash j))), (''context'', Some (jn_context j)),
       (''updatedAt'', Some (JStr updatedAt)), (''entries'', Some (JArr (map (entryJson \<circ> snd) m)))]"

text \<open>\<open>persistWorkflowJournalEntry\<close> while it holds the lock: the result, the file, the journal in memory.\<close>

definition persistWorkflowJournalEntry ::
  "string \<Rightarrow> string \<Rightarrow> journal \<Rightarrow> journal_entry \<Rightarrow> jsval option \<Rightarrow> (journal_error + unit) \<times> jsval option \<times> journal" where
  "persistWorkflowJournalEntry epoch now j e file =
     (case bind_r (readStoredJournal epoch file) (\<lambda>stored.
            bind_r (checkIdentity stored (jn_id j) (jn_contextHash j)) (\<lambda>_. Inr stored)) of
        Inl err \<Rightarrow> (Inl err, file, j)
      | Inr stored \<Rightarrow>
          let m = AList.update (je_key e) e (entryMap (storedEntries stored))
          in (Inr (), Some (Some (journalJson j now m)), j\<lparr>jn_entries := m\<rparr>))"

section \<open>A journal file is a map\<close>

definition keyed :: "entry_map \<Rightarrow> bool" where
  "keyed m \<longleftrightarrow> distinct (map fst m) \<and> (\<forall>(k, e) \<in> set m. k = je_key e)"

lemma update_fresh: "k \<notin> fst ` set m \<Longrightarrow> AList.update k v m = m @ [(k, v)]"
  by (induction m) auto

lemma set_update: "set (AList.update k v m) \<subseteq> insert (k, v) (set m)"
  by (induction m) auto

lemma keyed_update: "keyed m \<Longrightarrow> keyed (AList.update (je_key e) e m)"
  using distinct_update [of m "je_key e" e] set_update [of "je_key e" e m] unfolding keyed_def by fast

lemma keyed_fold: "keyed m \<Longrightarrow> keyed (fold (\<lambda>e m. AList.update (je_key e) e m) es m)"
  by (induction es arbitrary: m) (simp_all add: keyed_update)

lemma keyed_entryMap: "keyed (entryMap es)"
  unfolding entryMap_def by (rule keyed_fold) (simp add: keyed_def)

lemma entryMap_written: "keyed m \<Longrightarrow> entryMap (map snd m) = m"
proof (induction m rule: rev_induct)
  case (snoc x m)
  obtain k e where x: "x = (k, e)" by force
  have "keyed m" "k = je_key e" "k \<notin> fst ` set m" using snoc.prems x by (auto simp: keyed_def)
  then show ?case using snoc.IH update_fresh [of k m e] x by (simp add: entryMap_def)
qed (simp add: entryMap_def)

lemma parseEntries_written: "parseEntries (map entryJson es) = Inr es"
  by (induction es) (simp_all add: entryJson_def get_obj_Cons get_obj_Nil)

lemma readStored_written:
  "readStoredJournal epoch (Some (Some (journalJson j now m))) =
     Inr (Some \<lparr>sj_id = jn_id j, sj_contextHash = jn_contextHash j, sj_context = Some (jn_context j), sj_updatedAt = now,
       sj_entries = map snd m\<rparr>)"
  using parseEntries_written [of "map snd m"]
  by (simp add: readStoredJournal_def parseStoredJournal_def journalJson_def get_obj_Cons comp_def)

text \<open>What a run of the workflow \<open>i\<close> with the context hash \<open>h\<close> finds in the file; \<open>None\<close> when it may not use it.\<close>

definition journalView :: "string \<Rightarrow> string \<Rightarrow> string \<Rightarrow> jsval option \<Rightarrow> (string \<rightharpoonup> journal_entry) option" where
  "journalView epoch i h file =
     (case bind_r (readStoredJournal epoch file) (\<lambda>s. bind_r (checkIdentity s i h) (\<lambda>_. Inr s)) of
        Inl _ \<Rightarrow> None
      | Inr s \<Rightarrow> Some (map_of (entryMap (storedEntries s))))"

lemma journalView_written:
  "keyed m \<Longrightarrow> journalView epoch i h (Some (Some (journalJson j now m))) =
     (if jn_id j = i \<and> jn_contextHash j = h then Some (map_of m) else None)"
  by (simp add: journalView_def readStored_written checkIdentity_def assertJournalIdentity_def storedEntries_def
      entryMap_written)

lemma opened:
  "openWorkflowJournal numText sha epoch rawId ctx fl = Inr j \<longleftrightarrow>
     (let i = js_trim rawId in i \<noteq> [] \<and> utf8_length i \<le> 512 \<and>
       (\<exists>c. exactJournalValue ctx (1024 * 1024) = Inr c \<and>
         (let h = sha (canonicalJson numText c) in
          \<exists>s. bind_r (readStoredJournal epoch fl) (\<lambda>s. bind_r (checkIdentity s i h) (\<lambda>_. Inr s)) = Inr s \<and>
            j = \<lparr>jn_id = i, jn_contextHash = h, jn_context = c, jn_entries = entryMap (storedEntries s)\<rparr>)))"
  by (auto simp: openWorkflowJournal_def Let_def)

lemma opened_view:
  "openWorkflowJournal numText sha epoch rawId ctx fl = Inr j \<Longrightarrow>
     journalView epoch (jn_id j) (jn_contextHash j) fl = Some (map_of (jn_entries j))"
  by (auto simp: opened Let_def journalView_def)

lemma reopened:
  assumes "openWorkflowJournal numText sha epoch rawId ctx fl = Inr j"
    and "journalView epoch (jn_id j) (jn_contextHash j) fl' = Some M"
  shows "\<exists>j'. openWorkflowJournal numText sha epoch rawId ctx fl' = Inr j' \<and> map_of (jn_entries j') = M \<and>
    jn_id j' = jn_id j \<and> jn_contextHash j' = jn_contextHash j"
proof -
  obtain s where s: "bind_r (readStoredJournal epoch fl') (\<lambda>s. bind_r (checkIdentity s (jn_id j) (jn_contextHash j)) (\<lambda>_. Inr s)) = Inr s"
    "M = map_of (entryMap (storedEntries s))"
    using assms(2) by (auto simp: journalView_def split: sum.splits)
  show ?thesis
    using assms(1) s unfolding opened Let_def by (intro exI [of _ "j\<lparr>jn_entries := entryMap (storedEntries s)\<rparr>"]) auto
qed

lemma persist_view:
  assumes "journalView epoch (jn_id j) (jn_contextHash j) fl = Some M"
    and "persistWorkflowJournalEntry epoch now j e fl = r"
  shows "journalView epoch (jn_id j) (jn_contextHash j) (fst (snd r)) = Some (M(je_key e \<mapsto> e)) \<and>
    fst r = Inr () \<and> fst (snd r) \<noteq> None \<and> map_of (jn_entries (snd (snd r))) = M(je_key e \<mapsto> e)"
proof -
  obtain s where s: "bind_r (readStoredJournal epoch fl)
      (\<lambda>s. bind_r (checkIdentity s (jn_id j) (jn_contextHash j)) (\<lambda>_. Inr s)) = Inr s"
    "M = map_of (entryMap (storedEntries s))"
    using assms(1) by (auto simp: journalView_def split: sum.splits)
  let ?m = "AList.update (je_key e) e (entryMap (storedEntries s))"
  have "keyed ?m" by (intro keyed_update keyed_entryMap)
  then have "journalView epoch (jn_id j) (jn_contextHash j) (Some (Some (journalJson j now ?m))) = Some (map_of ?m)"
    by (simp add: journalView_written)
  then show ?thesis using s assms(2) by (auto simp: persistWorkflowJournalEntry_def Let_def update_conv')
qed

lemma persist_fails:
  assumes "journalView epoch (jn_id j) (jn_contextHash j) fl = None"
  shows "\<exists>err. persistWorkflowJournalEntry epoch now j e fl = (Inl err, fl, j)"
  using assms by (auto simp: journalView_def persistWorkflowJournalEntry_def split: sum.splits)

text \<open>C34. The journal file implements a map: an entry is persisted exactly when the file belongs to the workflow
  and its context, then the map has the new entry and the journal in memory is that map, and in every
  other case the file stays as it was; opening the journal gives the map.\<close>

theorem journal_is_a_map:
  "(case journalView epoch (jn_id j) (jn_contextHash j) fl of
      None \<Rightarrow> \<exists>err. persistWorkflowJournalEntry epoch now j e fl = (Inl err, fl, j)
    | Some M \<Rightarrow> \<exists>fl' j'. persistWorkflowJournalEntry epoch now j e fl = (Inr (), fl', j') \<and>
        journalView epoch (jn_id j) (jn_contextHash j) fl' = Some (M(je_key e \<mapsto> e)) \<and>
        map_of (jn_entries j') = M(je_key e \<mapsto> e)) \<and>
   (openWorkflowJournal numText sha epoch rawId ctx fl = Inr opened \<longrightarrow>
      journalView epoch (jn_id opened) (jn_contextHash opened) fl = Some (map_of (jn_entries opened)))"
proof
  show "case journalView epoch (jn_id j) (jn_contextHash j) fl of
      None \<Rightarrow> \<exists>err. persistWorkflowJournalEntry epoch now j e fl = (Inl err, fl, j)
    | Some M \<Rightarrow> \<exists>fl' j'. persistWorkflowJournalEntry epoch now j e fl = (Inr (), fl', j') \<and>
        journalView epoch (jn_id j) (jn_contextHash j) fl' = Some (M(je_key e \<mapsto> e)) \<and>
        map_of (jn_entries j') = M(je_key e \<mapsto> e)"
    using persist_fails [of epoch j fl now e] persist_view [of epoch j fl _ now e]
    by (cases "persistWorkflowJournalEntry epoch now j e fl") (auto split: option.split)
qed (auto dest: opened_view)

text \<open>Operations of many workflows on one file.\<close>

definition journal_put :: "string \<Rightarrow> string \<times> journal \<times> journal_entry \<Rightarrow> jsval option \<Rightarrow> jsval option" where
  "journal_put epoch ev fl = (case ev of (now, j, e) \<Rightarrow> fst (snd (persistWorkflowJournalEntry epoch now j e fl)))"


text \<open>A store of values under keys: one operation sets at most one key.\<close>

locale keyed_store =
  fixes put :: "'op \<Rightarrow> 's \<Rightarrow> 's"
    and view :: "'s \<Rightarrow> 'k \<rightharpoonup> 'v"
    and effect :: "'op \<Rightarrow> ('k \<times> 'v) option"
    and ok :: "'s \<Rightarrow> bool"
  assumes put_ok: "ok s \<Longrightarrow> ok (put ev s)"
    and put_view: "ok s \<Longrightarrow> view (put ev s) = (case effect ev of None \<Rightarrow> view s | Some (k, v) \<Rightarrow> (view s)(k \<mapsto> v))"
begin

lemma puts_ok: "ok s \<Longrightarrow> ok (fold put ops s)"
  by (induction ops arbitrary: s) (simp_all add: put_ok)

lemma puts_view: "ok s \<Longrightarrow> view (fold put ops s) = view s ++ map_of (rev (List.map_filter effect ops))"
  by (induction ops arbitrary: s)
    (auto simp: put_ok put_view List.map_filter_simps map_add_upd_left split: option.split)

lemma puts_keep:
  assumes "ok s" "\<forall>ev \<in> set ops. \<forall>v. effect ev \<noteq> Some (k, v)"
  shows "view (fold put ops s) k = view s k"
  using assms by (induction ops arbitrary: s) (auto simp: put_ok put_view split: option.split)

end

definition journal_effect :: "string \<Rightarrow> string \<Rightarrow> string \<times> journal \<times> journal_entry \<Rightarrow> (string \<times> journal_entry) option" where
  "journal_effect i h ev = (case ev of (_, j, e) \<Rightarrow>
     if jn_id j = i \<and> jn_contextHash j = h then Some (je_key e, e) else None)"

definition journal_holds :: "string \<Rightarrow> string \<Rightarrow> string \<Rightarrow> jsval option \<Rightarrow> bool" where
  "journal_holds epoch i h fl \<longleftrightarrow> fl \<noteq> None \<and> journalView epoch i h fl \<noteq> None"

lemma journalView_other:
  "journal_holds epoch i h fl \<Longrightarrow> \<not> (i' = i \<and> h' = h) \<Longrightarrow> journalView epoch i' h' fl = None"
  by (cases fl) (auto simp: journal_holds_def journalView_def readStoredJournal_def checkIdentity_def
      assertJournalIdentity_def split: sum.splits if_splits)

interpretation journal: keyed_store "journal_put epoch" "\<lambda>fl. the (journalView epoch i h fl)" "journal_effect i h"
    "journal_holds epoch i h" for epoch i h
proof
  fix ev :: "string \<times> journal \<times> journal_entry" and fl assume ok: "journal_holds epoch i h fl"
  obtain now j e where ev: "ev = (now, j, e)" by (cases ev) auto
  have "journal_holds epoch i h (journal_put epoch ev fl) \<and>
    the (journalView epoch i h (journal_put epoch ev fl)) =
      (case journal_effect i h ev of None \<Rightarrow> the (journalView epoch i h fl)
       | Some (k, v) \<Rightarrow> (the (journalView epoch i h fl))(k \<mapsto> v))"
  proof (cases "jn_id j = i \<and> jn_contextHash j = h")
    case True
    then obtain M where M: "journalView epoch (jn_id j) (jn_contextHash j) fl = Some M" using ok by (auto simp: journal_holds_def)
    show ?thesis using persist_view [OF M refl, of now e] True M
      by (auto simp: journal_holds_def journal_put_def journal_effect_def ev)
  next
    case False
    have "journalView epoch (jn_id j) (jn_contextHash j) fl = None" by (rule journalView_other [OF ok False])
    from persist_fails [OF this, of now e] show ?thesis using ok False
      by (auto simp: journal_put_def journal_effect_def ev)
  qed
  then show "journal_holds epoch i h (journal_put epoch ev fl)"
    "the (journalView epoch i h (journal_put epoch ev fl)) =
      (case journal_effect i h ev of None \<Rightarrow> the (journalView epoch i h fl)
       | Some (k, v) \<Rightarrow> (the (journalView epoch i h fl))(k \<mapsto> v))" by simp_all
qed


lemma persisted_holds:
  assumes "openWorkflowJournal numText sha epoch rawId ctx fl = Inr j"
    and "persistWorkflowJournalEntry epoch now j e fl = (Inr u, fl1, j1)"
  shows "journal_holds epoch (jn_id j) (jn_contextHash j) fl1 \<and>
    the (journalView epoch (jn_id j) (jn_contextHash j) fl1) (je_key e) = Some e"
  using persist_view [OF opened_view [OF assms(1)] assms(2)] by (auto simp: journal_holds_def)

text \<open>A finished step is not lost: once its value is persisted, and whatever workflows persist afterwards, of
  this or another context, a run with the same id and context finds the value, unless a run of the
  same workflow persisted the key again.\<close>

theorem cached_step_survives:
  assumes "openWorkflowJournal numText sha epoch rawId ctx fl = Inr j"
    and "persistWorkflowJournalEntry epoch now j e fl = (Inr u, fl1, j1)"
    and "\<forall>(now', j', e') \<in> set evs. je_key e' = je_key e \<longrightarrow>
      jn_id j' \<noteq> jn_id j \<or> jn_contextHash j' \<noteq> jn_contextHash j"
  shows "\<exists>j2. openWorkflowJournal numText sha epoch rawId ctx (fold (journal_put epoch) evs fl1) = Inr j2 \<and>
    map_of (jn_entries j2) (je_key e) = Some e"
proof -
  let ?fl2 = "fold (journal_put epoch) evs fl1"
  note held = persisted_holds [OF assms(1,2)]
  then have ok: "journal_holds epoch (jn_id j) (jn_contextHash j) fl1" by blast
  have "\<forall>ev \<in> set evs. \<forall>v. journal_effect (jn_id j) (jn_contextHash j) ev \<noteq> Some (je_key e, v)"
    using assms(3) by (auto simp: journal_effect_def split: if_splits)
  from journal.puts_keep [OF ok this] held
  have "the (journalView epoch (jn_id j) (jn_contextHash j) ?fl2) (je_key e) = Some e" by simp
  moreover obtain M where M: "journalView epoch (jn_id j) (jn_contextHash j) ?fl2 = Some M"
    using journal.puts_ok [OF ok, of evs] by (auto simp: journal_holds_def)
  ultimately show ?thesis using reopened [OF assms(1) M] by auto
qed

text \<open>C27. Values are replayed only in the context they were computed in: if a journal is opened under the id of an
  entry that was persisted before, its context is the context of then, up to the order of the keys
  of objects. SHA-256 has to separate the texts of these two contexts.\<close>

theorem replay_needs_the_context:
  assumes "number_texts numText"
    and "sha (canonicalJson numText c') = sha (canonicalJson numText c) \<longrightarrow> canonicalJson numText c' = canonicalJson numText c"
    and "openWorkflowJournal numText sha epoch rawId (Encoded c n) fl = Inr j"
    and "persistWorkflowJournalEntry epoch now j e fl = (Inr u, fl1, j1)"
    and "openWorkflowJournal numText sha epoch rawId' (Encoded c' n') (fold (journal_put epoch) evs fl1) = Inr j'"
    and "jn_id j' = jn_id j"
  shows "canonicalValue c' = canonicalValue c"
proof -
  have ok: "journal_holds epoch (jn_id j) (jn_contextHash j) fl1" using persisted_holds [OF assms(3,4)] by blast
  have "jn_contextHash j' = jn_contextHash j"
    using journalView_other [OF journal.puts_ok [OF ok], of "jn_id j'" "jn_contextHash j'" evs] opened_view [OF assms(5)] assms(6)
    by (metis option.distinct(1))
  moreover have "jn_contextHash j = sha (canonicalJson numText c)" "jn_contextHash j' = sha (canonicalJson numText c')"
    using assms(3,5) by (auto simp: opened Let_def exactJournalValue_def split: if_splits)
  ultimately show ?thesis using assms(2) canonicalJson_inj [OF assms(1)] by metis
qed

section \<open>Concrete instances\<close>

definition sampleEntry :: journal_entry where
  "sampleEntry = \<lparr>je_key = ''scan'', je_value = JStr ''ok'', je_completedAt = ''t''\<rparr>"

definition sampleJournal :: journal where
  "sampleJournal = \<lparr>jn_id = ''run'', jn_contextHash = ''null'', jn_context = JNull, jn_entries = []\<rparr>"

text \<open>A text for every number: its sign, numerator and denominator in unary.\<close>

definition unaryText :: "rat \<Rightarrow> string" where
  "unaryText r = (case quotient_of r of (a, b) \<Rightarrow>
     (if a < 0 then ''-'' else ''+'') @ replicate (nat \<bar>a\<bar>) CHR ''1'' @ ''e'' @ replicate (nat b) CHR ''1'')"

lemma unary_number_texts: "number_texts unaryText"
proof -
  have split: "m = n \<and> xs = ys" if "replicate m CHR ''1'' @ CHR ''e'' # xs = replicate n CHR ''1'' @ CHR ''e'' # ys"
    for m n and xs ys :: string
    using that
  proof (induction m arbitrary: n)
    case 0
    then show ?case by (cases n) auto
  next
    case (Suc m)
    then show ?case by (cases n) auto
  qed
  have "inj unaryText"
  proof (rule injI)
    fix r s assume eq: "unaryText r = unaryText s"
    obtain a b c d where q: "quotient_of r = (a, b)" "quotient_of s = (c, d)" by force
    have pos: "0 < b" "0 < d" using quotient_of_denom_pos q by auto
    let ?u = "\<lambda>a b. replicate (nat \<bar>a\<bar>) CHR ''1'' @ CHR ''e'' # replicate (nat b) CHR ''1''"
    have eq': "(if a < 0 then CHR ''-'' else CHR ''+'') # ?u a b = (if c < 0 then CHR ''-'' else CHR ''+'') # ?u c d"
      using eq by (simp add: unaryText_def q) (simp split: if_splits)
    then have sign: "a < 0 \<longleftrightarrow> c < 0" by (simp split: if_splits)
    have "?u a b = ?u c d" using eq' by (simp only: list.inject)
    from split [OF this] have "nat \<bar>a\<bar> = nat \<bar>c\<bar>" "length (replicate (nat b) CHR ''1'') = length (replicate (nat d) CHR ''1'')"
      by simp_all
    then have "a = c \<and> b = d" using pos sign by auto
    then show "r = s" using q by (metis quotient_of_inject)
  qed
  moreover have "unaryText r \<noteq> [] \<and> list_all (\<lambda>c. is_digit c \<or> c \<in> set ''-+.e'') (unaryText r)" for r
  proof -
    have "is_digit CHR ''1''" by (simp add: is_digit_def Let_def)
    moreover obtain a b where "quotient_of r = (a, b)" by force
    ultimately show ?thesis by (auto simp: unaryText_def list_all_iff dest!: in_set_replicate [THEN iffD1])
  qed
  ultimately show ?thesis by (simp add: number_texts_def)
qed

lemma sample_opens:
  "openWorkflowJournal numText (\<lambda>x. x) epoch ''run'' (Encoded JNull 4) None = Inr sampleJournal"
  by (simp add: openWorkflowJournal_def sampleJournal_def js_trim_def is_ws_def Let_def exactJournalValue_def
      readStoredJournal_def checkIdentity_def entryMap_def storedEntries_def char_bytes_def)

lemma sample_persists:
  "\<exists>fl j. persistWorkflowJournalEntry epoch now sampleJournal sampleEntry None = (Inr (), fl, j)"
  by (simp add: persistWorkflowJournalEntry_def readStoredJournal_def checkIdentity_def Let_def)

theorem cached_step_survives_witness:
  "\<exists>fl j2. openWorkflowJournal unaryText (\<lambda>x. x) ''t0'' ''run'' (Encoded JNull 4)
      (journal_put ''t0'' (''t2'', sampleJournal\<lparr>jn_id := ''other''\<rparr>, sampleEntry) fl) = Inr j2 \<and>
    map_of (jn_entries j2) ''scan'' = Some sampleEntry"
proof -
  obtain fl j where p: "persistWorkflowJournalEntry ''t0'' ''t1'' sampleJournal sampleEntry None = (Inr (), fl, j)"
    using sample_persists by blast
  show ?thesis
    using cached_step_survives [OF sample_opens p, of "[(''t2'', sampleJournal\<lparr>jn_id := ''other''\<rparr>, sampleEntry)]" unaryText]
    by (intro exI [of _ fl]) (simp add: sampleEntry_def sampleJournal_def)
qed

theorem replay_needs_the_context_witness:
  "number_texts unaryText \<and> canonicalValue JNull = JNull"
proof -
  obtain fl j where p: "persistWorkflowJournalEntry ''t0'' ''t1'' sampleJournal sampleEntry None = (Inr (), fl, j)"
    using sample_persists by blast
  obtain j2 where j2: "openWorkflowJournal unaryText (\<lambda>x. x) ''t0'' ''run'' (Encoded JNull 4) fl = Inr j2"
    "jn_id j2 = jn_id sampleJournal"
    using reopened [OF sample_opens] persist_view [OF opened_view [OF sample_opens] p] by fastforce
  from replay_needs_the_context [OF unary_number_texts _ sample_opens p, of JNull "''run''" 4 "[]" j2] j2
  show ?thesis using unary_number_texts by simp
qed

theorem journal_is_a_map_witness:
  "journalView ''t0'' ''run'' ''null'' None = Some (map_of [])"
  using journal_is_a_map [where epoch = "''t0''" and j = sampleJournal and fl = None and now = "''t1''"
      and e = sampleEntry and numText = unaryText and sha = "\<lambda>x. x" and rawId = "''run''" and ctx = "Encoded JNull 4"
      and opened = sampleJournal]
  by (simp add: sample_opens) (simp add: sampleJournal_def)

end
