(* ===== verification/WorkflowRun.thy ===== *)
theory WorkflowRun
  imports WorkflowJournal SubagentConfig
begin

text \<open>
  \<open>buildRuntime\<close> and \<open>execute\<close> of \<open>extensions/workflow/index.ts\<close> with \<open>workflow/promise-tracker.ts\<close>: one run of a
  workflow. The body of a workflow is an arbitrary program: its calls, the ends of its agents and of
  the values it computes are events in any order. A call of \<open>agent\<close> is tracked until it settles; the run
  ends when the body has ended and no tracked call is open. \<open>note\<close> texts, progress and the value that
  the body returns are not modelled.
\<close>

section \<open>The state of a run\<close>

datatype agent_status = AgentQueued | AgentRunning | AgentCompleted | AgentFailed

record agent_run =
  ar_agent :: string
  ar_task :: string
  ar_status :: agent_status
  ar_output :: "string option"
  ar_error :: "string option"
  ar_lastText :: "string option"
  ar_exitCode :: "int option"
  ar_updateCount :: nat

datatype run_status = RunRunning | RunCompleted | RunFailed

record details =
  d_phases :: "string list"
  d_logs :: "string list"
  d_agents :: "agent_run list"
  d_status :: run_status
  d_error :: "string option"
  d_replayedKeys :: "string list"
  d_computedKeys :: "string list"

text \<open>A tracked promise: already rejected, or the agent at an index still runs.\<close>

datatype tracked = Rejects string | Runs nat

datatype body_state = BodyRuns | Draining | Ended

record run =
  r_details :: details
  r_accepting :: bool
  r_pending :: "(nat \<times> tracked) list"
  r_calls :: nat
  r_firstError :: "string option"
  r_journal :: "journal option"
  r_body :: body_state

record agent_result =
  x_output :: string
  x_exitCode :: int
  x_stderr :: string
  x_errorMessage :: "string option"

text \<open>A status update of a running agent.\<close>

datatype live_status = LiveCompleted | LiveFailed | LiveCanceled | LiveQueued | LiveOther

datatype run_event =
    AgentCall "string option" string
  | AgentUpdate nat live_status string nat
  | AgentDone nat agent_result
  | AgentRejected nat
  | AgentThrows nat string
  | PhaseCall string
  | LogCall string
  | CacheCall string
  | CacheValue string encoded string
  | BodyReturns
  | BodyThrows string
  | Drained

datatype run_output =
    CallRefused string
  | Recorded nat
  | Replays json
  | Computes
  | Cached
  | GroupCancelled "string option"
  | NoOutput

definition MAX_PHASES :: nat where
  "MAX_PHASES = 100"

definition MAX_LOGS :: nat where
  "MAX_LOGS = 200"

definition limitDetail :: "string \<Rightarrow> nat \<Rightarrow> string" where
  "limitDetail s n = limitText ''workflow output'' s n"

definition updateDetails :: "(details \<Rightarrow> details) \<Rightarrow> run \<Rightarrow> run" where
  "updateDetails f r = r\<lparr>r_details := f (r_details r)\<rparr>"

section \<open>Agents\<close>

definition newAgent :: "string \<Rightarrow> string \<Rightarrow> agent_run" where
  "newAgent nm task = \<lparr>ar_agent = nm, ar_task = task, ar_status = AgentQueued, ar_output = None, ar_error = None,
     ar_lastText = None, ar_exitCode = None, ar_updateCount = 0\<rparr>"

text \<open>\<open>agent\<close>: the call is refused after the seal; otherwise its promise is tracked, also when it rejects at
  once because the prompt is no string or the fan-out is used up.\<close>

definition track :: "tracked \<Rightarrow> run \<Rightarrow> run" where
  "track t r = r\<lparr>r_pending := r_pending r @ [(r_calls r, t)], r_calls := r_calls r + 1\<rparr>"

definition agentCall :: "subagent_config \<Rightarrow> string option \<Rightarrow> string \<Rightarrow> run \<Rightarrow> run \<times> run_output" where
  "agentCall config prompt nm r =
     (if \<not> r_accepting r then (r, CallRefused ''Workflow is no longer accepting agent calls.'')
      else case prompt of
        None \<Rightarrow> (track (Rejects ''agent(prompt, opts?): prompt must be a string'') r, Recorded (r_calls r))
      | Some task \<Rightarrow>
          if maxFanout config \<le> int (length (d_agents (r_details r)))
          then (track (Rejects (''Workflow exceeds the maximum of '' @ intText (maxFanout config) @ '' agent calls.'')) r,
                Recorded (r_calls r))
          else (track (Runs (length (d_agents (r_details r))))
                  (updateDetails (\<lambda>d. d\<lparr>d_agents := d_agents d @ [newAgent nm task]\<rparr>) r), Recorded (r_calls r)))"

definition liveStatus :: "live_status \<Rightarrow> agent_status" where
  "liveStatus s = (case s of
     LiveCompleted \<Rightarrow> AgentCompleted | LiveFailed \<Rightarrow> AgentFailed | LiveCanceled \<Rightarrow> AgentFailed
   | LiveQueued \<Rightarrow> AgentQueued | LiveOther \<Rightarrow> AgentRunning)"

definition updateAgent :: "nat \<Rightarrow> (agent_run \<Rightarrow> agent_run) \<Rightarrow> run \<Rightarrow> run" where
  "updateAgent i f = updateDetails (\<lambda>d. d\<lparr>d_agents := (d_agents d)[i := f (d_agents d ! i)]\<rparr>)"

definition agentUpdate :: "nat \<Rightarrow> live_status \<Rightarrow> string \<Rightarrow> nat \<Rightarrow> run \<Rightarrow> run" where
  "agentUpdate c s txt count r =
     (case map_of (r_pending r) c of
        Some (Runs i) \<Rightarrow>
          updateAgent i (\<lambda>a. a\<lparr>ar_status := liveStatus s, ar_lastText := (if txt = [] then None else Some txt),
            ar_updateCount := count\<rparr>) r
      | _ \<Rightarrow> r)"

definition rememberError :: "string \<Rightarrow> run \<Rightarrow> run" where
  "rememberError e r = (if r_firstError r = None then r\<lparr>r_firstError := Some e\<rparr> else r)"

definition settle :: "nat \<Rightarrow> run \<Rightarrow> run" where
  "settle c r = r\<lparr>r_pending := filter (\<lambda>p. fst p \<noteq> c) (r_pending r)\<rparr>"

definition orText :: "string option \<Rightarrow> string \<Rightarrow> string" where
  "orText a b = (case a of None \<Rightarrow> b | Some s \<Rightarrow> if s = [] then b else s)"

definition failureText :: "agent_result \<Rightarrow> string" where
  "failureText x = orText (x_errorMessage x)
     (orText (Some (js_trim (x_stderr x))) (''agent exited with code '' @ intText (x_exitCode x)))"

definition agentFails :: "agent_result \<Rightarrow> bool" where
  "agentFails x \<longleftrightarrow> (x_errorMessage x \<noteq> None \<and> x_errorMessage x \<noteq> Some []) \<or> x_exitCode x \<noteq> 0"

definition agentDone :: "nat \<Rightarrow> agent_result \<Rightarrow> run \<Rightarrow> run" where
  "agentDone c x r =
     (case map_of (r_pending r) c of
        Some (Runs i) \<Rightarrow>
          let r1 = updateAgent i (\<lambda>a. a\<lparr>ar_exitCode := Some (x_exitCode x), ar_output := Some (x_output x),
                ar_status := (if agentFails x then AgentFailed else AgentCompleted),
                ar_error := (if agentFails x then Some (failureText x) else ar_error a)\<rparr>) r
          in if agentFails x
             then settle c (rememberError
               (''Agent '' @ ar_agent (d_agents (r_details r) ! i) @ '' failed: '' @ failureText x) r1)
             else settle c r1
      | _ \<Rightarrow> r)"

definition agentRejected :: "nat \<Rightarrow> run \<Rightarrow> run" where
  "agentRejected c r =
     (case map_of (r_pending r) c of Some (Rejects e) \<Rightarrow> settle c (rememberError e r) | _ \<Rightarrow> r)"

text \<open>\<open>runPiAgent\<close> itself throws: the agent keeps the status of its last update.\<close>

definition agentThrows :: "nat \<Rightarrow> string \<Rightarrow> run \<Rightarrow> run" where
  "agentThrows c e r =
     (case map_of (r_pending r) c of Some (Runs i) \<Rightarrow> settle c (rememberError e r) | _ \<Rightarrow> r)"

section \<open>Notes\<close>

definition phaseCall :: "string \<Rightarrow> run \<Rightarrow> run \<times> run_output" where
  "phaseCall title r =
     (if MAX_PHASES \<le> length (d_phases (r_details r))
      then (r, CallRefused ''Workflow exceeds the maximum of 100 phase markers.'')
      else (updateDetails (\<lambda>d. d\<lparr>d_phases := d_phases d @ [limitDetail title 500]\<rparr>) r, NoOutput))"

definition lastLogs :: "string list \<Rightarrow> string list" where
  "lastLogs ls = drop (length ls - MAX_LOGS) ls"

definition logCall :: "string \<Rightarrow> run \<Rightarrow> run" where
  "logCall msg = updateDetails (\<lambda>d. d\<lparr>d_logs := lastLogs (d_logs d @ [limitDetail msg 4000])\<rparr>)"

section \<open>Cached steps\<close>

definition addKey :: "string \<Rightarrow> string list \<Rightarrow> string list" where
  "addKey k ks = (if k \<in> set ks then ks else ks @ [k])"

text \<open>\<open>cache(key, producer)\<close> up to the call of the producer.\<close>

definition cacheCall :: "string \<Rightarrow> run \<Rightarrow> run \<times> run_output" where
  "cacheCall k r =
     (if js_trim k = [] then (r, CallRefused ''Workflow cache key must be non-empty.'')
      else if utf8_length k > 512 then (r, CallRefused ''Workflow cache key exceeds 512 UTF-8 bytes.'')
      else case r_journal r of
        None \<Rightarrow> (r, Computes)
      | Some j \<Rightarrow>
          (case map_of (jn_entries j) k of
             None \<Rightarrow> (r, Computes)
           | Some e \<Rightarrow>
               (logCall (''replay: '' @ [CHR 34] @ k @ [CHR 34] @ '' (from journal '' @ jn_id j @ '')'')
                 (updateDetails (\<lambda>d. d\<lparr>d_replayedKeys := addKey k (d_replayedKeys d)\<rparr>) r), Replays (je_value e))))"

definition journalErrorText :: "journal_error \<Rightarrow> string" where
  "journalErrorText e = (case e of
     EmptyId \<Rightarrow> ''Workflow journal id must be non-empty.''
   | LongId \<Rightarrow> ''Workflow journal id exceeds 512 UTF-8 bytes.''
   | NotSerializable \<Rightarrow> ''Workflow cache value is not JSON-serializable''
   | TooLarge n \<Rightarrow> ''Workflow cache value is '' @ natText n @ '' bytes''
   | CorruptJournal \<Rightarrow> ''Workflow journal is corrupt or uses an unsupported schema''
   | InvalidEntry \<Rightarrow> ''Workflow journal contains an invalid entry''
   | IdentityMismatch \<Rightarrow> ''Workflow journal identity mismatch''
   | ContextMismatch \<Rightarrow> ''Workflow journal was created for different workflow code'')"

text \<open>The rest of \<open>cache\<close> once the producer has a value: it is persisted, then the step counts as computed.\<close>

definition cacheValue ::
  "subagent_config \<Rightarrow> string \<Rightarrow> string \<Rightarrow> encoded \<Rightarrow> string \<Rightarrow> jsval option \<Rightarrow> run \<Rightarrow> run \<times> jsval option \<times> run_output" where
  "cacheValue config epoch k v now fl r =
     (case r_journal r of
        None \<Rightarrow> (r, fl, Cached)
      | Some j \<Rightarrow>
          (case exactJournalValue v (nat (maxCaptureBytes config)) of
             Inl e \<Rightarrow> (r, fl, CallRefused (journalErrorText e))
           | Inr value \<Rightarrow>
               (case persistWorkflowJournalEntry epoch now j \<lparr>je_key = k, je_value = value, je_completedAt = now\<rparr> fl of
                  (Inl e, fl', _) \<Rightarrow> (r, fl', CallRefused (journalErrorText e))
                | (Inr _, fl', j') \<Rightarrow>
                    (updateDetails (\<lambda>d. d\<lparr>d_computedKeys := addKey k (d_computedKeys d)\<rparr>) (r\<lparr>r_journal := Some j'\<rparr>),
                     fl', Cached))))"

section \<open>The end of a run\<close>

text \<open>The \<open>finally\<close> block: no more agents, and the group is cancelled after a failure.\<close>

definition bodyEnds :: "string option \<Rightarrow> run \<Rightarrow> run \<times> run_output" where
  "bodyEnds err r =
     (if r_body r \<noteq> BodyRuns then (r, NoOutput)
      else ((updateDetails (\<lambda>d. d\<lparr>d_status := (if err = None then RunCompleted else RunFailed), d_error := err\<rparr>) r)
             \<lparr>r_accepting := False, r_body := Draining\<rparr>,
            if err = None then NoOutput else GroupCancelled err))"

definition drained :: "run \<Rightarrow> run" where
  "drained r =
     (if r_body r \<noteq> Draining \<or> r_pending r \<noteq> [] then r
      else (updateDetails (\<lambda>d.
              if d_status d = RunCompleted \<and> r_firstError r \<noteq> None
              then d\<lparr>d_status := RunFailed, d_error := r_firstError r\<rparr> else d) r)\<lparr>r_body := Ended\<rparr>)"

definition run_step ::
  "subagent_config \<Rightarrow> string \<Rightarrow> run_event \<Rightarrow> run \<times> jsval option \<Rightarrow> (run \<times> jsval option) \<times> run_output" where
  "run_step config epoch ev s =
     (case s of (r, fl) \<Rightarrow>
       (case ev of
          AgentCall p nm \<Rightarrow> (case agentCall config p nm r of (r', out) \<Rightarrow> ((r', fl), out))
        | AgentUpdate c st txt n \<Rightarrow> ((agentUpdate c st txt n r, fl), NoOutput)
        | AgentDone c x \<Rightarrow> ((agentDone c x r, fl), NoOutput)
        | AgentRejected c \<Rightarrow> ((agentRejected c r, fl), NoOutput)
        | AgentThrows c e \<Rightarrow> ((agentThrows c e r, fl), NoOutput)
        | PhaseCall t \<Rightarrow> (case phaseCall t r of (r', out) \<Rightarrow> ((r', fl), out))
        | LogCall t \<Rightarrow> ((logCall t r, fl), NoOutput)
        | CacheCall k \<Rightarrow> (case cacheCall k r of (r', out) \<Rightarrow> ((r', fl), out))
        | CacheValue k v now \<Rightarrow> (case cacheValue config epoch k v now fl r of (r', fl', out) \<Rightarrow> ((r', fl'), out))
        | BodyReturns \<Rightarrow> (case bodyEnds None r of (r', out) \<Rightarrow> ((r', fl), out))
        | BodyThrows e \<Rightarrow> (case bodyEnds (Some e) r of (r', out) \<Rightarrow> ((r', fl), out))
        | Drained \<Rightarrow> ((drained r, fl), NoOutput)))"

definition startRun :: "journal option \<Rightarrow> run" where
  "startRun j = \<lparr>r_details = \<lparr>d_phases = [], d_logs = [], d_agents = [], d_status = RunRunning, d_error = None,
       d_replayedKeys = [], d_computedKeys = []\<rparr>,
     r_accepting = True, r_pending = [], r_calls = 0, r_firstError = None, r_journal = j, r_body = BodyRuns\<rparr>"


section \<open>The limits of a run\<close>

definition limits_ok :: "subagent_config \<Rightarrow> run \<Rightarrow> bool" where
  "limits_ok config r \<longleftrightarrow> int (length (d_agents (r_details r))) \<le> max 0 (maxFanout config) \<and>
     length (d_phases (r_details r)) \<le> MAX_PHASES \<and> length (d_logs (r_details r)) \<le> MAX_LOGS"

text \<open>Every agent that has not completed is still tracked, or a failure is remembered.\<close>

definition agents_ok :: "run \<Rightarrow> bool" where
  "agents_ok r \<longleftrightarrow> (r_firstError r = None \<longrightarrow>
     (\<forall>i < length (d_agents (r_details r)). ar_status (d_agents (r_details r) ! i) = AgentCompleted \<or>
        (\<exists>c. (c, Runs i) \<in> set (r_pending r))))"

definition tracked_ok :: "run \<Rightarrow> bool" where
  "tracked_ok r \<longleftrightarrow> distinct (map fst (r_pending r)) \<and> (\<forall>c \<in> fst ` set (r_pending r). c < r_calls r) \<and>
     (r_body r = BodyRuns \<longleftrightarrow> r_accepting r) \<and> (r_body r = Ended \<longrightarrow> r_pending r = []) \<and> agents_ok r \<and>
     (r_body r = Ended \<longrightarrow> d_status (r_details r) = RunCompleted \<longrightarrow> r_firstError r = None)"

lemma details_simps [simp]:
  "r_details (updateDetails f r) = f (r_details r)" "r_accepting (updateDetails f r) = r_accepting r"
  "r_pending (updateDetails f r) = r_pending r" "r_calls (updateDetails f r) = r_calls r"
  "r_firstError (updateDetails f r) = r_firstError r" "r_journal (updateDetails f r) = r_journal r"
  "r_body (updateDetails f r) = r_body r"
  by (simp_all add: updateDetails_def)


lemma tracked_notes:
  assumes "\<And>d. d_agents (f d) = d_agents d" "\<And>d. d_status (f d) = d_status d"
  shows "tracked_ok (updateDetails f r) = tracked_ok r"
  by (simp add: tracked_ok_def agents_ok_def assms)

lemma tracked_journal [simp]:
  "tracked_ok (r\<lparr>r_journal := j\<rparr>) = tracked_ok r" "limits_ok config (r\<lparr>r_journal := j\<rparr>) = limits_ok config r"
  by (simp_all add: tracked_ok_def agents_ok_def limits_ok_def)

lemma length_lastLogs: "length (lastLogs ls) \<le> MAX_LOGS"
  by (simp add: lastLogs_def)

lemma agents_track:
  "agents_ok r \<Longrightarrow> agents_ok (track t r)"
  by (auto simp: agents_ok_def track_def)

lemma tracked_call:
  assumes "tracked_ok r"
  shows "tracked_ok (fst (agentCall config p nm r))"
proof (cases "r_accepting r")
  case True
  then have body: "r_body r = BodyRuns" using assms by (simp add: tracked_ok_def)
  have fresh: "r_calls r \<notin> fst ` set (r_pending r)" using assms by (auto simp: tracked_ok_def)
  have t: "tracked_ok (track t r')" if "agents_ok (track t r')" "r_pending r' = r_pending r" "r_calls r' = r_calls r"
      "r_body r' = r_body r" "r_accepting r' = r_accepting r" for t r'
    using assms that fresh body by (auto simp: tracked_ok_def track_def less_Suc_eq)
  have "agents_ok (track (Runs (length (d_agents (r_details r))))
      (updateDetails (\<lambda>d. d\<lparr>d_agents := d_agents d @ [newAgent nm task]\<rparr>) r))" for task
    using assms by (auto simp: tracked_ok_def agents_ok_def track_def nth_append less_Suc_eq)
  then show ?thesis
    using t agents_track [of r] assms by (auto simp: agentCall_def tracked_ok_def [of r] split: option.split)
qed (use assms in \<open>simp add: agentCall_def\<close>)

lemma agents_update:
  assumes "agents_ok r" "(c, Runs i) \<in> set (r_pending r)"
  shows "agents_ok (updateAgent i f r)"
  using assms by (auto simp: agents_ok_def updateAgent_def) (metis nth_list_update_neq)

lemma tracked_update:
  "tracked_ok r \<Longrightarrow> tracked_ok (agentUpdate c s txt n r)"
  by (auto simp: agentUpdate_def tracked_ok_def updateAgent_def
      intro: agents_update [unfolded updateAgent_def] dest: map_of_SomeD split: option.split tracked.split)

lemma tracked_settle:
  assumes "tracked_ok r" "agents_ok r'" "r_pending r' = filter (\<lambda>p. fst p \<noteq> c) (r_pending r)" "r_calls r' = r_calls r"
    "r_body r' = r_body r" "r_accepting r' = r_accepting r" "r_pending r \<noteq> []"
  shows "tracked_ok r'"
  using assms by (auto simp: tracked_ok_def distinct_map_filter)

lemma pending_some: "map_of (r_pending r) c = Some t \<Longrightarrow> r_pending r \<noteq> []"
  by auto

lemma settle_simps [simp]:
  "r_details (settle c r) = r_details r" "r_pending (settle c r) = filter (\<lambda>p. fst p \<noteq> c) (r_pending r)"
  "r_calls (settle c r) = r_calls r" "r_body (settle c r) = r_body r" "r_accepting (settle c r) = r_accepting r"
  "r_firstError (settle c r) = r_firstError r" "r_details (rememberError e r) = r_details r"
  "r_pending (rememberError e r) = r_pending r" "r_calls (rememberError e r) = r_calls r"
  "r_body (rememberError e r) = r_body r" "r_accepting (rememberError e r) = r_accepting r"
  "r_firstError (rememberError e r) \<noteq> None"
  by (simp_all add: settle_def rememberError_def)

lemma failed_agents_ok [simp]: "r_firstError r \<noteq> None \<Longrightarrow> agents_ok r"
  by (auto simp: agents_ok_def)

lemma tracked_done:
  assumes "tracked_ok r"
  shows "tracked_ok (agentDone c x r)"
proof (cases "map_of (r_pending r) c")
  case (Some t)
  note ne = pending_some [OF Some]
  show ?thesis
  proof (cases t)
    case (Runs i)
    let ?f = "\<lambda>a. a\<lparr>ar_exitCode := Some (x_exitCode x), ar_output := Some (x_output x),
      ar_status := (if agentFails x then AgentFailed else AgentCompleted),
      ar_error := (if agentFails x then Some (failureText x) else ar_error a)\<rparr>"
    show ?thesis
    proof (cases "agentFails x")
      case True
      show ?thesis unfolding agentDone_def using Some Runs True ne
        by (simp add: Let_def) (rule tracked_settle [OF assms, where c = c], simp_all add: updateAgent_def)
    next
      case False
      have "agents_ok (settle c (updateAgent i ?f r))"
        unfolding agents_ok_def
      proof (intro impI allI)
        fix k assume none: "r_firstError (settle c (updateAgent i ?f r)) = None"
          and k: "k < length (d_agents (r_details (settle c (updateAgent i ?f r))))"
        show "ar_status (d_agents (r_details (settle c (updateAgent i ?f r))) ! k) = AgentCompleted \<or>
          (\<exists>c'. (c', Runs k) \<in> set (r_pending (settle c (updateAgent i ?f r))))"
        proof (cases "k = i")
          case True
          then show ?thesis using k False by (simp add: updateAgent_def)
        next
          case other: False
          then consider "ar_status (d_agents (r_details r) ! k) = AgentCompleted" | c' where "(c', Runs k) \<in> set (r_pending r)"
            using assms none k by (auto simp: tracked_ok_def agents_ok_def updateAgent_def)
          then show ?thesis
          proof cases
            case 1
            then show ?thesis using other by (simp add: updateAgent_def)
          next
            case (2 c')
            have "c' \<noteq> c"
            proof
              assume "c' = c"
              then have "map_of (r_pending r) c = Some (Runs k)"
                using 2 assms by (simp add: tracked_ok_def)
              then show False using Some Runs other by simp
            qed
            then show ?thesis using 2 by (auto simp: updateAgent_def)
          qed
        qed
      qed
      then show ?thesis unfolding agentDone_def using Some Runs False ne
        by (simp add: Let_def) (rule tracked_settle [OF assms, where c = c], simp_all add: updateAgent_def)
    qed
  qed (use Some assms in \<open>simp add: agentDone_def\<close>)
qed (use assms in \<open>simp add: agentDone_def\<close>)

lemma tracked_rejected: "tracked_ok r \<Longrightarrow> tracked_ok (agentRejected c r)"
  by (auto simp: agentRejected_def split: option.split tracked.split
      intro!: tracked_settle [of r _ c] dest: pending_some)

lemma tracked_throws: "tracked_ok r \<Longrightarrow> tracked_ok (agentThrows c e r)"
  by (auto simp: agentThrows_def split: option.split tracked.split
      intro!: tracked_settle [of r _ c] dest: pending_some)

lemma tracked_bodyEnds: "tracked_ok r \<Longrightarrow> tracked_ok (fst (bodyEnds e r))"
  by (simp add: bodyEnds_def tracked_ok_def agents_ok_def)

lemma tracked_drained: "tracked_ok r \<Longrightarrow> tracked_ok (drained r)"
  by (auto simp: drained_def tracked_ok_def agents_ok_def)

lemma tracked_log: "tracked_ok (logCall t r) = tracked_ok r"
  unfolding logCall_def by (rule tracked_notes) simp_all

lemma tracked_cache: "tracked_ok r \<Longrightarrow> tracked_ok (fst (cacheCall k r))"
  by (auto simp: cacheCall_def tracked_log tracked_notes split: option.split)

lemma tracked_value: "tracked_ok r \<Longrightarrow> tracked_ok (fst (cacheValue config epoch k v now fl r))"
  by (auto simp: cacheValue_def tracked_notes split: option.split sum.split prod.split)

lemma tracked_phase: "tracked_ok r \<Longrightarrow> tracked_ok (fst (phaseCall t r))"
  by (simp add: phaseCall_def tracked_notes)

lemma limits_same:
  "r_details r' = r_details r \<Longrightarrow> limits_ok config r' = limits_ok config r"
  by (simp add: limits_ok_def)

lemma limits_settle [simp]:
  "limits_ok config (settle c r) = limits_ok config r" "limits_ok config (rememberError e r) = limits_ok config r"
  "limits_ok config (updateAgent i f r) = limits_ok config r" "limits_ok config (track t r) = limits_ok config r"
  by (simp_all add: limits_ok_def updateAgent_def track_def)

lemma limits_call: "limits_ok config r \<Longrightarrow> limits_ok config (fst (agentCall config p nm r))"
  by (auto simp: agentCall_def split: option.split) (simp add: limits_ok_def)

lemma limits_notes: "limits_ok config r \<Longrightarrow> limits_ok config (fst (phaseCall t r))" "limits_ok config r \<Longrightarrow> limits_ok config (logCall t r)"
  using length_lastLogs by (auto simp: phaseCall_def limits_ok_def logCall_def)

lemma limits_keys:
  assumes "\<And>d. d_agents (f d) = d_agents d" "\<And>d. d_phases (f d) = d_phases d" "\<And>d. d_logs (f d) = d_logs d"
  shows "limits_ok config (updateDetails f r) = limits_ok config r"
  by (simp add: limits_ok_def assms)

lemma limits_cache: "limits_ok config r \<Longrightarrow> limits_ok config (fst (cacheCall k r))"
  by (auto simp: cacheCall_def limits_keys intro: limits_notes(2) split: option.split)

lemma limits_value: "limits_ok config r \<Longrightarrow> limits_ok config (fst (cacheValue config epoch k v now fl r))"
  by (auto simp: cacheValue_def limits_keys split: option.split sum.split prod.split)

definition run_ok :: "subagent_config \<Rightarrow> run \<times> jsval option \<Rightarrow> bool" where
  "run_ok config s \<longleftrightarrow> limits_ok config (fst s) \<and> tracked_ok (fst s)"

lemma run_step_ok:
  assumes "run_ok config s"
  shows "run_ok config (fst (run_step config epoch ev s))"
proof -
  obtain r fl where s: "s = (r, fl)" by force
  have ok: "limits_ok config r" "tracked_ok r" using assms by (simp_all add: run_ok_def s)
  show ?thesis
  proof (cases ev)
    case (AgentCall p nm)
    then show ?thesis using limits_call [OF ok(1), of p nm] tracked_call [OF ok(2), of config p nm]
      by (cases "agentCall config p nm r") (simp add: run_ok_def run_step_def s)
  next
    case (AgentUpdate c st s0 n)
    moreover have "limits_ok config (agentUpdate c st s0 n r)"
      using ok(1) by (simp add: agentUpdate_def split: option.split tracked.split)
    ultimately show ?thesis using tracked_update [OF ok(2)] by (simp add: run_ok_def run_step_def s)
  next
    case (AgentDone c x)
    moreover have "limits_ok config (agentDone c x r)"
      using ok(1) by (simp add: agentDone_def Let_def split: option.split tracked.split)
    ultimately show ?thesis using tracked_done [OF ok(2)] by (simp add: run_ok_def run_step_def s)
  next
    case (AgentRejected c)
    moreover have "limits_ok config (agentRejected c r)"
      using ok(1) by (simp add: agentRejected_def split: option.split tracked.split)
    ultimately show ?thesis using tracked_rejected [OF ok(2)] by (simp add: run_ok_def run_step_def s)
  next
    case (AgentThrows c e)
    moreover have "limits_ok config (agentThrows c e r)"
      using ok(1) by (simp add: agentThrows_def split: option.split tracked.split)
    ultimately show ?thesis using tracked_throws [OF ok(2)] by (simp add: run_ok_def run_step_def s)
  next
    case (PhaseCall t)
    then show ?thesis using limits_notes(1) [OF ok(1), of t] tracked_phase [OF ok(2), of t]
      by (cases "phaseCall t r") (simp add: run_ok_def run_step_def s)
  next
    case (LogCall t)
    then show ?thesis using limits_notes(2) [OF ok(1), of t] ok(2) by (simp add: run_ok_def run_step_def s tracked_log)
  next
    case (CacheCall k)
    then show ?thesis using limits_cache [OF ok(1), of k] tracked_cache [OF ok(2), of k]
      by (cases "cacheCall k r") (simp add: run_ok_def run_step_def s)
  next
    case (CacheValue k v now)
    then show ?thesis using limits_value [OF ok(1), of epoch k v now fl] tracked_value [OF ok(2), of config epoch k v now fl]
      by (cases "cacheValue config epoch k v now fl r") (simp add: run_ok_def run_step_def s)
  next
    case BodyReturns
    moreover have "limits_ok config (fst (bodyEnds None r))" using ok(1) by (simp add: bodyEnds_def limits_ok_def)
    ultimately show ?thesis using tracked_bodyEnds [OF ok(2), of None]
      by (cases "bodyEnds None r") (simp add: run_ok_def run_step_def s)
  next
    case (BodyThrows e)
    moreover have "limits_ok config (fst (bodyEnds (Some e) r))" using ok(1) by (simp add: bodyEnds_def limits_ok_def)
    ultimately show ?thesis using tracked_bodyEnds [OF ok(2), of "Some e"]
      by (cases "bodyEnds (Some e) r") (simp add: run_ok_def run_step_def s)
  next
    case Drained
    moreover have "limits_ok config (drained r)" using ok(1) by (auto simp: drained_def limits_ok_def)
    ultimately show ?thesis using tracked_drained [OF ok(2)] by (simp add: run_ok_def run_step_def s)
  qed
qed

interpretation workflow: event_machine "\<lambda>ev s. fst (run_step config epoch ev s)" "\<lambda>_. True" "run_ok config"
  for config epoch
  by unfold_locales (rule run_step_ok)

lemma startRun_ok: "run_ok config (startRun j, fl)"
  by (simp add: run_ok_def startRun_def limits_ok_def tracked_ok_def agents_ok_def MAX_PHASES_def MAX_LOGS_def)

lemma runs_ok: "run_ok config (fold (\<lambda>ev s. fst (run_step config epoch ev s)) evs (startRun j, fl))"
  by (rule workflow.run_inv [OF _ startRun_ok]) simp

text \<open>Whatever the body of a workflow does and in whatever order its agents end, a run records at most \<open>maxFanout\<close>
  agents, 100 phases and 200 log lines.\<close>

theorem workflow_is_bounded:
  assumes "fold (\<lambda>ev s. fst (run_step config epoch ev s)) evs (startRun j, fl) = (r, fl')"
  shows "int (length (d_agents (r_details r))) \<le> max 0 (maxFanout config) \<and>
    length (d_phases (r_details r)) \<le> 100 \<and> length (d_logs (r_details r)) \<le> 200"
  using runs_ok [of config epoch evs j fl] assms by (simp add: run_ok_def limits_ok_def MAX_PHASES_def MAX_LOGS_def)

text \<open>C14. A workflow that ended has no agent call open, and if it reports completion every agent it ever started
  completed, whether or not the body awaited it or caught its failure.\<close>

theorem completed_run_has_completed_agents:
  assumes "fold (\<lambda>ev s. fst (run_step config epoch ev s)) evs (startRun j, fl) = (r, fl')" "r_body r = Ended"
  shows "r_pending r = [] \<and> (d_status (r_details r) = RunCompleted \<longrightarrow>
    list_all (\<lambda>a. ar_status a = AgentCompleted) (d_agents (r_details r)))"
  using runs_ok [of config epoch evs j fl] assms
  by (auto simp: run_ok_def tracked_ok_def agents_ok_def list_all_length)

text \<open>C15. A restarted workflow does not repeat a finished step: once \<open>cache\<close> has stored the value of a key, and whatever
  workflows persist afterwards, a new run under the same id and context replays exactly that value
  without calling the producer, unless a run of this workflow stored the key again.\<close>

theorem finished_steps_are_replayed:
  assumes "openWorkflowJournal numText sha epoch rawId ctx fl0 = Inr j0"
    and "r_journal r = Some j" "jn_id j = jn_id j0" "jn_contextHash j = jn_contextHash j0"
    and "cacheCall k r0 = (r0', Computes)" "cacheValue config epoch k v now fl r = (r1, fl1, Cached)"
    and "\<forall>(now', j', e') \<in> set evs. je_key e' = k \<longrightarrow> jn_id j' \<noteq> jn_id j0 \<or> jn_contextHash j' \<noteq> jn_contextHash j0"
  shows "\<exists>j2 value. exactJournalValue v (nat (maxCaptureBytes config)) = Inr value \<and>
    openWorkflowJournal numText sha epoch rawId ctx (fold (journal_put epoch) evs fl1) = Inr j2 \<and>
    snd (cacheCall k (startRun (Some j2))) = Replays value"
proof -
  obtain x where x: "exactJournalValue v (nat (maxCaptureBytes config)) = Inr x"
    using assms(2,6) by (auto simp: cacheValue_def split: sum.splits)
  let ?e = "\<lparr>je_key = k, je_value = x, je_completedAt = now\<rparr>"
  obtain u j1 where p: "persistWorkflowJournalEntry epoch now j ?e fl = (Inr u, fl1, j1)"
    using assms(2,6) x by (auto simp: cacheValue_def split: sum.splits prod.splits)
  obtain M where M: "journalView epoch (jn_id j) (jn_contextHash j) fl = Some M"
    using persist_fails [of epoch j fl now ?e] p by (cases "journalView epoch (jn_id j) (jn_contextHash j) fl") auto
  have held: "journal_holds epoch (jn_id j0) (jn_contextHash j0) fl1"
    "the (journalView epoch (jn_id j0) (jn_contextHash j0) fl1) k = Some ?e"
    using persist_view [OF M p] assms(3,4) by (auto simp: journal_holds_def)
  let ?fl2 = "fold (journal_put epoch) evs fl1"
  have "\<forall>ev \<in> set evs. \<forall>y. journal_effect (jn_id j0) (jn_contextHash j0) ev \<noteq> Some (k, y)"
    using assms(7) by (auto simp: journal_effect_def split: if_splits)
  from journal.puts_keep [OF held(1) this] held(2)
  have "the (journalView epoch (jn_id j0) (jn_contextHash j0) ?fl2) k = Some ?e" by simp
  moreover obtain M2 where M2: "journalView epoch (jn_id j0) (jn_contextHash j0) ?fl2 = Some M2"
    using journal.puts_ok [OF held(1), of evs] by (auto simp: journal_holds_def)
  ultimately obtain j2 where j2: "openWorkflowJournal numText sha epoch rawId ctx ?fl2 = Inr j2"
    "map_of (jn_entries j2) k = Some ?e" using reopened [OF assms(1) M2] by auto
  have "js_trim k \<noteq> []" "utf8_length k \<le> 512" using assms(5) by (auto simp: cacheCall_def split: if_splits)
  then show ?thesis using x j2 by (simp add: cacheCall_def startRun_def)
qed

section \<open>Concrete instances\<close>

definition smallConfig :: subagent_config where
  "smallConfig = \<lparr>maxFanout = 1, maxConcurrency = 1, maxBackgroundJobs = 1, maxDepth = 1, depth = 0, queueTimeoutMs = 0,
     runTimeoutMs = 0, termGraceMs = 0, maxCaptureBytes = 100, maxStderrBytes = 100, maxEventBytes = 100, maxTaskBytes = 100,
     heartbeatMs = 1000, leaseMs = 3000, backgroundAgingMs = 0, resourceLimits = [], stateDir = [], config_errors = []\<rparr>"

text \<open>One agent that completes, a second call beyond the fan-out, which fails the run.\<close>

definition goodEvents :: "run_event list" where
  "goodEvents = [AgentCall (Some ''scan'') ''worker'', LogCall ''hi'',
     AgentDone 0 \<lparr>x_output = ''ok'', x_exitCode = 0, x_stderr = [], x_errorMessage = None\<rparr>, BodyReturns, Drained]"

definition overEvents :: "run_event list" where
  "overEvents = [AgentCall (Some ''scan'') ''worker'', AgentCall (Some ''more'') ''worker'', BodyReturns, AgentRejected 1]"

abbreviation runOf :: "run_event list \<Rightarrow> run \<times> jsval option" where
  "runOf evs \<equiv> fold (\<lambda>ev s. fst (run_step smallConfig ''t0'' ev s)) evs (startRun None, None)"

lemma good_ends: "r_body (fst (runOf goodEvents)) = Ended \<and> d_status (r_details (fst (runOf goodEvents))) = RunCompleted"
  by (simp add: goodEvents_def run_step_def startRun_def smallConfig_def agentCall_def track_def updateDetails_def
      newAgent_def logCall_def lastLogs_def agentDone_def agentFails_def updateAgent_def settle_def bodyEnds_def drained_def
      Let_def)

theorem workflow_is_bounded_witness:
  "length (d_agents (r_details (fst (runOf overEvents)))) \<le> 1"
  using workflow_is_bounded [of smallConfig "''t0''" overEvents None None, OF prod.collapse [symmetric]]
  by (simp add: smallConfig_def)

theorem completed_run_has_completed_agents_witness:
  "r_body (fst (runOf goodEvents)) = Ended \<and>
   list_all (\<lambda>a. ar_status a = AgentCompleted) (d_agents (r_details (fst (runOf goodEvents))))"
  using completed_run_has_completed_agents [of smallConfig "''t0''" goodEvents None None, OF prod.collapse [symmetric]]
    good_ends by blast

theorem finished_steps_are_replayed_witness:
  "\<exists>r1 fl1 j2. cacheValue smallConfig ''t0'' ''scan'' (Encoded (JStr ''ok'') 4) ''t'' None (startRun (Some sampleJournal)) = (r1, fl1, Cached) \<and>
     snd (cacheCall ''scan'' (startRun (Some j2))) = Replays (JStr ''ok'')"
proof -
  have e: "\<lparr>je_key = ''scan'', je_value = JStr ''ok'', je_completedAt = ''t''\<rparr> = sampleEntry" by (simp add: sampleEntry_def)
  have c: "cacheCall ''scan'' (startRun (Some sampleJournal)) = (startRun (Some sampleJournal), Computes)"
    by (simp add: cacheCall_def startRun_def sampleJournal_def js_trim_def is_ws_def Let_def char_bytes_def)
  obtain r1 fl1 where v: "cacheValue smallConfig ''t0'' ''scan'' (Encoded (JStr ''ok'') 4) ''t'' None (startRun (Some sampleJournal)) = (r1, fl1, Cached)"
    using sample_persists [of "''t0''" "''t''"]
    by (auto simp: cacheValue_def startRun_def smallConfig_def exactJournalValue_def e)
  have j: "r_journal (startRun (Some sampleJournal)) = Some sampleJournal" by (simp add: startRun_def)
  from finished_steps_are_replayed [OF sample_opens j refl refl c v, of "[]" unaryText] v show ?thesis
    by (auto simp: exactJournalValue_def smallConfig_def)
qed

end
