(* ===== verification/WorkflowSource.thy ===== *)
theory WorkflowSource
  imports TextBounds
begin

text \<open>
  \<open>extensions/workflow/source.ts\<close>, and the part of \<open>execute\<close> in \<open>workflow/index.ts\<close> that asks for
  approval: where the code of a workflow comes from and when it runs without a question. Paths are
  absolute POSIX paths; the file system is a record of the calls the code makes.
\<close>

section \<open>Paths\<close>

fun splitSlash :: "string \<Rightarrow> string \<Rightarrow> string list" where
  "splitSlash acc [] = [rev acc]"
| "splitSlash acc (c # cs) = (if c = CHR ''/'' then rev acc # splitSlash [] cs else splitSlash (c # acc) cs)"

text \<open>\<open>path.resolve\<close> on the segments of an absolute path, from the left.\<close>

fun normalSegments :: "string list \<Rightarrow> string list \<Rightarrow> string list" where
  "normalSegments acc [] = rev acc"
| "normalSegments acc (s # ss) =
     (if s = [] \<or> s = ''.'' then normalSegments acc ss
      else if s = ''..'' then normalSegments (tl acc) ss
      else normalSegments (s # acc) ss)"

definition segmentsOf :: "string \<Rightarrow> string list" where
  "segmentsOf p = normalSegments [] (splitSlash [] p)"

definition pathText :: "string list \<Rightarrow> string" where
  "pathText ss = CHR ''/'' # joinWith ''/'' ss"

definition isAbsolutePath :: "string \<Rightarrow> bool" where
  "isAbsolutePath p \<longleftrightarrow> p \<noteq> [] \<and> hd p = CHR ''/''"

definition resolvePath :: "string \<Rightarrow> string \<Rightarrow> string" where
  "resolvePath cwd p = (if isAbsolutePath p then pathText (segmentsOf p) else pathText (segmentsOf (cwd @ ''/'' @ p)))"

definition parentPath :: "string \<Rightarrow> string" where
  "parentPath p = pathText (butlast (segmentsOf p))"

fun dropCommon :: "string list \<Rightarrow> string list \<Rightarrow> string list \<times> string list" where
  "dropCommon (a # as) (b # bs) = (if a = b then dropCommon as bs else (a # as, b # bs))"
| "dropCommon as bs = (as, bs)"

definition relativePath :: "string \<Rightarrow> string \<Rightarrow> string" where
  "relativePath from to =
     (case dropCommon (segmentsOf from) (segmentsOf to) of
        (up, down) \<Rightarrow> joinWith ''/'' (replicate (length up) ''..'' @ down))"

definition startsWith :: "string \<Rightarrow> string \<Rightarrow> bool" where
  "startsWith p s \<longleftrightarrow> take (length p) s = p"

definition pathIsWithin :: "string \<Rightarrow> string \<Rightarrow> bool" where
  "pathIsWithin filePath directory =
     (let relative = relativePath directory filePath in
      relative = [] \<or> (\<not> startsWith ''../'' relative \<and> relative \<noteq> ''..'' \<and> \<not> isAbsolutePath relative))"

section \<open>Sources\<close>

definition MAX_INLINE_WORKFLOW_CHARS :: nat where
  "MAX_INLINE_WORKFLOW_CHARS = 20000"

definition MAX_WORKFLOW_FILE_BYTES :: nat where
  "MAX_WORKFLOW_FILE_BYTES = 1024 * 1024"

datatype source_kind = Inline | Saved | Path

record ready_source =
  rs_code :: string
  rs_source :: source_kind
  rs_name :: "string option"
  rs_scriptPath :: "string option"

datatype approval_reason = InlineCode | ProjectFile | ExternalFile

record source_approval =
  ap_source :: source_kind
  ap_name :: "string option"
  ap_scriptPath :: "string option"
  ap_code :: "string option"
  ap_reason :: approval_reason

datatype source_error =
    NotFound | NoStat | NotRegular | NotJs | FileTooLarge nat | Unreadable | ExactlyOne | InlineTooLong nat
  | InvalidName | SavedNotFound | EmptyInline | PathMissing | TargetChanged

datatype source_resolution = Ready ready_source | Approval source_approval | SourceError source_error

text \<open>The calls: \<open>realpathSync.native\<close>, \<open>statSync\<close> and \<open>fstatSync\<close> (a regular file, its size), the text read from
  the opened descriptor, \<open>existsSync\<close>, \<open>os.homedir\<close>, \<open>process.cwd\<close>.\<close>

record fs_view =
  fs_realpath :: "string \<Rightarrow> string option"
  fs_stat :: "string \<Rightarrow> (bool \<times> nat) option"
  fs_open :: "string \<Rightarrow> (bool \<times> nat \<times> string option) option"
  fs_exists :: "string \<Rightarrow> bool"
  fs_home :: string
  fs_cwd :: string

record source_options =
  so_script :: jsval
  so_name :: jsval
  so_scriptPath :: jsval
  so_cwd :: string
  so_sharedDir :: string
  so_projectDir :: "string option"
  so_projectTrusted :: bool
  so_allowedScriptDirs :: "string list"

definition expandTilde :: "fs_view \<Rightarrow> string \<Rightarrow> string" where
  "expandTilde fs p =
     (if p = ''~'' then fs_home fs
      else if startsWith ''~/'' p then pathText (segmentsOf (fs_home fs @ ''/'' @ drop 2 p))
      else p)"

definition lowerChar :: "char \<Rightarrow> char" where
  "lowerChar c = (let n = (of_char c :: nat) in if 65 \<le> n \<and> n \<le> 90 then char_of (n + 32) else c)"

text \<open>\<open>path.extname(p).toLowerCase() === ".js"\<close>: the last segment ends in a dot and \<open>js\<close>, and something comes before it.\<close>

definition isJsFile :: "string \<Rightarrow> bool" where
  "isJsFile p =
     (let ss = segmentsOf p in
      ss \<noteq> [] \<and> (let s = last ss; n = length s - 3 in
        3 < length s \<and> map lowerChar (drop n s) = ''.js''))"

definition canonicalExistingFile :: "fs_view \<Rightarrow> string \<Rightarrow> source_error + string" where
  "canonicalExistingFile fs p =
     (case fs_realpath fs p of
        None \<Rightarrow> Inl NotFound
      | Some c \<Rightarrow>
          (case fs_stat fs c of
             None \<Rightarrow> Inl NoStat
           | Some (isFile, sz) \<Rightarrow>
               if \<not> isFile then Inl NotRegular
               else if \<not> isJsFile c then Inl NotJs
               else if sz > MAX_WORKFLOW_FILE_BYTES then Inl (FileTooLarge sz)
               else Inr c))"

definition canonicalDirectory :: "fs_view \<Rightarrow> string \<Rightarrow> string" where
  "canonicalDirectory fs dir =
     (let resolved = resolvePath (fs_cwd fs) (expandTilde fs dir) in
      case fs_realpath fs resolved of None \<Rightarrow> resolved | Some c \<Rightarrow> c)"

definition readReadyFile :: "fs_view \<Rightarrow> string \<Rightarrow> source_kind \<Rightarrow> string option \<Rightarrow> source_error + ready_source" where
  "readReadyFile fs p kind nm =
     (case fs_open fs p of
        None \<Rightarrow> Inl Unreadable
      | Some (isFile, sz, content) \<Rightarrow>
          if \<not> isFile then Inl NotRegular
          else if sz > MAX_WORKFLOW_FILE_BYTES then Inl (FileTooLarge sz)
          else (case content of
                  None \<Rightarrow> Inl Unreadable
                | Some code \<Rightarrow> Inr \<lparr>rs_code = code, rs_source = kind, rs_name = nm, rs_scriptPath = Some p\<rparr>))"

definition resolution :: "source_error + ready_source \<Rightarrow> source_resolution" where
  "resolution r = (case r of Inl e \<Rightarrow> SourceError e | Inr s \<Rightarrow> Ready s)"

definition classifyFile :: "fs_view \<Rightarrow> string \<Rightarrow> source_kind \<Rightarrow> string option \<Rightarrow> source_options \<Rightarrow> source_resolution" where
  "classifyFile fs p kind nm opts =
     (case canonicalExistingFile fs p of
        Inl e \<Rightarrow> SourceError e
      | Inr c \<Rightarrow>
          let canonical = canonicalDirectory fs in
          if pathIsWithin c (canonical (so_sharedDir opts)) then resolution (readReadyFile fs c kind nm)
          else
            let projectRoot = (case so_projectDir opts of
                  None \<Rightarrow> canonical (so_cwd opts)
                | Some d \<Rightarrow> parentPath (parentPath (canonical d)))
            in if pathIsWithin c projectRoot
               then (if so_projectTrusted opts then resolution (readReadyFile fs c kind nm)
                     else Approval \<lparr>ap_source = kind, ap_name = nm, ap_scriptPath = Some c, ap_code = None, ap_reason = ProjectFile\<rparr>)
               else if list_ex (\<lambda>d. pathIsWithin c (canonical d)) (so_allowedScriptDirs opts)
               then resolution (readReadyFile fs c kind nm)
               else Approval \<lparr>ap_source = kind, ap_name = nm, ap_scriptPath = Some c, ap_code = None, ap_reason = ExternalFile\<rparr>)"


definition given :: "jsval \<Rightarrow> string option" where
  "given v = (case asStr v of None \<Rightarrow> None | Some s \<Rightarrow> if js_trim s = [] then None else Some s)"

definition validName :: "string \<Rightarrow> bool" where
  "validName n \<longleftrightarrow> n \<noteq> [] \<and> list_all (\<lambda>c. is_alnum c \<or> c \<in> set ''._-'') n \<and> n \<noteq> ''.'' \<and> n \<noteq> ''..''"

definition joinPath :: "string \<Rightarrow> string \<Rightarrow> string" where
  "joinPath dir n = pathText (segmentsOf (dir @ ''/'' @ n))"

definition resolveWorkflowSource :: "fs_view \<Rightarrow> source_options \<Rightarrow> source_resolution" where
  "resolveWorkflowSource fs opts =
     (case (given (so_script opts), given (so_name opts), given (so_scriptPath opts)) of
        (Some code, None, None) \<Rightarrow>
          if length code > MAX_INLINE_WORKFLOW_CHARS then SourceError (InlineTooLong (length code))
          else Approval \<lparr>ap_source = Inline, ap_name = None, ap_scriptPath = None, ap_code = Some code, ap_reason = InlineCode\<rparr>
      | (None, None, Some p) \<Rightarrow>
          let i = expandTilde fs (js_trim p)
          in classifyFile fs (if isAbsolutePath i then i else resolvePath (so_cwd opts) i) Path None opts
      | (None, Some n, None) \<Rightarrow>
          let nm = js_trim n in
          if \<not> validName nm then SourceError InvalidName
          else
            let shared = joinPath (so_sharedDir opts) (nm @ ''.js'') in
            if fs_exists fs shared then classifyFile fs shared Saved (Some nm) opts
            else (case so_projectDir opts of
                    None \<Rightarrow> SourceError SavedNotFound
                  | Some d \<Rightarrow>
                      let project = joinPath d (nm @ ''.js'') in
                      if fs_exists fs project then classifyFile fs project Saved (Some nm) opts
                      else SourceError SavedNotFound)
      | _ \<Rightarrow> SourceError ExactlyOne)"

definition approveWorkflowSource :: "fs_view \<Rightarrow> source_approval \<Rightarrow> source_error + ready_source" where
  "approveWorkflowSource fs req =
     (if ap_source req = Inline
      then (case ap_code req of
              None \<Rightarrow> Inl EmptyInline
            | Some code \<Rightarrow>
                if js_trim code = [] then Inl EmptyInline
                else Inr \<lparr>rs_code = code, rs_source = Inline, rs_name = None, rs_scriptPath = None\<rparr>)
      else (case ap_scriptPath req of
              None \<Rightarrow> Inl PathMissing
            | Some p \<Rightarrow>
                if p = [] then Inl PathMissing
                else bind_r (canonicalExistingFile fs p) (\<lambda>c.
                  if c \<noteq> p then Inl TargetChanged else readReadyFile fs c (ap_source req) (ap_name req))))"

section \<open>What runs\<close>

text \<open>What \<open>execute\<close> does with a source: \<open>confirm\<close> is the answer of the user to the request, \<open>later\<close> the file
  system after it.\<close>

datatype source_outcome = Runs ready_source | Refused source_error | NeedsApproval source_approval | Declined source_kind

definition sourceToRun ::
  "fs_view \<Rightarrow> source_options \<Rightarrow> bool \<Rightarrow> (source_approval \<Rightarrow> bool) \<Rightarrow> fs_view \<Rightarrow> source_outcome" where
  "sourceToRun fs opts hasUI confirm later =
     (case resolveWorkflowSource fs opts of
        SourceError e \<Rightarrow> Refused e
      | Ready s \<Rightarrow> Runs s
      | Approval req \<Rightarrow>
          if \<not> hasUI then NeedsApproval req
          else if \<not> confirm req then Declined (ap_source req)
          else (case approveWorkflowSource later req of Inl e \<Rightarrow> Refused e | Inr s \<Rightarrow> Runs s))"

text \<open>\<open>PI_WORKFLOW_ALLOWED_SCRIPT_DIRS\<close>.\<close>

fun splitOn :: "char \<Rightarrow> string \<Rightarrow> string \<Rightarrow> string list" where
  "splitOn sep acc [] = [rev acc]"
| "splitOn sep acc (c # cs) = (if c = sep then rev acc # splitOn sep [] cs else splitOn sep (c # acc) cs)"

definition configuredWorkflowScriptDirs :: "string option \<Rightarrow> string list" where
  "configuredWorkflowScriptDirs env =
     filter (\<lambda>d. d \<noteq> []) (map js_trim (splitOn CHR '','' [] (case env of None \<Rightarrow> [] | Some v \<Rightarrow> v)))"

section \<open>Containment\<close>

definition plainSegment :: "string \<Rightarrow> bool" where
  "plainSegment s \<longleftrightarrow> s \<noteq> [] \<and> s \<noteq> ''.'' \<and> s \<noteq> ''..'' \<and> CHR ''/'' \<notin> set s"

lemma splitSlash_parts: "CHR ''/'' \<notin> set acc \<Longrightarrow> s \<in> set (splitSlash acc p) \<Longrightarrow> CHR ''/'' \<notin> set s"
  by (induction acc p rule: splitSlash.induct) (auto split: if_splits)

lemma list_all_tl: "list_all P xs \<Longrightarrow> list_all P (tl xs)"
  by (cases xs) auto

lemma normalSegments_plain:
  "list_all plainSegment acc \<Longrightarrow> \<forall>s \<in> set ss. CHR ''/'' \<notin> set s \<Longrightarrow> list_all plainSegment (normalSegments acc ss)"
proof (induction acc ss rule: normalSegments.induct)
  case (2 acc s ss)
  then show ?case by (auto simp: plainSegment_def list_all_tl)
qed simp

lemma segments_plain: "list_all plainSegment (segmentsOf p)"
  unfolding segmentsOf_def by (rule normalSegments_plain) (auto dest: splitSlash_parts [rotated])

lemma dropCommon_shape:
  "dropCommon as bs = (up, down) \<Longrightarrow> \<exists>common. as = common @ up \<and> bs = common @ down"
  by (induction as bs rule: dropCommon.induct) (auto split: if_splits)

lemma dropCommon_prefix: "fst (dropCommon as bs) = [] \<longleftrightarrow> (\<exists>rest. bs = as @ rest)"
  by (induction as bs rule: dropCommon.induct) auto

lemma joinWith_start:
  "s \<noteq> [] \<Longrightarrow> joinWith ''/'' (s # ss) \<noteq> [] \<and> hd (joinWith ''/'' (s # ss)) = hd s"
  by (cases ss) auto

text \<open>A relative path that goes down starts with a plain segment.\<close>

lemma down_is_inside:
  assumes "plainSegment s"
  shows "\<not> startsWith ''../'' (joinWith ''/'' (s # ss)) \<and> joinWith ''/'' (s # ss) \<noteq> ''..'' \<and>
    \<not> isAbsolutePath (joinWith ''/'' (s # ss))"
proof -
  define j where "j = joinWith ''/'' (s # ss)"
  have j: "\<exists>t. j = s @ t \<and> (t = [] \<or> hd t = CHR ''/'')"
    unfolding j_def by (cases ss) auto
  have s: "s \<noteq> []" "s \<noteq> ''..''" "CHR ''/'' \<notin> set s" using assms by (auto simp: plainSegment_def)
  have front: "takeWhile (\<lambda>c. c \<noteq> CHR ''/'') j = s"
  proof -
    obtain t where t: "j = s @ t" "t = [] \<or> hd t = CHR ''/''" using j by blast
    then have "takeWhile (\<lambda>c. c \<noteq> CHR ''/'') t = []" by (cases t) auto
    moreover have "takeWhile (\<lambda>c. c \<noteq> CHR ''/'') (s @ t) = s @ takeWhile (\<lambda>c. c \<noteq> CHR ''/'') t"
      using s(3) by (intro takeWhile_append2) auto
    ultimately show ?thesis using t(1) by simp
  qed
  have "\<not> startsWith ''../'' j"
  proof
    assume "startsWith ''../'' j"
    then obtain r where "j = ''../'' @ r" unfolding startsWith_def by (metis append_take_drop_id)
    then show False using front s(2) by simp
  qed
  moreover have "j \<noteq> ''..''" using front s(2) by auto
  moreover have "\<not> isAbsolutePath j" using j s by (cases s) (auto simp: isAbsolutePath_def)
  ultimately show ?thesis by (simp add: j_def)
qed

lemma within_segments:
  "pathIsWithin filePath directory \<longleftrightarrow> (\<exists>rest. segmentsOf filePath = segmentsOf directory @ rest)"
proof -
  obtain up down where d: "dropCommon (segmentsOf directory) (segmentsOf filePath) = (up, down)" by force
  have plain: "list_all plainSegment down"
    using dropCommon_shape [OF d] segments_plain [of filePath] by auto
  have rel: "relativePath directory filePath = joinWith ''/'' (replicate (length up) ''..'' @ down)"
    by (simp add: relativePath_def d)
  have "pathIsWithin filePath directory \<longleftrightarrow> up = []"
  proof (cases up)
    case Nil
    then show ?thesis using rel plain down_is_inside by (cases down) (auto simp: pathIsWithin_def Let_def)
  next
    case (Cons u us)
    let ?tail = "replicate (length us) ''..'' @ down"
    have "relativePath directory filePath = ''..'' \<or> startsWith ''../'' (relativePath directory filePath)"
      using rel Cons by (cases ?tail) (auto simp: startsWith_def)
    then show ?thesis using Cons by (auto simp: pathIsWithin_def Let_def startsWith_def)
  qed
  also have "\<dots> \<longleftrightarrow> (\<exists>rest. segmentsOf filePath = segmentsOf directory @ rest)"
    using dropCommon_prefix [of "segmentsOf directory" "segmentsOf filePath"] d by simp
  finally show ?thesis .
qed


section \<open>Trust\<close>

definition inside :: "string \<Rightarrow> string \<Rightarrow> bool" where
  "inside p d \<longleftrightarrow> (\<exists>rest. segmentsOf p = segmentsOf d @ rest)"

text \<open>
  The directories whose workflows run without a question. The root of the project is what the code takes for it: the
  directory two levels above the real path of \<open>.pi/workflows\<close>. Where that is a symbolic link, it is the directory
  two levels above its target, which need not lie in the project.
\<close>

definition trustedLocation :: "fs_view \<Rightarrow> source_options \<Rightarrow> string \<Rightarrow> bool" where
  "trustedLocation fs opts p \<longleftrightarrow>
     inside p (canonicalDirectory fs (so_sharedDir opts)) \<or>
     (so_projectTrusted opts \<and>
       inside p (case so_projectDir opts of
           None \<Rightarrow> canonicalDirectory fs (so_cwd opts)
         | Some d \<Rightarrow> parentPath (parentPath (canonicalDirectory fs d)))) \<or>
     list_ex (\<lambda>d. inside p (canonicalDirectory fs d)) (so_allowedScriptDirs opts)"

definition holdsCode :: "fs_view \<Rightarrow> string \<Rightarrow> string \<Rightarrow> bool" where
  "holdsCode fs p code \<longleftrightarrow> (\<exists>sz. fs_open fs p = Some (True, sz, Some code) \<and> sz \<le> MAX_WORKFLOW_FILE_BYTES)"

lemma within_inside: "pathIsWithin p d = inside p d"
  by (simp add: within_segments inside_def)

text \<open>Containment of paths is containment of directories: the test on the text of the relative path holds
  exactly when the segments of the directory are a prefix of those of the file.\<close>

theorem within_is_prefix:
  "pathIsWithin filePath directory \<longleftrightarrow> (\<exists>rest. segmentsOf filePath = segmentsOf directory @ rest)"
  by (rule within_segments)

lemma read_ready:
  "readReadyFile fs p kind nm = Inr s \<Longrightarrow>
     rs_scriptPath s = Some p \<and> rs_source s = kind \<and> rs_name s = nm \<and> holdsCode fs p (rs_code s)"
  by (auto simp: readReadyFile_def holdsCode_def split: option.splits if_splits)

lemma classify_ready:
  assumes "classifyFile fs p kind nm opts = Ready s"
  shows "\<exists>c. rs_scriptPath s = Some c \<and> rs_source s = kind \<and> holdsCode fs c (rs_code s) \<and> trustedLocation fs opts c"
proof -
  obtain c where c: "canonicalExistingFile fs p = Inr c"
    using assms by (auto simp: classifyFile_def split: sum.splits)
  have "readReadyFile fs c kind nm = Inr s \<and> trustedLocation fs opts c"
    using assms by (auto simp: classifyFile_def c resolution_def Let_def trustedLocation_def within_inside
        split: if_splits sum.splits)
  then show ?thesis using read_ready by blast
qed

lemma classify_approval:
  "classifyFile fs p kind nm opts = Approval req \<Longrightarrow> ap_source req = kind \<and> ap_code req = None"
  by (auto simp: classifyFile_def resolution_def Let_def split: if_splits sum.splits)

lemma resolve_ready:
  assumes "resolveWorkflowSource fs opts = Ready s"
  shows "\<exists>c. rs_scriptPath s = Some c \<and> rs_source s \<noteq> Inline \<and> holdsCode fs c (rs_code s) \<and> trustedLocation fs opts c"
  using assms by (auto simp: resolveWorkflowSource_def Let_def split: option.splits if_splits dest!: classify_ready)

text \<open>C16. No workflow code runs without trust. Either it is the content of a file inside the shared directory, inside
  the project once it is trusted (the directory two levels above the real path of \<open>.pi/workflows\<close>), or inside an
  allowed directory; or the user of an interactive session
  confirmed the request, and then it is exactly the inline code of the request, or the content of the
  file whose canonical path the request named, which still is its own canonical path.\<close>

theorem code_runs_with_trust:
  assumes "sourceToRun fs opts hasUI confirm later = Runs s"
  shows "(\<exists>p. rs_scriptPath s = Some p \<and> rs_source s \<noteq> Inline \<and> holdsCode fs p (rs_code s) \<and> trustedLocation fs opts p) \<or>
    (\<exists>req. resolveWorkflowSource fs opts = Approval req \<and> hasUI \<and> confirm req \<and>
      (if ap_source req = Inline then ap_code req = Some (rs_code s) \<and> rs_source s = Inline
       else \<exists>p. ap_scriptPath req = Some p \<and> rs_scriptPath s = Some p \<and> fs_realpath later p = Some p \<and>
         holdsCode later p (rs_code s)))"
proof (cases "resolveWorkflowSource fs opts")
  case (Ready s')
  then show ?thesis using assms resolve_ready [OF Ready] by (auto simp: sourceToRun_def)
next
  case (SourceError e)
  then show ?thesis using assms by (simp add: sourceToRun_def)
next
  case (Approval req)
  then have ok: "hasUI" "confirm req" "approveWorkflowSource later req = Inr s"
    using assms by (auto simp: sourceToRun_def split: if_splits sum.splits)
  show ?thesis
  proof (cases "ap_source req = Inline")
    case True
    then have "ap_code req = Some (rs_code s) \<and> rs_source s = Inline"
      using ok(3) by (auto simp: approveWorkflowSource_def split: option.splits if_splits)
    then show ?thesis using Approval ok True by auto
  next
    case False
    then obtain p where p: "ap_scriptPath req = Some p" "canonicalExistingFile later p = Inr p"
      "readReadyFile later p (ap_source req) (ap_name req) = Inr s"
      using ok(3) by (auto simp: approveWorkflowSource_def split: option.splits if_splits)
    then have "fs_realpath later p = Some p"
      by (auto simp: canonicalExistingFile_def split: option.splits prod.splits if_splits)
    then show ?thesis using Approval ok False p read_ready [OF p(3)] by auto
  qed
qed

section \<open>Concrete instances\<close>

definition sampleFs :: fs_view where
  "sampleFs = \<lparr>fs_realpath = (\<lambda>p. Some p), fs_stat = (\<lambda>_. Some (True, 8)), fs_open = (\<lambda>_. Some (True, 8, Some ''return 1'')),
     fs_exists = (\<lambda>_. True), fs_home = ''/home/u'', fs_cwd = ''/w''\<rparr>"

definition sampleOptions :: source_options where
  "sampleOptions = \<lparr>so_script = None, so_name = None, so_scriptPath = Some (JStr ''/w/a.js''), so_cwd = ''/w'',
     so_sharedDir = ''/shared'', so_projectDir = None, so_projectTrusted = True, so_allowedScriptDirs = []\<rparr>"

theorem code_runs_with_trust_witness:
  "\<exists>s. sourceToRun sampleFs sampleOptions False (\<lambda>_. False) sampleFs = Runs s \<and> trustedLocation sampleFs sampleOptions ''/w/a.js''"
proof -
  have seg: "segmentsOf ''/w/a.js'' = [''w'', ''a.js'']" "segmentsOf ''/w'' = [''w'']" "segmentsOf ''/shared'' = [''shared'']"
    by (simp_all add: segmentsOf_def)
  have "sourceToRun sampleFs sampleOptions False (\<lambda>_. False) sampleFs =
      Runs \<lparr>rs_code = ''return 1'', rs_source = Path, rs_name = None, rs_scriptPath = Some ''/w/a.js''\<rparr>"
    by (simp add: sourceToRun_def resolveWorkflowSource_def given_def sampleOptions_def js_trim_def is_ws_def Let_def
        expandTilde_def startsWith_def isAbsolutePath_def classifyFile_def canonicalExistingFile_def sampleFs_def
        isJsFile_def seg lowerChar_def canonicalDirectory_def resolvePath_def pathText_def pathIsWithin_def
        relativePath_def readReadyFile_def resolution_def MAX_WORKFLOW_FILE_BYTES_def)
  from this code_runs_with_trust [OF this] show ?thesis by (intro exI conjI) auto
qed

end
