(* ===== verification/ManagedProcess.thy ===== *)
theory ManagedProcess
  imports TextBounds "HOL-Library.Sublist"
begin

text \<open>
  \<open>_shared/managed-process.ts\<close>: one child process from its start to its settled result. The events of Node, the
  timers and the calls of the owner come in any order, each with the clock and with what the operating
  system says of the process groups at that moment. The owner's callbacks only observe here; input to the process is not modelled.
\<close>

section \<open>The tail of the error output\<close>

record tail_buffer =
  tb_tail :: string
  tb_omitted :: nat

definition appendTail :: "nat \<Rightarrow> string \<Rightarrow> tail_buffer \<Rightarrow> tail_buffer" where
  "appendTail maxBytes chunk b =
     (let combined = tb_tail b @ chunk in
      if length combined \<le> maxBytes then b\<lparr>tb_tail := combined\<rparr>
      else b\<lparr>tb_omitted := tb_omitted b + (length combined - maxBytes), tb_tail := drop (length combined - maxBytes) combined\<rparr>)"

definition tailText :: "tail_buffer \<Rightarrow> string" where
  "tailText b = (if tb_omitted b > 0
     then ''[stderr truncated: '' @ natText (tb_omitted b) @ '' bytes omitted]'' @ [CHR 10] @ tb_tail b else tb_tail b)"

section \<open>Options and state\<close>

datatype termination_reason = Aborted | Timeout | OutputLimit | SpawnError

record process_options =
  po_posix :: bool
  po_termGraceMs :: int
  po_maxStderrBytes :: nat
  po_maxEventBytes :: nat
  po_cleanupOnExit :: bool
  po_limitStdoutEvents :: bool
  po_hasLineReader :: bool

text \<open>The groups that still hold processes: the one of the process, those its owner adds, and an error of the owner's list.\<close>

record group_view =
  gv_leader :: bool
  gv_owned :: "int list"
  gv_error :: "string option"

datatype signal = SIGTERM | SIGKILL

type_synonym exit_status = "int option \<times> string option"

datatype cleanup_verdict = CleanupConfirmed | CleanupUnconfirmed

record process_result =
  pr_exitCode :: int
  pr_exitSignal :: "string option"
  pr_observedExitCode :: "int option"
  pr_cleanup :: cleanup_verdict
  pr_stderr :: string
  pr_stderrTruncated :: bool
  pr_terminationReason :: "termination_reason option"
  pr_errorMessage :: "string option"
  pr_semanticCompletion :: bool

text \<open>\<open>finish\<close> waits until \<open>vf_until\<close> for the groups to disappear.\<close>

record verification =
  vf_until :: int
  vf_exit :: exit_status
  vf_observed :: "int option"
  vf_pipesHeld :: bool

record managed =
  mp_pid :: "int option"
  mp_stdout :: string
  mp_stderr :: tail_buffer
  mp_lines :: "string list"
  mp_closed :: bool
  mp_reason :: "termination_reason option"
  mp_message :: "string option"
  mp_semantic :: bool
  mp_timer :: bool
  mp_teardown :: "(int \<times> bool) option"
  mp_pipesClosed :: bool
  mp_leaderExit :: "exit_status option"
  mp_signals :: "signal list"
  mp_verify :: "verification option"
  mp_result :: "process_result option"

text \<open>\<open>settled\<close> and \<open>closed\<close> are set together by \<open>finish\<close> and nowhere else.\<close>

section \<open>Groups\<close>

text \<open>\<open>signalAll\<close>: the signals that were sent, where they may reach a process.\<close>

definition signalAll :: "signal \<Rightarrow> managed \<Rightarrow> managed" where
  "signalAll sig st = st\<lparr>mp_signals := mp_signals st @ [sig]\<rparr>"

definition liveGroups :: "process_options \<Rightarrow> group_view \<Rightarrow> managed \<Rightarrow> int list" where
  "liveGroups opts gv st =
     (case mp_pid st of
        None \<Rightarrow> []
      | Some pid \<Rightarrow>
          if \<not> po_posix opts then (if mp_leaderExit st \<noteq> None then [] else [pid])
          else (if gv_leader gv then [pid] else []) @ gv_owned gv)"

definition cleanupVerdict :: "process_options \<Rightarrow> group_view \<Rightarrow> bool \<Rightarrow> managed \<Rightarrow> cleanup_verdict" where
  "cleanupVerdict opts gv pipesHeld st =
     (if mp_pid st = None then CleanupConfirmed
      else if \<not> po_posix opts then CleanupUnconfirmed
      else if gv_leader gv \<or> gv_owned gv \<noteq> [] \<or> pipesHeld \<or> (gv_error gv \<noteq> None \<and> gv_error gv \<noteq> Some [])
      then CleanupUnconfirmed else CleanupConfirmed)"

section \<open>Settling\<close>

definition stripReturn :: "string \<Rightarrow> string" where
  "stripReturn s = (if s \<noteq> [] \<and> last s = CHR 13 then butlast s else s)"

definition resolveVerified :: "process_options \<Rightarrow> int \<Rightarrow> group_view \<Rightarrow> managed \<Rightarrow> managed" where
  "resolveVerified opts now gv st =
     (case mp_verify st of
        None \<Rightarrow> st
      | Some v \<Rightarrow>
          if mp_result st \<noteq> None \<or> (liveGroups opts gv st \<noteq> [] \<and> now < vf_until v) then st
          else st\<lparr>mp_result := Some \<lparr>
            pr_exitCode = (case fst (vf_exit v) of None \<Rightarrow> 1 | Some c \<Rightarrow> c),
            pr_exitSignal = snd (vf_exit v),
            pr_observedExitCode = vf_observed v,
            pr_cleanup = cleanupVerdict opts gv (vf_pipesHeld v) st,
            pr_stderr = tailText (mp_stderr st),
            pr_stderrTruncated = (tb_omitted (mp_stderr st) > 0),
            pr_terminationReason = mp_reason st,
            pr_errorMessage = mp_message st,
            pr_semanticCompletion = mp_semantic st\<rparr>\<rparr>)"

text \<open>The rest of an unterminated last line is still delivered when nothing ended the process.\<close>

definition lastLine :: "process_options \<Rightarrow> managed \<Rightarrow> managed" where
  "lastLine opts st =
     (if mp_reason st = None \<and> js_trim (mp_stdout st) \<noteq> [] \<and> utf8_length (mp_stdout st) \<le> po_maxEventBytes opts
         \<and> po_hasLineReader opts
      then st\<lparr>mp_lines := mp_lines st @ [stripReturn (mp_stdout st)]\<rparr> else st)"

definition finish :: "process_options \<Rightarrow> int \<Rightarrow> group_view \<Rightarrow> bool \<Rightarrow> exit_status option \<Rightarrow> managed \<Rightarrow> managed" where
  "finish opts now gv forced fallback st =
     (if mp_closed st then st
      else
        let ended = forced \<or> mp_reason st \<noteq> None;
            st1 = lastLine opts ((if ended then signalAll SIGKILL st else st)\<lparr>mp_closed := True, mp_timer := False\<rparr>);
            exit = (case mp_leaderExit st of Some e \<Rightarrow> e | None \<Rightarrow>
              (case fallback of Some e \<Rightarrow> e | None \<Rightarrow> (None, if forced then Some ''SIGKILL'' else None)));
            observed = (case mp_leaderExit st of Some e \<Rightarrow> fst e
              | None \<Rightarrow> if forced \<or> mp_pid st = None then None else fst exit)
        in resolveVerified opts now gv (st1\<lparr>mp_verify := Some
             \<lparr>vf_until = now + (if ended then min 1000 (max 100 (po_termGraceMs opts)) else 0),
              vf_exit = exit, vf_observed = observed, vf_pipesHeld = (forced \<and> \<not> mp_pipesClosed st)\<rparr>\<rparr>))"

text \<open>\<open>check\<close> of a teardown.\<close>

definition teardownCheck :: "process_options \<Rightarrow> int \<Rightarrow> group_view \<Rightarrow> managed \<Rightarrow> managed" where
  "teardownCheck opts now gv st =
     (case mp_teardown st of
        None \<Rightarrow> st
      | Some (startedAt, escalated) \<Rightarrow>
          if mp_closed st then st
          else if mp_pipesClosed st \<and> liveGroups opts gv st = [] then finish opts now gv False None st
          else
            let elapsed = now - startedAt;
                st1 = (if elapsed \<ge> po_termGraceMs opts \<and> \<not> escalated
                       then signalAll SIGKILL (st\<lparr>mp_teardown := Some (startedAt, True)\<rparr>) else st)
            in if elapsed \<ge> po_termGraceMs opts * 2 then finish opts now gv True None st1 else st1)"

definition startTeardown :: "process_options \<Rightarrow> int \<Rightarrow> group_view \<Rightarrow> managed \<Rightarrow> managed" where
  "startTeardown opts now gv st =
     (if mp_teardown st \<noteq> None \<or> mp_closed st then st
      else teardownCheck opts now gv (signalAll SIGTERM (st\<lparr>mp_teardown := Some (now, False), mp_timer := False\<rparr>)))"

definition requestTermination ::
  "process_options \<Rightarrow> int \<Rightarrow> group_view \<Rightarrow> termination_reason \<Rightarrow> string option \<Rightarrow> managed \<Rightarrow> managed" where
  "requestTermination opts now gv reason msg st =
     (if mp_closed st \<or> mp_reason st \<noteq> None \<or> mp_teardown st \<noteq> None then st
      else startTeardown opts now gv (st\<lparr>mp_reason := Some reason, mp_message := msg, mp_stdout := []\<rparr>))"

section \<open>Output\<close>

text \<open>\<open>split("\n")\<close> with the last piece apart.\<close>

fun splitLines :: "string \<Rightarrow> string \<Rightarrow> string list \<times> string" where
  "splitLines acc [] = ([], rev acc)"
| "splitLines acc (c # cs) =
     (if c = CHR 10 then (rev acc # fst (splitLines [] cs), snd (splitLines [] cs)) else splitLines (c # acc) cs)"

fun deliverLines :: "process_options \<Rightarrow> int \<Rightarrow> group_view \<Rightarrow> string list \<Rightarrow> managed \<Rightarrow> managed" where
  "deliverLines opts now gv [] st = st"
| "deliverLines opts now gv (rawLine # rest) st =
     (if mp_reason st \<noteq> None then st
      else if po_limitStdoutEvents opts \<and> utf8_length (stripReturn rawLine) > po_maxEventBytes opts
      then requestTermination opts now gv OutputLimit (Some ''Subagent JSON event exceeded the limit'') st
      else deliverLines opts now gv rest
        (if po_hasLineReader opts then st\<lparr>mp_lines := mp_lines st @ [stripReturn rawLine]\<rparr> else st))"

definition stdoutData :: "process_options \<Rightarrow> int \<Rightarrow> group_view \<Rightarrow> string \<Rightarrow> managed \<Rightarrow> managed" where
  "stdoutData opts now gv chunk st =
     (if mp_closed st \<or> mp_reason st \<noteq> None \<or> (\<not> po_hasLineReader opts \<and> \<not> po_limitStdoutEvents opts) then st
      else
        let buf = mp_stdout st @ chunk in
        if po_limitStdoutEvents opts \<and> utf8_length buf > po_maxEventBytes opts \<and> CHR 10 \<notin> set buf
        then (requestTermination opts now gv OutputLimit (Some ''Subagent emitted an unterminated JSON event'')
               (st\<lparr>mp_stdout := buf\<rparr>))\<lparr>mp_stdout := []\<rparr>
        else deliverLines opts now gv (fst (splitLines [] buf)) (st\<lparr>mp_stdout := snd (splitLines [] buf)\<rparr>))"

section \<open>Events\<close>

datatype process_event =
    StdoutData string | StderrData string | ProcessError string | StdinError string | LeaderExit exit_status
  | PipesClose exit_status | RunTimeout | AbortSignal | Terminate termination_reason "string option" | Complete
  | TeardownTimer | VerifyTimer

definition process_step :: "process_options \<Rightarrow> int \<times> group_view \<times> process_event \<Rightarrow> managed \<Rightarrow> managed" where
  "process_step opts e st =
     (case e of (now, gv, ev) \<Rightarrow>
       (case ev of
          StdoutData chunk \<Rightarrow> stdoutData opts now gv chunk st
        | StderrData chunk \<Rightarrow> st\<lparr>mp_stderr := appendTail (po_maxStderrBytes opts) chunk (mp_stderr st)\<rparr>
        | ProcessError msg \<Rightarrow>
            if mp_pid st = None
            then finish opts now gv False (Some (Some 1, None)) (st\<lparr>mp_reason := Some SpawnError, mp_message := Some msg\<rparr>)
            else requestTermination opts now gv SpawnError (Some msg) st
        | StdinError msg \<Rightarrow>
            if mp_closed st then st
            else requestTermination opts now gv SpawnError (Some (''Subagent process stdin failed: '' @ msg)) st
        | LeaderExit e \<Rightarrow>
            (let st1 = st\<lparr>mp_leaderExit := Some e\<rparr> in
             if po_cleanupOnExit opts then startTeardown opts now gv st1 else st1)
        | PipesClose e \<Rightarrow>
            (let st1 = st\<lparr>mp_pipesClosed := True,
                   mp_leaderExit := (case mp_leaderExit st of None \<Rightarrow> Some e | Some x \<Rightarrow> Some x)\<rparr> in
             if mp_teardown st \<noteq> None then st1
             else if po_cleanupOnExit opts \<and> mp_pid st \<noteq> None then startTeardown opts now gv st1
             else finish opts now gv False None st1)
        | RunTimeout \<Rightarrow>
            if mp_timer st
            then requestTermination opts now gv Timeout (Some ''Subagent exceeded the execution timeout.'') st
            else st
        | AbortSignal \<Rightarrow> requestTermination opts now gv Aborted (Some ''Subagent execution was aborted.'') st
        | Terminate reason msg \<Rightarrow> requestTermination opts now gv reason msg st
        | Complete \<Rightarrow>
            if mp_closed st \<or> mp_teardown st \<noteq> None then st
            else startTeardown opts now gv (st\<lparr>mp_semantic := True\<rparr>)
        | TeardownTimer \<Rightarrow> teardownCheck opts now gv st
        | VerifyTimer \<Rightarrow> resolveVerified opts now gv st))"

datatype spawn_outcome = SpawnThrows string | Spawned "int option"

definition newProcess :: managed where
  "newProcess = \<lparr>mp_pid = None, mp_stdout = [], mp_stderr = \<lparr>tb_tail = [], tb_omitted = 0\<rparr>, mp_lines = [], mp_closed = False,
     mp_reason = None, mp_message = None, mp_semantic = False, mp_timer = False, mp_teardown = None, mp_pipesClosed = False,
     mp_leaderExit = None, mp_signals = [], mp_verify = None, mp_result = None\<rparr>"

definition startManagedProcess :: "process_options \<Rightarrow> int \<Rightarrow> group_view \<Rightarrow> spawn_outcome \<Rightarrow> bool \<Rightarrow> managed" where
  "startManagedProcess opts now gv outcome aborted =
     (let st1 = (case outcome of
            SpawnThrows msg \<Rightarrow> finish opts now gv False (Some (Some 1, None))
              (newProcess\<lparr>mp_reason := Some SpawnError, mp_message := Some msg\<rparr>)
          | Spawned pid \<Rightarrow> newProcess\<lparr>mp_pid := pid\<rparr>);
          st2 = (if aborted then requestTermination opts now gv Aborted (Some ''Subagent execution was aborted.'') st1 else st1)
      in if mp_closed st2 \<or> mp_teardown st2 \<noteq> None then st2 else st2\<lparr>mp_timer := True\<rparr>)"

definition run_process :: "process_options \<Rightarrow> (int \<times> group_view \<times> process_event) list \<Rightarrow> managed \<Rightarrow> managed" where
  "run_process opts evs st = fold (process_step opts) evs st"

section \<open>Every process settles\<close>

definition base_ok :: "int \<Rightarrow> managed \<Rightarrow> bool" where
  "base_ok t st \<longleftrightarrow> (mp_closed st \<longleftrightarrow> mp_verify st \<noteq> None) \<and>
     (\<forall>t0 e. mp_teardown st = Some (t0, e) \<longrightarrow> t0 \<le> t) \<and>
     (\<forall>v. mp_verify st = Some v \<longrightarrow> vf_until v \<le> t + 1000)"

text \<open>A process without a teardown still has its timer.\<close>

definition armed :: "managed \<Rightarrow> bool" where
  "armed st \<longleftrightarrow> mp_closed st \<or> mp_teardown st \<noteq> None \<or> (mp_timer st \<and> mp_reason st = None)"

definition ending :: "managed \<Rightarrow> bool" where
  "ending st \<longleftrightarrow> mp_closed st \<or> mp_teardown st \<noteq> None"

text \<open>What is decided stays: the start of the teardown, the settled state, the result.\<close>

definition follows :: "managed \<Rightarrow> managed \<Rightarrow> bool" where
  "follows st st' \<longleftrightarrow> (mp_closed st \<longrightarrow> mp_closed st' \<and> mp_verify st' = mp_verify st) \<and>
     (\<forall>t0 e. mp_teardown st = Some (t0, e) \<longrightarrow> (\<exists>e'. mp_teardown st' = Some (t0, e'))) \<and>
     (mp_result st \<noteq> None \<longrightarrow> mp_result st' = mp_result st)"

lemma follows_refl [simp]: "follows st st"
  by (simp add: follows_def)

lemma follows_trans [trans]: "follows a b \<Longrightarrow> follows b c \<Longrightarrow> follows a c"
  unfolding follows_def by (metis (no_types, opaque_lifting))

lemma signalAll_simps [simp]:
  "mp_closed (signalAll s st) = mp_closed st" "mp_verify (signalAll s st) = mp_verify st" "mp_reason (signalAll s st) = mp_reason st"
  "mp_teardown (signalAll s st) = mp_teardown st" "mp_result (signalAll s st) = mp_result st" "mp_timer (signalAll s st) = mp_timer st"
  "mp_pid (signalAll s st) = mp_pid st" "mp_leaderExit (signalAll s st) = mp_leaderExit st" "mp_semantic (signalAll s st) = mp_semantic st"
  "mp_pipesClosed (signalAll s st) = mp_pipesClosed st" "mp_lines (signalAll s st) = mp_lines st"
  by (simp_all add: signalAll_def)

lemma lastLine_simps [simp]:
  "mp_closed (lastLine opts st) = mp_closed st" "mp_verify (lastLine opts st) = mp_verify st" "mp_reason (lastLine opts st) = mp_reason st"
  "mp_teardown (lastLine opts st) = mp_teardown st" "mp_result (lastLine opts st) = mp_result st" "mp_timer (lastLine opts st) = mp_timer st"
  "mp_pid (lastLine opts st) = mp_pid st" "mp_leaderExit (lastLine opts st) = mp_leaderExit st" "mp_semantic (lastLine opts st) = mp_semantic st"
  "mp_pipesClosed (lastLine opts st) = mp_pipesClosed st"
  by (simp_all add: lastLine_def)

lemma resolve_simps [simp]:
  "mp_closed (resolveVerified opts now gv st) = mp_closed st" "mp_verify (resolveVerified opts now gv st) = mp_verify st"
  "mp_reason (resolveVerified opts now gv st) = mp_reason st" "mp_teardown (resolveVerified opts now gv st) = mp_teardown st"
  "mp_timer (resolveVerified opts now gv st) = mp_timer st" "mp_pid (resolveVerified opts now gv st) = mp_pid st"
  "mp_leaderExit (resolveVerified opts now gv st) = mp_leaderExit st" "mp_semantic (resolveVerified opts now gv st) = mp_semantic st"
  "mp_pipesClosed (resolveVerified opts now gv st) = mp_pipesClosed st"
  by (simp_all add: resolveVerified_def split: option.split)

lemma resolve_follows: "follows st (resolveVerified opts now gv st)"
  by (auto simp: follows_def resolveVerified_def split: option.split)

lemma finish_ok:
  assumes "base_ok now st"
  shows "base_ok now (finish opts now gv forced fb st) \<and> mp_closed (finish opts now gv forced fb st) \<and>
    follows st (finish opts now gv forced fb st)"
proof (cases "mp_closed st")
  case False
  then have "mp_verify st = None" using assms by (simp add: base_ok_def)
  then show ?thesis using assms False
    by (auto simp: finish_def base_ok_def Let_def follows_def) (auto simp: resolveVerified_def split: if_splits)
qed (use assms in \<open>simp add: finish_def\<close>)

lemma check_ok:
  assumes "base_ok now st"
  shows "base_ok now (teardownCheck opts now gv st) \<and> follows st (teardownCheck opts now gv st) \<and>
    (\<forall>t0 e. mp_teardown st = Some (t0, e) \<longrightarrow> now \<ge> t0 + po_termGraceMs opts * 2 \<longrightarrow> mp_closed (teardownCheck opts now gv st)) \<and>
    (ending st \<longrightarrow> ending (teardownCheck opts now gv st))"
proof (cases "mp_teardown st")
  case (Some d)
  obtain t0 e where d: "d = (t0, e)" by force
  define st1 where "st1 = (if now - t0 \<ge> po_termGraceMs opts \<and> \<not> e then signalAll SIGKILL (st\<lparr>mp_teardown := Some (t0, True)\<rparr>) else st)"
  have st1: "base_ok now st1" "follows st st1" "ending st \<longrightarrow> ending st1" using assms Some
    by (auto simp: st1_def base_ok_def follows_def ending_def d)
  have eq: "teardownCheck opts now gv st =
      (if mp_closed st then st
       else if mp_pipesClosed st \<and> liveGroups opts gv st = [] then finish opts now gv False None st
       else if now - t0 \<ge> po_termGraceMs opts * 2 then finish opts now gv True None st1 else st1)"
    using Some d by (simp add: teardownCheck_def st1_def Let_def)
  show ?thesis
    using finish_ok [OF assms, of opts gv False None] finish_ok [OF st1(1), of opts gv True None] st1 assms Some d
    by (auto simp: eq ending_def intro: follows_trans)
qed (use assms in \<open>simp add: teardownCheck_def\<close>)

lemma teardown_ok:
  assumes "base_ok now st"
  shows "base_ok now (startTeardown opts now gv st) \<and> follows st (startTeardown opts now gv st) \<and>
    ending (startTeardown opts now gv st)"
proof (cases "ending st")
  case False
  define st1 where "st1 = signalAll SIGTERM (st\<lparr>mp_teardown := Some (now, False), mp_timer := False\<rparr>)"
  have "base_ok now st1" "follows st st1" "ending st1" using assms False by (auto simp: st1_def base_ok_def follows_def ending_def)
  then show ?thesis using check_ok [of now st1 opts gv] False
    by (auto simp: startTeardown_def st1_def ending_def intro: follows_trans)
qed (use assms in \<open>auto simp: startTeardown_def ending_def\<close>)

lemma request_ok:
  assumes "base_ok now st" "armed st"
  shows "base_ok now (requestTermination opts now gv reason msg st) \<and> follows st (requestTermination opts now gv reason msg st) \<and>
    ending (requestTermination opts now gv reason msg st)"
proof (cases "ending st")
  case False
  let ?s = "st\<lparr>mp_reason := Some reason, mp_message := msg, mp_stdout := []\<rparr>"
  have "base_ok now ?s" "follows st ?s" using assms by (auto simp: base_ok_def follows_def)
  moreover have "requestTermination opts now gv reason msg st = startTeardown opts now gv ?s"
    using False assms(2) by (simp add: requestTermination_def ending_def armed_def)
  ultimately show ?thesis using teardown_ok [of now ?s opts gv] by (auto intro: follows_trans)
qed (use assms in \<open>auto simp: requestTermination_def ending_def\<close>)

definition good :: "int \<Rightarrow> managed \<Rightarrow> bool" where
  "good t st \<longleftrightarrow> base_ok t st \<and> armed st"

lemma ending_armed: "ending st \<Longrightarrow> armed st"
  by (auto simp: ending_def armed_def)

lemma request_good: "good now st \<Longrightarrow> good now (requestTermination opts now gv reason msg st) \<and>
    follows st (requestTermination opts now gv reason msg st) \<and> ending (requestTermination opts now gv reason msg st)"
  using request_ok ending_armed by (auto simp: good_def)

lemma good_text:
  assumes "mp_closed st' = mp_closed st" "mp_verify st' = mp_verify st" "mp_teardown st' = mp_teardown st" "mp_timer st' = mp_timer st"
    "mp_reason st' = mp_reason st" "mp_result st' = mp_result st"
  shows "good t st' = good t st" "follows st st'"
  using assms by (simp_all add: good_def base_ok_def armed_def follows_def)

text \<open>What every end of a process and every change of the collected text keep, the output keeps.\<close>

locale process_invariant =
  fixes opts :: process_options and now :: int and gv :: group_view and inv :: "managed \<Rightarrow> bool"
  assumes request: "inv st \<Longrightarrow> inv (requestTermination opts now gv reason msg st)"
    and stdout: "inv st \<Longrightarrow> inv (st\<lparr>mp_stdout := s\<rparr>)"
    and lines: "inv st \<Longrightarrow> inv (st\<lparr>mp_lines := ls\<rparr>)"
begin

lemma deliver: "inv st \<Longrightarrow> inv (deliverLines opts now gv xs st)"
  by (induction xs arbitrary: st) (auto intro: request lines)

lemma reading: "inv st \<Longrightarrow> inv (stdoutData opts now gv chunk st)"
  unfolding stdoutData_def Let_def using request stdout deliver by simp

end

interpretation settling: process_invariant opts now gv "\<lambda>st'. good now st' \<and> follows st st'"
  for opts now gv st
proof (unfold_locales, goal_cases)
  case (1 st' reason msg)
  then show ?case using request_good [of now st' opts gv reason msg] follows_trans by blast
next
  case (2 st' s)
  then show ?case using good_text [of "st'\<lparr>mp_stdout := s\<rparr>" st'] follows_trans by auto
next
  case (3 st' ls)
  then show ?case using good_text [of "st'\<lparr>mp_lines := ls\<rparr>" st'] follows_trans by auto
qed

lemma follows_field:
  assumes "mp_closed st' = mp_closed st" "mp_verify st' = mp_verify st" "mp_teardown st' = mp_teardown st" "mp_result st' = mp_result st"
  shows "follows st st'"
  using assms by (simp add: follows_def)

lemma started_good: "base_ok now st' \<Longrightarrow> follows st st' \<Longrightarrow> good now (startTeardown opts now gv st') \<and> follows st (startTeardown opts now gv st')"
  using teardown_ok [of now st' opts gv] ending_armed follows_trans by (auto simp: good_def)

lemma finished_good: "base_ok now st' \<Longrightarrow> follows st st' \<Longrightarrow> good now (finish opts now gv f fb st') \<and> follows st (finish opts now gv f fb st')"
  using finish_ok [of now st' opts gv f fb] follows_trans by (auto simp: good_def armed_def)

lemma step_ok:
  assumes "good now st"
  shows "good now (process_step opts (now, gv, ev) st) \<and> follows st (process_step opts (now, gv, ev) st)"
proof (cases ev)
  case (StdoutData c)
  then show ?thesis using settling.reading [of now st st opts gv c] assms by (simp add: process_step_def)
next
  case (StderrData c)
  then show ?thesis using assms good_text [of "st\<lparr>mp_stderr := appendTail (po_maxStderrBytes opts) c (mp_stderr st)\<rparr>" st]
    by (simp add: process_step_def)
next
  case (ProcessError m)
  let ?s = "st\<lparr>mp_reason := Some SpawnError, mp_message := Some m\<rparr>"
  have "base_ok now ?s" using assms by (simp add: good_def base_ok_def)
  then show ?thesis using ProcessError request_good [OF assms] finished_good [of now ?s st] follows_field [of ?s st]
    by (simp add: process_step_def)
next
  case (StdinError m)
  then show ?thesis using request_good [OF assms] assms by (simp add: process_step_def)
next
  case (LeaderExit e)
  let ?s = "st\<lparr>mp_leaderExit := Some e\<rparr>"
  have "base_ok now ?s" "good now ?s" using assms by (auto simp: good_def base_ok_def armed_def)
  then show ?thesis using LeaderExit started_good [of now ?s st] follows_field [of ?s st]
    by (simp add: process_step_def Let_def)
next
  case (PipesClose e)
  let ?s = "st\<lparr>mp_pipesClosed := True, mp_leaderExit := (case mp_leaderExit st of None \<Rightarrow> Some e | Some x \<Rightarrow> Some x)\<rparr>"
  have "base_ok now ?s" "good now ?s" using assms by (auto simp: good_def base_ok_def armed_def)
  then show ?thesis using PipesClose started_good [of now ?s st] finished_good [of now ?s st] follows_field [of ?s st]
    by (simp add: process_step_def Let_def)
next
  case RunTimeout
  then show ?thesis using request_good [OF assms] assms by (simp add: process_step_def)
next
  case AbortSignal
  then show ?thesis using request_good [OF assms] by (simp add: process_step_def)
next
  case (Terminate r m)
  then show ?thesis using request_good [OF assms] by (simp add: process_step_def)
next
  case Complete
  let ?s = "st\<lparr>mp_semantic := True\<rparr>"
  have "base_ok now ?s" using assms by (simp add: good_def base_ok_def)
  then show ?thesis using Complete started_good [of now ?s st] follows_field [of ?s st] assms by (simp add: process_step_def)
next
  case TeardownTimer
  have "mp_teardown st = None \<Longrightarrow> teardownCheck opts now gv st = st" by (simp add: teardownCheck_def)
  then show ?thesis using TeardownTimer check_ok [of now st opts gv] assms ending_armed
    by (cases "mp_teardown st") (auto simp: process_step_def good_def ending_def)
next
  case VerifyTimer
  then show ?thesis using assms resolve_follows by (auto simp: process_step_def good_def base_ok_def armed_def)
qed

lemma good_later: "good t st \<Longrightarrow> t \<le> t' \<Longrightarrow> good t' st"
  by (force simp: good_def base_ok_def)

lemma run_ok:
  assumes "good t st" "sorted (map fst evs)" "\<forall>e \<in> set evs. t \<le> fst e"
  shows "good (fold max (map fst evs) t) (run_process opts evs st) \<and> follows st (run_process opts evs st)"
  using assms
proof (induction evs arbitrary: t st)
  case (Cons e evs)
  obtain now gv ev where e: "e = (now, gv, ev)" by (cases e) auto
  have le: "t \<le> now" using Cons.prems(3) e by auto
  from step_ok [OF good_later [OF Cons.prems(1) le], of opts gv ev] have
    s: "good now (process_step opts e st)" "follows st (process_step opts e st)" by (auto simp: e)
  have "good (fold max (map fst evs) now) (run_process opts evs (process_step opts e st)) \<and>
      follows (process_step opts e st) (run_process opts evs (process_step opts e st))"
    by (rule Cons.IH [OF s(1)]) (use Cons.prems(2) e in auto)
  then show ?case using s(2) le follows_trans by (auto simp: run_process_def e max_absorb2)
qed (simp add: run_process_def)

lemma fold_max_le: "t \<le> u \<Longrightarrow> \<forall>x \<in> set ts. x \<le> u \<Longrightarrow> fold max ts t \<le> (u::int)"
  by (induction ts arbitrary: t) auto

lemma run_until:
  assumes "good t st" "sorted (map fst evs)" "\<forall>e \<in> set evs. t \<le> fst e \<and> fst e \<le> u" "t \<le> u"
  shows "good u (run_process opts evs st) \<and> follows st (run_process opts evs st)"
  using run_ok [OF assms(1,2), of opts] assms(3,4) good_later [OF _ fold_max_le] by auto

lemma started:
  "good t0 (startManagedProcess opts t0 gv outcome aborted)"
proof -
  define s1 where "s1 = (case outcome of
      SpawnThrows msg \<Rightarrow> finish opts t0 gv False (Some (Some 1, None)) (newProcess\<lparr>mp_reason := Some SpawnError, mp_message := Some msg\<rparr>)
    | Spawned pid \<Rightarrow> newProcess\<lparr>mp_pid := pid\<rparr>)"
  have b1: "base_ok t0 s1 \<and> (mp_closed s1 \<or> (mp_reason s1 = None \<and> mp_teardown s1 = None))"
  proof (cases outcome)
    case (SpawnThrows m)
    have "base_ok t0 (newProcess\<lparr>mp_reason := Some SpawnError, mp_message := Some m\<rparr>)" by (simp add: base_ok_def newProcess_def)
    from finish_ok [OF this, of opts gv False "Some (Some 1, None)"] show ?thesis by (simp add: s1_def SpawnThrows)
  qed (simp add: s1_def base_ok_def newProcess_def)
  define s2 where "s2 = (if aborted then requestTermination opts t0 gv Aborted (Some ''Subagent execution was aborted.'') s1 else s1)"
  have req: "base_ok t0 (requestTermination opts t0 gv r m s1) \<and> ending (requestTermination opts t0 gv r m s1)" for r m
    using b1 teardown_ok [of t0 "s1\<lparr>mp_reason := Some r, mp_message := m, mp_stdout := []\<rparr>" opts gv]
    by (auto simp: requestTermination_def ending_def base_ok_def)
  have "base_ok t0 s2 \<and> (ending s2 \<or> mp_reason s2 = None)"
    using req b1 by (auto simp: s2_def ending_def)
  then show ?thesis
    unfolding startManagedProcess_def Let_def s1_def [symmetric] s2_def [symmetric]
    by (auto simp: good_def armed_def ending_def base_ok_def)
qed

text \<open>C35. A managed process always settles: once its run timer has fired, a tick of the teardown after twice the grace
  time and a tick of the verification a second later give its result, whatever the process, its groups and
  its pipes did before, in between and after, and whether or not anything was ever reported for it.\<close>

theorem managed_process_settles:
  assumes "sorted (map fst (a @ (t1, g1, RunTimeout) # b @ (t2, g2, TeardownTimer) # c @ (t3, g3, VerifyTimer) # d))"
    and "\<forall>e \<in> set (a @ (t1, g1, RunTimeout) # b @ (t2, g2, TeardownTimer) # c @ (t3, g3, VerifyTimer) # d). t0 \<le> fst e"
    and "t2 \<ge> t1 + 2 * po_termGraceMs opts" "t3 \<ge> t2 + 1000"
  shows "mp_result (run_process opts (a @ (t1, g1, RunTimeout) # b @ (t2, g2, TeardownTimer) # c @ (t3, g3, VerifyTimer) # d)
    (startManagedProcess opts t0 gv outcome aborted)) \<noteq> None"
proof -
  let ?step = "process_step opts"
  define sa where "sa = run_process opts a (startManagedProcess opts t0 gv outcome aborted)"
  define s1 where "s1 = ?step (t1, g1, RunTimeout) sa"
  define sb where "sb = run_process opts b s1"
  define s2 where "s2 = ?step (t2, g2, TeardownTimer) sb"
  define sc where "sc = run_process opts c s2"
  define s3 where "s3 = ?step (t3, g3, VerifyTimer) sc"
  have ord: "t1 \<le> t2" "t2 \<le> t3" using assms(1) by (auto simp: sorted_append)
  have ga: "good t1 sa" unfolding sa_def
    using run_until [OF started, of a t0 t1] assms(1,2) by (auto simp: sorted_append)
  have g1: "good t1 s1" using step_ok [OF ga] by (simp add: s1_def)
  have "ending s1"
  proof (cases "ending sa")
    case True
    then show ?thesis using step_ok [OF ga, of opts g1 RunTimeout] by (fastforce simp: s1_def ending_def follows_def)
  next
    case False
    then have "mp_timer sa" using ga by (auto simp: good_def armed_def ending_def)
    then show ?thesis using request_good [OF ga] by (simp add: s1_def process_step_def)
  qed
  have gb: "good t2 sb" "follows s1 sb"
    using run_until [OF g1, of b t2 opts] assms(1) ord by (auto simp: sb_def sorted_append)
  have g2: "good t2 s2" "follows sb s2" using step_ok [OF gb(1)] by (auto simp: s2_def)
  have "mp_closed s2"
  proof (cases "mp_closed s1")
    case True
    then show ?thesis using gb(2) g2(2) by (auto simp: follows_def)
  next
    case False
    then obtain st e where t: "mp_teardown s1 = Some (st, e)" using \<open>ending s1\<close> by (auto simp: ending_def)
    then obtain e' where tb: "mp_teardown sb = Some (st, e')" using gb(2) by (auto simp: follows_def)
    have "st \<le> t1" using g1 t by (auto simp: good_def base_ok_def)
    then show ?thesis using check_ok [of t2 sb opts g2] gb(1) tb assms(3)
      by (auto simp: s2_def process_step_def good_def)
  qed
  then obtain v where v: "mp_verify s2 = Some v" "vf_until v \<le> t2 + 1000" using g2(1) by (auto simp: good_def base_ok_def)
  have gc: "good t3 sc" "follows s2 sc"
    using run_until [OF g2(1), of c t3 opts] assms(1) ord by (auto simp: sc_def sorted_append)
  have "mp_verify sc = Some v" using gc(2) \<open>mp_closed s2\<close> v(1) by (simp add: follows_def)
  then have "mp_result s3 \<noteq> None" using v(2) assms(4) by (auto simp: s3_def process_step_def resolveVerified_def)
  moreover have "good t3 s3" using step_ok [OF gc(1)] by (simp add: s3_def)
  then have "follows s3 (run_process opts d s3)" using run_ok [of t3 s3 d opts] assms(1) by (auto simp: sorted_append)
  ultimately have "mp_result (run_process opts d s3) \<noteq> None" by (auto simp: follows_def)
  then show ?thesis by (simp add: run_process_def s3_def sc_def s2_def sb_def s1_def sa_def)
qed

section \<open>Results are evidence\<close>

text \<open>The exits that were reported and the views of the groups that were seen.\<close>

definition quiet :: "managed \<Rightarrow> bool" where
  "quiet st \<longleftrightarrow> mp_reason st = None \<and> \<not> mp_semantic st"

definition evidence :: "process_options \<Rightarrow> group_view set \<Rightarrow> exit_status set \<Rightarrow> managed \<Rightarrow> bool" where
  "evidence opts seen exits st \<longleftrightarrow>
     (\<forall>e. mp_leaderExit st = Some e \<longrightarrow> e \<in> exits) \<and>
     (mp_teardown st \<noteq> None \<longrightarrow> quiet st \<longrightarrow> mp_leaderExit st \<noteq> None) \<and>
     (\<forall>v. mp_verify st = Some v \<longrightarrow> quiet st \<longrightarrow> vf_exit v \<in> exits \<and> vf_observed v = fst (vf_exit v)) \<and>
     (\<forall>r. mp_result st = Some r \<longrightarrow> pr_terminationReason r = None \<longrightarrow> \<not> pr_semanticCompletion r \<longrightarrow>
        (\<exists>e \<in> exits. pr_exitCode r = (case fst e of None \<Rightarrow> 1 | Some c \<Rightarrow> c) \<and> pr_exitSignal r = snd e \<and> pr_observedExitCode r = fst e)) \<and>
     (\<forall>r. mp_result st = Some r \<longrightarrow> pr_cleanup r = CleanupConfirmed \<longrightarrow> mp_pid st \<noteq> None \<longrightarrow>
        po_posix opts \<and> (\<exists>gv \<in> seen. \<not> gv_leader gv \<and> gv_owned gv = []))"

lemma evidence_resolve:
  assumes "evidence opts seen exits st" "gv \<in> seen"
  shows "evidence opts seen exits (resolveVerified opts now gv st)"
proof (cases "mp_result (resolveVerified opts now gv st) = mp_result st")
  case True
  then have "resolveVerified opts now gv st = st" by (auto simp: resolveVerified_def split: option.splits if_splits)
  then show ?thesis using assms(1) by simp
next
  case False
  then obtain v where v: "mp_verify st = Some v"
    "mp_result (resolveVerified opts now gv st) = Some \<lparr>
            pr_exitCode = (case fst (vf_exit v) of None \<Rightarrow> 1 | Some c \<Rightarrow> c), pr_exitSignal = snd (vf_exit v),
            pr_observedExitCode = vf_observed v, pr_cleanup = cleanupVerdict opts gv (vf_pipesHeld v) st,
            pr_stderr = tailText (mp_stderr st), pr_stderrTruncated = (tb_omitted (mp_stderr st) > 0),
            pr_terminationReason = mp_reason st, pr_errorMessage = mp_message st, pr_semanticCompletion = mp_semantic st\<rparr>"
    by (auto simp: resolveVerified_def split: option.splits if_splits)
  then show ?thesis using assms
    by (auto simp: evidence_def quiet_def cleanupVerdict_def split: if_splits)
qed

lemma evidence_finish:
  assumes "evidence opts seen exits st" "gv \<in> seen" "quiet st \<Longrightarrow> mp_leaderExit st \<noteq> None"
  shows "evidence opts seen exits (finish opts now gv forced fb st)"
proof (cases "mp_closed st")
  case False
  define exit where "exit = (case mp_leaderExit st of Some e \<Rightarrow> e | None \<Rightarrow>
      (case fb of Some e \<Rightarrow> e | None \<Rightarrow> (None, if forced then Some ''SIGKILL'' else None)))"
  define v where "v = \<lparr>vf_until = now + (if forced \<or> mp_reason st \<noteq> None then min 1000 (max 100 (po_termGraceMs opts)) else 0),
    vf_exit = exit,
    vf_observed = (case mp_leaderExit st of Some e \<Rightarrow> fst e
      | None \<Rightarrow> if forced \<or> mp_pid st = None then None else fst exit),
    vf_pipesHeld = (forced \<and> \<not> mp_pipesClosed st)\<rparr>"
  define s1 where "s1 = (lastLine opts ((if forced \<or> mp_reason st \<noteq> None then signalAll SIGKILL st else st)
      \<lparr>mp_closed := True, mp_timer := False\<rparr>))\<lparr>mp_verify := Some v\<rparr>"
  have eq: "finish opts now gv forced fb st = resolveVerified opts now gv s1"
    unfolding finish_def Let_def s1_def v_def exit_def using False by (simp only: if_False)
  have "mp_leaderExit s1 = mp_leaderExit st" "mp_teardown s1 = mp_teardown st" "quiet s1 = quiet st" "mp_verify s1 = Some v"
    "mp_result s1 = mp_result st" "mp_pid s1 = mp_pid st"
    by (simp_all add: s1_def quiet_def)
  moreover have "quiet st \<Longrightarrow> vf_exit v \<in> exits \<and> vf_observed v = fst (vf_exit v)"
    using assms(1,3) by (auto simp: v_def exit_def evidence_def)
  ultimately have "evidence opts seen exits s1" using assms(1) by (simp add: evidence_def)
  then show ?thesis unfolding eq using assms(2) evidence_resolve by blast
qed (use assms in \<open>simp add: finish_def\<close>)

lemma evidence_same:
  assumes "mp_leaderExit st' = mp_leaderExit st" "mp_teardown st' = mp_teardown st" "mp_verify st' = mp_verify st"
    "quiet st' = quiet st" "mp_result st' = mp_result st" "mp_pid st' = mp_pid st"
  shows "evidence opts seen exits st' = evidence opts seen exits st"
  using assms by (simp add: evidence_def)

lemma evidence_check:
  assumes "evidence opts seen exits st" "gv \<in> seen"
  shows "evidence opts seen exits (teardownCheck opts now gv st)"
proof (cases "mp_teardown st")
  case (Some d)
  obtain t0 e where d: "d = (t0, e)" by force
  have quiet: "quiet st \<Longrightarrow> mp_leaderExit st \<noteq> None" using assms(1) Some by (auto simp: evidence_def)
  let ?s = "signalAll SIGKILL (st\<lparr>mp_teardown := Some (t0, True)\<rparr>)"
  have s: "evidence opts seen exits ?s" using assms(1) Some d by (simp add: evidence_def quiet_def)
  have "quiet ?s \<Longrightarrow> mp_leaderExit ?s \<noteq> None" using quiet by (simp add: quiet_def)
  from evidence_finish [OF s assms(2) this] show ?thesis using s Some d assms quiet evidence_finish [OF assms(1,2) quiet]
    by (simp add: teardownCheck_def Let_def)
qed (use assms in \<open>simp add: teardownCheck_def\<close>)

lemma evidence_teardown:
  assumes "evidence opts seen exits st" "gv \<in> seen" "quiet st \<Longrightarrow> mp_leaderExit st \<noteq> None"
  shows "evidence opts seen exits (startTeardown opts now gv st)"
proof -
  have "evidence opts seen exits (signalAll SIGTERM (st\<lparr>mp_teardown := Some (now, False), mp_timer := False\<rparr>))"
    if "mp_teardown st = None"
    using assms(1,3) that by (simp add: evidence_def quiet_def)
  then show ?thesis using assms(1,2) evidence_check by (cases "mp_teardown st") (auto simp: startTeardown_def)
qed

lemma evidence_reason:
  assumes "evidence opts seen exits st" "\<not> quiet st'"
    "mp_leaderExit st' = mp_leaderExit st" "mp_result st' = mp_result st" "mp_pid st' = mp_pid st"
  shows "evidence opts seen exits st'"
  using assms by (simp add: evidence_def)

interpretation evident: process_invariant opts now gv "\<lambda>st. gv \<in> seen \<and> evidence opts seen exits st"
  for opts now gv seen exits
proof (unfold_locales, goal_cases)
  case (1 st reason msg)
  let ?s = "st\<lparr>mp_reason := Some reason, mp_message := msg, mp_stdout := []\<rparr>"
  have "evidence opts seen exits ?s" using 1 by (auto intro!: evidence_reason [of opts seen exits st] simp: quiet_def)
  then show ?case using 1 evidence_teardown [of opts seen exits ?s gv now]
    by (auto simp: requestTermination_def quiet_def)
next
  case (2 st s)
  then show ?case using evidence_same [of "st\<lparr>mp_stdout := s\<rparr>" st] by (simp add: quiet_def)
next
  case (3 st ls)
  then show ?case using evidence_same [of "st\<lparr>mp_lines := ls\<rparr>" st] by (simp add: quiet_def)
qed

definition exitOf :: "process_event \<Rightarrow> exit_status option" where
  "exitOf ev = (case ev of LeaderExit e \<Rightarrow> Some e | PipesClose e \<Rightarrow> Some e | _ \<Rightarrow> None)"

lemma evidence_step:
  assumes "evidence opts seen exits st" "gv \<in> seen" "\<And>e. exitOf ev = Some e \<Longrightarrow> e \<in> exits"
  shows "evidence opts seen exits (process_step opts (now, gv, ev) st)"
proof -
  have request: "evidence opts seen exits (requestTermination opts now gv r m st)" for r m
    using evident.request [of gv seen opts exits st now r m] assms by simp
  show ?thesis
  proof (cases ev)
    case (StdoutData c)
    then show ?thesis using evident.reading [of gv seen opts exits st now c] assms by (simp add: process_step_def)
  next
    case (StderrData c)
    then show ?thesis using assms evidence_same [of "st\<lparr>mp_stderr := appendTail (po_maxStderrBytes opts) c (mp_stderr st)\<rparr>" st]
      by (simp add: process_step_def quiet_def)
  next
    case (ProcessError m)
    let ?s = "st\<lparr>mp_reason := Some SpawnError, mp_message := Some m\<rparr>"
    have "evidence opts seen exits ?s" by (rule evidence_reason [OF assms(1)]) (simp_all add: quiet_def)
    then show ?thesis using ProcessError request evidence_finish [of opts seen exits ?s gv now False "Some (Some 1, None)"] assms(2)
      by (simp add: process_step_def quiet_def)
  next
    case (LeaderExit e)
    let ?s = "st\<lparr>mp_leaderExit := Some e\<rparr>"
    have "evidence opts seen exits ?s" using assms LeaderExit by (simp add: evidence_def quiet_def exitOf_def)
    then show ?thesis using LeaderExit evidence_teardown [of opts seen exits ?s gv now] assms(2) by (simp add: process_step_def Let_def)
  next
    case (PipesClose e)
    let ?s = "st\<lparr>mp_pipesClosed := True, mp_leaderExit := (case mp_leaderExit st of None \<Rightarrow> Some e | Some x \<Rightarrow> Some x)\<rparr>"
    have x: "mp_leaderExit ?s \<noteq> None" by (simp split: option.split)
    have "evidence opts seen exits ?s"
      using assms PipesClose by (auto simp: evidence_def quiet_def exitOf_def split: option.split)
    then show ?thesis
      using PipesClose evidence_teardown [of opts seen exits ?s gv now] evidence_finish [of opts seen exits ?s gv now False None] assms(2) x
      by (simp add: process_step_def Let_def)
  next
    case Complete
    let ?s = "st\<lparr>mp_semantic := True\<rparr>"
    have "evidence opts seen exits ?s" by (rule evidence_reason [OF assms(1)]) (simp_all add: quiet_def)
    then show ?thesis using Complete evidence_teardown [of opts seen exits ?s gv now] assms
      by (simp add: process_step_def quiet_def)
  next
    case TeardownTimer
    then show ?thesis using evidence_check [OF assms(1,2)] by (simp add: process_step_def)
  next
    case VerifyTimer
    then show ?thesis using evidence_resolve [OF assms(1,2)] by (simp add: process_step_def)
  qed (use request assms in \<open>simp_all add: process_step_def\<close>)
qed

interpretation evidence_run: event_machine "process_step opts"
  "\<lambda>e. fst (snd e) \<in> seen \<and> (\<forall>x. exitOf (snd (snd e)) = Some x \<longrightarrow> x \<in> exits)" "evidence opts seen exits"
  for opts seen exits
  by unfold_locales (auto intro: evidence_step)

lemma evidence_start:
  assumes "g0 \<in> seen"
  shows "evidence opts seen exits (startManagedProcess opts t0 g0 outcome aborted)"
proof -
  define s1 where "s1 = (case outcome of
      SpawnThrows msg \<Rightarrow> finish opts t0 g0 False (Some (Some 1, None)) (newProcess\<lparr>mp_reason := Some SpawnError, mp_message := Some msg\<rparr>)
    | Spawned pid \<Rightarrow> newProcess\<lparr>mp_pid := pid\<rparr>)"
  have "evidence opts seen exits s1"
  proof (cases outcome)
    case (SpawnThrows m)
    have "evidence opts seen exits (newProcess\<lparr>mp_reason := Some SpawnError, mp_message := Some m\<rparr>)"
      by (simp add: evidence_def newProcess_def)
    from evidence_finish [OF this assms] show ?thesis by (simp add: s1_def SpawnThrows quiet_def)
  qed (simp add: s1_def evidence_def newProcess_def)
  define s2 where "s2 = (if aborted then requestTermination opts t0 g0 Aborted (Some ''Subagent execution was aborted.'') s1 else s1)"
  have "evidence opts seen exits s2" unfolding s2_def
    using \<open>evidence opts seen exits s1\<close> evident.request [of g0 seen opts exits s1] assms by simp
  then show ?thesis unfolding startManagedProcess_def Let_def s1_def [symmetric] s2_def [symmetric]
    using evidence_same [of "s2\<lparr>mp_timer := True\<rparr>" s2] by (simp add: quiet_def)
qed

text \<open>C10. The result of a process is evidence, not a guess: without a reason for a termination and without the owner's
  completion it carries exactly an exit that was reported for the process, and it confirms the cleanup of
  a process that was started only when, at one of the moments, no group of it was alive.\<close>

theorem results_are_evidence:
  assumes "run_process opts evs (startManagedProcess opts t0 g0 outcome aborted) = st" "mp_result st = Some r"
  shows "(pr_terminationReason r = None \<and> \<not> pr_semanticCompletion r \<longrightarrow>
      (\<exists>(now, gv, ev) \<in> set evs. \<exists>e. exitOf ev = Some e \<and> pr_observedExitCode r = fst e \<and> pr_exitSignal r = snd e \<and>
         pr_exitCode r = (case fst e of None \<Rightarrow> 1 | Some c \<Rightarrow> c))) \<and>
    (pr_cleanup r = CleanupConfirmed \<and> mp_pid st \<noteq> None \<longrightarrow>
      po_posix opts \<and> (\<exists>gv \<in> insert g0 ((\<lambda>e. fst (snd e)) ` set evs). \<not> gv_leader gv \<and> gv_owned gv = []))"
proof -
  let ?seen = "insert g0 ((\<lambda>e. fst (snd e)) ` set evs)"
  let ?exits = "{x. \<exists>e \<in> set evs. exitOf (snd (snd e)) = Some x}"
  have "evidence opts ?seen ?exits st" unfolding assms(1) [symmetric] run_process_def
    by (rule evidence_run.run_inv [OF _ evidence_start]) auto
  then show ?thesis using assms(2) unfolding evidence_def by (force simp: case_prod_unfold)
qed

section \<open>Lines and chunks\<close>

lemma split_walk: "CHR 10 \<notin> set ys \<Longrightarrow> splitLines acc (ys @ zs) = splitLines (rev ys @ acc) zs"
  by (induction ys arbitrary: acc) auto

lemma split_acc: "CHR 10 \<notin> set acc \<Longrightarrow> splitLines acc xs = splitLines [] (rev acc @ xs)"
  using split_walk [of "rev acc" "[]" xs] by simp

lemma split_none: "CHR 10 \<notin> set xs \<Longrightarrow> splitLines [] xs = ([], xs)"
  using split_acc [of "rev xs" "[]"] by simp

lemma split_rest: "CHR 10 \<notin> set acc \<Longrightarrow> CHR 10 \<notin> set (snd (splitLines acc xs))"
  by (induction acc xs rule: splitLines.induct) auto

lemma split_append:
  "CHR 10 \<notin> set acc \<Longrightarrow> splitLines acc (a @ b) =
     (fst (splitLines acc a) @ fst (splitLines [] (snd (splitLines acc a) @ b)), snd (splitLines [] (snd (splitLines acc a) @ b)))"
proof (induction acc a rule: splitLines.induct)
  case (1 acc)
  then show ?case using split_acc [of acc b] by simp
next
  case (2 acc c cs)
  then show ?case by (cases "c = CHR 10") auto
qed

lemma split_append0:
  "splitLines [] (a @ b) =
     (fst (splitLines [] a) @ fst (splitLines [] (snd (splitLines [] a) @ b)), snd (splitLines [] (snd (splitLines [] a) @ b)))"
  by (rule split_append) simp

lemma lines_finish: "mp_reason st \<noteq> None \<Longrightarrow> mp_lines (finish opts now gv f fb st) = mp_lines st"
  by (auto simp: finish_def lastLine_def Let_def resolveVerified_def signalAll_def)

lemma reason_finish [simp]: "mp_reason (finish opts now gv f fb st) = mp_reason st"
  by (simp add: finish_def Let_def)

lemma lines_check: "mp_reason st \<noteq> None \<Longrightarrow>
    mp_lines (teardownCheck opts now gv st) = mp_lines st \<and> mp_reason (teardownCheck opts now gv st) = mp_reason st"
  by (simp add: teardownCheck_def Let_def lines_finish split: option.split prod.split)

lemma lines_request:
  assumes "\<not> ending st" "mp_reason st = None"
  shows "mp_lines (requestTermination opts now gv r m st) = mp_lines st" "mp_reason (requestTermination opts now gv r m st) = Some r"
  using assms lines_check [of "signalAll SIGTERM (st\<lparr>mp_reason := Some r, mp_message := m, mp_stdout := [], mp_teardown := Some (now, False), mp_timer := False\<rparr>)" opts now gv]
  by (simp_all add: requestTermination_def startTeardown_def ending_def signalAll_def)

definition fits :: "process_options \<Rightarrow> string \<Rightarrow> bool" where
  "fits opts s \<longleftrightarrow> po_limitStdoutEvents opts \<longrightarrow> utf8_length s \<le> po_maxEventBytes opts"

lemma deliver_lines:
  assumes "\<not> ending st" "mp_reason st = None" "po_hasLineReader opts"
  shows "(list_all (\<lambda>s. fits opts (stripReturn s)) ls \<and> deliverLines opts now gv ls st = st\<lparr>mp_lines := mp_lines st @ map stripReturn ls\<rparr>) \<or>
    (\<exists>k. k < length ls \<and> \<not> fits opts (stripReturn (ls ! k)) \<and> list_all (\<lambda>s. fits opts (stripReturn s)) (take k ls) \<and>
      mp_lines (deliverLines opts now gv ls st) = mp_lines st @ map stripReturn (take k ls) \<and>
      mp_reason (deliverLines opts now gv ls st) = Some OutputLimit)"
  using assms
proof (induction ls arbitrary: st)
  case (Cons l ls)
  let ?s = "st\<lparr>mp_lines := mp_lines st @ [stripReturn l]\<rparr>"
  show ?case
  proof (cases "fits opts (stripReturn l)")
    case True
    then have eq: "deliverLines opts now gv (l # ls) st = deliverLines opts now gv ls ?s" using Cons.prems by (auto simp: fits_def)
    have "\<not> ending ?s" "mp_reason ?s = None" using Cons.prems by (simp_all add: ending_def)
    from Cons.IH [OF this Cons.prems(3)] consider
        (all) "list_all (\<lambda>s. fits opts (stripReturn s)) ls" "deliverLines opts now gv ls ?s = ?s\<lparr>mp_lines := mp_lines ?s @ map stripReturn ls\<rparr>"
      | (cut) k where "k < length ls" "\<not> fits opts (stripReturn (ls ! k))" "list_all (\<lambda>s. fits opts (stripReturn s)) (take k ls)"
        "mp_lines (deliverLines opts now gv ls ?s) = mp_lines ?s @ map stripReturn (take k ls)"
        "mp_reason (deliverLines opts now gv ls ?s) = Some OutputLimit"
      by blast
    then show ?thesis
    proof cases
      case all
      then show ?thesis using True eq by simp
    next
      case cut
      then show ?thesis using True by (intro disjI2 exI [of _ "Suc k"]) (simp only: eq, simp)
    qed
  next
    case False
    then have "deliverLines opts now gv (l # ls) st = requestTermination opts now gv OutputLimit (Some ''Subagent JSON event exceeded the limit'') st"
      using Cons.prems by (auto simp: fits_def)
    then show ?thesis using lines_request [OF Cons.prems(1,2)] False by auto
  qed
qed simp

definition allFit :: "process_options \<Rightarrow> string \<Rightarrow> bool" where
  "allFit opts src \<longleftrightarrow> list_all (fits opts) (fst (splitLines [] src)) \<and> fits opts (snd (splitLines [] src))"

lemma fits_append: "fits opts (a @ b) \<Longrightarrow> fits opts a"
  by (auto simp: fits_def)

lemma fits_strip: "fits opts s \<Longrightarrow> fits opts (stripReturn s)"
  by (cases s rule: rev_cases) (auto simp: stripReturn_def intro: fits_append)

lemma first_piece:
  "(fst (splitLines acc b) = [] \<and> (\<exists>p. snd (splitLines acc b) = rev acc @ p)) \<or>
   (\<exists>p rest. fst (splitLines acc b) = (rev acc @ p) # rest)"
  by (induction acc b rule: splitLines.induct) (auto simp: append_Cons [symmetric])

lemma allFit_front:
  assumes "allFit opts (x @ b)" "CHR 10 \<notin> set x"
  shows "fits opts x"
  using first_piece [of "rev x" b] assms fits_append [of opts x] by (auto simp: allFit_def split_walk)

lemma allFit_append:
  "allFit opts (a @ b) \<longleftrightarrow> list_all (fits opts) (fst (splitLines [] a)) \<and> allFit opts (snd (splitLines [] a) @ b)"
  unfolding allFit_def split_append0 [of a b] by simp

lemma allFit_prefix:
  assumes "allFit opts (a @ b)"
  shows "allFit opts a"
proof -
  have "fits opts (snd (splitLines [] a))"
    using allFit_front [of opts "snd (splitLines [] a)" b] assms split_rest [of "[]" a] unfolding allFit_append [of opts a b] by simp
  then show ?thesis using assms unfolding allFit_append [of opts a b] by (simp add: allFit_def)
qed

definition framed :: "process_options \<Rightarrow> string \<Rightarrow> managed \<Rightarrow> bool" where
  "framed opts src st \<longleftrightarrow>
     (mp_reason st = None \<longrightarrow> \<not> ending st \<and> mp_lines st = map stripReturn (fst (splitLines [] src)) \<and>
        mp_stdout st = snd (splitLines [] src)) \<and>
     prefix (mp_lines st) (map stripReturn (fst (splitLines [] src))) \<and> list_all (fits opts) (mp_lines st) \<and>
     (allFit opts src \<longrightarrow> mp_reason st = None)"

lemma framed_chunk:
  assumes "framed opts src st" "po_hasLineReader opts"
  shows "framed opts (src @ chunk) (stdoutData opts now gv chunk st)"
proof (cases "mp_reason st")
  case (Some r)
  have "prefix (map stripReturn (fst (splitLines [] src))) (map stripReturn (fst (splitLines [] (src @ chunk))))"
    unfolding split_append0 [of src chunk] by simp
  then show ?thesis using assms Some allFit_prefix [of opts src chunk]
    by (auto simp: framed_def stdoutData_def intro: prefix_order.trans)
next
  case None
  define buf where "buf = mp_stdout st @ chunk"
  have st: "\<not> ending st" "mp_lines st = map stripReturn (fst (splitLines [] src))" "mp_stdout st = snd (splitLines [] src)"
    "list_all (fits opts) (mp_lines st)"
    using assms(1) None by (auto simp: framed_def)
  have split: "splitLines [] (src @ chunk) = (fst (splitLines [] src) @ fst (splitLines [] buf), snd (splitLines [] buf))"
    unfolding buf_def st(3) by (rule split_append0)
  have fit: "allFit opts buf" if ok: "allFit opts (src @ chunk)"
    using ok unfolding allFit_append [of opts src chunk] by (simp add: buf_def st(3))
  have live: "\<not> mp_closed st" using st(1) by (simp add: ending_def)
  show ?thesis
  proof (cases "po_limitStdoutEvents opts \<and> utf8_length buf > po_maxEventBytes opts \<and> CHR 10 \<notin> set buf")
    case True
    let ?s = "st\<lparr>mp_stdout := buf\<rparr>"
    have s: "\<not> ending ?s" "mp_reason ?s = None" using st(1) None by (simp_all add: ending_def)
    have "\<not> allFit opts buf" using True by (auto simp: allFit_def split_none fits_def)
    then have "\<not> allFit opts (src @ chunk)" using fit by blast
    then show ?thesis using True lines_request [OF s] None live assms(2) st(2,4)
      by (simp add: stdoutData_def Let_def framed_def split flip: buf_def)
  next
    case False
    let ?s = "st\<lparr>mp_stdout := snd (splitLines [] buf)\<rparr>"
    let ?ls = "fst (splitLines [] buf)"
    have s: "\<not> ending ?s" "mp_reason ?s = None" using st(1) None by (simp_all add: ending_def)
    have eq: "stdoutData opts now gv chunk st = deliverLines opts now gv ?ls ?s"
      using False None live assms(2) by (auto simp: stdoutData_def Let_def simp flip: buf_def)
    from deliver_lines [OF s assms(2), of ?ls now gv] consider
        (all) "list_all (\<lambda>s. fits opts (stripReturn s)) ?ls"
          "deliverLines opts now gv ?ls ?s = ?s\<lparr>mp_lines := mp_lines ?s @ map stripReturn ?ls\<rparr>"
      | (cut) k where "k < length ?ls" "\<not> fits opts (stripReturn (?ls ! k))" "list_all (\<lambda>s. fits opts (stripReturn s)) (take k ?ls)"
        "mp_lines (deliverLines opts now gv ?ls ?s) = mp_lines ?s @ map stripReturn (take k ?ls)"
        "mp_reason (deliverLines opts now gv ?ls ?s) = Some OutputLimit"
      by blast
    then show ?thesis
    proof cases
      case all
      then show ?thesis using st None s(1) by (auto simp: eq framed_def split ending_def list_all_iff)
    next
      case cut
      have "\<not> allFit opts (src @ chunk)"
      proof
        assume "allFit opts (src @ chunk)"
        then have "fits opts (?ls ! k)" using fit cut(1) by (auto simp: allFit_def list_all_length)
        then show False using cut(2) fits_strip by blast
      qed
      moreover have "prefix (map stripReturn (take k ?ls)) (map stripReturn ?ls)"
        by (simp add: take_map [symmetric] take_is_prefix)
      ultimately show ?thesis using cut st(2,4) by (auto simp: eq framed_def split list_all_iff)
    qed
  qed
qed

definition feed :: "process_options \<Rightarrow> (int \<times> group_view \<times> string) list \<Rightarrow> managed \<Rightarrow> managed" where
  "feed opts cs st = fold (\<lambda>(now, gv, chunk). process_step opts (now, gv, StdoutData chunk)) cs st"

lemma framed_feed:
  assumes "framed opts src st" "po_hasLineReader opts"
  shows "framed opts (src @ concat (map (snd \<circ> snd) cs)) (feed opts cs st)"
  using assms(1)
proof (induction cs arbitrary: src st)
  case (Cons c cs)
  obtain now gv chunk where c: "c = (now, gv, chunk)" by (cases c) auto
  have "framed opts (src @ chunk) (process_step opts (now, gv, StdoutData chunk) st)"
    using framed_chunk [OF Cons.prems assms(2)] by (simp add: process_step_def)
  from Cons.IH [OF this] show ?case by (simp add: feed_def c)
qed (simp add: feed_def)

text \<open>C36. The reader gets the lines of the output and not the chunks in which they arrive: the delivered lines are
  the first lines of the whole text, none is over the limit, they are all its complete lines while the
  process was not ended for its output, and it is never ended for output whose pieces fit.\<close>

theorem lines_do_not_depend_on_chunks:
  assumes "po_hasLineReader opts" "st = feed opts cs (startManagedProcess opts t0 g0 (Spawned (Some pid)) False)"
    and "ls = splitLines [] (concat (map (snd \<circ> snd) cs))"
  shows "prefix (mp_lines st) (map stripReturn (fst ls)) \<and> list_all (fits opts) (mp_lines st) \<and>
    (mp_reason st = None \<longrightarrow> mp_lines st = map stripReturn (fst ls) \<and> mp_stdout st = snd ls) \<and>
    (list_all (fits opts) (fst ls) \<and> fits opts (snd ls) \<longrightarrow> mp_reason st = None)"
proof -
  have "framed opts [] (startManagedProcess opts t0 g0 (Spawned (Some pid)) False)"
    by (simp add: framed_def startManagedProcess_def newProcess_def ending_def)
  from framed_feed [OF this assms(1), of cs] show ?thesis using assms(2,3) by (auto simp: framed_def allFit_def)
qed

lemma appendTail_end:
  "appendTail n c \<lparr>tb_tail = drop (length x - n) x, tb_omitted = length x - n\<rparr> =
     \<lparr>tb_tail = drop (length (x @ c) - n) (x @ c), tb_omitted = length (x @ c) - n\<rparr>"
proof (cases "length x \<le> n \<or> c = []")
  case False
  then have "length (drop (length x - n) x @ c) - n = length c" "\<not> length (drop (length x - n) x @ c) \<le> n" by auto
  moreover have "drop (length c) (drop (length x - n) x) = drop (length (x @ c) - n) x" using False by (simp add: add.commute)
  ultimately show ?thesis using False by (simp add: appendTail_def Let_def)
qed (auto simp: appendTail_def Let_def)

text \<open>The error output that a result shows is the end of what was written, with the number of bytes before it.\<close>

theorem stderr_keeps_the_end:
  "fold (appendTail n) chunks \<lparr>tb_tail = [], tb_omitted = 0\<rparr> =
     \<lparr>tb_tail = drop (length (concat chunks) - n) (concat chunks), tb_omitted = length (concat chunks) - n\<rparr>"
  by (induction chunks rule: rev_induct) (simp_all add: appendTail_end del: length_append)

text \<open>Where the limit looks at the text before the carriage return is removed, chunks do matter: a line of exactly the limit
  that ends in CR and LF is delivered when it comes at once, and ends the process when CR and LF come apart.\<close>

definition limitOptions :: process_options where
  "limitOptions = \<lparr>po_posix = True, po_termGraceMs = 250, po_maxStderrBytes = 10, po_maxEventBytes = 2, po_cleanupOnExit = False,
     po_limitStdoutEvents = True, po_hasLineReader = True\<rparr>"

definition aliveGroup :: group_view where
  "aliveGroup = \<lparr>gv_leader = True, gv_owned = [], gv_error = None\<rparr>"

definition noGroup :: group_view where
  "noGroup = \<lparr>gv_leader = False, gv_owned = [], gv_error = None\<rparr>"

abbreviation sampleProcess :: managed where
  "sampleProcess \<equiv> startManagedProcess limitOptions 0 aliveGroup (Spawned (Some 5)) False"

lemmas process_defs = startManagedProcess_def newProcess_def process_step_def stdoutData_def requestTermination_def
  startTeardown_def teardownCheck_def finish_def resolveVerified_def liveGroups_def cleanupVerdict_def signalAll_def lastLine_def
  limitOptions_def aliveGroup_def noGroup_def

theorem crlf_at_the_limit_depends_on_chunks:
  "mp_lines (feed limitOptions [(1, aliveGroup, [CHR ''a'', CHR ''b'', CHR 13, CHR 10])] sampleProcess) = [''ab''] \<and>
   mp_reason (feed limitOptions [(1, aliveGroup, [CHR ''a'', CHR ''b'', CHR 13, CHR 10])] sampleProcess) = None \<and>
   mp_reason (feed limitOptions [(1, aliveGroup, [CHR ''a'', CHR ''b'', CHR 13]), (1, aliveGroup, [CHR 10])] sampleProcess) = Some OutputLimit"
  by (simp add: feed_def process_defs Let_def stripReturn_def char_bytes_def)

section \<open>Concrete instances\<close>

theorem managed_process_settles_witness:
  "mp_result (run_process limitOptions [(10, aliveGroup, RunTimeout), (510, aliveGroup, TeardownTimer), (1510, aliveGroup, VerifyTimer)]
     sampleProcess) \<noteq> None"
  using managed_process_settles [of "[]" 10 aliveGroup "[]" 510 aliveGroup "[]" 1510 aliveGroup "[]" 0 limitOptions aliveGroup
      "Spawned (Some 5)" False]
  by (simp add: limitOptions_def)

text \<open>A process that exits with code 3 and closes its pipes.\<close>

definition exitEvents :: "(int \<times> group_view \<times> process_event) list" where
  "exitEvents = [(1, aliveGroup, StderrData ''oops''), (2, noGroup, LeaderExit (Some 3, None)), (3, noGroup, PipesClose (Some 3, None))]"

lemma sample_exits:
  "\<exists>r. mp_result (run_process limitOptions exitEvents sampleProcess) = Some r \<and> pr_terminationReason r = None \<and>
     \<not> pr_semanticCompletion r \<and> pr_exitCode r = 3 \<and> pr_cleanup r = CleanupConfirmed"
  by (simp add: run_process_def exitEvents_def process_defs Let_def appendTail_def)

theorem results_are_evidence_witness:
  "\<exists>r. mp_result (run_process limitOptions exitEvents sampleProcess) = Some r \<and>
     (\<exists>(now, gv, ev) \<in> set exitEvents. \<exists>e. exitOf ev = Some e \<and> pr_observedExitCode r = fst e \<and> pr_exitSignal r = snd e \<and>
         pr_exitCode r = (case fst e of None \<Rightarrow> 1 | Some c \<Rightarrow> c))"
proof -
  obtain r where r: "mp_result (run_process limitOptions exitEvents sampleProcess) = Some r" "pr_terminationReason r = None"
    "\<not> pr_semanticCompletion r"
    using sample_exits by blast
  from results_are_evidence [OF refl r(1)] r show ?thesis by blast
qed

theorem lines_do_not_depend_on_chunks_witness:
  "mp_reason (feed limitOptions [(1, aliveGroup, ''a''), (2, aliveGroup, [CHR 10, CHR ''b''])] sampleProcess) = None"
  using lines_do_not_depend_on_chunks [OF _ refl refl, of limitOptions "[(1, aliveGroup, ''a''), (2, aliveGroup, [CHR 10, CHR ''b''])]" 0 aliveGroup 5]
  by (simp add: limitOptions_def fits_def char_bytes_def)

end
