(* ===== verification/CommandStore.thy ===== *)
theory CommandStore
  imports ManagedProcess "HOL-Library.AList"
begin

text \<open>
  \<open>_shared/command-job-store.ts\<close> and \<open>commandLogs\<close> of \<open>_shared/command-job-runner.ts\<close>: the directory with one
  subdirectory for each command job. Every mutation runs under the lock of the directory, so it is one
  step. A record file is \<open>Stored\<close> when its JSON has the fields of \<open>CommandRecord\<close>, else \<open>Rejected\<close>: no regular
  file, over 64 KiB, no JSON, or a field that the check refuses by its type.
\<close>

section \<open>Records and directories\<close>

datatype command_status =
  CStarting | CRunning | CCanceling | CSucceeded | CFailed | CCanceled | CTimedOut | CLost

definition COMMAND_TERMINAL :: "command_status \<Rightarrow> bool" where
  "COMMAND_TERMINAL s \<longleftrightarrow> s \<in> {CSucceeded, CFailed, CCanceled, CTimedOut, CLost}"

datatype readiness_state = NotRequested | Pending | IsReady | NotReady

record command_record =
  cm_version :: int
  cm_id :: string
  cm_owner :: string
  cm_ownerPid :: int
  cm_project :: string
  cm_label :: string
  cm_createdAt :: int
  cm_updatedAt :: int
  cm_status :: command_status
  cm_pid :: "int option"
  cm_cancelRequested :: bool
  cm_finishedAt :: "int option"
  cm_exitCode :: "int option"
  cm_exitSignal :: "string option"
  cm_reason :: "string option"
  cm_cleanup :: "cleanup_verdict option"
  cm_readiness :: readiness_state
  cm_stdoutBytes :: nat
  cm_stderrBytes :: nat
  cm_stdoutOmitted :: nat
  cm_stderrOmitted :: nat

datatype record_file = Rejected | Stored command_record

text \<open>A log holds bytes, written as code units below 256.\<close>

record job_dir =
  jd_isDirectory :: bool
  jd_record :: "record_file option"
  jd_stdout :: "string option"
  jd_stderr :: "string option"
  jd_unknown :: bool

text \<open>The names in the order in which \<open>readdirSync\<close> gives them.\<close>

type_synonym command_store = "(string \<times> job_dir) list"

datatype command_error =
    InvalidId | NotADirectory | InvalidRecord | UnknownJob | OwnerMismatch | OtherProject
  | CapacityReached nat | CapacityUnavailable | HistoryFull | UnknownContents | JobExists | WriteFailed
  | InvalidStream | InvalidCursor | CursorMismatch | NoLog | ExpiredCursor

section \<open>Reading\<close>

text \<open>\<open>assertCommandId\<close>: \<open>cmd_\<close> and a UUID in lower case.\<close>

definition validCommandId :: "string \<Rightarrow> bool" where
  "validCommandId i \<longleftrightarrow> take 4 i = ''cmd_'' \<and> length i = 40 \<and>
     list_all (\<lambda>(n, c). if n \<in> {8, 13, 18, 23} then c = CHR ''-'' else is_lower_hex c) (enumerate 0 (drop 4 i))"

definition aliveOwner :: "procs \<Rightarrow> int \<Rightarrow> bool" where
  "aliveOwner kill pid \<longleftrightarrow> kill pid \<noteq> KillOther"

definition LEASE_MS :: int where
  "LEASE_MS = 30000"

definition reconciled :: "procs \<Rightarrow> int \<Rightarrow> command_record \<Rightarrow> command_record" where
  "reconciled kill now r =
     (if \<not> COMMAND_TERMINAL (cm_status r) \<and> (\<not> aliveOwner kill (cm_ownerPid r) \<or> now - cm_updatedAt r > LEASE_MS)
      then r\<lparr>cm_status := CLost, cm_cleanup := Some CleanupUnconfirmed,
        cm_reason := Some ''Owner absent or lease expired; execution cannot be resumed and descendants may remain''\<rparr>
      else r)"

definition readJob ::
  "procs \<Rightarrow> int \<Rightarrow> command_store \<Rightarrow> string \<Rightarrow> bool \<Rightarrow> command_error + command_record option" where
  "readJob kill now store i reconcile =
     (if \<not> validCommandId i then Inl InvalidId
      else case map_of store i of
        None \<Rightarrow> Inr None
      | Some d \<Rightarrow>
          if \<not> jd_isDirectory d then Inl NotADirectory
          else case jd_record d of
            None \<Rightarrow> Inr None
          | Some Rejected \<Rightarrow> Inl InvalidRecord
          | Some (Stored r) \<Rightarrow>
              if cm_version r \<noteq> 1 \<or> cm_id r \<noteq> i \<or> cm_ownerPid r \<le> 0 then Inl InvalidRecord
              else Inr (Some (if reconcile then reconciled kill now r else r)))"

text \<open>\<open>list\<close>: its pattern for names is wider than the one of \<open>assertCommandId\<close>.\<close>

definition listedName :: "string \<Rightarrow> bool" where
  "listedName n \<longleftrightarrow> take 4 n = ''cmd_'' \<and> length n = 40 \<and> list_all (\<lambda>c. is_lower_hex c \<or> c = CHR ''-'') (drop 4 n)"

fun readAll :: "procs \<Rightarrow> int \<Rightarrow> command_store \<Rightarrow> string list \<Rightarrow> command_error + command_record list" where
  "readAll kill now store [] = Inr []"
| "readAll kill now store (n # ns) =
     bind_r (readJob kill now store n True) (\<lambda>r.
     bind_r (readAll kill now store ns) (\<lambda>rs. Inr (case r of None \<Rightarrow> rs | Some x \<Rightarrow> x # rs)))"

definition listJobs :: "procs \<Rightarrow> int \<Rightarrow> command_store \<Rightarrow> string option \<Rightarrow> command_error + command_record list" where
  "listJobs kill now store project =
     bind_r (readAll kill now store (filter listedName (map fst store))) (\<lambda>rs.
       Inr (sort_key (\<lambda>r. - cm_createdAt r)
         (filter (\<lambda>r. case project of None \<Rightarrow> True | Some p \<Rightarrow> p = [] \<or> cm_project r = p) rs)))"

section \<open>Mutations\<close>

text \<open>A file write: done, failed and its new directory removed again, or failed and the directory left behind.\<close>

datatype disk_write = Written | NotWritten | LeftBehind

definition newDir :: "record_file option \<Rightarrow> job_dir" where
  "newDir f = \<lparr>jd_isDirectory = True, jd_record = f, jd_stdout = None, jd_stderr = None, jd_unknown = False\<rparr>"

text \<open>The known files of a job are removed, then its directory, which fails when anything else is in it.\<close>

definition removeJobDir :: "string \<Rightarrow> command_store \<Rightarrow> (command_error + unit) \<times> command_store" where
  "removeJobDir i store =
     (case map_of store i of
        None \<Rightarrow> (Inl UnknownJob, store)
      | Some d \<Rightarrow>
          if jd_unknown d
          then (Inl UnknownContents, AList.map_entry i (\<lambda>d. d\<lparr>jd_record := None, jd_stdout := None, jd_stderr := None\<rparr>) store)
          else (Inr (), AList.delete i store))"

fun removeOld :: "nat \<Rightarrow> command_record list \<Rightarrow> nat \<Rightarrow> command_store \<Rightarrow> (command_error + nat) \<times> command_store" where
  "removeOld maxRecords [] count store = (Inr count, store)"
| "removeOld maxRecords (old # rest) count store =
     (if count < maxRecords then (Inr count, store)
      else case removeJobDir (cm_id old) store of
        (Inl e, store') \<Rightarrow> (Inl e, store')
      | (Inr _, store') \<Rightarrow> removeOld maxRecords rest (count - 1) store')"

definition activeJobs :: "command_record list \<Rightarrow> nat" where
  "activeJobs rs = length (filter (\<lambda>r. \<not> COMMAND_TERMINAL (cm_status r)) rs)"

definition heldJobs :: "procs \<Rightarrow> command_record list \<Rightarrow> nat" where
  "heldJobs kill rs = length (filter (\<lambda>r. cm_status r = CLost \<and> aliveOwner kill (cm_ownerPid r)) rs)"

definition reserve ::
  "procs \<Rightarrow> int \<Rightarrow> disk_write \<Rightarrow> command_record \<Rightarrow> nat \<Rightarrow> nat \<Rightarrow> command_store \<Rightarrow> (command_error + unit) \<times> command_store" where
  "reserve kill now disk rcd maxActive maxRecords store =
     (case listJobs kill now store None of
        Inl e \<Rightarrow> (Inl e, store)
      | Inr records \<Rightarrow>
          if activeJobs records \<ge> maxActive then (Inl (CapacityReached maxActive), store)
          else if heldJobs kill records + activeJobs records \<ge> maxActive then (Inl CapacityUnavailable, store)
          else
            let removable = sort_key cm_createdAt
                  (filter (\<lambda>r. COMMAND_TERMINAL (cm_status r) \<and> cm_status r \<noteq> CLost) records)
            in case removeOld maxRecords removable (length records) store of
                 (Inl e, store') \<Rightarrow> (Inl e, store')
               | (Inr count, store') \<Rightarrow>
                   if count \<ge> maxRecords then (Inl HistoryFull, store')
                   else if \<not> validCommandId (cm_id rcd) then (Inl InvalidId, store')
                   else if map_of store' (cm_id rcd) \<noteq> None then (Inl JobExists, store')
                   else (case disk of
                       Written \<Rightarrow> (Inr (), store' @ [(cm_id rcd, newDir (Some (Stored rcd)))])
                     | NotWritten \<Rightarrow> (Inl WriteFailed, store')
                     | LeftBehind \<Rightarrow> (Inl WriteFailed, store' @ [(cm_id rcd, newDir None)])))"

definition setRecord :: "string \<Rightarrow> command_record \<Rightarrow> command_store \<Rightarrow> command_store" where
  "setRecord i r = AList.map_entry i (\<lambda>d. d\<lparr>jd_record := Some (Stored r)\<rparr>)"

definition updateJob ::
  "bool \<Rightarrow> string \<Rightarrow> string option \<Rightarrow> (command_record \<Rightarrow> command_error + command_record) \<Rightarrow> command_store \<Rightarrow>
   (command_error + command_record) \<times> command_store" where
  "updateJob writes i owner mutate store =
     (case readJob (\<lambda>_. KillOther) 0 store i False of
        Inl e \<Rightarrow> (Inl e, store)
      | Inr None \<Rightarrow> (Inl UnknownJob, store)
      | Inr (Some current) \<Rightarrow>
          if (case owner of None \<Rightarrow> False | Some ow \<Rightarrow> ow \<noteq> [] \<and> cm_owner current \<noteq> ow) then (Inl OwnerMismatch, store)
          else (case mutate current of
              Inl e \<Rightarrow> (Inl e, store)
            | Inr next \<Rightarrow> if writes then (Inr next, setRecord i next store) else (Inl WriteFailed, store)))"

definition cancelJob :: "bool \<Rightarrow> string \<Rightarrow> string \<Rightarrow> command_store \<Rightarrow> (command_error + command_record) \<times> command_store" where
  "cancelJob writes i project =
     updateJob writes i None (\<lambda>r.
       if cm_project r \<noteq> project then Inl OtherProject
       else if COMMAND_TERMINAL (cm_status r) then Inr r
       else Inr (r\<lparr>cm_cancelRequested := True\<rparr>))"

section \<open>Logs\<close>

definition LOG_LIMIT :: nat where
  "LOG_LIMIT = 2 * 1024 * 1024"

definition READ_LIMIT :: int where
  "READ_LIMIT = 64 * 1024"

definition logOf :: "string \<Rightarrow> job_dir \<Rightarrow> string option" where
  "logOf stream d = (if stream = ''stdout'' then jd_stdout d else jd_stderr d)"

text \<open>The text of a cursor: JSON in base64, whose coding belongs to the platform (\<open>None\<close>: it does not decode).\<close>

record cursor_codec =
  cc_encode :: "json \<Rightarrow> string"
  cc_decode :: "string \<Rightarrow> json option"

definition cursorJson :: "string \<Rightarrow> string \<Rightarrow> nat \<Rightarrow> json" where
  "cursorJson i stream offset =
     JObj [(''id'', JStr i), (''stream'', JStr stream), (''offset'', JNum (Fin (rat_of_int (int offset))))]"

definition cursorOffset :: "cursor_codec \<Rightarrow> string \<Rightarrow> string \<Rightarrow> string option \<Rightarrow> command_error + nat" where
  "cursorOffset codec i stream cursor =
     (case cursor of
        None \<Rightarrow> Inr 0
      | Some c \<Rightarrow>
          if c = [] then Inr 0
          else if length c > 512 then Inl InvalidCursor
          else case cc_decode codec c of
            None \<Rightarrow> Inl CursorMismatch
          | Some v \<Rightarrow>
              (case (asStr (get (Some v) ''id''), asStr (get (Some v) ''stream''), intNum (get (Some v) ''offset'')) of
                 (Some i', Some s', Some off) \<Rightarrow>
                   if i' \<noteq> i \<or> s' \<noteq> stream \<or> off < 0 \<or> off > 2 ^ 53 - 1 then Inl CursorMismatch else Inr (nat off)
               | _ \<Rightarrow> Inl CursorMismatch))"

record log_page =
  lp_bytes :: string
  lp_cursor :: string
  lp_retained :: nat
  lp_omitted :: nat
  lp_hasMore :: bool
  lp_terminal :: bool

datatype log_result = PendingLog "string option" | Page log_page

definition commandLogs ::
  "procs \<Rightarrow> int \<Rightarrow> cursor_codec \<Rightarrow> command_store \<Rightarrow> string \<Rightarrow> string \<Rightarrow> string \<Rightarrow> string option \<Rightarrow> int \<Rightarrow>
   command_error + log_result" where
  "commandLogs kill now codec store i project stream cursor maxBytes =
     bind_r (readJob kill now store i True) (\<lambda>found.
       case found of
         None \<Rightarrow> Inl UnknownJob
       | Some r \<Rightarrow>
           if cm_project r \<noteq> project then Inl UnknownJob
           else if stream \<notin> {''stdout'', ''stderr''} \<or> maxBytes < 4 \<or> maxBytes > READ_LIMIT then Inl InvalidStream
           else bind_r (cursorOffset codec i stream cursor) (\<lambda>offset.
             case Option.bind (map_of store i) (logOf stream) of
               None \<Rightarrow> if cm_status r = CStarting then Inr (PendingLog cursor) else Inl NoLog
             | Some bytes \<Rightarrow>
                 if length bytes > LOG_LIMIT \<or> offset > length bytes then Inl ExpiredCursor
                 else
                   let got = take (nat maxBytes) (drop offset bytes); next = offset + length got
                   in Inr (Page \<lparr>lp_bytes = got, lp_cursor = cc_encode codec (cursorJson i stream next),
                        lp_retained = length bytes,
                        lp_omitted = (if stream = ''stdout'' then cm_stdoutOmitted r else cm_stderrOmitted r),
                        lp_hasMore = (next < length bytes), lp_terminal = COMMAND_TERMINAL (cm_status r)\<rparr>)))"

section \<open>Reading a log by its cursors\<close>

text \<open>What the code relies on: a cursor it wrote decodes to the value it encoded and is not empty or over 512 units.\<close>

definition lawful_codec :: "cursor_codec \<Rightarrow> bool" where
  "lawful_codec codec \<longleftrightarrow> (\<forall>i stream off. length i = 40 \<longrightarrow> stream \<in> {''stdout'', ''stderr''} \<longrightarrow> off \<le> LOG_LIMIT \<longrightarrow>
     (let c = cc_encode codec (cursorJson i stream off) in
      c \<noteq> [] \<and> length c \<le> 512 \<and> cc_decode codec c = Some (cursorJson i stream off)))"

text \<open>The store at the moment of a call, with the log of a job of the project in it.\<close>

definition shows_log :: "string \<Rightarrow> string \<Rightarrow> string \<Rightarrow> procs \<times> int \<times> command_store \<Rightarrow> string \<Rightarrow> bool" where
  "shows_log i project stream v lg \<longleftrightarrow> (case v of (kill, now, store) \<Rightarrow>
     (\<exists>r. readJob kill now store i True = Inr (Some r) \<and> cm_project r = project) \<and>
     Option.bind (map_of store i) (logOf stream) = Some lg \<and> length lg \<le> LOG_LIMIT)"

text \<open>A client that reads on with the cursor of the last page: the bytes, the cursor, and whether there is more.\<close>

fun followLog ::
  "cursor_codec \<Rightarrow> string \<Rightarrow> string \<Rightarrow> string \<Rightarrow> int \<Rightarrow> (procs \<times> int \<times> command_store) list \<Rightarrow> string option \<Rightarrow>
   command_error + string \<times> string option \<times> bool" where
  "followLog codec i project stream mb [] cursor = Inr ([], cursor, True)"
| "followLog codec i project stream mb ((kill, now, store) # vs) cursor =
     bind_r (commandLogs kill now codec store i project stream cursor mb) (\<lambda>res.
       case res of
         PendingLog c \<Rightarrow> followLog codec i project stream mb vs c
       | Page p \<Rightarrow>
           bind_r (followLog codec i project stream mb vs (Some (lp_cursor p))) (\<lambda>(bytes, c, more).
             Inr (lp_bytes p @ bytes, c, if vs = [] then lp_hasMore p else more)))"

definition points_at :: "cursor_codec \<Rightarrow> string \<Rightarrow> string \<Rightarrow> string option \<Rightarrow> nat \<Rightarrow> bool" where
  "points_at codec i stream cursor off \<longleftrightarrow> cursorOffset codec i stream cursor = Inr off"

lemma written_cursor:
  assumes "lawful_codec codec" "length i = 40" "stream \<in> {''stdout'', ''stderr''}" "off \<le> LOG_LIMIT"
  shows "points_at codec i stream (Some (cc_encode codec (cursorJson i stream off))) off"
proof -
  let ?c = "cc_encode codec (cursorJson i stream off)"
  have c: "?c \<noteq> []" "length ?c \<le> 512" "cc_decode codec ?c = Some (cursorJson i stream off)"
    using assms by (auto simp: lawful_codec_def Let_def)
  have "int off \<le> 2 ^ 53 - 1" using assms(4) by (simp add: LOG_LIMIT_def)
  moreover have "intNum (Some (JNum (Fin (rat_of_int (int off))))) = Some (int off)" by (subst intNum_Some) simp
  ultimately show ?thesis using c by (simp add: points_at_def cursorOffset_def cursorJson_def del: of_int_of_nat_eq)
qed

lemma page_at:
  assumes "shows_log i project stream (kill, now, store) lg" "points_at codec i stream cursor off" "off \<le> length lg"
    "stream \<in> {''stdout'', ''stderr''}" "4 \<le> mb" "mb \<le> READ_LIMIT"
  shows "\<exists>p. commandLogs kill now codec store i project stream cursor mb = Inr (Page p) \<and>
    lp_bytes p = take (nat mb) (drop off lg) \<and>
    lp_cursor p = cc_encode codec (cursorJson i stream (off + length (lp_bytes p))) \<and>
    lp_hasMore p = (off + length (lp_bytes p) < length lg)"
  using assms by (auto simp: shows_log_def points_at_def commandLogs_def Let_def)

lemma take_append_slices:
  assumes "b = take (length b) (drop off xs)" "c = take (length c) (drop (off + length b) xs)"
  shows "b @ c = take (length (b @ c)) (drop off xs)"
  using assms by (metis add.commute drop_drop length_append take_add)

lemma follow_from:
  assumes "list_all2 (shows_log i project stream) vs logs" "sorted_wrt prefix logs" "vs \<noteq> []"
    "points_at codec i stream cursor off" "off \<le> length (hd logs)"
    "lawful_codec codec" "length i = 40" "stream \<in> {''stdout'', ''stderr''}" "4 \<le> mb" "mb \<le> READ_LIMIT"
  shows "\<exists>bytes c more. followLog codec i project stream mb vs cursor = Inr (bytes, c, more) \<and>
    off + length bytes \<le> length (last logs) \<and> bytes = take (length bytes) (drop off (last logs)) \<and>
    (more \<longleftrightarrow> off + length bytes < length (last logs)) \<and>
    min (length (hd logs) - off) (nat mb * length vs) \<le> length bytes"
  using assms(1-5)
proof (induction vs arbitrary: logs cursor off)
  case (Cons v vs)
  obtain kill now store where v: "v = (kill, now, store)" by (cases v) auto
  obtain lg ls where logs: "logs = lg # ls" "shows_log i project stream (kill, now, store) lg"
    "list_all2 (shows_log i project stream) vs ls"
    using Cons.prems(1) by (auto simp: list_all2_Cons1 v)
  obtain p where p: "commandLogs kill now codec store i project stream cursor mb = Inr (Page p)"
    "lp_bytes p = take (nat mb) (drop off lg)"
    "lp_cursor p = cc_encode codec (cursorJson i stream (off + length (lp_bytes p)))"
    "lp_hasMore p = (off + length (lp_bytes p) < length lg)"
    using page_at [OF logs(2) Cons.prems(4) _ assms(8-10)] Cons.prems(5) logs(1) by auto
  let ?off = "off + length (lp_bytes p)"
  have le: "?off \<le> length lg" using p(2) Cons.prems(5) logs(1) by simp
  have lim: "length lg \<le> LOG_LIMIT" using logs(2) by (simp add: shows_log_def)
  have at: "points_at codec i stream (Some (lp_cursor p)) ?off"
    using written_cursor [OF assms(6-8), of ?off] le lim p(3) by simp
  have slice: "lp_bytes p = take (length (lp_bytes p)) (drop off lg)" using p(2) by (simp add: min_def)
  have full: "length (lp_bytes p) = nat mb \<or> ?off = length lg"
    using p(2) Cons.prems(5) logs(1) by (auto simp: min_def)
  show ?case
  proof (cases "vs = []")
    case True
    then have "ls = []" using logs(3) by simp
    then show ?thesis using True p logs(1) v slice le full by (auto simp: min_def)
  next
    case False
    then obtain l2 ls' where ls: "ls = l2 # ls'" using logs(3) by (cases ls) auto
    have pre: "prefix lg (last ls)" "prefix lg l2" using Cons.prems(2) logs(1) ls by (auto simp: last_in_set)
    have more: "length lg \<le> length (hd ls)" using prefix_length_le [OF pre(2)] ls by simp
    have srt: "sorted_wrt prefix ls" using Cons.prems(2) logs(1) by simp
    obtain bytes c m where ih: "followLog codec i project stream mb vs (Some (lp_cursor p)) = Inr (bytes, c, m)"
      "?off + length bytes \<le> length (last ls)" "bytes = take (length bytes) (drop ?off (last ls))"
      "m \<longleftrightarrow> ?off + length bytes < length (last ls)"
      "min (length (hd ls) - ?off) (nat mb * length vs) \<le> length bytes"
      using Cons.IH [OF logs(3) srt False at] le more by force
    obtain z where z: "last ls = lg @ z" using pre(1) by (auto simp: prefix_def)
    have "length (lp_bytes p) \<le> length (drop off lg)" using le by simp
    then have "take (length (lp_bytes p)) (drop off (last ls)) = take (length (lp_bytes p)) (drop off lg)"
      using le by (simp add: z)
    then have b: "lp_bytes p = take (length (lp_bytes p)) (drop off (last ls))" using slice by simp
    have run: "followLog codec i project stream mb (v # vs) cursor = Inr (lp_bytes p @ bytes, c, m)"
      using p(1) ih(1) False by (simp add: v)
    have len: "min (length lg - off) (nat mb * length (v # vs)) \<le> length (lp_bytes p @ bytes)"
      using full ih(5) more le by (auto simp: min_def split: if_splits) linarith
    have ends: "last logs = last ls" "hd logs = lg" using logs(1) ls by simp_all
    have "off + length (lp_bytes p @ bytes) \<le> length (last ls)" using ih(2) by simp
    moreover have "m \<longleftrightarrow> off + length (lp_bytes p @ bytes) < length (last ls)" using ih(4) by (simp add: add.assoc)
    ultimately show ?thesis unfolding ends using run take_append_slices [OF b ih(3)] len by blast
  qed
qed simp

text \<open>C39. Reading a growing log by its cursors neither skips nor repeats a byte: the pages together are a beginning
  of the log as it is at the last call, the last page says whether that is all of it, and every page is
  full as long as the log goes on.\<close>

theorem log_pages_are_contiguous:
  assumes "list_all2 (shows_log i project stream) vs logs" "sorted_wrt prefix logs" "vs \<noteq> []"
    and "lawful_codec codec" "length i = 40" "stream \<in> {''stdout'', ''stderr''}" "4 \<le> mb" "mb \<le> READ_LIMIT"
  shows "\<exists>bytes c more. followLog codec i project stream mb vs None = Inr (bytes, c, more) \<and>
    prefix bytes (last logs) \<and> (more \<longleftrightarrow> bytes \<noteq> last logs) \<and>
    min (length (hd logs)) (nat mb * length vs) \<le> length bytes"
proof -
  have "points_at codec i stream None 0" by (simp add: points_at_def cursorOffset_def)
  from follow_from [OF assms(1-3) this _ assms(4-8)] obtain bytes c more where
    r: "followLog codec i project stream mb vs None = Inr (bytes, c, more)"
    "length bytes \<le> length (last logs)" "bytes = take (length bytes) (last logs)"
    "more \<longleftrightarrow> length bytes < length (last logs)" "min (length (hd logs)) (nat mb * length vs) \<le> length bytes"
    by auto
  have "prefix bytes (last logs)" using r(3) take_is_prefix [of "length bytes" "last logs"] by simp
  moreover have "length bytes < length (last logs) \<longleftrightarrow> bytes \<noteq> last logs" using r(2,3) by (metis nat_less_le take_all)
  ultimately show ?thesis using r by blast
qed

section \<open>Slots\<close>

definition recordOf :: "command_store \<Rightarrow> string \<Rightarrow> command_record option" where
  "recordOf store i = (case map_of store i of None \<Rightarrow> None | Some d \<Rightarrow>
     (case jd_record d of Some (Stored r) \<Rightarrow> Some r | _ \<Rightarrow> None))"

definition validRecord :: "string \<Rightarrow> command_record \<Rightarrow> bool" where
  "validRecord i r \<longleftrightarrow> cm_version r = 1 \<and> cm_id r = i \<and> 0 < cm_ownerPid r \<and> cm_status r \<noteq> CLost"

definition entry_ok :: "string \<times> job_dir \<Rightarrow> bool" where
  "entry_ok x \<longleftrightarrow> validCommandId (fst x) \<and> jd_isDirectory (snd x) \<and> jd_record (snd x) \<noteq> Some Rejected \<and>
     (\<forall>r. jd_record (snd x) = Some (Stored r) \<longrightarrow> validRecord (fst x) r)"

text \<open>A store that only the code has written.\<close>

definition store_ok :: "command_store \<Rightarrow> bool" where
  "store_ok store \<longleftrightarrow> distinct (map fst store) \<and> list_all entry_ok store"

definition takesSlot :: "procs \<Rightarrow> string \<times> job_dir \<Rightarrow> bool" where
  "takesSlot kill x \<longleftrightarrow> (case jd_record (snd x) of
     Some (Stored r) \<Rightarrow> \<not> COMMAND_TERMINAL (cm_status r) \<and> aliveOwner kill (cm_ownerPid r) | _ \<Rightarrow> False)"

definition slotsTaken :: "procs \<Rightarrow> command_store \<Rightarrow> nat" where
  "slotsTaken kill store = length (filter (takesSlot kill) store)"

lemma valid_listed: "validCommandId n \<Longrightarrow> listedName n"
proof -
  assume v: "validCommandId n"
  have "list_all (\<lambda>c. is_lower_hex c \<or> c = CHR ''-'') (drop 4 n)"
    unfolding list_all_iff
  proof
    fix c assume "c \<in> set (drop 4 n)"
    then obtain k where "k < length (drop 4 n)" "drop 4 n ! k = c" by (auto simp only: in_set_conv_nth)
    then have "(k, c) \<in> set (enumerate 0 (drop 4 n))" by (simp add: in_set_enumerate_eq)
    then show "is_lower_hex c \<or> c = CHR ''-''" using v unfolding validCommandId_def list_all_iff by (fastforce split: if_splits)
  qed
  then show ?thesis using v by (simp add: validCommandId_def listedName_def)
qed

lemma reconciled_slot:
  "validRecord i r \<Longrightarrow> \<not> COMMAND_TERMINAL (cm_status r) \<Longrightarrow> aliveOwner kill (cm_ownerPid r) \<Longrightarrow>
   \<not> COMMAND_TERMINAL (cm_status (reconciled kill now r)) \<or>
   (cm_status (reconciled kill now r) = CLost \<and> aliveOwner kill (cm_ownerPid (reconciled kill now r)))"
  by (simp add: reconciled_def)

lemma read_entry:
  assumes "map_of store n = Some d" "entry_ok (n, d)"
  shows "readJob kill now store n True =
    Inr (case jd_record d of Some (Stored r) \<Rightarrow> Some (reconciled kill now r) | _ \<Rightarrow> None)"
  using assms by (auto simp: readJob_def entry_ok_def validRecord_def split: option.split record_file.split)

lemma readAll_ok:
  assumes "\<forall>x \<in> set xs. map_of store (fst x) = Some (snd x) \<and> entry_ok x"
  shows "readAll kill now store (map fst xs) =
    Inr (List.map_filter (\<lambda>x. case jd_record (snd x) of Some (Stored r) \<Rightarrow> Some (reconciled kill now r) | _ \<Rightarrow> None) xs)"
  using assms
proof (induction xs)
  case (Cons x xs)
  have "readJob kill now store (fst x) True =
      Inr (case jd_record (snd x) of Some (Stored r) \<Rightarrow> Some (reconciled kill now r) | _ \<Rightarrow> None)"
    using read_entry [of store "fst x" "snd x"] Cons.prems by simp
  then show ?case using Cons by (simp add: List.map_filter_simps split: option.split)
qed (simp add: List.map_filter_simps)

definition listed :: "procs \<Rightarrow> int \<Rightarrow> command_store \<Rightarrow> command_record list" where
  "listed kill now store =
     List.map_filter (\<lambda>x. case jd_record (snd x) of Some (Stored r) \<Rightarrow> Some (reconciled kill now r) | _ \<Rightarrow> None) store"

lemma listJobs_ok:
  assumes "store_ok store"
  shows "listJobs kill now store None = Inr (sort_key (\<lambda>r. - cm_createdAt r) (listed kill now store))"
proof -
  have "filter listedName (map fst store) = map fst store"
    using assms valid_listed by (auto simp: store_ok_def list_all_iff entry_ok_def intro!: filter_True)
  moreover have "readAll kill now store (map fst store) = Inr (listed kill now store)"
    unfolding listed_def using assms by (intro readAll_ok) (auto simp: store_ok_def list_all_iff)
  ultimately show ?thesis by (simp add: listJobs_def)
qed

lemma slots_listed:
  assumes "list_all entry_ok store"
  shows "slotsTaken kill store \<le> heldJobs kill (listed kill now store) + activeJobs (listed kill now store)"
  using assms
proof (induction store)
  case (Cons x xs)
  show ?case
  proof (cases "takesSlot kill x")
    case True
    then obtain r where r: "jd_record (snd x) = Some (Stored r)" "\<not> COMMAND_TERMINAL (cm_status r)" "aliveOwner kill (cm_ownerPid r)"
      by (auto simp: takesSlot_def split: option.splits record_file.splits)
    moreover have "validRecord (fst x) r" using Cons.prems r(1) by (simp add: entry_ok_def)
    ultimately show ?thesis using Cons reconciled_slot [of "fst x" r kill now] True
      by (auto simp: slotsTaken_def listed_def heldJobs_def activeJobs_def List.map_filter_simps)
  next
    case False
    then show ?thesis using Cons
      by (auto simp: slotsTaken_def listed_def heldJobs_def activeJobs_def List.map_filter_simps split: option.split)
  qed
qed (simp add: slotsTaken_def)

lemma sorted_counts [simp]:
  "activeJobs (sort_key f rs) = activeJobs rs" "heldJobs kill (sort_key f rs) = heldJobs kill rs"
  by (simp_all add: activeJobs_def heldJobs_def filter_sort)

lemma in_listed: "r \<in> set (listed kill now store) \<Longrightarrow>
    \<exists>x \<in> set store. \<exists>r0. jd_record (snd x) = Some (Stored r0) \<and> r = reconciled kill now r0"
  unfolding listed_def List.map_filter_def
  by (auto split: option.splits record_file.splits intro: bexI [rotated])

lemma store_ok_delete: "store_ok store \<Longrightarrow> store_ok (AList.delete i store)"
  by (auto simp: store_ok_def list_all_iff AList.delete_eq distinct_map_filter')

lemma store_ok_entry:
  assumes "store_ok store" "\<And>d. entry_ok (i, d) \<Longrightarrow> (i, d) \<in> set store \<Longrightarrow> entry_ok (i, f d)"
  shows "store_ok (AList.map_entry i f store)"
proof -
  have "list_all entry_ok (AList.map_entry i f store)"
    using assms by (induction store) (auto simp: store_ok_def)
  then show ?thesis using assms(1) by (simp add: store_ok_def distinct_map_entry)
qed

lemma slots_delete: "slotsTaken kill (AList.delete i store) \<le> slotsTaken kill store"
  by (induction store) (auto simp: slotsTaken_def)

lemma removeJobDir_ok:
  assumes "removeJobDir i store = (res, store')" "store_ok store"
  shows "store_ok store' \<and> slotsTaken kill store' \<le> slotsTaken kill store \<and>
    (\<forall>k. recordOf store' k = recordOf store k \<or> (k = i \<and> recordOf store' k = None))"
proof (cases "map_of store i")
  case None
  then show ?thesis using assms by (simp add: removeJobDir_def)
next
  case (Some d)
  show ?thesis
  proof (cases "jd_unknown d")
    case True
    let ?f = "\<lambda>d. d\<lparr>jd_record := None, jd_stdout := None, jd_stderr := None\<rparr>"
    have s: "store' = AList.map_entry i ?f store" using assms(1) Some True by (simp add: removeJobDir_def)
    have "store_ok store'" unfolding s by (rule store_ok_entry [OF assms(2)]) (simp add: entry_ok_def)
    moreover have "slotsTaken kill (AList.map_entry i ?f store) \<le> slotsTaken kill store"
      by (induction store) (auto simp: slotsTaken_def takesSlot_def)
    ultimately show ?thesis by (auto simp: s recordOf_def map_of_map_entry Some)
  next
    case False
    then have s: "store' = AList.delete i store" using assms(1) Some by (simp add: removeJobDir_def)
    then show ?thesis using store_ok_delete [OF assms(2)] slots_delete by (auto simp: recordOf_def delete_conv)
  qed
qed

lemma removeOld_ok:
  assumes "removeOld m olds c store = (res, store')" "store_ok store"
  shows "store_ok store' \<and> slotsTaken kill store' \<le> slotsTaken kill store \<and>
    (\<forall>k. recordOf store' k = recordOf store k \<or> (k \<in> cm_id ` set olds \<and> recordOf store' k = None))"
  using assms
proof (induction m olds c store rule: removeOld.induct)
  case (2 m old rest c store)
  show ?case
  proof (cases "c < m")
    case False
    obtain r1 s1 where r1: "removeJobDir (cm_id old) store = (r1, s1)" by force
    note one = removeJobDir_ok [OF r1 "2.prems"(2), of kill]
    show ?thesis
    proof (cases r1)
      case (Inl e)
      then show ?thesis using "2.prems"(1) r1 False one by auto
    next
      case (Inr u)
      then have "removeOld m rest (c - 1) s1 = (res, store')" using "2.prems"(1) r1 False by simp
      note rest = "2.IH" [OF False r1 [symmetric] Inr this conjunct1 [OF one]]
      have "recordOf store' k = recordOf store k \<or> (k \<in> cm_id ` set (old # rest) \<and> recordOf store' k = None)" for k
      proof -
        have "recordOf store' k = recordOf s1 k \<or> (k \<in> cm_id ` set rest \<and> recordOf store' k = None)"
          using rest by blast
        moreover have "recordOf s1 k = recordOf store k \<or> (k = cm_id old \<and> recordOf s1 k = None)" using one by blast
        ultimately show ?thesis by auto
      qed
      then show ?thesis using rest one by (meson order_trans)
    qed
  qed (use "2.prems" in auto)
qed auto

text \<open>The records that a reservation may remove.\<close>

lemma removable_ended:
  assumes "store_ok store" "r \<in> set (listed kill now store)" "COMMAND_TERMINAL (cm_status r)" "cm_status r \<noteq> CLost"
  shows "recordOf store (cm_id r) = Some r"
proof -
  obtain x r0 where x: "x \<in> set store" "jd_record (snd x) = Some (Stored r0)" "r = reconciled kill now r0"
    using in_listed [OF assms(2)] by blast
  have "r = r0" using x(3) assms(4) by (auto simp: reconciled_def split: if_splits)
  moreover have "validRecord (fst x) r0" using assms(1) x(1,2) by (auto simp: store_ok_def list_all_iff entry_ok_def)
  moreover have "map_of store (fst x) = Some (snd x)" using assms(1) x(1) by (simp add: store_ok_def)
  ultimately show ?thesis using x(2) by (simp add: recordOf_def validRecord_def)
qed

lemma reserve_ok:
  assumes "reserve kill now disk rcd maxActive maxRecords store = (res, store')" "store_ok store"
    and "cm_version rcd = 1" "0 < cm_ownerPid rcd" "cm_status rcd \<noteq> CLost"
  shows "store_ok store' \<and>
    (case res of Inl e \<Rightarrow> slotsTaken kill' store' \<le> slotsTaken kill' store
     | Inr _ \<Rightarrow> slotsTaken kill store' \<le> maxActive \<and> recordOf store' (cm_id rcd) = Some rcd \<and>
       (\<forall>r. recordOf store (cm_id rcd) = Some r \<longrightarrow> COMMAND_TERMINAL (cm_status r))) \<and>
    (\<forall>k. k \<noteq> cm_id rcd \<or> (\<exists>e. res = Inl e) \<longrightarrow> recordOf store' k = recordOf store k \<or>
       (recordOf store' k = None \<and> (\<exists>r. recordOf store k = Some r \<and> COMMAND_TERMINAL (cm_status r))))"
proof -
  define rs where "rs = sort_key (\<lambda>r. - cm_createdAt r) (listed kill now store)"
  define olds where "olds = sort_key cm_createdAt (filter (\<lambda>r. COMMAND_TERMINAL (cm_status r) \<and> cm_status r \<noteq> CLost) rs)"
  have list: "listJobs kill now store None = Inr rs" using listJobs_ok [OF assms(2)] by (simp add: rs_def)
  show ?thesis
  proof (cases "activeJobs rs \<ge> maxActive \<or> heldJobs kill rs + activeJobs rs \<ge> maxActive")
    case True
    then show ?thesis using assms(1,2) list by (auto simp: reserve_def split: if_splits)
  next
    case False
    obtain r1 s1 where r1: "removeOld maxRecords olds (length rs) store = (r1, s1)" by force
    have kept: "recordOf s1 k = recordOf store k \<or>
        (recordOf s1 k = None \<and> (\<exists>r. recordOf store k = Some r \<and> COMMAND_TERMINAL (cm_status r)))" for k
    proof -
      have "recordOf s1 k = recordOf store k \<or> (k \<in> cm_id ` set olds \<and> recordOf s1 k = None)"
        using removeOld_ok [OF r1 assms(2)] by blast
      then show ?thesis using removable_ended [OF assms(2)] by (fastforce simp: olds_def rs_def)
    qed
    have s1: "store_ok s1" "slotsTaken kill' s1 \<le> slotsTaken kill' store" for kill'
      using removeOld_ok [OF r1 assms(2)] by blast+
    have room: "slotsTaken kill store < maxActive"
      using False slots_listed [of store kill now] assms(2) by (simp add: rs_def store_ok_def)
    have eq: "reserve kill now disk rcd maxActive maxRecords store =
        (case r1 of Inl e \<Rightarrow> (Inl e, s1)
         | Inr count \<Rightarrow>
             if count \<ge> maxRecords then (Inl HistoryFull, s1)
             else if \<not> validCommandId (cm_id rcd) then (Inl InvalidId, s1)
             else if map_of s1 (cm_id rcd) \<noteq> None then (Inl JobExists, s1)
             else (case disk of
                 Written \<Rightarrow> (Inr (), s1 @ [(cm_id rcd, newDir (Some (Stored rcd)))])
               | NotWritten \<Rightarrow> (Inl WriteFailed, s1)
               | LeftBehind \<Rightarrow> (Inl WriteFailed, s1 @ [(cm_id rcd, newDir None)])))"
      using False list r1 by (simp add: reserve_def olds_def)
    consider (same) "store' = s1" "\<exists>e. res = Inl e"
      | (left) "store' = s1 @ [(cm_id rcd, newDir None)]" "\<exists>e. res = Inl e" "map_of s1 (cm_id rcd) = None" "validCommandId (cm_id rcd)"
      | (new) "store' = s1 @ [(cm_id rcd, newDir (Some (Stored rcd)))]" "res = Inr ()" "map_of s1 (cm_id rcd) = None"
          "validCommandId (cm_id rcd)"
      using eq assms(1) by (auto split: sum.splits if_splits disk_write.splits)
    then show ?thesis
    proof cases
      case same
      then show ?thesis using s1 kept by auto
    next
      case left
      have rec: "recordOf store' k = recordOf s1 k" for k
        using left(1,3) by (auto simp: recordOf_def map_add_def newDir_def split: option.split)
      have "store_ok store'" using left s1(1) by (auto simp: store_ok_def newDir_def entry_ok_def map_of_eq_None_iff)
      moreover have "slotsTaken kill'' store' = slotsTaken kill'' s1" for kill''
        using left(1) by (simp add: slotsTaken_def takesSlot_def newDir_def)
      ultimately show ?thesis using left(2) s1(2) kept by (auto simp: rec)
    next
      case new
      have rec: "recordOf store' k = (if k = cm_id rcd then Some rcd else recordOf s1 k)" for k
        using new(1,3) by (auto simp: recordOf_def map_add_def newDir_def split: option.split)
      have "store_ok store'" using new s1(1) assms(3-5)
        by (auto simp: store_ok_def newDir_def entry_ok_def validRecord_def map_of_eq_None_iff)
      moreover have "slotsTaken kill store' \<le> Suc (slotsTaken kill s1)"
        using new(1) by (simp add: slotsTaken_def)
      then have "slotsTaken kill store' \<le> maxActive" using s1(2) [of kill] room by simp
      moreover have none: "recordOf s1 (cm_id rcd) = None" using new(3) by (simp add: recordOf_def)
      moreover have "recordOf store (cm_id rcd) = Some r \<longrightarrow> COMMAND_TERMINAL (cm_status r)" for r
        using kept [of "cm_id rcd"] none by auto
      ultimately show ?thesis using new(2) kept by (auto simp: rec)
    qed
  qed
qed

lemma updateJob_ok:
  assumes "updateJob writes i owner mutate store = (res, store')" "store_ok store"
    and "\<And>current nxt. recordOf store i = Some current \<Longrightarrow> mutate current = Inr nxt \<Longrightarrow>
      validRecord i nxt \<and> (\<not> COMMAND_TERMINAL (cm_status nxt) \<longrightarrow>
        \<not> COMMAND_TERMINAL (cm_status current) \<and> cm_ownerPid nxt = cm_ownerPid current)"
  shows "store_ok store' \<and> slotsTaken kill store' \<le> slotsTaken kill store \<and>
    (case res of Inl e \<Rightarrow> store' = store
     | Inr nxt \<Rightarrow> \<exists>current. recordOf store i = Some current \<and> mutate current = Inr nxt \<and>
         recordOf store' = (recordOf store)(i \<mapsto> nxt))"
proof (cases res)
  case (Inl e)
  then have "store' = store" using assms(1)
    by (auto simp: updateJob_def split: sum.splits option.splits if_splits)
  then show ?thesis using assms(2) Inl by simp
next
  case (Inr nxt)
  then obtain current where c: "readJob (\<lambda>_. KillOther) 0 store i False = Inr (Some current)" "mutate current = Inr nxt"
    "store' = setRecord i nxt store"
    using assms(1) by (auto simp: updateJob_def split: sum.splits option.splits if_splits)
  then obtain d where d: "map_of store i = Some d" "jd_record d = Some (Stored current)" "jd_isDirectory d"
    by (auto simp: readJob_def split: option.splits record_file.splits if_splits)
  have rec: "recordOf store i = Some current" using d by (simp add: recordOf_def)
  have new: "validRecord i nxt" "\<not> COMMAND_TERMINAL (cm_status nxt) \<Longrightarrow>
      \<not> COMMAND_TERMINAL (cm_status current) \<and> cm_ownerPid nxt = cm_ownerPid current"
    using assms(3) [OF rec c(2)] by auto
  have "store_ok store'" unfolding c(3) setRecord_def
    by (rule store_ok_entry [OF assms(2)]) (use new(1) in \<open>simp add: entry_ok_def\<close>)
  moreover have "slotsTaken kill (setRecord i nxt store) \<le> slotsTaken kill store"
    using d(1) assms(2)
  proof (induction store)
    case (Cons x xs)
    show ?case
    proof (cases "fst x = i")
      case True
      then have "snd x = d" using Cons.prems(1) by (cases x) simp
      then show ?thesis using True new(2) d(2) by (auto simp: slotsTaken_def setRecord_def takesSlot_def)
    next
      case False
      then have "map_of xs i = Some d" "store_ok xs" using Cons.prems by (auto simp: store_ok_def)
      then show ?thesis using Cons.IH False by (auto simp: slotsTaken_def setRecord_def)
    qed
  qed simp
  moreover have "recordOf store' = (recordOf store)(i \<mapsto> nxt)"
    using d(1) by (auto simp: recordOf_def c(3) setRecord_def map_of_map_entry)
  ultimately show ?thesis using Inr rec c by auto
qed

section \<open>What blocks the store\<close>

lemma readAll_fails:
  assumes "n \<in> set ns" "readJob kill now store n True = Inl e"
  shows "\<exists>e'. readAll kill now store ns = Inl e'"
  using assms
proof (induction ns)
  case (Cons m ns)
  show ?case
  proof (cases "readJob kill now store m True")
    case (Inr r)
    then have "n \<in> set ns" using Cons.prems by auto
    then show ?thesis using Cons.IH Cons.prems(2) Inr by auto
  qed simp
qed simp

lemma listJobs_fails:
  assumes "n \<in> fst ` set store" "listedName n" "readJob kill now store n True = Inl e"
  shows "\<exists>e'. listJobs kill now store project = Inl e'"
  using readAll_fails [of n "filter listedName (map fst store)" kill now store e] assms by (auto simp: listJobs_def)

text \<open>C40. One entry whose name only looks like a job, or whose record does not pass the check, makes every list and
  every reservation fail, whatever the other entries are and for every command of every session.\<close>

theorem bad_entry_blocks_commands:
  assumes "(n, d) \<in> set store" "distinct (map fst store)" "listedName n"
    and "\<not> validCommandId n \<or> \<not> jd_isDirectory d \<or> jd_record d = Some Rejected"
  shows "\<exists>e. listJobs kill now store project = Inl e \<and>
    reserve kill now disk rcd maxActive maxRecords store = (Inl e, store)"
proof -
  have "map_of store n = Some d" using assms(1,2) by simp
  then have "\<exists>e. readJob kill now store n True = Inl e" using assms(4) by (cases "validCommandId n") (auto simp: readJob_def)
  then obtain e where "readJob kill now store n True = Inl e" by blast
  from listJobs_fails [OF _ assms(3) this] assms(1) obtain e1 e2 where
    "listJobs kill now store project = Inl e1" "listJobs kill now store None = Inl e2" by force
  moreover from this have "readAll kill now store (filter listedName (map fst store)) = Inl e1"
    "e1 = e2" by (auto simp: listJobs_def elim!: bind_r.elims)
  ultimately show ?thesis by (auto simp: reserve_def)
qed

section \<open>Concrete instances\<close>

text \<open>A codec: the identifier, a letter for the stream, the offset in three bytes.\<close>

definition sampleCodec :: cursor_codec where
  "sampleCodec = \<lparr>
     cc_encode = (\<lambda>v. case (asStr (get (Some v) ''id''), asStr (get (Some v) ''stream''), intNum (get (Some v) ''offset'')) of
       (Some i, Some s, Some off) \<Rightarrow> i @ [s ! 3] @ [char_of (nat off div 65536), char_of (nat off div 256), char_of (nat off)]
     | _ \<Rightarrow> []),
     cc_decode = (\<lambda>c. Some (cursorJson (take 40 c) (if c ! 40 = CHR ''o'' then ''stdout'' else ''stderr'')
       ((of_char (c ! 41) * 256 + of_char (c ! 42)) * 256 + of_char (c ! 43))))\<rparr>"

lemma sampleCodec_encodes:
  "cc_encode sampleCodec (cursorJson i s off) =
     i @ [s ! 3] @ [char_of (off div 65536), char_of (off div 256), char_of off]"
proof -
  have "intNum (Some (JNum (Fin (rat_of_int (int off))))) = Some (int off)" by (subst intNum_Some) simp
  then show ?thesis by (simp add: sampleCodec_def cursorJson_def del: of_int_of_nat_eq)
qed

lemma three_bytes: "(off::nat) \<le> 2097152 \<Longrightarrow> ((off div 65536 mod 256) * 256 + off div 256 mod 256) * 256 + off mod 256 = off"
proof -
  assume le: "off \<le> 2097152"
  have "off div 65536 \<le> 2097152 div 65536" using le by (rule div_le_mono)
  then have "off div 65536 mod 256 = off div 65536" by simp
  moreover have "off div 65536 = off div 256 div 256" by (simp add: div_mult2_eq [symmetric])
  ultimately show ?thesis by (simp only: div_mult_mod_eq)
qed

lemma sampleCodec_lawful: "lawful_codec sampleCodec"
  unfolding lawful_codec_def Let_def
proof (intro allI impI)
  fix i stream :: string and off :: nat
  assume a: "length i = 40" "stream \<in> {''stdout'', ''stderr''}" "off \<le> LOG_LIMIT"
  define c where "c = i @ [stream ! 3] @ [char_of (off div 65536), char_of (off div 256), char_of off]"
  have c: "take 40 c = i" "c ! 40 = stream ! 3" "c ! 41 = char_of (off div 65536)" "c ! 42 = char_of (off div 256)" "c ! 43 = char_of off"
    using a(1) by (simp_all add: nth_append c_def)
  have "((off div 65536 mod 256) * 256 + off div 256 mod 256) * 256 + off mod 256 = off"
    by (rule three_bytes) (use a(3) in \<open>simp add: LOG_LIMIT_def\<close>)
  moreover have "(if stream ! 3 = CHR ''o'' then ''stdout'' else ''stderr'') = stream" using a(2) by auto
  ultimately have "cc_decode sampleCodec c = Some (cursorJson i stream off)"
    by (simp only: sampleCodec_def cursor_codec.simps c of_char_of)
  then show "cc_encode sampleCodec (cursorJson i stream off) \<noteq> [] \<and>
      length (cc_encode sampleCodec (cursorJson i stream off)) \<le> 512 \<and>
      cc_decode sampleCodec (cc_encode sampleCodec (cursorJson i stream off)) = Some (cursorJson i stream off)"
    using a(1) by (simp add: sampleCodec_encodes c_def)
qed

definition sampleId :: string where
  "sampleId = ''cmd_01234567-89ab-cdef-0123-456789abcdef''"

definition sampleCommand :: command_record where
  "sampleCommand = \<lparr>cm_version = 1, cm_id = sampleId, cm_owner = ''me'', cm_ownerPid = 7, cm_project = ''/w'', cm_label = ''make'',
     cm_createdAt = 0, cm_updatedAt = 0, cm_status = CRunning, cm_pid = None, cm_cancelRequested = False, cm_finishedAt = None,
     cm_exitCode = None, cm_exitSignal = None, cm_reason = None, cm_cleanup = None, cm_readiness = NotRequested,
     cm_stdoutBytes = 6, cm_stderrBytes = 0, cm_stdoutOmitted = 0, cm_stderrOmitted = 0\<rparr>"

lemma sampleId_valid [simp]: "validCommandId sampleId" "length sampleId = 40" "listedName sampleId"
  by (simp_all add: validCommandId_def listedName_def sampleId_def is_lower_hex_def Let_def)

definition sampleStore :: "string \<Rightarrow> command_store" where
  "sampleStore lg = [(sampleId, \<lparr>jd_isDirectory = True, jd_record = Some (Stored sampleCommand), jd_stdout = Some lg,
     jd_stderr = None, jd_unknown = False\<rparr>)]"

lemma sample_shows: "length lg \<le> LOG_LIMIT \<Longrightarrow> shows_log sampleId ''/w'' ''stdout'' (\<lambda>_. KillOk, 1000, sampleStore lg) lg"
  by (simp add: shows_log_def sampleStore_def readJob_def sampleCommand_def reconciled_def logOf_def aliveOwner_def
      COMMAND_TERMINAL_def LEASE_MS_def)

theorem log_pages_are_contiguous_witness:
  "\<exists>bytes c more. followLog sampleCodec sampleId ''/w'' ''stdout'' 4
     [(\<lambda>_. KillOk, 1000, sampleStore ''abcdef''), (\<lambda>_. KillOk, 1000, sampleStore ''abcdefg'')] None = Inr (bytes, c, more) \<and>
   prefix bytes ''abcdefg'' \<and> (more \<longleftrightarrow> bytes \<noteq> ''abcdefg'')"
  using log_pages_are_contiguous [of sampleId "''/w''" "''stdout''"
      "[(\<lambda>_. KillOk, 1000, sampleStore ''abcdef''), (\<lambda>_. KillOk, 1000, sampleStore ''abcdefg'')]" "[''abcdef'', ''abcdefg'']" sampleCodec 4]
  by (simp add: sample_shows LOG_LIMIT_def sampleCodec_lawful READ_LIMIT_def) blast

theorem bad_entry_blocks_commands_witness:
  "\<exists>e. reserve (\<lambda>_. KillOk) 0 Written sampleCommand 8 100 [(''cmd_------------------------------------'', newDir None)] =
     (Inl e, [(''cmd_------------------------------------'', newDir None)])"
proof -
  let ?n = "''cmd_------------------------------------''"
  have "listedName ?n" by (simp add: listedName_def list_all_iff)
  moreover have "\<not> validCommandId ?n" by (simp add: validCommandId_def is_lower_hex_def Let_def)
  ultimately show ?thesis
    using bad_entry_blocks_commands [of ?n "newDir None" "[(?n, newDir None)]" "\<lambda>_. KillOk" 0 None Written sampleCommand 8 100]
    by auto
qed

end
