(* ===== verification/CommandRunner.thy ===== *)
theory CommandRunner
  imports CommandStore
begin

text \<open>
  \<open>_shared/command-job-runner.ts\<close>: the check of a start, and the life of command jobs over the store. A job
  is a record in the memory of its owner and a record on disk that the owner publishes from time to time;
  anybody may ask for its cancellation on disk. Owners, jobs, writes that fail, crashes and the results of
  the processes (\<open>ManagedProcess\<close>) interleave as events. One call of \<open>save\<close> is three events: it is
  requested, it commits under the lock of the store, and it returns.
\<close>

section \<open>The check of a start\<close>

record probe_spec =
  pb_kind :: string
  pb_port :: jnum
  pb_path :: "string option"
  pb_timeout :: jnum

record command_start =
  st_command :: string
  st_args :: "string list"
  st_cwd :: string
  st_project :: "string option"
  st_timeout :: jnum
  st_label :: "string option"
  st_readiness :: "probe_spec option"

datatype start_error =
    InvalidExecutable | InvalidArgv | InvalidSeconds string | InvalidLabel | InvalidProbe | InvalidProbePath
  | NoSuchDirectory | NotADirectoryPath

definition positive :: "jnum \<Rightarrow> rat \<Rightarrow> bool" where
  "positive v mx \<longleftrightarrow> (case v of Fin r \<Rightarrow> 0 < r \<and> r \<le> mx | _ \<Rightarrow> False)"

definition given_text :: "string option \<Rightarrow> string option" where
  "given_text v = (case v of Some s \<Rightarrow> if s = [] then None else Some s | None \<Rightarrow> None)"

definition argvBytes :: "string list \<Rightarrow> nat" where
  "argvBytes args = utf8_length (''['' @ joinWith '','' (map jsonString args) @ '']'')"

definition checkProbe :: "rat \<Rightarrow> probe_spec \<Rightarrow> start_error + unit" where
  "checkProbe timeout p =
     (if pb_kind p \<notin> {''tcp'', ''http''} \<or>
         (case intNum (Some (JNum (pb_port p))) of None \<Rightarrow> True | Some n \<Rightarrow> n < 1 \<or> n > 65535) then Inl InvalidProbe
      else if \<not> positive (pb_timeout p) timeout then Inl (InvalidSeconds ''readiness timeoutSeconds'')
      else case given_text (pb_path p) of
        None \<Rightarrow> Inr ()
      | Some path \<Rightarrow>
          if hd path \<noteq> CHR ''/'' \<or> length path > 2048 \<or>
             (\<exists>c \<in> set path. (of_char c :: nat) < 33 \<or> 126 < (of_char c :: nat)) then Inl InvalidProbePath
          else Inr ())"

definition checkStart :: "command_start \<Rightarrow> start_error + unit" where
  "checkStart i =
     (if st_command i = [] \<or> CHR 0x00 \<in> set (st_command i) \<or> utf8_length (st_command i) > 4096 then Inl InvalidExecutable
      else if length (st_args i) > 1024 \<or> (\<exists>a \<in> set (st_args i). CHR 0x00 \<in> set a) \<or> argvBytes (st_args i) > 65536
      then Inl InvalidArgv
      else if \<not> positive (st_timeout i) 86400 then Inl (InvalidSeconds ''timeoutSeconds'')
      else if (case given_text (st_label i) of None \<Rightarrow> False
               | Some l \<Rightarrow> length l > 160 \<or> (\<exists>c \<in> set l. (of_char c :: nat) < 32)) then Inl InvalidLabel
      else case st_readiness i of
        None \<Rightarrow> Inr ()
      | Some p \<Rightarrow> checkProbe (case st_timeout i of Fin r \<Rightarrow> r | _ \<Rightarrow> 0) p)"

text \<open>\<open>realpathSync\<close> and \<open>statSync\<close>: the real path, and whether it is a directory.\<close>

type_synonym dir_view = "string \<Rightarrow> (string \<times> bool) option"

definition checkDirs :: "dir_view \<Rightarrow> command_start \<Rightarrow> start_error + string" where
  "checkDirs dirs i =
     (case (dirs (st_cwd i), dirs (case st_project i of None \<Rightarrow> st_cwd i | Some p \<Rightarrow> p)) of
        (Some (_, d1), Some (project, d2)) \<Rightarrow> if d1 \<and> d2 then Inr project else Inl NotADirectoryPath
      | _ \<Rightarrow> Inl NoSuchDirectory)"

text \<open>\<open>path.basename\<close>.\<close>

definition baseName :: "string \<Rightarrow> string" where
  "baseName p = rev (takeWhile (\<lambda>c. c \<noteq> CHR ''/'') (dropWhile (\<lambda>c. c = CHR ''/'') (rev p)))"

definition newRecord :: "string \<Rightarrow> string \<Rightarrow> int \<Rightarrow> int \<Rightarrow> string \<Rightarrow> command_start \<Rightarrow> command_record" where
  "newRecord i owner pid now project inp =
     \<lparr>cm_version = 1, cm_id = i, cm_owner = owner, cm_ownerPid = pid, cm_project = project,
      cm_label = (case given_text (st_label inp) of Some l \<Rightarrow> l | None \<Rightarrow> baseName (st_command inp)),
      cm_createdAt = now, cm_updatedAt = now, cm_status = CStarting, cm_pid = None, cm_cancelRequested = False,
      cm_finishedAt = None, cm_exitCode = None, cm_exitSignal = None, cm_reason = None, cm_cleanup = None,
      cm_readiness = (if st_readiness inp = None then NotRequested else Pending),
      cm_stdoutBytes = 0, cm_stderrBytes = 0, cm_stdoutOmitted = 0, cm_stderrOmitted = 0\<rparr>"

section \<open>Live jobs\<close>

text \<open>\<open>Reserved\<close>: \<open>startImpl\<close> waits for the reservation. \<open>Publishing\<close>: \<open>execute\<close> waits for its first save. \<open>Watching\<close>:
  it waits for the process. \<open>Stopping\<close>: after an exception it waits for the process. \<open>Finishing\<close>: the outcome is
  decided. \<open>Closing\<close>: the last save is under way.\<close>

datatype job_phase = Reserved | Publishing | Watching | Stopping | Finishing | Closing

datatype save_state = Idle | Requested | Committed command_record | Broken

record live_job =
  lj_record :: command_record
  lj_phase :: job_phase
  lj_failing :: "string option"
  lj_handle :: bool
  lj_terminate :: "(termination_reason \<times> string) option"
  lj_save :: save_state

definition LOG_FAILED :: string where
  "LOG_FAILED = ''Log storage failed; output evidence incomplete''"

text \<open>A call of \<open>handle?.terminate\<close>; the process takes the first one (\<open>requestTermination\<close>).\<close>

definition terminateHandle :: "termination_reason \<Rightarrow> string \<Rightarrow> live_job \<Rightarrow> live_job" where
  "terminateHandle reason msg lj =
     (if lj_handle lj \<and> lj_terminate lj = None then lj\<lparr>lj_terminate := Some (reason, msg)\<rparr> else lj)"

definition onRecord :: "(command_record \<Rightarrow> command_record) \<Rightarrow> live_job \<Rightarrow> live_job" where
  "onRecord f lj = lj\<lparr>lj_record := f (lj_record lj)\<rparr>"

text \<open>\<open>append\<close>: what a chunk adds to the log, and the job after it; the write may fail after some bytes.\<close>

definition appendChunk :: "bool \<Rightarrow> string \<Rightarrow> nat option \<Rightarrow> live_job \<Rightarrow> live_job \<times> string" where
  "appendChunk isStdout chunk failsAfter lj =
     (if lj_failing lj \<noteq> None then (lj, [])
      else
        let r = lj_record lj;
            used = (if isStdout then cm_stdoutBytes r else cm_stderrBytes r);
            retain = min (length chunk) (LOG_LIMIT - used)
        in if (case failsAfter of Some n \<Rightarrow> n < retain | None \<Rightarrow> False)
           then (terminateHandle OutputLimit LOG_FAILED (lj\<lparr>lj_failing := Some LOG_FAILED\<rparr>), take (the failsAfter) chunk)
           else (onRecord (\<lambda>r. if isStdout
                then r\<lparr>cm_stdoutBytes := used + retain, cm_stdoutOmitted := cm_stdoutOmitted r + (length chunk - retain)\<rparr>
                else r\<lparr>cm_stderrBytes := used + retain, cm_stderrOmitted := cm_stderrOmitted r + (length chunk - retain)\<rparr>) lj,
              take retain chunk))"

text \<open>The status of a process that ended.\<close>

definition outcomeStatus :: "string option \<Rightarrow> process_result \<Rightarrow> command_status" where
  "outcomeStatus failing res =
     (if failing \<noteq> None then CFailed
      else if pr_terminationReason res = Some Timeout then CTimedOut
      else if pr_terminationReason res = Some Aborted then CCanceled
      else if pr_terminationReason res \<noteq> None \<or> pr_exitCode res \<noteq> 0 then CFailed else CSucceeded)"

definition reasonText :: "termination_reason \<Rightarrow> string" where
  "reasonText r = (case r of Aborted \<Rightarrow> ''aborted'' | Timeout \<Rightarrow> ''timeout'' | OutputLimit \<Rightarrow> ''output_limit'' | SpawnError \<Rightarrow> ''spawn_error'')"

definition outcomeReason :: "string option \<Rightarrow> process_result \<Rightarrow> string option" where
  "outcomeReason failing res =
     (let reason = (case failing of Some f \<Rightarrow> Some f | None \<Rightarrow> map_option reasonText (pr_terminationReason res)) in
      if pr_cleanup res = CleanupUnconfirmed
      then Some ((case reason of Some t \<Rightarrow> t | None \<Rightarrow> ''process finished'') @
        ''; cleanup unconfirmed (original group may remain; escaped descendants are not tracked)'')
      else reason)"

text \<open>The start of \<open>finally\<close>.\<close>

definition finished :: "int \<Rightarrow> command_record \<Rightarrow> command_record" where
  "finished now r = r\<lparr>cm_readiness := (if cm_readiness r = Pending then NotReady else cm_readiness r), cm_finishedAt := Some now\<rparr>"

definition processEnded :: "int \<Rightarrow> process_result \<Rightarrow> live_job \<Rightarrow> live_job" where
  "processEnded now res lj =
     (onRecord (\<lambda>r. finished now (r\<lparr>cm_exitCode := pr_observedExitCode res, cm_exitSignal := pr_exitSignal res,
         cm_cleanup := Some (pr_cleanup res), cm_status := outcomeStatus (lj_failing lj) res,
         cm_reason := outcomeReason (lj_failing lj) res\<rparr>)) lj)\<lparr>lj_phase := Finishing\<rparr>"

definition setupFailed :: "int \<Rightarrow> live_job \<Rightarrow> live_job" where
  "setupFailed now lj =
     (onRecord (\<lambda>r. finished now (r\<lparr>cm_status := CFailed,
         cm_reason := Some ''Command setup or state persistence failed; inspect local environment'',
         cm_cleanup := Some (if lj_handle lj then CleanupUnconfirmed else CleanupConfirmed)\<rparr>)) lj)\<lparr>lj_phase := Finishing\<rparr>"

section \<open>The host\<close>

text \<open>The store of the host, the live jobs of all owners, the owners that shut down, the processes that are gone, the clock.
  \<open>startImpl\<close> gives a job a new identifier; identifiers of live jobs are not given again.\<close>

record host =
  ho_store :: command_store
  ho_live :: "(string \<times> live_job) list"
  ho_closing :: "string list"
  ho_dead :: "int list"
  ho_now :: int

definition killOf :: "host \<Rightarrow> procs" where
  "killOf h = (\<lambda>pid. if pid \<in> set (ho_dead h) then KillOther else KillOk)"

text \<open>The start of a process: the logs do not open, the start throws, or it runs, with its identifier.\<close>

datatype launch_result = LogsFail | StartThrows | Starts "int option"

datatype host_event =
    Tick nat
  | Reserve string string int string command_start disk_write
  | Launch string bool bool launch_result
  | SaveCommits string bool
  | SaveReturns string
  | Heartbeat string
  | Output string bool string "nat option"
  | ProbeSucceeds string
  | ProbeExpires string
  | ProcessEnds string process_result
  | StopEnds string
  | LastSave string
  | CancelRequest string string bool
  | CloseOwner string
  | SweepOwner string
  | OwnerDies int

definition MAX_ACTIVE :: nat where
  "MAX_ACTIVE = 8"

definition MAX_RECORDS :: nat where
  "MAX_RECORDS = 100"

definition updateLive :: "string \<Rightarrow> live_job \<Rightarrow> host \<Rightarrow> host" where
  "updateLive i lj h = h\<lparr>ho_live := AList.map_entry i (\<lambda>_. lj) (ho_live h)\<rparr>"

definition dropLive :: "string \<Rightarrow> host \<Rightarrow> host" where
  "dropLive i h = h\<lparr>ho_live := AList.delete i (ho_live h)\<rparr>"

text \<open>A step that needs a live job of some phase.\<close>

definition withLive :: "string \<Rightarrow> (live_job \<Rightarrow> bool) \<Rightarrow> (live_job \<Rightarrow> host) \<Rightarrow> host \<Rightarrow> host" where
  "withLive i can f h = (case map_of (ho_live h) i of None \<Rightarrow> h | Some lj \<Rightarrow> if can lj then f lj else h)"

text \<open>\<open>startImpl\<close> up to the reservation, for a checked input.\<close>

definition reserveStep :: "string \<Rightarrow> string \<Rightarrow> int \<Rightarrow> string \<Rightarrow> command_start \<Rightarrow> disk_write \<Rightarrow> host \<Rightarrow> host" where
  "reserveStep i owner pid project inp disk h =
     (if i \<in> fst ` set (ho_live h) \<or> owner \<in> set (ho_closing h) \<or> pid \<in> set (ho_dead h) \<or> pid \<le> 0
         \<or> checkStart inp \<noteq> Inr () then h
      else
        let r = newRecord i owner pid (ho_now h) project inp in
        case reserve (killOf h) (ho_now h) disk r MAX_ACTIVE MAX_RECORDS (ho_store h) of
          (Inl e, store') \<Rightarrow> h\<lparr>ho_store := store'\<rparr>
        | (Inr _, store') \<Rightarrow> h\<lparr>ho_store := store',
            ho_live := ho_live h @ [(i, \<lparr>lj_record = r, lj_phase = Reserved, lj_failing = None, lj_handle = False,
              lj_terminate = None, lj_save = Idle\<rparr>)]\<rparr>)"

definition canceledBefore :: "int \<Rightarrow> command_record \<Rightarrow> command_record" where
  "canceledBefore now r = r\<lparr>cm_status := CCanceled, cm_cleanup := Some CleanupConfirmed, cm_exitCode := None,
     cm_finishedAt := Some now, cm_reason := Some ''Canceled before spawning''\<rparr>"

definition openLogs :: "string \<Rightarrow> command_store \<Rightarrow> command_store option" where
  "openLogs i store =
     (case map_of store i of
        None \<Rightarrow> None
      | Some d \<Rightarrow>
          if jd_stdout d \<noteq> None \<or> jd_stderr d \<noteq> None then None
          else Some (AList.map_entry i (\<lambda>d. d\<lparr>jd_stdout := Some [], jd_stderr := Some []\<rparr>) store))"

text \<open>\<open>startImpl\<close> after the reservation and \<open>execute\<close> up to its first save. The logs are created exclusively.\<close>

definition launchStep :: "string \<Rightarrow> bool \<Rightarrow> bool \<Rightarrow> launch_result \<Rightarrow> host \<Rightarrow> host" where
  "launchStep i aborted writes result h =
     withLive i (\<lambda>lj. lj_phase lj = Reserved) (\<lambda>lj.
       if aborted \<or> cm_owner (lj_record lj) \<in> set (ho_closing h)
       then dropLive i (h\<lparr>ho_store := snd (updateJob writes i (Some (cm_owner (lj_record lj)))
              (\<lambda>_. Inr (canceledBefore (ho_now h) (lj_record lj))) (ho_store h))\<rparr>)
       else case (if result = LogsFail then None else openLogs i (ho_store h)) of
         None \<Rightarrow> updateLive i (setupFailed (ho_now h) lj) h
       | Some store' \<Rightarrow>
           (case result of
              Starts pid \<Rightarrow> updateLive i ((onRecord (\<lambda>r. r\<lparr>cm_pid := pid, cm_status := CRunning\<rparr>) lj)
                \<lparr>lj_phase := Publishing, lj_handle := True, lj_save := Requested\<rparr>) (h\<lparr>ho_store := store'\<rparr>)
            | _ \<Rightarrow> updateLive i (setupFailed (ho_now h) lj) (h\<lparr>ho_store := store'\<rparr>))) h"

definition commitStep :: "string \<Rightarrow> bool \<Rightarrow> host \<Rightarrow> host" where
  "commitStep i writes h =
     withLive i (\<lambda>lj. lj_save lj = Requested) (\<lambda>lj.
       let r = lj_record lj;
           seen = (case updateJob True i (Some (cm_owner r)) Inr (ho_store h) of
             (Inr current, _) \<Rightarrow> if cm_cancelRequested current then r\<lparr>cm_cancelRequested := True\<rparr> else r
           | _ \<Rightarrow> r)
       in case updateJob writes i (Some (cm_owner r)) (\<lambda>_. Inr (seen\<lparr>cm_updatedAt := ho_now h\<rparr>)) (ho_store h) of
            (Inl e, _) \<Rightarrow> updateLive i (lj\<lparr>lj_record := seen, lj_save := Broken\<rparr>) h
          | (Inr nxt, store') \<Rightarrow> updateLive i (lj\<lparr>lj_record := seen, lj_save := Committed nxt\<rparr>) (h\<lparr>ho_store := store'\<rparr>)) h"

definition STATE_FAILED :: string where
  "STATE_FAILED = ''Job state storage failed''"

text \<open>What a returned save does with the job: a cancel request that it saw on disk ends the process.\<close>

definition sawCancel :: "command_record \<Rightarrow> live_job \<Rightarrow> live_job" where
  "sawCancel nxt lj =
     (if cm_cancelRequested nxt \<and> \<not> COMMAND_TERMINAL (cm_status (lj_record lj))
      then terminateHandle Aborted ''Command canceled by owner or explicit request''
             (onRecord (\<lambda>r. r\<lparr>cm_status := CCanceling\<rparr>) lj)
      else lj)"

definition returnStep :: "string \<Rightarrow> host \<Rightarrow> host" where
  "returnStep i h =
     withLive i (\<lambda>_. True) (\<lambda>lj.
       case lj_save lj of
         Committed nxt \<Rightarrow>
           let lj1 = (sawCancel nxt lj)\<lparr>lj_save := Idle\<rparr> in
           (case lj_phase lj of
              Publishing \<Rightarrow> updateLive i (lj1\<lparr>lj_phase := Watching\<rparr>) h
            | Closing \<Rightarrow> dropLive i h
            | _ \<Rightarrow> updateLive i lj1 h)
       | Broken \<Rightarrow>
           (case lj_phase lj of
              Publishing \<Rightarrow> updateLive i (terminateHandle Aborted ''Command manager failed'' (lj\<lparr>lj_phase := Stopping\<rparr>)) h
            | Watching \<Rightarrow> updateLive i (terminateHandle Aborted STATE_FAILED (lj\<lparr>lj_failing := Some STATE_FAILED\<rparr>)) h
            | Closing \<Rightarrow> dropLive i h
            | _ \<Rightarrow> h)
       | _ \<Rightarrow> h) h"

definition appendLog :: "string \<Rightarrow> bool \<Rightarrow> string \<Rightarrow> command_store \<Rightarrow> command_store" where
  "appendLog i isStdout bytes = AList.map_entry i (\<lambda>d.
     if isStdout then d\<lparr>jd_stdout := map_option (\<lambda>l. l @ bytes) (jd_stdout d)\<rparr>
     else d\<lparr>jd_stderr := map_option (\<lambda>l. l @ bytes) (jd_stderr d)\<rparr>)"

definition runs :: "live_job \<Rightarrow> bool" where
  "runs lj \<longleftrightarrow> lj_phase lj \<in> {Publishing, Watching, Stopping}"

definition setReadiness :: "readiness_state \<Rightarrow> live_job \<Rightarrow> live_job" where
  "setReadiness s lj = (if cm_readiness (lj_record lj) = Pending then onRecord (\<lambda>r. r\<lparr>cm_readiness := s\<rparr>) lj else lj)"

definition sweep :: "string \<Rightarrow> live_job \<Rightarrow> live_job" where
  "sweep owner lj =
     (if cm_owner (lj_record lj) = owner
      then terminateHandle Aborted ''Command owner shutting down'' (onRecord (\<lambda>r. r\<lparr>cm_cancelRequested := True\<rparr>) lj)
      else lj)"

definition host_step :: "host_event \<Rightarrow> host \<Rightarrow> host" where
  "host_step ev h =
     (case ev of
        Tick n \<Rightarrow> h\<lparr>ho_now := ho_now h + int n\<rparr>
      | Reserve i owner pid project inp disk \<Rightarrow> reserveStep i owner pid project inp disk h
      | Launch i aborted writes result \<Rightarrow> launchStep i aborted writes result h
      | SaveCommits i writes \<Rightarrow> commitStep i writes h
      | SaveReturns i \<Rightarrow> returnStep i h
      | Heartbeat i \<Rightarrow> withLive i (\<lambda>lj. lj_phase lj = Watching \<and> lj_save lj = Idle)
          (\<lambda>lj. updateLive i (lj\<lparr>lj_save := Requested\<rparr>) h) h
      | Output i isStdout chunk failsAfter \<Rightarrow> withLive i runs
          (\<lambda>lj. case appendChunk isStdout chunk failsAfter lj of
             (lj', bytes) \<Rightarrow> updateLive i lj' (h\<lparr>ho_store := appendLog i isStdout bytes (ho_store h)\<rparr>)) h
      | ProbeSucceeds i \<Rightarrow> withLive i (\<lambda>lj. lj_phase lj = Watching) (\<lambda>lj. updateLive i (setReadiness IsReady lj) h) h
      | ProbeExpires i \<Rightarrow> withLive i (\<lambda>lj. lj_phase lj = Watching) (\<lambda>lj. updateLive i (setReadiness NotReady lj) h) h
      | ProcessEnds i res \<Rightarrow> withLive i (\<lambda>lj. lj_phase lj = Watching) (\<lambda>lj. updateLive i (processEnded (ho_now h) res lj) h) h
      | StopEnds i \<Rightarrow> withLive i (\<lambda>lj. lj_phase lj = Stopping) (\<lambda>lj. updateLive i (setupFailed (ho_now h) lj) h) h
      | LastSave i \<Rightarrow> withLive i (\<lambda>lj. lj_phase lj = Finishing \<and> (lj_save lj = Idle \<or> lj_save lj = Broken))
          (\<lambda>lj. updateLive i (lj\<lparr>lj_phase := Closing, lj_save := Requested\<rparr>) h) h
      | CancelRequest i project writes \<Rightarrow> h\<lparr>ho_store := snd (cancelJob writes i project (ho_store h))\<rparr>
      | CloseOwner owner \<Rightarrow> h\<lparr>ho_closing := owner # ho_closing h\<rparr>
      | SweepOwner owner \<Rightarrow>
          if \<exists>x \<in> set (ho_live h). cm_owner (lj_record (snd x)) = owner \<and> lj_phase (snd x) = Reserved then h
          else h\<lparr>ho_live := map (\<lambda>(i, lj). (i, sweep owner lj)) (ho_live h)\<rparr>
      | OwnerDies pid \<Rightarrow> h\<lparr>ho_dead := pid # ho_dead h,
          ho_live := filter (\<lambda>x. cm_ownerPid (lj_record (snd x)) \<noteq> pid) (ho_live h)\<rparr>)"

definition newHost :: "int \<Rightarrow> host" where
  "newHost now = \<lparr>ho_store = [], ho_live = [], ho_closing = [], ho_dead = [], ho_now = now\<rparr>"

section \<open>The invariant of the host\<close>

definition outcomeOf :: "command_record \<Rightarrow> command_status \<times> int option \<times> string option \<times> string option \<times> cleanup_verdict option" where
  "outcomeOf r = (cm_status r, cm_exitCode r, cm_exitSignal r, cm_reason r, cm_cleanup r)"

text \<open>A success comes from a process of the job that ended by itself with code 0; \<open>E\<close> holds the ends that were seen.\<close>

definition honest :: "(string \<times> process_result) set \<Rightarrow> string \<Rightarrow> command_record \<Rightarrow> bool" where
  "honest E i r \<longleftrightarrow> (cm_status r = CSucceeded \<longrightarrow>
     (\<exists>res. (i, res) \<in> E \<and> pr_exitCode res = 0 \<and> pr_terminationReason res = None))"

definition job_ok :: "(string \<times> process_result) set \<Rightarrow> command_store \<Rightarrow> int list \<Rightarrow> string \<times> live_job \<Rightarrow> bool" where
  "job_ok E store dead x \<longleftrightarrow> (case x of (i, lj) \<Rightarrow>
     let r = lj_record lj in
     validRecord i r \<and> honest E i r \<and> cm_ownerPid r \<notin> set dead \<and>
     (COMMAND_TERMINAL (cm_status r) \<longleftrightarrow> lj_phase lj \<in> {Finishing, Closing}) \<and>
     (\<forall>d. recordOf store i = Some d \<longrightarrow> cm_ownerPid d = cm_ownerPid r \<and> cm_owner d = cm_owner r \<and>
        (COMMAND_TERMINAL (cm_status d) \<longrightarrow> outcomeOf d = outcomeOf r)))"

definition host_ok :: "(string \<times> process_result) set \<Rightarrow> host \<Rightarrow> bool" where
  "host_ok E h \<longleftrightarrow> store_ok (ho_store h) \<and> distinct (map fst (ho_live h)) \<and>
     slotsTaken (killOf h) (ho_store h) \<le> MAX_ACTIVE \<and>
     list_all (job_ok E (ho_store h) (ho_dead h)) (ho_live h) \<and>
     (\<forall>i d. recordOf (ho_store h) i = Some d \<longrightarrow> honest E i d)"

lemma in_map_entry:
  "distinct (map fst xs) \<Longrightarrow> x \<in> set (AList.map_entry i (\<lambda>_. v) xs) \<Longrightarrow> x = (i, v) \<or> (fst x \<noteq> i \<and> x \<in> set xs)"
  by (induction xs) (auto split: if_splits)

lemma job_ok_store:
  "recordOf s' (fst x) = recordOf s (fst x) \<Longrightarrow> job_ok E s' dead x = job_ok E s dead x"
  by (simp add: job_ok_def case_prod_unfold)

lemma killOf_simps [simp]:
  "killOf (updateLive i lj h) = killOf h" "killOf (dropLive i h) = killOf h" "killOf (h\<lparr>ho_store := s\<rparr>) = killOf h"
  "killOf (h\<lparr>ho_live := l\<rparr>) = killOf h"
  by (simp_all add: killOf_def updateLive_def dropLive_def)

lemma live_entry:
  assumes "host_ok E h" "map_of (ho_live h) i = Some lj"
  shows "job_ok E (ho_store h) (ho_dead h) (i, lj)"
  using assms map_of_SomeD by (fastforce simp: host_ok_def list_all_iff)

text \<open>A step of one job: its record in memory changes, and on disk only its own record.\<close>

lemma host_update:
  assumes "host_ok E h" "map_of (ho_live h) i = Some lj"
    and "store_ok s" "slotsTaken (killOf h) s \<le> slotsTaken (killOf h) (ho_store h)"
    and "\<And>k. k \<noteq> i \<Longrightarrow> recordOf s k = recordOf (ho_store h) k"
    and "job_ok E s (ho_dead h) (i, lj')" "\<And>d. recordOf s i = Some d \<Longrightarrow> honest E i d"
  shows "host_ok E (updateLive i lj' (h\<lparr>ho_store := s\<rparr>))"
proof -
  have "list_all (job_ok E s (ho_dead h)) (AList.map_entry i (\<lambda>_. lj') (ho_live h))"
    unfolding list_all_iff
  proof
    fix x assume x: "x \<in> set (AList.map_entry i (\<lambda>_. lj') (ho_live h))"
    have "distinct (map fst (ho_live h))" using assms(1) by (simp add: host_ok_def)
    from in_map_entry [OF this x] consider "x = (i, lj')" | "fst x \<noteq> i" "x \<in> set (ho_live h)" by blast
    then show "job_ok E s (ho_dead h) x"
    proof cases
      case 2
      then show ?thesis using assms(1) job_ok_store [OF assms(5) [OF 2(1)]] by (auto simp: host_ok_def list_all_iff)
    qed (use assms(6) in simp)
  qed
  moreover have "honest E k d" if "recordOf s k = Some d" for k d
    using that assms(1,5,7) by (cases "k = i") (auto simp: host_ok_def)
  ultimately show ?thesis using assms(1,3,4)
    by (auto simp: host_ok_def updateLive_def distinct_map_entry intro: order_trans)
qed

lemma host_same_store:
  assumes "host_ok E h" "map_of (ho_live h) i = Some lj" "job_ok E (ho_store h) (ho_dead h) (i, lj')"
  shows "host_ok E (updateLive i lj' h)"
  using host_update [OF assms(1,2), of "ho_store h" lj'] assms by (auto simp: host_ok_def)

lemma host_drop:
  assumes "host_ok E h" "store_ok s" "slotsTaken (killOf h) s \<le> slotsTaken (killOf h) (ho_store h)"
    and "\<And>k. k \<noteq> i \<Longrightarrow> recordOf s k = recordOf (ho_store h) k" "\<And>d. recordOf s i = Some d \<Longrightarrow> honest E i d"
  shows "host_ok E (dropLive i (h\<lparr>ho_store := s\<rparr>))"
proof -
  have "list_all (job_ok E s (ho_dead h)) (AList.delete i (ho_live h))"
    unfolding list_all_iff AList.delete_eq
  proof
    fix x assume "x \<in> set (filter (\<lambda>(k', _). i \<noteq> k') (ho_live h))"
    then have x: "fst x \<noteq> i" "x \<in> set (ho_live h)" by auto
    then show "job_ok E s (ho_dead h) x" using assms(1) job_ok_store [OF assms(4) [OF x(1)]]
      by (simp add: host_ok_def list_all_iff)
  qed
  moreover have "honest E k d" if "recordOf s k = Some d" for k d
    using that assms(1,4,5) by (cases "k = i") (auto simp: host_ok_def)
  ultimately show ?thesis using assms(1-3)
    by (auto simp: host_ok_def dropLive_def AList.delete_eq distinct_map_filter' intro: order_trans)
qed

lemma job_ok_simp [simp]:
  "job_ok E store dead (i, lj) \<longleftrightarrow>
     validRecord i (lj_record lj) \<and> honest E i (lj_record lj) \<and> cm_ownerPid (lj_record lj) \<notin> set dead \<and>
     (COMMAND_TERMINAL (cm_status (lj_record lj)) \<longleftrightarrow> lj_phase lj \<in> {Finishing, Closing}) \<and>
     (\<forall>d. recordOf store i = Some d \<longrightarrow> cm_ownerPid d = cm_ownerPid (lj_record lj) \<and> cm_owner d = cm_owner (lj_record lj) \<and>
        (COMMAND_TERMINAL (cm_status d) \<longrightarrow> outcomeOf d = outcomeOf (lj_record lj)))"
  by (simp add: job_ok_def Let_def)

declare job_ok_simp [simp del]

lemma terminate_simps [simp]:
  "lj_record (terminateHandle t m lj) = lj_record lj" "lj_phase (terminateHandle t m lj) = lj_phase lj"
  "lj_save (terminateHandle t m lj) = lj_save lj"
  by (simp_all add: terminateHandle_def)

lemma onRecord_simps [simp]:
  "lj_record (onRecord f lj) = f (lj_record lj)" "lj_phase (onRecord f lj) = lj_phase lj" "lj_save (onRecord f lj) = lj_save lj"
  "lj_handle (onRecord f lj) = lj_handle lj" "lj_failing (onRecord f lj) = lj_failing lj" "lj_terminate (onRecord f lj) = lj_terminate lj"
  by (simp_all add: onRecord_def)

text \<open>A step that keeps phase and outcome, or one that changes a job that is not decided yet.\<close>

lemma job_ok_same:
  assumes "job_ok E s dead (i, lj)" "lj_phase lj' = lj_phase lj \<or> (lj_phase lj \<in> {Finishing, Closing} \<longleftrightarrow> lj_phase lj' \<in> {Finishing, Closing})"
    and "outcomeOf (lj_record lj') = outcomeOf (lj_record lj)" "cm_ownerPid (lj_record lj') = cm_ownerPid (lj_record lj)" "cm_owner (lj_record lj') = cm_owner (lj_record lj)"
    and "cm_version (lj_record lj') = cm_version (lj_record lj)" "cm_id (lj_record lj') = cm_id (lj_record lj)"
  shows "job_ok E s dead (i, lj')"
proof -
  have "cm_status (lj_record lj') = cm_status (lj_record lj)" using assms(3) by (simp add: outcomeOf_def)
  then show ?thesis using assms by (auto simp: job_ok_simp validRecord_def honest_def)
qed

lemma job_ok_open:
  assumes "job_ok E s dead (i, lj)" "lj_phase lj \<notin> {Finishing, Closing}"
    and "COMMAND_TERMINAL (cm_status (lj_record lj')) \<longleftrightarrow> lj_phase lj' \<in> {Finishing, Closing}" "cm_status (lj_record lj') \<noteq> CLost"
    and "honest E i (lj_record lj')" "cm_ownerPid (lj_record lj') = cm_ownerPid (lj_record lj)" "cm_owner (lj_record lj') = cm_owner (lj_record lj)"
    and "cm_version (lj_record lj') = cm_version (lj_record lj)" "cm_id (lj_record lj') = cm_id (lj_record lj)"
  shows "job_ok E s dead (i, lj')"
  using assms by (fastforce simp: job_ok_simp validRecord_def outcomeOf_def)

text \<open>Logs change no record.\<close>

lemma logs_only:
  assumes "\<And>d. jd_record (f d) = jd_record d" "\<And>d. jd_isDirectory (f d) = jd_isDirectory d"
  shows "recordOf (AList.map_entry i f s) = recordOf s" "slotsTaken kill (AList.map_entry i f s) = slotsTaken kill s"
    "store_ok s \<Longrightarrow> store_ok (AList.map_entry i f s)"
proof -
  show "recordOf (AList.map_entry i f s) = recordOf s"
    by (rule ext) (auto simp: recordOf_def map_of_map_entry assms split: option.split)
  show "slotsTaken kill (AList.map_entry i f s) = slotsTaken kill s"
    by (induction s) (auto simp: slotsTaken_def takesSlot_def assms)
  assume "store_ok s"
  then show "store_ok (AList.map_entry i f s)" by (rule store_ok_entry) (simp add: entry_ok_def assms)
qed

lemma openLogs_same:
  assumes "openLogs i s = Some s'" "store_ok s"
  shows "recordOf s' = recordOf s" "slotsTaken kill s' = slotsTaken kill s" "store_ok s'"
proof -
  have s': "s' = AList.map_entry i (\<lambda>d. d\<lparr>jd_stdout := Some [], jd_stderr := Some []\<rparr>) s"
    using assms(1) by (auto simp: openLogs_def split: option.splits if_splits)
  show "recordOf s' = recordOf s" "slotsTaken kill s' = slotsTaken kill s" "store_ok s'"
    unfolding s' by (rule logs_only; use assms in simp)+
qed

lemma appendLog_same:
  assumes "store_ok s"
  shows "recordOf (appendLog i b bytes s) = recordOf s" "slotsTaken kill (appendLog i b bytes s) = slotsTaken kill s"
    "store_ok (appendLog i b bytes s)"
  unfolding appendLog_def by (rule logs_only; use assms in simp)+

lemma reserve_step_ok:
  assumes "host_ok E h"
  shows "host_ok E (reserveStep i owner pid project inp disk h)"
proof (cases "i \<in> fst ` set (ho_live h) \<or> owner \<in> set (ho_closing h) \<or> pid \<in> set (ho_dead h) \<or> pid \<le> 0 \<or> checkStart inp \<noteq> Inr ()")
  case False
  define r where "r = newRecord i owner pid (ho_now h) project inp"
  have r: "cm_version r = 1" "0 < cm_ownerPid r" "cm_status r = CStarting" "cm_id r = i" "cm_ownerPid r = pid"
    using False by (auto simp: r_def newRecord_def)
  obtain res s' where res: "reserve (killOf h) (ho_now h) disk r MAX_ACTIVE MAX_RECORDS (ho_store h) = (res, s')" by force
  have st: "store_ok (ho_store h)" using assms by (simp add: host_ok_def)
  have lost: "cm_status r \<noteq> CLost" using r(3) by simp
  note ok = reserve_ok [OF res st r(1,2) lost, where kill' = "killOf h"]
  have kept: "recordOf s' k = recordOf (ho_store h) k \<or> recordOf s' k = None" if "k \<noteq> i \<or> (\<exists>e. res = Inl e)" for k
    using ok that r(4) by auto
  have jobs: "list_all (job_ok E s' (ho_dead h)) (ho_live h)"
    unfolding list_all_iff
  proof
    fix x assume x: "x \<in> set (ho_live h)"
    then have "fst x \<noteq> i" using False by auto
    moreover have "job_ok E (ho_store h) (ho_dead h) x" using assms x by (simp add: host_ok_def list_all_iff)
    ultimately show "job_ok E s' (ho_dead h) x" using kept [of "fst x"] by (cases x) (auto simp: job_ok_simp)
  qed
  have hon: "honest E k d" if "recordOf s' k = Some d" "k \<noteq> i \<or> (\<exists>e. res = Inl e)" for k d
    using kept [OF that(2)] that(1) assms by (auto simp: host_ok_def)
  show ?thesis
  proof (cases res)
    case (Inl e)
    have "reserveStep i owner pid project inp disk h = h\<lparr>ho_store := s'\<rparr>"
      using False res Inl by (simp add: reserveStep_def Let_def flip: r_def)
    then show ?thesis using ok Inl jobs hon assms by (auto simp: host_ok_def intro: order_trans)
  next
    case (Inr u)
    define lj where "lj = \<lparr>lj_record = r, lj_phase = Reserved, lj_failing = None, lj_handle = False, lj_terminate = None, lj_save = Idle\<rparr>"
    have eq: "reserveStep i owner pid project inp disk h = h\<lparr>ho_store := s', ho_live := ho_live h @ [(i, lj)]\<rparr>"
      using False res Inr by (simp add: reserveStep_def Let_def lj_def flip: r_def)
    have new: "recordOf s' i = Some r" using ok Inr r(4) by simp
    then have "job_ok E s' (ho_dead h) (i, lj)"
      using r False by (auto simp: job_ok_simp lj_def validRecord_def honest_def COMMAND_TERMINAL_def)
    moreover have "honest E k d" if "recordOf s' k = Some d" for k d
      using hon [OF that] new that r(3) by (cases "k = i") (auto simp: honest_def)
    ultimately show ?thesis using ok Inr jobs assms False
      by (auto simp: eq host_ok_def killOf_def)
  qed
qed (use assms in \<open>simp add: reserveStep_def\<close>)

lemma withLive_ok:
  assumes "host_ok E h" "\<And>lj. map_of (ho_live h) i = Some lj \<Longrightarrow> can lj \<Longrightarrow> host_ok E (f lj)"
  shows "host_ok E (withLive i can f h)"
  using assms by (simp add: withLive_def split: option.split)

lemma host_facts:
  assumes "host_ok E h" "map_of (ho_live h) i = Some lj"
  shows "job_ok E (ho_store h) (ho_dead h) (i, lj)" "store_ok (ho_store h)"
  using live_entry [OF assms] assms(1) by (simp_all add: host_ok_def)

lemma updateJob_snd:
  assumes "updateJob writes i owner mutate store = (res, store')" "store_ok store"
    and "\<And>current nxt. recordOf store i = Some current \<Longrightarrow> mutate current = Inr nxt \<Longrightarrow>
      validRecord i nxt \<and> (\<not> COMMAND_TERMINAL (cm_status nxt) \<longrightarrow>
        \<not> COMMAND_TERMINAL (cm_status current) \<and> cm_ownerPid nxt = cm_ownerPid current)"
  shows "store_ok store' \<and> slotsTaken kill store' \<le> slotsTaken kill store \<and>
    (recordOf store' = recordOf store \<or> (\<exists>current nxt. res = Inr nxt \<and> recordOf store i = Some current \<and> mutate current = Inr nxt \<and>
       recordOf store' = (recordOf store)(i \<mapsto> nxt)))"
  using updateJob_ok [OF assms, of kill] by (cases res) auto

lemma setup_failed_ok:
  assumes "job_ok E s dead (i, lj)" "lj_phase lj \<notin> {Finishing, Closing}"
  shows "job_ok E s dead (i, setupFailed now lj)"
  by (rule job_ok_open [OF assms]) (simp_all add: setupFailed_def finished_def COMMAND_TERMINAL_def honest_def)

lemma launch_step_ok:
  assumes "host_ok E h"
  shows "host_ok E (launchStep i aborted writes result h)"
  unfolding launchStep_def
proof (rule withLive_ok [OF assms], goal_cases)
  case (1 lj)
  note facts = host_facts [OF assms 1(1)]
  have valid: "validRecord i (lj_record lj)" using facts(1) by (simp add: job_ok_simp)
  have fail: "host_ok E (updateLive i (setupFailed (ho_now h) lj) (h\<lparr>ho_store := s\<rparr>))"
    if "recordOf s = recordOf (ho_store h)" "slotsTaken (killOf h) s = slotsTaken (killOf h) (ho_store h)" "store_ok s" for s
    by (rule host_update [OF assms 1(1)])
      (use that assms facts(1) 1(2) job_ok_store [of s "(i, lj)" "ho_store h"] setup_failed_ok in \<open>auto simp: host_ok_def\<close>)
  show ?case
  proof (cases "aborted \<or> cm_owner (lj_record lj) \<in> set (ho_closing h)")
    case True
    obtain res s' where u: "updateJob writes i (Some (cm_owner (lj_record lj))) (\<lambda>_. Inr (canceledBefore (ho_now h) (lj_record lj))) (ho_store h) = (res, s')"
      by force
    let ?c = "canceledBefore (ho_now h) (lj_record lj)"
    have c: "validRecord i ?c" "COMMAND_TERMINAL (cm_status ?c)" "honest E i ?c"
      using valid by (simp_all add: canceledBefore_def validRecord_def COMMAND_TERMINAL_def honest_def)
    have "store_ok s' \<and> slotsTaken (killOf h) s' \<le> slotsTaken (killOf h) (ho_store h) \<and>
        (recordOf s' = recordOf (ho_store h) \<or> recordOf s' = (recordOf (ho_store h))(i \<mapsto> ?c))"
      using updateJob_snd [OF u facts(2), of "killOf h"] c(1,2) by auto
    then have "host_ok E (dropLive i (h\<lparr>ho_store := s'\<rparr>))"
      using assms c(3) by (intro host_drop [OF assms]) (auto simp: host_ok_def split: if_splits)
    then show ?thesis using True by (simp add: u)
  next
    case False
    show ?thesis
    proof (cases "if result = LogsFail then None else openLogs i (ho_store h)")
      case None
      then show ?thesis using False fail [of "ho_store h"] facts(2) by simp
    next
      case (Some s')
      then have o: "openLogs i (ho_store h) = Some s'" and opened: "result \<noteq> LogsFail" by (simp_all split: if_splits)
      note same = openLogs_same [OF o facts(2)]
      show ?thesis
      proof (cases result)
        case (Starts pid)
        let ?lj = "(onRecord (\<lambda>r. r\<lparr>cm_pid := pid, cm_status := CRunning\<rparr>) lj)\<lparr>lj_phase := Publishing, lj_handle := True, lj_save := Requested\<rparr>"
        have "job_ok E s' (ho_dead h) (i, lj)" using facts(1) same(1) job_ok_store [of s' "(i, lj)" "ho_store h"] by simp
        from job_ok_open [OF this, of ?lj] have "job_ok E s' (ho_dead h) (i, ?lj)"
          using 1(2) by (simp add: COMMAND_TERMINAL_def honest_def)
        then have "host_ok E (updateLive i ?lj (h\<lparr>ho_store := s'\<rparr>))"
          using same assms by (intro host_update [OF assms 1(1)]) (auto simp: host_ok_def)
        then show ?thesis using False o Starts by simp
      qed (use False o opened fail [OF same] in auto)
    qed
  qed
qed

lemma commit_step_ok:
  assumes "host_ok E h"
  shows "host_ok E (commitStep i writes h)"
  unfolding commitStep_def Let_def
proof (rule withLive_ok [OF assms], goal_cases)
  case (1 lj)
  note facts = host_facts [OF assms 1(1)]
  define seen where "seen = (case updateJob True i (Some (cm_owner (lj_record lj))) Inr (ho_store h) of
      (Inr current, _) \<Rightarrow> if cm_cancelRequested current then (lj_record lj)\<lparr>cm_cancelRequested := True\<rparr> else lj_record lj
    | _ \<Rightarrow> lj_record lj)"
  have seen: "seen = lj_record lj \<or> seen = (lj_record lj)\<lparr>cm_cancelRequested := True\<rparr>"
    by (auto simp: seen_def split: sum.split prod.split)
  define saved where "saved = seen\<lparr>cm_updatedAt := ho_now h\<rparr>"
  have fields: "cm_status saved = cm_status (lj_record lj)" "cm_ownerPid saved = cm_ownerPid (lj_record lj)"
    "outcomeOf saved = outcomeOf (lj_record lj)" "validRecord i saved" "honest E i saved"
    "outcomeOf seen = outcomeOf (lj_record lj)" "cm_ownerPid seen = cm_ownerPid (lj_record lj)"
    "cm_owner seen = cm_owner (lj_record lj)" "cm_owner saved = cm_owner (lj_record lj)"
    "cm_version seen = cm_version (lj_record lj)" "cm_id seen = cm_id (lj_record lj)"
    using seen facts(1) by (auto simp: saved_def outcomeOf_def job_ok_simp validRecord_def honest_def)
  obtain res s' where u: "updateJob writes i (Some (cm_owner (lj_record lj))) (\<lambda>_. Inr saved) (ho_store h) = (res, s')" by force
  have "validRecord i nxt \<and> (\<not> COMMAND_TERMINAL (cm_status nxt) \<longrightarrow> \<not> COMMAND_TERMINAL (cm_status current) \<and> cm_ownerPid nxt = cm_ownerPid current)"
    if "recordOf (ho_store h) i = Some current" "Inr saved = Inr nxt" for current nxt
    using that facts(1) fields by (auto simp: job_ok_simp outcomeOf_def)
  note ok = updateJob_ok [OF u facts(2) this, where kill = "killOf h"]
  show ?case
  proof (cases res)
    case (Inl e)
    have "job_ok E (ho_store h) (ho_dead h) (i, lj\<lparr>lj_record := seen, lj_save := Broken\<rparr>)"
      by (rule job_ok_same [OF facts(1)]) (use fields in simp_all)
    from host_same_store [OF assms 1(1) this] show ?thesis using u Inl by (simp add: saved_def flip: seen_def)
  next
    case (Inr nxt)
    then have s': "nxt = saved" "recordOf s' = (recordOf (ho_store h))(i \<mapsto> saved)" "store_ok s'"
      "slotsTaken (killOf h) s' \<le> slotsTaken (killOf h) (ho_store h)" using ok by auto
    have "job_ok E s' (ho_dead h) (i, lj\<lparr>lj_record := seen, lj_save := Committed saved\<rparr>)"
      using facts(1) fields s'(2) by (auto simp: job_ok_simp validRecord_def honest_def outcomeOf_def)
    then have "host_ok E (updateLive i (lj\<lparr>lj_record := seen, lj_save := Committed saved\<rparr>) (h\<lparr>ho_store := s'\<rparr>))"
      using s' fields(5) by (intro host_update [OF assms 1(1)]) auto
    then show ?thesis using u Inr s'(1) by (simp add: saved_def flip: seen_def)
  qed
qed

lemma same_record:
  assumes "host_ok E h" "map_of (ho_live h) i = Some lj"
    and "lj_phase lj' = lj_phase lj \<or> (lj_phase lj \<in> {Finishing, Closing} \<longleftrightarrow> lj_phase lj' \<in> {Finishing, Closing})"
    and "outcomeOf (lj_record lj') = outcomeOf (lj_record lj)" "cm_ownerPid (lj_record lj') = cm_ownerPid (lj_record lj)" "cm_owner (lj_record lj') = cm_owner (lj_record lj)"
    and "cm_version (lj_record lj') = cm_version (lj_record lj)" "cm_id (lj_record lj') = cm_id (lj_record lj)"
  shows "host_ok E (updateLive i lj' h)"
  by (rule host_same_store [OF assms(1,2) job_ok_same [OF host_facts(1) [OF assms(1,2)] assms(3-8)]])

lemma sawCancel_ok:
  assumes "job_ok E s dead (i, lj)"
  shows "job_ok E s dead (i, (sawCancel nxt lj)\<lparr>lj_save := sv\<rparr>) \<and> lj_phase (sawCancel nxt lj) = lj_phase lj"
proof (cases "cm_cancelRequested nxt \<and> \<not> COMMAND_TERMINAL (cm_status (lj_record lj))")
  case True
  then have "lj_phase lj \<notin> {Finishing, Closing}" using assms by (simp add: job_ok_simp)
  then have "job_ok E s dead (i, (sawCancel nxt lj)\<lparr>lj_save := sv\<rparr>)"
    using True by (intro job_ok_open [OF assms]) (simp_all add: sawCancel_def COMMAND_TERMINAL_def honest_def)
  then show ?thesis using True by (simp add: sawCancel_def)
next
  case False
  then have same: "sawCancel nxt lj = lj" by (auto simp: sawCancel_def)
  show ?thesis unfolding same by (intro conjI job_ok_same [OF assms]) simp_all
qed

lemma return_step_ok:
  assumes "host_ok E h"
  shows "host_ok E (returnStep i h)"
  unfolding returnStep_def Let_def
proof (rule withLive_ok [OF assms], goal_cases)
  case (1 lj)
  note facts = host_facts [OF assms 1(1)]
  have drop: "host_ok E (dropLive i h)"
    using host_drop [OF assms, of "ho_store h" i] assms by (auto simp: host_ok_def)
  have saved: "job_ok E (ho_store h) (ho_dead h) (i, (sawCancel nxt lj)\<lparr>lj_save := Idle\<rparr>)" "lj_phase (sawCancel nxt lj) = lj_phase lj" for nxt
    using sawCancel_ok [OF facts(1)] by auto
  have watch: "host_ok E (updateLive i ((sawCancel nxt lj)\<lparr>lj_save := Idle, lj_phase := Watching\<rparr>) h)" if "lj_phase lj = Publishing" for nxt
    using saved [of nxt] that by (intro host_same_store [OF assms 1(1)] job_ok_same [OF saved(1)]) auto
  have again: "host_ok E (updateLive i ((sawCancel nxt lj)\<lparr>lj_save := Idle\<rparr>) h)" for nxt
    by (rule host_same_store [OF assms 1(1) saved(1)])
  have stop: "host_ok E (updateLive i (terminateHandle Aborted m (lj\<lparr>lj_phase := Stopping\<rparr>)) h)" if "lj_phase lj = Publishing" for m
    by (rule same_record [OF assms 1(1)]) (use that in simp_all)
  have failed: "host_ok E (updateLive i (terminateHandle Aborted m (lj\<lparr>lj_failing := x\<rparr>)) h)" for m x
    by (rule same_record [OF assms 1(1)]) simp_all
  show ?case using drop watch again stop failed assms by (simp split: save_state.split job_phase.split)
qed

lemma append_ok: "outcomeOf (lj_record (fst (appendChunk b c n lj))) = outcomeOf (lj_record lj) \<and>
    lj_phase (fst (appendChunk b c n lj)) = lj_phase lj \<and>
    cm_ownerPid (lj_record (fst (appendChunk b c n lj))) = cm_ownerPid (lj_record lj) \<and>
    cm_owner (lj_record (fst (appendChunk b c n lj))) = cm_owner (lj_record lj) \<and>
    cm_version (lj_record (fst (appendChunk b c n lj))) = cm_version (lj_record lj) \<and>
    cm_id (lj_record (fst (appendChunk b c n lj))) = cm_id (lj_record lj)"
  by (simp add: appendChunk_def Let_def outcomeOf_def)

lemma output_step_ok:
  assumes "host_ok E h" "map_of (ho_live h) i = Some lj" "appendChunk b chunk n lj = (lj', bytes)"
  shows "host_ok E (updateLive i lj' (h\<lparr>ho_store := appendLog i b bytes (ho_store h)\<rparr>))"
proof -
  note facts = host_facts [OF assms(1,2)]
  note same = appendLog_same [OF facts(2), where i = i and b = b and bytes = bytes]
  have "job_ok E (ho_store h) (ho_dead h) (i, lj')"
    by (rule job_ok_same [OF facts(1)]) (use append_ok [of b chunk n lj] assms(3) in auto)
  then have "job_ok E (appendLog i b bytes (ho_store h)) (ho_dead h) (i, lj')"
    using job_ok_store [of "appendLog i b bytes (ho_store h)" "(i, lj')" "ho_store h"] same(1) by simp
  then show ?thesis using same assms(1) by (intro host_update [OF assms(1,2)]) (auto simp: host_ok_def)
qed

lemma ended_ok:
  assumes "job_ok E s dead (i, lj)" "lj_phase lj \<notin> {Finishing, Closing}" "(i, res) \<in> E"
  shows "job_ok E s dead (i, processEnded now res lj)"
  by (rule job_ok_open [OF assms(1,2)])
    (use assms(3) in \<open>auto simp: processEnded_def finished_def outcomeStatus_def COMMAND_TERMINAL_def honest_def split: if_splits\<close>)

lemma cancel_step_ok:
  assumes "host_ok E h"
  shows "host_ok E (h\<lparr>ho_store := snd (cancelJob writes i project (ho_store h))\<rparr>)"
proof -
  define mutate where "mutate = (\<lambda>r::command_record. if cm_project r \<noteq> project then Inl OtherProject
       else if COMMAND_TERMINAL (cm_status r) then Inr r else Inr (r\<lparr>cm_cancelRequested := True\<rparr>))"
  obtain res s' where u: "updateJob writes i None mutate (ho_store h) = (res, s')" by force
  have st: "store_ok (ho_store h)" using assms by (simp add: host_ok_def)
  have keeps: "validRecord i nxt \<and> (\<not> COMMAND_TERMINAL (cm_status nxt) \<longrightarrow>
      \<not> COMMAND_TERMINAL (cm_status current) \<and> cm_ownerPid nxt = cm_ownerPid current) \<and>
      outcomeOf nxt = outcomeOf current \<and> cm_ownerPid nxt = cm_ownerPid current \<and> cm_owner nxt = cm_owner current"
    if r: "recordOf (ho_store h) i = Some current" "mutate current = Inr nxt" for current nxt
  proof -
    obtain d where d: "map_of (ho_store h) i = Some d" "jd_record d = Some (Stored current)"
      using r(1) by (auto simp: recordOf_def split: option.splits record_file.splits)
    have "entry_ok (i, d)" using st map_of_SomeD [OF d(1)] by (auto simp: store_ok_def list_all_iff)
    then have "validRecord i current" using d(2) by (simp add: entry_ok_def)
    then show ?thesis using r(2) by (auto simp: mutate_def validRecord_def outcomeOf_def split: if_splits)
  qed
  then have s': "store_ok s' \<and> slotsTaken (killOf h) s' \<le> slotsTaken (killOf h) (ho_store h) \<and>
    (recordOf s' = recordOf (ho_store h) \<or> (\<exists>current nxt. recordOf (ho_store h) i = Some current \<and> mutate current = Inr nxt \<and>
       recordOf s' = (recordOf (ho_store h))(i \<mapsto> nxt)))"
    using updateJob_snd [OF u st, of "killOf h"] by blast
  have rec: "recordOf s' k = recordOf (ho_store h) k \<or> (\<exists>c d. recordOf (ho_store h) k = Some c \<and> recordOf s' k = Some d \<and>
      outcomeOf d = outcomeOf c \<and> cm_ownerPid d = cm_ownerPid c \<and> cm_owner d = cm_owner c)" for k
  proof (cases "recordOf s' = recordOf (ho_store h)")
    case False
    then obtain c d where c: "recordOf (ho_store h) i = Some c" "mutate c = Inr d" "recordOf s' = (recordOf (ho_store h))(i \<mapsto> d)"
      using s' by blast
    show ?thesis using keeps [OF c(1,2)] c(1,3) by (cases "k = i") simp_all
  qed simp
  have "list_all (job_ok E s' (ho_dead h)) (ho_live h)"
    unfolding list_all_iff
  proof
    fix x assume "x \<in> set (ho_live h)"
    then have "job_ok E (ho_store h) (ho_dead h) x" using assms by (simp add: host_ok_def list_all_iff)
    then show "job_ok E s' (ho_dead h) x" using rec [of "fst x"]
      by (cases x) (auto simp: job_ok_simp outcomeOf_def)
  qed
  moreover have "honest E k d" if d: "recordOf s' k = Some d" for k d
  proof -
    obtain c where c: "recordOf (ho_store h) k = Some c" "outcomeOf d = outcomeOf c" using rec [of k] d by (metis option.inject)
    moreover have "honest E k c" using assms c(1) by (auto simp: host_ok_def)
    ultimately show ?thesis by (simp add: honest_def outcomeOf_def)
  qed
  ultimately have "host_ok E (h\<lparr>ho_store := s'\<rparr>)" using s' assms by (auto simp: host_ok_def)
  then show ?thesis using u by (simp add: cancelJob_def mutate_def)
qed

lemma readiness_ok:
  "outcomeOf (lj_record (setReadiness x lj)) = outcomeOf (lj_record lj) \<and> lj_phase (setReadiness x lj) = lj_phase lj \<and>
   cm_ownerPid (lj_record (setReadiness x lj)) = cm_ownerPid (lj_record lj) \<and>
   cm_owner (lj_record (setReadiness x lj)) = cm_owner (lj_record lj) \<and>
   cm_version (lj_record (setReadiness x lj)) = cm_version (lj_record lj) \<and> cm_id (lj_record (setReadiness x lj)) = cm_id (lj_record lj)"
  by (simp add: setReadiness_def outcomeOf_def)

lemma sweep_ok: "job_ok E s dead (i, lj) \<Longrightarrow> job_ok E s dead (i, sweep owner lj)"
  by (cases "cm_owner (lj_record lj) = owner")
    (auto simp: sweep_def outcomeOf_def intro: job_ok_same [of E s dead i lj])

lemma sweep_step_ok:
  assumes "host_ok E h"
  shows "host_ok E (h\<lparr>ho_live := map (\<lambda>(i, lj). (i, sweep owner lj)) (ho_live h)\<rparr>)"
proof -
  have same: "map (fst \<circ> (\<lambda>(i, lj). (i, sweep owner lj))) (ho_live h) = map fst (ho_live h)" by auto
  have "distinct (map (fst \<circ> (\<lambda>(i, lj). (i, sweep owner lj))) (ho_live h))"
    unfolding same using assms by (simp add: host_ok_def)
  moreover have "list_all (job_ok E (ho_store h) (ho_dead h)) (map (\<lambda>(i, lj). (i, sweep owner lj)) (ho_live h))"
    using assms sweep_ok by (fastforce simp: host_ok_def list_all_iff)
  ultimately show ?thesis using assms by (simp add: host_ok_def)
qed

lemma death_step_ok:
  assumes "host_ok E h"
  shows "host_ok E (h\<lparr>ho_dead := pid # ho_dead h, ho_live := filter (\<lambda>x. cm_ownerPid (lj_record (snd x)) \<noteq> pid) (ho_live h)\<rparr>)"
    (is "host_ok E ?h")
proof -
  have "takesSlot (killOf ?h) x \<Longrightarrow> takesSlot (killOf h) x" for x
    by (auto simp: takesSlot_def aliveOwner_def killOf_def split: option.splits record_file.splits if_splits)
  then have "slotsTaken (killOf ?h) (ho_store h) \<le> slotsTaken (killOf h) (ho_store h)"
    unfolding slotsTaken_def by (intro filter_length_mono)
  then show ?thesis using assms
    by (auto simp: host_ok_def list_all_iff job_ok_simp distinct_map_filter' intro: order_trans)
qed

text \<open>The events with the ends of processes in \<open>E\<close>.\<close>

definition ends_in :: "(string \<times> process_result) set \<Rightarrow> host_event \<Rightarrow> bool" where
  "ends_in E ev \<longleftrightarrow> (case ev of ProcessEnds i res \<Rightarrow> (i, res) \<in> E | _ \<Rightarrow> True)"

lemma host_step_ok:
  assumes "host_ok E h" "ends_in E ev"
  shows "host_ok E (host_step ev h)"
proof (cases ev)
  case (Tick n)
  then show ?thesis using assms(1) by (simp add: host_step_def host_ok_def killOf_def)
next
  case (Reserve i owner pid project inp disk)
  then show ?thesis using reserve_step_ok [OF assms(1)] by (simp add: host_step_def)
next
  case (Launch i a w r)
  then show ?thesis using launch_step_ok [OF assms(1)] by (simp add: host_step_def)
next
  case (SaveCommits i w)
  then show ?thesis using commit_step_ok [OF assms(1)] by (simp add: host_step_def)
next
  case (SaveReturns i)
  then show ?thesis using return_step_ok [OF assms(1)] by (simp add: host_step_def)
next
  case (Heartbeat i)
  have "host_ok E (updateLive i (lj\<lparr>lj_save := Requested\<rparr>) h)" if "map_of (ho_live h) i = Some lj" for lj
    by (rule same_record [OF assms(1) that]) simp_all
  then show ?thesis using withLive_ok [OF assms(1)] by (simp add: host_step_def Heartbeat)
next
  case (Output i b chunk n)
  have "host_ok E (case appendChunk b chunk n lj of (lj', bytes) \<Rightarrow>
      updateLive i lj' (h\<lparr>ho_store := appendLog i b bytes (ho_store h)\<rparr>))" if "map_of (ho_live h) i = Some lj" for lj
    using output_step_ok [OF assms(1) that] by (simp split: prod.split)
  then show ?thesis using withLive_ok [OF assms(1)] by (simp add: host_step_def Output)
next
  case (ProbeSucceeds i)
  have "host_ok E (updateLive i (setReadiness IsReady lj) h)" if "map_of (ho_live h) i = Some lj" for lj
    by (rule same_record [OF assms(1) that]) (use readiness_ok in auto)
  then show ?thesis using withLive_ok [OF assms(1)] by (simp add: host_step_def ProbeSucceeds)
next
  case (ProbeExpires i)
  have "host_ok E (updateLive i (setReadiness NotReady lj) h)" if "map_of (ho_live h) i = Some lj" for lj
    by (rule same_record [OF assms(1) that]) (use readiness_ok in auto)
  then show ?thesis using withLive_ok [OF assms(1)] by (simp add: host_step_def ProbeExpires)
next
  case (ProcessEnds i res)
  have "host_ok E (updateLive i (processEnded (ho_now h) res lj) h)"
    if "map_of (ho_live h) i = Some lj" "lj_phase lj = Watching" for lj
    using host_same_store [OF assms(1) that(1) ended_ok [OF host_facts(1) [OF assms(1) that(1)]]] that(2) assms(2)
    by (simp add: ends_in_def ProcessEnds)
  then show ?thesis using withLive_ok [OF assms(1)] by (simp add: host_step_def ProcessEnds)
next
  case (StopEnds i)
  have "host_ok E (updateLive i (setupFailed (ho_now h) lj) h)"
    if "map_of (ho_live h) i = Some lj" "lj_phase lj = Stopping" for lj
    using host_same_store [OF assms(1) that(1) setup_failed_ok [OF host_facts(1) [OF assms(1) that(1)]]] that(2) by simp
  then show ?thesis using withLive_ok [OF assms(1)] by (simp add: host_step_def StopEnds)
next
  case (LastSave i)
  have "host_ok E (updateLive i (lj\<lparr>lj_phase := Closing, lj_save := Requested\<rparr>) h)"
    if "map_of (ho_live h) i = Some lj" "lj_phase lj = Finishing" for lj
    by (rule same_record [OF assms(1) that(1)]) (use that(2) in simp_all)
  then show ?thesis unfolding host_step_def LastSave host_event.case by (intro withLive_ok [OF assms(1)]) simp
next
  case (CancelRequest i project w)
  then show ?thesis using cancel_step_ok [OF assms(1)] by (simp add: host_step_def)
next
  case (CloseOwner owner)
  then show ?thesis using assms(1) by (simp add: host_step_def host_ok_def killOf_def)
next
  case (SweepOwner owner)
  then show ?thesis using sweep_step_ok [OF assms(1)] assms(1) by (simp add: host_step_def)
next
  case (OwnerDies pid)
  then show ?thesis using death_step_ok [OF assms(1)] by (simp add: host_step_def)
qed

interpretation commands: event_machine host_step "ends_in E" "host_ok E" for E
  by unfold_locales (rule host_step_ok)

lemma newHost_ok: "host_ok E (newHost now)"
  by (simp add: host_ok_def newHost_def store_ok_def slotsTaken_def recordOf_def)

lemma host_runs_ok: "\<forall>ev \<in> set evs. ends_in E ev \<Longrightarrow> host_ok E (fold host_step evs (newHost now))"
  by (rule commands.run_inv [OF _ newHost_ok])

section \<open>What the invariant gives\<close>

text \<open>C9. However the owners, their heartbeats, requests, failing writes and crashes interleave, at most eight commands of
  processes that are alive hold a slot on the host.\<close>

theorem commands_are_bounded:
  "length (filter (\<lambda>(i, d). case jd_record d of
       Some (Stored r) \<Rightarrow> \<not> COMMAND_TERMINAL (cm_status r) \<and> cm_ownerPid r \<notin> set (ho_dead (fold host_step evs (newHost now)))
     | _ \<Rightarrow> False) (ho_store (fold host_step evs (newHost now)))) \<le> 8"
proof -
  let ?h = "fold host_step evs (newHost now)"
  have "host_ok UNIV ?h" by (rule host_runs_ok) (simp add: ends_in_def split: host_event.split)
  moreover have "takesSlot (killOf ?h) = (\<lambda>(i, d). case jd_record d of
       Some (Stored r) \<Rightarrow> \<not> COMMAND_TERMINAL (cm_status r) \<and> cm_ownerPid r \<notin> set (ho_dead ?h) | _ \<Rightarrow> False)"
    by (rule ext) (auto simp: takesSlot_def aliveOwner_def killOf_def split: option.split record_file.split)
  ultimately show ?thesis by (simp add: host_ok_def slotsTaken_def MAX_ACTIVE_def)
qed

text \<open>C37. No command is reported as succeeded unless its process ended by itself with exit code 0.\<close>

theorem success_is_earned:
  assumes "recordOf (ho_store (fold host_step evs (newHost now))) i = Some d" "cm_status d = CSucceeded"
  shows "\<exists>res. ProcessEnds i res \<in> set evs \<and> pr_exitCode res = 0 \<and> pr_terminationReason res = None"
proof -
  have "host_ok {(i, res). ProcessEnds i res \<in> set evs} (fold host_step evs (newHost now))"
    by (rule host_runs_ok) (auto simp: ends_in_def split: host_event.split)
  then show ?thesis using assms by (auto simp: host_ok_def honest_def)
qed

definition startsJob :: "string \<Rightarrow> host_event \<Rightarrow> bool" where
  "startsJob i ev \<longleftrightarrow> (case ev of Reserve k owner pid project inp disk \<Rightarrow> k = i | _ \<Rightarrow> False)"

text \<open>What one step does to one record on disk.\<close>

definition disk_step :: "host \<Rightarrow> string \<Rightarrow> command_record option \<Rightarrow> bool" where
  "disk_step h i new \<longleftrightarrow>
     (let old = recordOf (ho_store h) i in
      new = old \<or> (new = None \<and> (\<exists>r. old = Some r \<and> COMMAND_TERMINAL (cm_status r))) \<or>
      (\<exists>r. old = Some r \<and> new = Some (r\<lparr>cm_cancelRequested := True\<rparr>)) \<or>
      (\<exists>r lj. old = Some r \<and> map_of (ho_live h) i = Some lj \<and>
         ((lj_phase lj = Reserved \<and> new = Some (canceledBefore (ho_now h) (lj_record lj))) \<or>
          (\<exists>c. new = Some ((lj_record lj)\<lparr>cm_cancelRequested := c, cm_updatedAt := ho_now h\<rparr>) \<and>
             (cm_cancelRequested r \<longrightarrow> c)))))"

lemma disk_same [simp]: "disk_step h i (recordOf (ho_store h) i)"
  by (simp add: disk_step_def)

lemma store_updates [simp]:
  "ho_store (updateLive i lj h) = ho_store h" "ho_store (dropLive i h) = ho_store h"
  by (simp_all add: updateLive_def dropLive_def)

lemma updateJob_records:
  assumes "updateJob writes k owner mutate store = (res, store')" "store_ok store"
  shows "recordOf store' = recordOf store \<or> (\<exists>current nxt. recordOf store k = Some current \<and> mutate current = Inr nxt \<and>
       recordOf store' = (recordOf store)(k \<mapsto> nxt))"
proof (cases res)
  case (Inl e)
  then show ?thesis using assms(1) by (auto simp: updateJob_def split: sum.splits option.splits if_splits)
next
  case (Inr nxt)
  then obtain current where c: "readJob (\<lambda>_. KillOther) 0 store k False = Inr (Some current)" "mutate current = Inr nxt"
    "store' = setRecord k nxt store"
    using assms(1) by (auto simp: updateJob_def split: sum.splits option.splits if_splits)
  then obtain d where d: "map_of store k = Some d" "jd_record d = Some (Stored current)"
    by (auto simp: readJob_def split: option.splits record_file.splits if_splits)
  then have "recordOf store k = Some current" "recordOf store' = (recordOf store)(k \<mapsto> nxt)"
    by (auto simp: recordOf_def c(3) setRecord_def map_of_map_entry)
  then show ?thesis using c(2) by blast
qed

lemma seen_cancel:
  assumes "updateJob True i (Some (cm_owner r)) Inr store = (Inr current, s)"
  shows "recordOf store i = Some current"
  using assms by (auto simp: updateJob_def readJob_def recordOf_def split: sum.splits option.splits record_file.splits if_splits)

lemma updateJob_reads:
  assumes "updateJob writes k owner mutate store = (Inr nxt, store')" "store_ok store"
  shows "\<exists>current. updateJob True k owner Inr store = (Inr current, setRecord k current store) \<and> mutate current = Inr nxt"
  using assms by (auto simp: updateJob_def split: sum.splits option.splits if_splits)

lemma commit_disk:
  assumes "host_ok E h"
  shows "disk_step h i (recordOf (ho_store (commitStep k w h)) i)"
proof (cases "map_of (ho_live h) k")
  case (Some lj)
  show ?thesis
  proof (cases "lj_save lj = Requested")
    case True
    have st: "store_ok (ho_store h)" using assms by (simp add: host_ok_def)
    let ?r = "lj_record lj"
    define seen where "seen = (case updateJob True k (Some (cm_owner ?r)) Inr (ho_store h) of
        (Inr current, _) \<Rightarrow> if cm_cancelRequested current then ?r\<lparr>cm_cancelRequested := True\<rparr> else ?r | _ \<Rightarrow> ?r)"
    obtain res s' where u: "updateJob w k (Some (cm_owner ?r)) (\<lambda>_. Inr (seen\<lparr>cm_updatedAt := ho_now h\<rparr>)) (ho_store h) = (res, s')" by force
    have eq: "ho_store (commitStep k w h) = (case res of Inl e \<Rightarrow> ho_store h | Inr _ \<Rightarrow> s')"
      using Some True u by (simp add: commitStep_def withLive_def split: sum.split flip: seen_def)
    show ?thesis
    proof (cases res)
      case (Inr nxt)
      obtain current where c: "updateJob True k (Some (cm_owner ?r)) Inr (ho_store h) = (Inr current, setRecord k current (ho_store h))"
        using updateJob_reads [OF u [unfolded Inr] st] by blast
      then have old: "recordOf (ho_store h) k = Some current" by (rule seen_cancel)
      have new: "recordOf s' = recordOf (ho_store h) \<or> recordOf s' = (recordOf (ho_store h))(k \<mapsto> seen\<lparr>cm_updatedAt := ho_now h\<rparr>)"
        using updateJob_records [OF u st] by auto
      have s: "seen = ?r\<lparr>cm_cancelRequested := cm_cancelRequested ?r \<or> cm_cancelRequested current\<rparr>" by (simp add: seen_def c)
      show ?thesis
      proof (cases "i = k")
        case True
        then show ?thesis using new old Some by (auto simp: eq Inr disk_step_def Let_def s)
      next
        case False
        then show ?thesis using new by (auto simp: eq Inr disk_step_def Let_def)
      qed
    qed (simp add: eq)
  qed (use Some in \<open>simp add: commitStep_def withLive_def\<close>)
qed (simp add: commitStep_def withLive_def)

lemma launch_disk:
  assumes "host_ok E h"
  shows "disk_step h i (recordOf (ho_store (launchStep k a w result h)) i)"
proof (cases "map_of (ho_live h) k")
  case (Some lj)
  have st: "store_ok (ho_store h)" using assms by (simp add: host_ok_def)
  show ?thesis
  proof (cases "lj_phase lj = Reserved \<and> (a \<or> cm_owner (lj_record lj) \<in> set (ho_closing h))")
    case True
    obtain res s' where u: "updateJob w k (Some (cm_owner (lj_record lj))) (\<lambda>_. Inr (canceledBefore (ho_now h) (lj_record lj))) (ho_store h) = (res, s')"
      by force
    have "ho_store (launchStep k a w result h) = s'" using Some True u by (simp add: launchStep_def withLive_def)
    then show ?thesis using updateJob_records [OF u st] Some True by (cases "i = k") (auto simp: disk_step_def Let_def)
  next
    case False
    have same: "recordOf s = recordOf (ho_store h)" if "openLogs k (ho_store h) = Some s" for s
      using openLogs_same(1) [OF that st] .
    then have "recordOf (ho_store (launchStep k a w result h)) = recordOf (ho_store h)"
      using Some False same by (simp add: launchStep_def withLive_def split: option.split launch_result.split)
    then show ?thesis by simp
  qed
qed (simp add: launchStep_def withLive_def)

lemma reserve_disk:
  assumes "host_ok E h" "k \<noteq> i"
  shows "disk_step h i (recordOf (ho_store (reserveStep k owner pid project inp disk h)) i)"
proof (cases "k \<in> fst ` set (ho_live h) \<or> owner \<in> set (ho_closing h) \<or> pid \<in> set (ho_dead h) \<or> pid \<le> 0 \<or> checkStart inp \<noteq> Inr ()")
  case False
  define r where "r = newRecord k owner pid (ho_now h) project inp"
  obtain res s' where res: "reserve (killOf h) (ho_now h) disk r MAX_ACTIVE MAX_RECORDS (ho_store h) = (res, s')" by force
  have st: "store_ok (ho_store h)" using assms by (simp add: host_ok_def)
  have r: "cm_version r = 1" "0 < cm_ownerPid r" "cm_status r \<noteq> CLost" "cm_id r = k"
    using False by (auto simp: r_def newRecord_def)
  have "recordOf s' i = recordOf (ho_store h) i \<or>
       (recordOf s' i = None \<and> (\<exists>r. recordOf (ho_store h) i = Some r \<and> COMMAND_TERMINAL (cm_status r)))"
    using reserve_ok [OF res st r(1-3), where kill' = "killOf h"] r(4) assms(2) by simp
  moreover have "ho_store (reserveStep k owner pid project inp disk h) = s'"
    using False res by (simp add: reserveStep_def Let_def split: sum.split flip: r_def)
  ultimately show ?thesis by (auto simp: disk_step_def Let_def)
qed (simp add: reserveStep_def)

lemma cancel_disk:
  assumes "host_ok E h"
  shows "disk_step h i (recordOf (snd (cancelJob w k project (ho_store h))) i)"
proof -
  define mutate where "mutate = (\<lambda>r::command_record. if cm_project r \<noteq> project then Inl OtherProject
       else if COMMAND_TERMINAL (cm_status r) then Inr r else Inr (r\<lparr>cm_cancelRequested := True\<rparr>))"
  obtain res s' where u: "updateJob w k None mutate (ho_store h) = (res, s')" by force
  have "store_ok (ho_store h)" using assms by (simp add: host_ok_def)
  from updateJob_records [OF u this] have "disk_step h i (recordOf s' i)"
    by (cases "i = k") (auto simp: disk_step_def Let_def mutate_def split: if_splits)
  then show ?thesis using u by (simp add: cancelJob_def mutate_def)
qed

lemma host_disk:
  assumes "host_ok E h" "\<not> startsJob i ev"
  shows "disk_step h i (recordOf (ho_store (host_step ev h)) i)"
proof (cases ev)
  case (Reserve k owner pid project inp disk)
  then show ?thesis using reserve_disk [OF assms(1)] assms(2) by (simp add: host_step_def startsJob_def)
next
  case (Launch k a w r)
  then show ?thesis using launch_disk [OF assms(1)] by (simp add: host_step_def)
next
  case (SaveCommits k w)
  then show ?thesis using commit_disk [OF assms(1)] by (simp add: host_step_def)
next
  case (Output k b chunk n)
  have "store_ok (ho_store h)" using assms(1) by (simp add: host_ok_def)
  then show ?thesis by (auto simp: host_step_def Output withLive_def appendLog_same split: option.split prod.split)
next
  case (CancelRequest k project w)
  then show ?thesis using cancel_disk [OF assms(1)] by (simp add: host_step_def)
next
  case (SaveReturns k)
  have "ho_store (returnStep k h) = ho_store h"
    by (simp add: returnStep_def withLive_def Let_def split: option.split save_state.split job_phase.split)
  then show ?thesis by (simp add: host_step_def SaveReturns)
qed (auto simp: host_step_def withLive_def split: option.split)

definition frozen :: "string \<Rightarrow> command_status \<times> int option \<times> string option \<times> string option \<times> cleanup_verdict option \<Rightarrow> host \<Rightarrow> bool" where
  "frozen i oc h \<longleftrightarrow> (case recordOf (ho_store h) i of None \<Rightarrow> True | Some d \<Rightarrow> outcomeOf d = oc)"

lemma outcome_status: "outcomeOf a = outcomeOf b \<Longrightarrow> cm_status a = cm_status b"
  by (simp add: outcomeOf_def)

lemma frozen_step:
  assumes "host_ok E h" "\<not> startsJob i ev" "frozen i oc h" "COMMAND_TERMINAL (fst oc)"
  shows "frozen i oc (host_step ev h)"
proof (cases "recordOf (ho_store h) i")
  case None
  then show ?thesis using host_disk [OF assms(1,2)] by (auto simp: disk_step_def Let_def frozen_def split: option.split)
next
  case (Some d)
  then have d: "outcomeOf d = oc" using assms(3) by (simp add: frozen_def)
  then have "COMMAND_TERMINAL (cm_status d)" using assms(4) by (auto simp: outcomeOf_def)
  then have lj: "outcomeOf (lj_record lj) = oc" "lj_phase lj \<noteq> Reserved" if "map_of (ho_live h) i = Some lj" for lj
    using live_entry [OF assms(1) that] Some d outcome_status [of d "lj_record lj"] by (auto simp: job_ok_simp)
  have same: "outcomeOf (r\<lparr>cm_cancelRequested := c\<rparr>) = outcomeOf r" "outcomeOf (r\<lparr>cm_updatedAt := t\<rparr>) = outcomeOf r" for r c t
    by (simp_all add: outcomeOf_def)
  let ?new = "recordOf (ho_store (host_step ev h)) i"
  have "?new = Some d \<or> ?new = None \<or> (\<exists>r. ?new = Some r \<and> outcomeOf r = oc)"
    using host_disk [OF assms(1,2)] Some lj d unfolding disk_step_def Let_def by (elim disjE exE conjE) (simp_all add: same)
  then show ?thesis using d by (auto simp: frozen_def)
qed

text \<open>C8. Once the record of a command on disk has an outcome, no step of anybody changes it: it keeps its status, exit
  code, signal, reason and cleanup until the record is removed.\<close>

theorem outcomes_are_final:
  assumes "recordOf (ho_store (fold host_step evs (newHost now))) i = Some d" "COMMAND_TERMINAL (cm_status d)"
    and "\<forall>ev \<in> set evs'. \<not> startsJob i ev"
    and "recordOf (ho_store (fold host_step (evs @ evs') (newHost now))) i = Some d'"
  shows "cm_status d' = cm_status d \<and> cm_exitCode d' = cm_exitCode d \<and> cm_exitSignal d' = cm_exitSignal d \<and>
    cm_reason d' = cm_reason d \<and> cm_cleanup d' = cm_cleanup d"
proof -
  have ends: "ends_in UNIV ev" for ev by (simp add: ends_in_def split: host_event.split)
  have "host_ok UNIV (fold host_step evs (newHost now))" by (rule host_runs_ok) (simp add: ends)
  moreover have "frozen i (outcomeOf d) (fold host_step evs (newHost now))" using assms(1) by (simp add: frozen_def)
  moreover have "COMMAND_TERMINAL (fst (outcomeOf d))" using assms(2) by (simp add: outcomeOf_def)
  ultimately have "frozen i (outcomeOf d) (fold host_step evs' (fold host_step evs (newHost now)))"
    using assms(3)
  proof (induction evs' arbitrary: evs)
    case (Cons e es)
    have "host_ok UNIV (fold host_step (evs @ [e]) (newHost now))" by (rule host_runs_ok) (simp add: ends)
    then show ?case using Cons.IH [of "evs @ [e]"] Cons.prems frozen_step [OF Cons.prems(1) _ Cons.prems(2,3)] by simp
  qed simp
  then show ?thesis using assms(4) by (simp add: frozen_def outcomeOf_def)
qed

section \<open>Cancellation\<close>

definition asked :: "string \<Rightarrow> host \<Rightarrow> bool" where
  "asked i h \<longleftrightarrow> (\<forall>d. recordOf (ho_store h) i = Some d \<longrightarrow> COMMAND_TERMINAL (cm_status d) \<or> cm_cancelRequested d)"

lemma asked_step:
  assumes "host_ok E h" "\<not> startsJob i ev" "asked i h"
  shows "asked i (host_step ev h)"
proof (cases "recordOf (ho_store h) i")
  case None
  then show ?thesis using host_disk [OF assms(1,2)] by (auto simp: disk_step_def Let_def asked_def)
next
  case (Some d)
  then have d: "COMMAND_TERMINAL (cm_status d) \<or> cm_cancelRequested d" using assms(3) by (simp add: asked_def)
  have lj: "COMMAND_TERMINAL (cm_status d) \<Longrightarrow> cm_status d = cm_status (lj_record lj)" if "map_of (ho_live h) i = Some lj" for lj
    using live_entry [OF assms(1) that] Some outcome_status [of d "lj_record lj"] by (auto simp: job_ok_simp)
  let ?new = "recordOf (ho_store (host_step ev h)) i"
  have "?new = None \<or> (\<exists>r. ?new = Some r \<and> (COMMAND_TERMINAL (cm_status r) \<or> cm_cancelRequested r))"
    using host_disk [OF assms(1,2)] Some lj d unfolding disk_step_def Let_def
    by (elim disjE exE conjE) (auto simp: canceledBefore_def COMMAND_TERMINAL_def)
  then show ?thesis by (auto simp: asked_def)
qed

lemma asked_run:
  assumes "\<forall>ev \<in> set evs'. \<not> startsJob i ev" "asked i (fold host_step evs (newHost now))"
  shows "asked i (fold host_step (evs @ evs') (newHost now))"
  using assms
proof (induction evs' arbitrary: evs)
  case (Cons e es)
  have "host_ok UNIV (fold host_step evs (newHost now))" by (rule host_runs_ok) (simp add: ends_in_def split: host_event.split)
  from asked_step [OF this, of i e] show ?case using Cons.IH [of "evs @ [e]"] Cons.prems by simp
qed simp

lemma stored_reads:
  assumes "store_ok store" "recordOf store i = Some d"
  shows "readJob kill now store i False = Inr (Some d)"
proof -
  obtain e where e: "map_of store i = Some e" "jd_record e = Some (Stored d)"
    using assms(2) by (auto simp: recordOf_def split: option.splits record_file.splits)
  have "entry_ok (i, e)" using assms(1) map_of_SomeD [OF e(1)] by (auto simp: store_ok_def list_all_iff)
  then show ?thesis using e by (simp add: readJob_def entry_ok_def validRecord_def)
qed

lemma recordOf_set: "recordOf store i = Some d \<Longrightarrow> recordOf (setRecord i r store) i = Some r"
  by (auto simp: recordOf_def setRecord_def map_of_map_entry split: option.splits)

lemma cancel_asks:
  assumes "host_ok E h" "recordOf (ho_store h) i = Some d" "cm_project d = project"
  shows "asked i (host_step (CancelRequest i project True) h)"
proof -
  have "store_ok (ho_store h)" using assms(1) by (simp add: host_ok_def)
  note reads = stored_reads [OF this assms(2)]
  show ?thesis
    using assms(2,3) by (auto simp: asked_def host_step_def cancelJob_def updateJob_def reads recordOf_set)
qed

text \<open>C38. A cancel request on disk reaches the process of the owner: whatever happens between the request and a later save
  of the running job, when that save is written and returns, the job is canceling and its process is told to end.\<close>

theorem cancellation_reaches_the_process:
  assumes "recordOf (ho_store (fold host_step evs (newHost now))) i = Some d" "cm_project d = project"
    and "\<forall>ev \<in> set evs'. \<not> startsJob i ev"
    and "h1 = fold host_step (evs @ CancelRequest i project True # evs') (newHost now)"
    and "map_of (ho_live h1) i = Some lj" "runs lj" "lj_save lj = Requested" "lj_handle lj"
    and "recordOf (ho_store h1) i = Some d1"
  shows "\<exists>lj'. map_of (ho_live (fold host_step [SaveCommits i True, SaveReturns i] h1)) i = Some lj' \<and>
    cm_status (lj_record lj') = CCanceling \<and> lj_terminate lj' \<noteq> None"
proof -
  have ends: "ends_in UNIV ev" for ev by (simp add: ends_in_def split: host_event.split)
  have ok0: "host_ok UNIV (fold host_step evs (newHost now))" by (rule host_runs_ok) (simp add: ends)
  have ok: "host_ok UNIV h1" unfolding assms(4) by (rule host_runs_ok) (simp add: ends)
  have "asked i (fold host_step (evs @ [CancelRequest i project True]) (newHost now))"
    using cancel_asks [OF ok0 assms(1,2)] by simp
  from asked_run [OF assms(3) this] have asked: "asked i h1" using assms(4) by simp
  note facts = host_facts [OF ok assms(5)]
  have open_job: "\<not> COMMAND_TERMINAL (cm_status (lj_record lj))" using facts(1) assms(6) by (auto simp: job_ok_simp runs_def)
  have "\<not> COMMAND_TERMINAL (cm_status d1)"
    using facts(1) assms(9) open_job outcome_status [of d1 "lj_record lj"] by (auto simp: job_ok_simp)
  then have c: "cm_cancelRequested d1" using asked assms(9) by (simp add: asked_def)
  have owner: "cm_owner d1 = cm_owner (lj_record lj)" using facts(1) assms(9) by (simp add: job_ok_simp)
  let ?r = "(lj_record lj)\<lparr>cm_cancelRequested := True\<rparr>"
  have commit: "commitStep i True h1 = updateLive i (lj\<lparr>lj_record := ?r, lj_save := Committed (?r\<lparr>cm_updatedAt := ho_now h1\<rparr>)\<rparr>)
      (h1\<lparr>ho_store := setRecord i (?r\<lparr>cm_updatedAt := ho_now h1\<rparr>) (ho_store h1)\<rparr>)"
    using assms(5,7) c owner by (simp add: commitStep_def withLive_def updateJob_def stored_reads [OF facts(2) assms(9)] Let_def)
  have live: "map_of (ho_live (updateLive i x h)) i = Some x" if "map_of (ho_live h) i \<noteq> None" for x h
    using that by (auto simp: updateLive_def map_of_map_entry)
  show ?thesis using assms(5,6,8) open_job
    by (auto simp: host_step_def commit returnStep_def withLive_def live updateLive_def map_of_map_entry runs_def sawCancel_def
        terminateHandle_def split: job_phase.split)
qed

section \<open>Concrete instances\<close>

definition sampleStart :: command_start where
  "sampleStart = \<lparr>st_command = ''make'', st_args = [], st_cwd = ''/w'', st_project = None, st_timeout = Fin 60, st_label = None,
     st_readiness = None\<rparr>"

lemma sampleStart_ok: "checkStart sampleStart = Inr ()"
  by (simp add: checkStart_def sampleStart_def argvBytes_def positive_def given_text_def char_bytes_def)

definition cleanExit :: process_result where
  "cleanExit = \<lparr>pr_exitCode = 0, pr_exitSignal = None, pr_observedExitCode = Some 0, pr_cleanup = CleanupConfirmed, pr_stderr = [],
     pr_stderrTruncated = False, pr_terminationReason = None, pr_errorMessage = None, pr_semanticCompletion = False\<rparr>"

text \<open>A job that is reserved, started and published; then it ends with code 0 and is published again.\<close>

definition startEvents :: "host_event list" where
  "startEvents = [Reserve sampleId ''me'' 7 ''/w'' sampleStart Written, Launch sampleId False True (Starts (Some 9)),
     SaveCommits sampleId True, SaveReturns sampleId]"

definition endEvents :: "host_event list" where
  "endEvents = [ProcessEnds sampleId cleanExit, LastSave sampleId, SaveCommits sampleId True]"

definition runningJob :: command_record where
  "runningJob = (newRecord sampleId ''me'' 7 0 ''/w'' sampleStart)\<lparr>cm_pid := Some 9, cm_status := CRunning\<rparr>"

definition runningHost :: host where
  "runningHost = \<lparr>ho_store = [(sampleId, \<lparr>jd_isDirectory = True, jd_record = Some (Stored runningJob), jd_stdout = Some [],
       jd_stderr = Some [], jd_unknown = False\<rparr>)],
     ho_live = [(sampleId, \<lparr>lj_record = runningJob, lj_phase = Watching, lj_failing = None, lj_handle = True, lj_terminate = None,
       lj_save = Idle\<rparr>)], ho_closing = [], ho_dead = [], ho_now = 0\<rparr>"

lemma running_fields [simp]:
  "cm_version runningJob = 1" "cm_id runningJob = sampleId" "cm_owner runningJob = ''me''" "cm_ownerPid runningJob = 7"
  "cm_status runningJob = CRunning" "cm_cancelRequested runningJob = False" "cm_updatedAt runningJob = 0" "cm_project runningJob = ''/w''"
  "cm_readiness runningJob = NotRequested"
  by (simp_all add: runningJob_def newRecord_def sampleStart_def)

lemma running_update: "runningJob\<lparr>cm_updatedAt := 0\<rparr> = runningJob"
  by (simp add: runningJob_def newRecord_def)

lemma start_runs: "fold host_step startEvents (newHost 0) = runningHost"
proof -
  let ?r = "newRecord sampleId ''me'' 7 0 ''/w'' sampleStart"
  have r: "cm_version ?r = 1" "cm_id ?r = sampleId" "cm_owner ?r = ''me''" "cm_ownerPid ?r = 7" "cm_status ?r = CStarting"
    "cm_cancelRequested ?r = False" by (simp_all add: newRecord_def)
  have up: "?r\<lparr>cm_pid := Some 9, cm_status := CRunning\<rparr> = runningJob" by (simp add: runningJob_def)
  have up2: "?r\<lparr>cm_pid := Some 9, cm_status := CRunning, cm_updatedAt := 0\<rparr> = runningJob"
    using running_update by (simp add: runningJob_def)
  show ?thesis
    unfolding startEvents_def runningHost_def
    by (simp add: host_step_def newHost_def reserveStep_def sampleStart_ok Let_def reserve_def listJobs_def activeJobs_def heldJobs_def
        MAX_ACTIVE_def MAX_RECORDS_def r newDir_def launchStep_def withLive_def openLogs_def updateLive_def onRecord_def up up2
        commitStep_def updateJob_def readJob_def setRecord_def returnStep_def sawCancel_def)
qed

lemma end_runs: "\<exists>d. recordOf (ho_store (fold host_step endEvents runningHost)) sampleId = Some d \<and> cm_status d = CSucceeded"
  unfolding endEvents_def runningHost_def
  by (simp add: host_step_def withLive_def processEnded_def onRecord_def finished_def outcomeStatus_def cleanExit_def updateLive_def
      commitStep_def updateJob_def readJob_def setRecord_def Let_def recordOf_def)

theorem success_is_earned_witness:
  "\<exists>res. ProcessEnds sampleId res \<in> set (startEvents @ endEvents) \<and> pr_exitCode res = 0 \<and> pr_terminationReason res = None"
proof -
  obtain d where "recordOf (ho_store (fold host_step (startEvents @ endEvents) (newHost 0))) sampleId = Some d" "cm_status d = CSucceeded"
    using end_runs by (auto simp: start_runs)
  from success_is_earned [OF this] show ?thesis .
qed

theorem outcomes_are_final_witness:
  "\<exists>d d'. recordOf (ho_store (fold host_step (startEvents @ endEvents) (newHost 0))) sampleId = Some d \<and>
     recordOf (ho_store (fold host_step ((startEvents @ endEvents) @ [CancelRequest sampleId ''/other'' True]) (newHost 0))) sampleId = Some d' \<and>
     cm_status d = CSucceeded \<and> cm_status d' = CSucceeded"
proof -
  obtain d where d: "recordOf (ho_store (fold host_step (startEvents @ endEvents) (newHost 0))) sampleId = Some d" "cm_status d = CSucceeded"
    using end_runs by (auto simp: start_runs)
  define h where "h = fold host_step (startEvents @ endEvents) (newHost 0)"
  have "host_ok UNIV h" unfolding h_def by (rule host_runs_ok) (simp add: ends_in_def split: host_event.split)
  then have "store_ok (ho_store h)" by (simp add: host_ok_def)
  moreover have dh: "recordOf (ho_store h) sampleId = Some d" using d(1) by (simp add: h_def)
  ultimately have reads: "readJob k n (ho_store h) sampleId False = Inr (Some d)" for k n by (rule stored_reads)
  have "recordOf (snd (cancelJob True sampleId ''/other'' (ho_store h))) sampleId = Some d"
    using dh d(2) by (simp add: cancelJob_def updateJob_def reads recordOf_set COMMAND_TERMINAL_def)
  then have "recordOf (ho_store (fold host_step [CancelRequest sampleId ''/other'' True] h)) sampleId = Some d"
    by (simp add: host_step_def)
  then have d': "recordOf (ho_store (fold host_step ((startEvents @ endEvents) @ [CancelRequest sampleId ''/other'' True]) (newHost 0))) sampleId = Some d"
    by (simp add: h_def)
  have "\<forall>ev \<in> set [CancelRequest sampleId ''/other'' True]. \<not> startsJob sampleId ev" by (simp add: startsJob_def)
  from outcomes_are_final [OF d(1) _ this d'] d d' show ?thesis by (auto simp: COMMAND_TERMINAL_def)
qed

theorem cancellation_reaches_the_process_witness:
  "\<exists>lj'. map_of (ho_live (fold host_step [SaveCommits sampleId True, SaveReturns sampleId]
      (fold host_step (startEvents @ CancelRequest sampleId ''/w'' True # [Heartbeat sampleId]) (newHost 0)))) sampleId = Some lj' \<and>
    cm_status (lj_record lj') = CCanceling \<and> lj_terminate lj' \<noteq> None"
proof -
  let ?h1 = "fold host_step (startEvents @ CancelRequest sampleId ''/w'' True # [Heartbeat sampleId]) (newHost 0)"
  have d: "recordOf (ho_store (fold host_step startEvents (newHost 0))) sampleId = Some runningJob"
    unfolding start_runs by (simp add: runningHost_def recordOf_def)
  have h1: "?h1 = runningHost\<lparr>ho_store := [(sampleId, \<lparr>jd_isDirectory = True, jd_record = Some (Stored (runningJob\<lparr>cm_cancelRequested := True\<rparr>)),
      jd_stdout = Some [], jd_stderr = Some [], jd_unknown = False\<rparr>)],
      ho_live := [(sampleId, \<lparr>lj_record = runningJob, lj_phase = Watching, lj_failing = None, lj_handle = True, lj_terminate = None,
       lj_save = Requested\<rparr>)]\<rparr>"
    by (simp add: start_runs) (simp add: runningHost_def host_step_def cancelJob_def updateJob_def readJob_def setRecord_def COMMAND_TERMINAL_def
        withLive_def updateLive_def)
  let ?lj = "\<lparr>lj_record = runningJob, lj_phase = Watching, lj_failing = None, lj_handle = True, lj_terminate = None, lj_save = Requested\<rparr>"
  have free: "\<forall>ev \<in> set [Heartbeat sampleId]. \<not> startsJob sampleId ev" by (simp add: startsJob_def)
  have live: "map_of (ho_live ?h1) sampleId = Some ?lj" unfolding h1 by simp
  have disk: "recordOf (ho_store ?h1) sampleId = Some (runningJob\<lparr>cm_cancelRequested := True\<rparr>)"
    unfolding h1 by (simp add: recordOf_def)
  have job: "runs ?lj" "lj_save ?lj = Requested" "lj_handle ?lj" by (simp_all add: runs_def)
  from cancellation_reaches_the_process [OF d running_fields(8) free refl live job disk] show ?thesis .
qed

end
