(* ===== verification/Spec2Isabelle.thy ===== *)
theory Spec2Isabelle
  imports Scheduler CoordMailbox SelfHandoff WorkPlanSession StructuredOutput FileLock ToolSummaryState JobStore WorkflowRun WorkflowSource CommandRunner
begin

text \<open>
  Verification of the session logic of pi-shared, a set of extensions for a coding agent. The
  extensions of one session, of its delegated child sessions and of other sessions on the host share
  state through JSON files that are changed under a lock, and through entries that are appended to the
  log of a session. The development models the parts that keep that state.

  The parts, the theories and the sources under \<open>src/extensions/\<close>:

    \<^item> \<open>JsPrelude\<close>: JavaScript values, strings, numbers and processes as the code uses them, results with
      errors, and the contracts \<open>event_machine\<close> (what every step keeps holds after every run) and
      \<open>ranked_machine\<close> (no step lowers a rank).
    \<^item> \<open>FileLock\<close>, from \<open>_shared/file-lock.ts\<close>: the lock directory as an inductive step relation over the
      single system calls of all attempts, with crashes and failing calls. \<open>lock_refines_mutex\<close> shows that
      it implements an abstract mutex. Every locked mutation of a store is therefore one atomic step in the
      other theories.
    \<^item> \<open>SubagentConfig\<close> and \<open>Scheduler\<close>, from \<open>_shared/subagent-config.ts\<close> and \<open>_shared/subagent-scheduler.ts\<close>:
      the environment, the state file with waiters and leases, each locked mutation, the waiting loop of
      \<open>acquire\<close> with interference, and execution groups. The lemmas bound the leases, give progress and
      fairness, and show that the loop ends: 250 ms pass in each turn, so \<open>queueTimeoutMs div 250 + 1\<close>
      turns are fuel enough.
    \<^item> \<open>CoordRecords\<close>, \<open>CoordLedgers\<close>, \<open>CoordMailbox\<close>, from \<open>_shared/coordinator-state.ts\<close>: the parsers and
      writers of envelopes, presence and receipts (round trips), the ledgers of reply and wake claims (one
      contract \<open>claim_ledger\<close>, interpreted for both), and the mailboxes with their limits, receipts,
      status order, shutdown, adoption and pruning.
    \<^item> \<open>SessionEntries\<close> and \<open>Handoff\<close>, from \<open>_shared/handoff-state.ts\<close>: the goal and the plan that a session
      log holds, the snapshots that a handoff writes, the audit trail of handoffs as a state machine, and
      the orientation of a child session.
    \<^item> \<open>Goal\<close>, from \<open>goal/index.ts\<close> and \<open>goal/agent-end.ts\<close>: the goal, its commands and tools, the autopilot
      that queues prompts, and the gate a handoff holds, as one step function over the events of the host
      (\<open>event_machine\<close> again). The autopilot left alone is bounded by its budget whatever the model answers,
      silent while a handoff is under way, and works only for the session that owns the goal.
    \<^item> \<open>SelfHandoff\<close>, from \<open>self-handoff/index.ts\<close>: how the goal and the plan move from a parent session file to a
      child session, as an inductive step relation over the parent file and the child log. The session
      manager of the host is a parameter (\<open>manager\<close>, \<open>lawful\<close>); \<open>parent_and_child_exclude_each_other\<close> is the
      safety of the protocol, \<open>finalizing_is_confirmed\<close> that its last step may be repeated.
    \<^item> \<open>WorkPlan\<close> and \<open>WorkPlanSession\<close>, from \<open>work-plan/index.ts\<close>: every action of the plan tool with its
      invariant, the stored plan against the check of the handoff, the condensed list, the timers, and the
      reminders as a state machine over the events of the host.
    \<^item> \<open>JsonSchema\<close> and \<open>StructuredOutput\<close>: the first states the meaning of the supported keywords from the
      specification of JSON Schema, without reference to the code; the second is the bounded validator of
      \<open>_shared/structured-output.ts\<close>, which implements it (\<open>accepted_outputs_conform\<close>) and whose limits are exact.
    \<^item> \<open>ToolSummaryState\<close>, from \<open>tool-summary/state.ts\<close>: the records of summaries and the state that is
      restored from a session.
    \<^item> \<open>JobStore\<close>, from \<open>_shared/job-store.ts\<close>: the store of background jobs, the merge of concurrent
      records, claims of answers, leases and pruning.
    \<^item> \<open>TextBounds\<close>, from \<open>_shared/text-bounds.ts\<close>: truncation to a number of bytes, with a marker that counts them.
    \<^item> \<open>WorkflowSource\<close>, \<open>WorkflowJournal\<close> and \<open>WorkflowRun\<close>, from \<open>workflow/\<close>: where the code of a workflow
      comes from and who approved it, the replay journal (it refines a map from keys to values, contract
      \<open>keyed_store\<close>; the canonical text of a context is injective), and a run as a machine over the calls of
      an arbitrary body with the tracked promises (\<open>event_machine\<close>).
    \<^item> \<open>ManagedProcess\<close>, from \<open>_shared/managed-process.ts\<close>: one child process over the events of the platform, its
      lines, the bounded tail of its errors, and its teardown from TERM over KILL to a settled result. The contract
      \<open>process_invariant\<close> carries an invariant of the ends of a process over its output; it is interpreted for the
      settling of a process and for the evidence in its result.
    \<^item> \<open>CommandStore\<close> and \<open>CommandRunner\<close>, from \<open>_shared/command-job-store.ts\<close> and \<open>_shared/command-job-runner.ts\<close>: the
      records of command jobs on disk, the pages of their logs, and all owners of a host as one machine whose
      events are the steps of starts, saves, heartbeats, cancellations, shutdowns and crashes. The records stay
      within their slots, outcomes are final and earned, and a cancellation reaches the process.

  How they interact: the scheduler, the coordinator and the job store change their files inside
  \<open>withInterprocessLock\<close>; the work plan and the goal write entries that \<open>SessionEntries\<close> reads for a
  handoff, which \<open>stored_plan_is_carried\<close> and \<open>carried_plan_is_accepted\<close> follow from one session into the
  next. \<open>Goal\<close> and \<open>SelfHandoff\<close> read the audit trail of \<open>Handoff\<close> to decide which session may drive the goal.

  Conventions: a record for an object whose fields the code checks, a JSON value for one that it passes
  through; \<open>option\<close> for what may be undefined or rejected, a sum for what may throw; the clock, the process
  table, \<open>JSON.parse\<close>, hashes and path functions are arguments. Numbers are exact. Strings hold code units
  below 256. The code reads the clock more than once in some synchronous calls, the model once.

  Simplifications: the two audit records that \<open>self-handoff/index.ts\<close> writes from within \<open>withSession\<close> are left out of
  \<open>handoff_step\<close>; \<open>mergeJob\<close> takes the incoming job for the spread over the existing one, since every caller sets
  every field; a journal is one file, where the code keeps one per hash of the identifier of the run; a member called
  \<open>__proto__\<close> of the resource limits is kept; identifiers of processes are not reused.

  Not modelled: the agent processes (\<open>pi-agent-runner.ts\<close>), calls of
  models and external services (\<open>panel\<close>, \<open>websearch\<close>, \<open>deep-research\<close>, \<open>code-intel\<close>, \<open>mcp-client.ts\<close>),
  terminal rendering, installation, the scripts of the bundled skills, and the wording of messages.

  Not modelled either: the deliveries of \<open>session-coordinator/index.ts\<close> over \<open>CoordMailbox\<close>, and the job life cycle of
  \<open>spawn-subagent/index.ts\<close> over \<open>Scheduler\<close> and the job store.
\<close>

end
